(* ===== verification/Prelude.thy ===== *)
theory Prelude
  imports Main "HOL-Library.Word" "HOL-Library.Sublist" "HOL-Library.Code_Target_Nat"
begin

text \<open>
  Shared vocabulary of the development: bytes and strings as Rust has them, results as
  sums and their propagation with the question-mark operator, the saturating and wrapping
  arithmetic of machine integers, big-endian byte strings, and the string operations of
  the standard library that the modelled code calls.

  A Rust \<open>str\<close> is UTF-8, so it is modelled as the list of its bytes, one \<open>char\<close> per
  byte: \<open>length\<close> counts what \<open>len()\<close> counts.
\<close>

unbundle bit_operations_syntax

named_theorems result_simps \<open>inversion of a successful or failed result\<close>
named_theorems string_simps \<open>facts on the string operations of the standard library\<close>

type_synonym byte = "8 word"
type_synonym bytes = "byte list"
type_synonym u32 = "32 word"
type_synonym u64 = "64 word"

section \<open>Results and the question-mark operator\<close>

definition rbind :: "'e + 'a \<Rightarrow> ('a \<Rightarrow> 'e + 'b) \<Rightarrow> 'e + 'b" where
  "rbind m f = (case m of Inl e \<Rightarrow> Inl e | Inr a \<Rightarrow> f a)"

text \<open>The same for an operation that also changes a state, errors included.\<close>

definition sbind :: "'s \<times> ('e + 'a) \<Rightarrow> ('s \<Rightarrow> 'a \<Rightarrow> 's \<times> ('e + 'b)) \<Rightarrow> 's \<times> ('e + 'b)" where
  "sbind m f = (case m of (s, Inl e) \<Rightarrow> (s, Inl e) | (s, Inr a) \<Rightarrow> f s a)"

definition ok_or :: "'a option \<Rightarrow> 'e \<Rightarrow> 'e + 'a" where
  "ok_or m e = (case m of None \<Rightarrow> Inl e | Some a \<Rightarrow> Inr a)"

fun map_err :: "('e \<Rightarrow> 'f) \<Rightarrow> 'e + 'a \<Rightarrow> 'f + 'a" where
  "map_err f (Inl e) = Inl (f e)"
| "map_err f (Inr a) = Inr a"

fun is_ok :: "'e + 'a \<Rightarrow> bool" where
  "is_ok (Inl e) = False"
| "is_ok (Inr a) = True"

fun result_ok :: "'e + 'a \<Rightarrow> 'a option" where
  "result_ok (Inl e) = None"
| "result_ok (Inr a) = Some a"

lemma rbind_simps [simp]:
  "rbind (Inl e) f = Inl e" "rbind (Inr a) f = f a"
  by (simp_all add: rbind_def)

lemma sbind_simps [simp]:
  "sbind (s, Inl e) f = (s, Inl e)" "sbind (s, Inr a) f = f s a"
  by (simp_all add: sbind_def)

lemma rbind_Inr [result_simps]: "rbind m f = Inr b \<longleftrightarrow> (\<exists>a. m = Inr a \<and> f a = Inr b)"
  by (cases m) auto

lemma rbind_Inl [result_simps]:
  "rbind m f = Inl e \<longleftrightarrow> m = Inl e \<or> (\<exists>a. m = Inr a \<and> f a = Inl e)"
  by (cases m) auto

lemma sbind_Inr [result_simps]:
  "sbind m f = (s', Inr b) \<longleftrightarrow> (\<exists>s a. m = (s, Inr a) \<and> f s a = (s', Inr b))"
  by (auto simp: sbind_def split: prod.splits sum.splits)

lemma sbind_Inl [result_simps]:
  "sbind m f = (s', Inl e) \<longleftrightarrow> m = (s', Inl e) \<or> (\<exists>s a. m = (s, Inr a) \<and> f s a = (s', Inl e))"
  by (auto simp: sbind_def split: prod.splits sum.splits)

text \<open>What a step keeps is kept by running another after it.\<close>

lemma sbind_keeps:
  assumes "Q (fst m)" and "\<And>s a. m = (s, Inr a) \<Longrightarrow> Q s \<Longrightarrow> Q (fst (f s a))"
  shows "Q (fst (sbind m f))"
  using assms by (cases m; cases "snd m") (auto simp: sbind_def split: sum.splits)

lemma ok_or_Inr [result_simps]: "ok_or m e = Inr a \<longleftrightarrow> m = Some a"
  by (auto simp: ok_or_def split: option.splits)

lemma map_err_Inr [result_simps]: "map_err f r = Inr a \<longleftrightarrow> r = Inr a"
  by (cases r) auto

lemma is_ok_iff [result_simps]: "is_ok r \<longleftrightarrow> (\<exists>a. r = Inr a)"
  by (cases r) auto

lemma result_ok_Some [result_simps]: "result_ok r = Some a \<longleftrightarrow> r = Inr a"
  by (cases r) auto

text \<open>What holds after a step, and what holds after it failed.\<close>

definition spec :: "'s \<times> ('e + 'a) \<Rightarrow> ('s \<Rightarrow> 'a \<Rightarrow> bool) \<Rightarrow> ('s \<Rightarrow> 'e \<Rightarrow> bool) \<Rightarrow> bool" where
  "spec m Q E = (case m of (s, Inl e) \<Rightarrow> E s e | (s, Inr a) \<Rightarrow> Q s a)"

lemma spec_simps [simp]: "spec (s, Inl e) Q E = E s e" "spec (s, Inr a) Q E = Q s a"
  by (simp_all add: spec_def)

lemma spec_sbind [simp]: "spec (sbind m f) Q E = spec m (\<lambda>s a. spec (f s a) Q E) E"
  by (cases m; cases "snd m") (auto simp: sbind_def spec_def split: sum.splits)

lemma spec_mono:
  "spec m Q E \<Longrightarrow> (\<And>s a. Q s a \<Longrightarrow> Q' s a) \<Longrightarrow> (\<And>s e. E s e \<Longrightarrow> E' s e) \<Longrightarrow> spec m Q' E'"
  by (auto simp: spec_def split: prod.splits sum.splits)

lemma spec_Inr: "spec m Q E \<Longrightarrow> m = (s, Inr a) \<Longrightarrow> Q s a"
  by simp

lemma spec_Inl: "spec m Q E \<Longrightarrow> m = (s, Inl e) \<Longrightarrow> E s e"
  by simp

section \<open>I/O errors\<close>

text \<open>\<open>std::io::Error\<close>, as far as the sources look into one: its kind and the raw code of
  the operating system.\<close>

datatype io_kind = NotFound | PermissionDenied | AlreadyExists | NotADirectory | IsADirectory
  | DirectoryNotEmpty | CrossesDevices | ReadOnlyFilesystem | StorageFull | QuotaExceeded
  | FileTooLarge | Unsupported | InvalidInput | InvalidData | UnexpectedEof | Interrupted
  | OtherKind

datatype io_error = Io_Error (io_kind: io_kind) (raw_os: "int option")

section \<open>Machine integers on natural numbers\<close>

definition u64_max :: nat where
  "u64_max = 2 ^ 64 - 1"

definition u32_max :: nat where
  "u32_max = 2 ^ 32 - 1"

definition sat_add :: "nat \<Rightarrow> nat \<Rightarrow> nat" where
  "sat_add a b = min (a + b) u64_max"

text \<open>Natural-number subtraction stops at zero, which is \<open>saturating_sub\<close>.\<close>

definition sat_sub :: "nat \<Rightarrow> nat \<Rightarrow> nat" where
  "sat_sub a b = a - b"

definition checked_sub :: "nat \<Rightarrow> nat \<Rightarrow> nat option" where
  "checked_sub a b = (if b \<le> a then Some (a - b) else None)"

definition checked_add :: "nat \<Rightarrow> nat \<Rightarrow> nat option" where
  "checked_add a b = (if a + b \<le> u64_max then Some (a + b) else None)"

text \<open>A \<open>+=\<close> on a \<open>u64\<close>, with its wrap-around written out.\<close>

definition wrap_add :: "nat \<Rightarrow> nat \<Rightarrow> nat" where
  "wrap_add a b = (a + b) mod 2 ^ 64"

lemma sat_add_le: "sat_add a b \<le> u64_max"
  by (simp add: sat_add_def)

lemma sat_add_exact: "a + b \<le> u64_max \<Longrightarrow> sat_add a b = a + b"
  by (simp add: sat_add_def)

lemma wrap_add_exact: "a + b \<le> u64_max \<Longrightarrow> wrap_add a b = a + b"
  by (simp add: wrap_add_def u64_max_def)

lemma checked_sub_Some: "checked_sub a b = Some c \<longleftrightarrow> b \<le> a \<and> c = a - b"
  by (auto simp: checked_sub_def)

section \<open>Strings of the standard library\<close>

text \<open>\<open>str::split\<close> on a set of one-byte separators: always at least one piece.\<close>

fun split_on :: "(char \<Rightarrow> bool) \<Rightarrow> string \<Rightarrow> string list" where
  "split_on p [] = [[]]"
| "split_on p (c # s) =
    (if p c then [] # split_on p s
     else (case split_on p s of [] \<Rightarrow> [[c]] | w # ws \<Rightarrow> (c # w) # ws))"

text \<open>\<open>split_once\<close> on one byte: the text before and after its first occurrence.\<close>

definition split_once :: "char \<Rightarrow> string \<Rightarrow> (string \<times> string) option" where
  "split_once c s = (if c \<in> set s
     then Some (takeWhile (\<lambda>x. x \<noteq> c) s, tl (dropWhile (\<lambda>x. x \<noteq> c) s)) else None)"

lemma split_once_Some: "split_once c s = Some (a, b) \<longleftrightarrow> s = a @ c # b \<and> c \<notin> set a"
proof
  assume split: "split_once c s = Some (a, b)"
  then have "dropWhile (\<lambda>x. x \<noteq> c) s \<noteq> []" and parts: "a = takeWhile (\<lambda>x. x \<noteq> c) s"
    "b = tl (dropWhile (\<lambda>x. x \<noteq> c) s)"
    by (auto simp: split_once_def split: if_splits)
  then obtain x where "dropWhile (\<lambda>x. x \<noteq> c) s = x # b" "x = c"
    using hd_dropWhile [of "\<lambda>x. x \<noteq> c" s] by (cases "dropWhile (\<lambda>x. x \<noteq> c) s") auto
  then show "s = a @ c # b \<and> c \<notin> set a"
    using takeWhile_dropWhile_id [of "\<lambda>x. x \<noteq> c" s] parts(1) by (auto dest: set_takeWhileD)
qed (auto simp: split_once_def takeWhile_append dropWhile_append)

lemma split_once_shorter: "split_once c s = Some (a, b) \<Longrightarrow> length b < length s"
  by (simp add: split_once_Some)

lemma split_once_found [string_simps]: "c \<notin> set a \<Longrightarrow> split_once c (a @ c # b) = Some (a, b)"
  by (simp add: split_once_Some)

lemma split_once_missing [string_simps]: "c \<notin> set s \<Longrightarrow> split_once c s = None"
  by (simp add: split_once_def)

text \<open>\<open>rsplit_once\<close>: the text before and after its last occurrence.\<close>

definition rsplit_once :: "char \<Rightarrow> string \<Rightarrow> (string \<times> string) option" where
  "rsplit_once c s = map_option (\<lambda>(b, a). (rev a, rev b)) (split_once c (rev s))"

fun join :: "string \<Rightarrow> string list \<Rightarrow> string" where
  "join sep [] = []"
| "join sep [w] = w"
| "join sep (w # v # ws) = w @ sep @ join sep (v # ws)"

definition is_ascii_upper :: "char \<Rightarrow> bool" where
  "is_ascii_upper c = (c \<in> set ''ABCDEFGHIJKLMNOPQRSTUVWXYZ'')"

definition is_ascii_lower :: "char \<Rightarrow> bool" where
  "is_ascii_lower c = (c \<in> set ''abcdefghijklmnopqrstuvwxyz'')"

definition is_ascii_alphabetic :: "char \<Rightarrow> bool" where
  "is_ascii_alphabetic c = (is_ascii_upper c \<or> is_ascii_lower c)"

definition is_ascii_digit :: "char \<Rightarrow> bool" where
  "is_ascii_digit c = (c \<in> set ''0123456789'')"

definition to_ascii_lower :: "char \<Rightarrow> char" where
  "to_ascii_lower c = (if is_ascii_upper c then char_of ((of_char c :: nat) + 32) else c)"

definition ascii_lowercase :: "string \<Rightarrow> string" where
  "ascii_lowercase s = map to_ascii_lower s"

definition eq_ignore_ascii_case :: "string \<Rightarrow> string \<Rightarrow> bool" where
  "eq_ignore_ascii_case s t = (ascii_lowercase s = ascii_lowercase t)"

text \<open>The characters with the Unicode property White_Space, in UTF-8.\<close>

definition whitespace :: "string list" where
  "whitespace =
    [[CHR 0x09], [CHR 0x0A], [CHR 0x0B], [CHR 0x0C], [CHR 0x0D], [CHR 0x20],
     [CHR 0xC2, CHR 0x85], [CHR 0xC2, CHR 0xA0], [CHR 0xE1, CHR 0x9A, CHR 0x80],
     [CHR 0xE2, CHR 0x80, CHR 0x80], [CHR 0xE2, CHR 0x80, CHR 0x81],
     [CHR 0xE2, CHR 0x80, CHR 0x82], [CHR 0xE2, CHR 0x80, CHR 0x83],
     [CHR 0xE2, CHR 0x80, CHR 0x84], [CHR 0xE2, CHR 0x80, CHR 0x85],
     [CHR 0xE2, CHR 0x80, CHR 0x86], [CHR 0xE2, CHR 0x80, CHR 0x87],
     [CHR 0xE2, CHR 0x80, CHR 0x88], [CHR 0xE2, CHR 0x80, CHR 0x89],
     [CHR 0xE2, CHR 0x80, CHR 0x8A], [CHR 0xE2, CHR 0x80, CHR 0xA8],
     [CHR 0xE2, CHR 0x80, CHR 0xA9], [CHR 0xE2, CHR 0x80, CHR 0xAF],
     [CHR 0xE2, CHR 0x81, CHR 0x9F], [CHR 0xE3, CHR 0x80, CHR 0x80]]"

lemma whitespace_nonempty: "w \<in> set whitespace \<Longrightarrow> w \<noteq> []"
  by (auto simp: whitespace_def)

lemma find_in_set: "find P xs = Some x \<Longrightarrow> x \<in> set xs \<and> P x"
  by (induction xs) (auto split: if_splits)

function trim_start :: "string \<Rightarrow> string" where
  "trim_start s = (case find (\<lambda>w. prefix w s) whitespace of
     None \<Rightarrow> s | Some w \<Rightarrow> trim_start (drop (length w) s))"
  by pat_completeness auto
termination
proof (relation "measure length", goal_cases)
  case (2 s w)
  then have "w \<noteq> []" "prefix w s"
    by (auto dest: find_in_set whitespace_nonempty)
  then show ?case
    by (cases s; cases w) (auto dest: prefix_length_le)
qed simp

declare trim_start.simps [simp del]

function trim_end :: "string \<Rightarrow> string" where
  "trim_end s = (case find (\<lambda>w. suffix w s) whitespace of
     None \<Rightarrow> s | Some w \<Rightarrow> trim_end (take (length s - length w) s))"
  by pat_completeness auto
termination
proof (relation "measure length", goal_cases)
  case (2 s w)
  then have "w \<noteq> []" "suffix w s"
    by (auto dest: find_in_set whitespace_nonempty)
  then show ?case
    by (cases s) (auto dest: suffix_length_le)
qed simp

declare trim_end.simps [simp del]

definition trim :: "string \<Rightarrow> string" where
  "trim s = trim_end (trim_start s)"

definition strip_prefix :: "string \<Rightarrow> string \<Rightarrow> string option" where
  "strip_prefix p s = (if prefix p s then Some (drop (length p) s) else None)"

definition strip_suffix :: "string \<Rightarrow> string \<Rightarrow> string option" where
  "strip_suffix p s = (if suffix p s then Some (take (length s - length p) s) else None)"

lemma split_on_nonempty [simp]: "split_on p s \<noteq> []"
  by (induction s) (auto split: list.splits)

lemma split_on_clean [string_simps]: "w \<in> set (split_on p s) \<Longrightarrow> c \<in> set w \<Longrightarrow> \<not> p c"
proof (induction s arbitrary: w)
  case (Cons a s)
  show ?case
  proof (cases "p a \<or> w \<in> set (split_on p s)")
    case True
    then have "w = [] \<or> w \<in> set (split_on p s)"
      using Cons.prems(1) by (auto split: if_splits list.splits)
    with Cons.IH [of w] Cons.prems show ?thesis
      by auto
  next
    case False
    then obtain v vs where "split_on p s = v # vs" "w = a # v"
      using Cons.prems by (cases "split_on p s") auto
    with False Cons.IH [of v] Cons.prems show ?thesis
      by auto
  qed
qed auto

lemma split_on_chars: "w \<in> set (split_on p s) \<Longrightarrow> set w \<subseteq> set s"
  by (induction s arbitrary: w) (fastforce split: if_splits list.splits)+

lemma split_on_clean_id: "\<forall>c \<in> set w. \<not> p c \<Longrightarrow> split_on p w = [w]"
  by (induction w) auto

lemma split_on_append:
  "\<forall>c \<in> set w. \<not> p c \<Longrightarrow> p c \<Longrightarrow> split_on p (w @ c # s) = w # split_on p s"
  by (induction w) auto

lemma split_on_join [string_simps]:
  "\<lbrakk>ws \<noteq> []; \<forall>w \<in> set ws. \<forall>c \<in> set w. \<not> p c; p c\<rbrakk> \<Longrightarrow> split_on p (join [c] ws) = ws"
  by (induction "[c]" ws rule: join.induct) (auto simp: split_on_append split_on_clean_id)

lemma join_append:
  "\<lbrakk>us \<noteq> []; vs \<noteq> []\<rbrakk> \<Longrightarrow> join sep (us @ vs) = join sep us @ sep @ join sep vs"
proof (induction sep us rule: join.induct)
  case (2 sep w)
  then show ?case by (cases vs) auto
qed auto

section \<open>Decimal numbers in text\<close>

definition digit_value :: "char \<Rightarrow> nat" where
  "digit_value c = of_char c - 48"

fun digits_value :: "nat \<Rightarrow> string \<Rightarrow> nat" where
  "digits_value n [] = n"
| "digits_value n (c # s) = digits_value (10 * n + digit_value c) s"

text \<open>\<open>FromStr\<close> of an unsigned integer of the given maximum: an optional plus sign, then
  at least one digit and nothing else, and a value that fits.\<close>

definition parse_unsigned :: "nat \<Rightarrow> string \<Rightarrow> nat option" where
  "parse_unsigned m s =
    (let ds = (case s of c # r \<Rightarrow> if c = CHR ''+'' then r else s | [] \<Rightarrow> s) in
     if ds \<noteq> [] \<and> list_all is_ascii_digit ds \<and> digits_value 0 ds \<le> m
     then Some (digits_value 0 ds) else None)"

definition parse_u64 :: "string \<Rightarrow> nat option" where
  "parse_u64 s = parse_unsigned u64_max s"

text \<open>\<open>Display\<close> of an unsigned integer.\<close>

fun show_nat :: "nat \<Rightarrow> string" where
  "show_nat n = (if n < 10 then [char_of (48 + n)]
     else show_nat (n div 10) @ [char_of (48 + n mod 10)])"

declare show_nat.simps [simp del]

lemma digits_value_append: "digits_value n (s @ t) = digits_value (digits_value n s) t"
  by (induction s arbitrary: n) auto

lemma digit_range: "is_ascii_digit c \<longleftrightarrow> c \<in> char_of ` {48..<58 :: nat}"
proof -
  have "char_of ` {48..<58 :: nat} = char_of ` set [48, 49, 50, 51, 52, 53, 54, 55, 56, 57 :: nat]"
    by (rule arg_cong [where f = "image char_of"]) (simp add: set_eq_iff, presburger)
  also have "\<dots> = set ''0123456789''"
    by (simp add: char_of_def bit_simps)
  finally show ?thesis
    by (simp add: is_ascii_digit_def)
qed

lemma digit_char:
  assumes "n < 10"
  shows "is_ascii_digit (char_of (48 + n))" "digit_value (char_of (48 + n)) = n"
  using assms by (auto simp: digit_range digit_value_def)

lemma show_nat_digits: "list_all is_ascii_digit (show_nat n)"
proof (induction n rule: show_nat.induct)
  case (1 n)
  then show ?case
    by (subst show_nat.simps) (auto simp: digit_char)
qed

lemma show_nat_value: "digits_value 0 (show_nat n) = n"
proof (induction n rule: show_nat.induct)
  case (1 n)
  then show ?case
    by (subst show_nat.simps) (auto simp: digit_char digits_value_append)
qed

lemma show_nat_nonempty [simp]: "show_nat n \<noteq> []"
  by (subst show_nat.simps) simp

lemma parse_show_nat [string_simps]: "n \<le> m \<Longrightarrow> parse_unsigned m (show_nat n) = Some n"
proof -
  assume "n \<le> m"
  moreover have "\<not> is_ascii_digit (CHR ''+'')"
    by (simp add: is_ascii_digit_def)
  ultimately show ?thesis
    using show_nat_digits [of n] show_nat_value [of n] show_nat_nonempty [of n]
    by (cases "show_nat n") (auto simp: parse_unsigned_def simp del: show_nat_nonempty)
qed

section \<open>Big-endian byte strings\<close>

text \<open>\<open>to_be_bytes\<close> of an integer of \<open>n\<close> bytes, and \<open>from_be_bytes\<close>.\<close>

fun to_be :: "nat \<Rightarrow> nat \<Rightarrow> bytes" where
  "to_be 0 x = []"
| "to_be (Suc n) x = to_be n (x div 256) @ [of_nat (x mod 256)]"

definition from_be :: "bytes \<Rightarrow> nat" where
  "from_be bs = fold (\<lambda>b n. 256 * n + unat b) bs 0"

lemma length_to_be [simp]: "length (to_be n x) = n"
  by (induction n arbitrary: x) auto

lemma from_be_snoc: "from_be (bs @ [b]) = 256 * from_be bs + unat b"
  by (simp add: from_be_def)

lemma from_be_to_be: "x < 256 ^ n \<Longrightarrow> from_be (to_be n x) = x"
proof (induction n arbitrary: x)
  case 0
  then show ?case by (simp add: from_be_def)
next
  case (Suc n)
  then have "x div 256 < 256 ^ n"
    by (simp add: less_mult_imp_div_less mult.commute)
  with Suc.IH [of "x div 256"] show ?case
    by (simp add: from_be_snoc unat_of_nat take_bit_eq_mod)
qed

lemma from_be_bound: "from_be bs < 256 ^ length bs"
proof (induction bs rule: rev_induct)
  case Nil
  then show ?case by (simp add: from_be_def)
next
  case (snoc b bs)
  have "unat b < 256"
    using unsigned_less [of b] by simp
  with snoc show ?case
    by (simp add: from_be_snoc)
qed

lemma to_be_inject: "x < 256 ^ n \<Longrightarrow> y < 256 ^ n \<Longrightarrow> to_be n x = to_be n y \<longleftrightarrow> x = y"
  by (metis from_be_to_be)

text \<open>Lower-case hexadecimal, two digits for each byte.\<close>

definition hex_digits :: string where
  "hex_digits = ''0123456789abcdef''"

definition hex_byte :: "byte \<Rightarrow> string" where
  "hex_byte b = [hex_digits ! (unat b div 16), hex_digits ! (unat b mod 16)]"

definition hex_encode :: "bytes \<Rightarrow> string" where
  "hex_encode bs = concat (map hex_byte bs)"

lemma hex_digit_inject:
  assumes "m < 16" and "n < 16" and "hex_digits ! m = hex_digits ! n"
  shows "m = n"
proof -
  have "distinct hex_digits" "length hex_digits = 16"
    by (simp_all add: hex_digits_def)
  with assms show ?thesis
    by (metis nth_eq_iff_index_eq)
qed

lemma hex_byte_inject: "hex_byte a = hex_byte b \<Longrightarrow> a = b"
proof -
  assume eq: "hex_byte a = hex_byte b"
  have "unat a < 256" "unat b < 256"
    using unsigned_less [of a] unsigned_less [of b] by simp_all
  then have "unat a div 16 = unat b div 16" "unat a mod 16 = unat b mod 16"
    using eq by (auto simp: hex_byte_def intro!: hex_digit_inject)
  then have "unat a = unat b"
    by (metis div_mult_mod_eq)
  then show "a = b"
    by (rule unsigned_word_eqI)
qed

lemma length_hex_encode [simp]: "length (hex_encode bs) = 2 * length bs"
  by (induction bs) (auto simp: hex_encode_def hex_byte_def)

lemma hex_encode_inject: "hex_encode a = hex_encode b \<longleftrightarrow> a = b"
proof
  show "hex_encode a = hex_encode b \<Longrightarrow> a = b"
  proof (induction a arbitrary: b)
    case Nil
    then show ?case
      by (cases b) (auto simp: hex_encode_def hex_byte_def)
  next
    case (Cons x a)
    then obtain y b' where b: "b = y # b'"
      by (cases b) (auto simp: hex_encode_def hex_byte_def)
    with Cons.prems have "hex_byte x = hex_byte y" "hex_encode a = hex_encode b'"
      by (auto simp: hex_encode_def hex_byte_def)
    with Cons.IH hex_byte_inject b show ?case
      by blast
  qed
qed simp

section \<open>UTF-8\<close>

text \<open>The next sequence of a non-empty byte string: how many bytes it takes, and whether it
  encodes a character. An ill-formed one is the longest prefix some character could have
  started with, which is what one replacement character stands for.\<close>

definition continuation :: "byte \<Rightarrow> bool" where
  "continuation b = (0x80 \<le> b \<and> b \<le> 0xBF)"

definition second_ok :: "byte \<Rightarrow> byte \<Rightarrow> bool" where
  "second_ok a b =
    (if a = 0xE0 then 0xA0 \<le> b \<and> b \<le> 0xBF
     else if a = 0xED then 0x80 \<le> b \<and> b \<le> 0x9F
     else if a = 0xF0 then 0x90 \<le> b \<and> b \<le> 0xBF
     else if a = 0xF4 then 0x80 \<le> b \<and> b \<le> 0x8F
     else continuation b)"

definition sequence_width :: "byte \<Rightarrow> nat" where
  "sequence_width a =
    (if a < 0x80 then 1
     else if 0xC2 \<le> a \<and> a \<le> 0xDF then 2
     else if 0xE0 \<le> a \<and> a \<le> 0xEF then 3
     else if 0xF0 \<le> a \<and> a \<le> 0xF4 then 4
     else 0)"

definition utf8_step :: "byte \<Rightarrow> bytes \<Rightarrow> nat \<times> bool" where
  "utf8_step a r =
    (let w = sequence_width a in
     if w = 0 then (1, False) else if w = 1 then (1, True)
     else case r of [] \<Rightarrow> (1, False) | b # r1 \<Rightarrow>
       if \<not> second_ok a b then (1, False) else if w = 2 then (2, True)
       else case r1 of [] \<Rightarrow> (2, False) | c # r2 \<Rightarrow>
         if \<not> continuation c then (2, False) else if w = 3 then (3, True)
         else case r2 of [] \<Rightarrow> (3, False) | d # _ \<Rightarrow>
           if \<not> continuation d then (3, False) else (4, True))"

lemma utf8_step_pos: "0 < fst (utf8_step a r)"
  by (auto simp: utf8_step_def Let_def split: list.splits)

function utf8_valid :: "bytes \<Rightarrow> bool" where
  "utf8_valid [] = True"
| "utf8_valid (a # r) =
    (snd (utf8_step a r) \<and> utf8_valid (drop (fst (utf8_step a r) - 1) r))"
  by pat_completeness auto
termination
  by (relation "measure length") (auto simp: less_Suc_eq_le)

definition to_text :: "bytes \<Rightarrow> string" where
  "to_text bs = map (\<lambda>b. char_of (unat b)) bs"

definition of_text :: "string \<Rightarrow> bytes" where
  "of_text s = map (\<lambda>c. of_nat (of_char c)) s"

text \<open>\<open>String::from_utf8_lossy\<close>.\<close>

function utf8_lossy :: "bytes \<Rightarrow> string" where
  "utf8_lossy [] = []"
| "utf8_lossy (a # r) =
    (let n = fst (utf8_step a r) in
     (if snd (utf8_step a r) then to_text (take n (a # r)) else [CHR 0xEF, CHR 0xBF, CHR 0xBD])
     @ utf8_lossy (drop (n - 1) r))"
  by pat_completeness auto
termination
  by (relation "measure length") (auto simp: less_Suc_eq_le)

lemma to_text_of_text [simp]: "to_text (of_text s) = s"
proof -
  have "unat (of_nat (of_char c) :: byte) = (of_char c :: nat)" for c :: char
    using nat_of_char_less_256 [of c] by (simp add: unat_of_nat take_bit_nat_eq_self)
  then show ?thesis
    by (simp add: to_text_def of_text_def comp_def)
qed

text \<open>\<open>chars().take(n)\<close>.\<close>

fun take_chars :: "nat \<Rightarrow> string \<Rightarrow> string" where
  "take_chars 0 s = []"
| "take_chars (Suc n) [] = []"
| "take_chars (Suc n) (c # s) =
    (let w = sequence_width (of_nat (of_char c)) - 1 in c # take w s @ take_chars n (drop w s))"

text \<open>The elements of a list in the order of their first occurrences.\<close>

definition firsts :: "'a list \<Rightarrow> 'a list" where
  "firsts xs = rev (remdups (rev xs))"

lemma firsts_snoc: "firsts (xs @ [x]) = (if x \<in> set xs then firsts xs else firsts xs @ [x])"
  by (simp add: firsts_def)

lemma set_firsts [simp]: "set (firsts xs) = set xs"
  by (simp add: firsts_def)

lemma distinct_firsts [simp]: "distinct (firsts xs)"
  by (simp add: firsts_def)

end
