(* ===== verification/Safe_Path.thy ===== *)
theory Safe_Path
  imports Prelude
begin

text \<open>
  \<open>fs/error.rs\<close> and \<open>fs/safe_path.rs\<close>: the errors of the filesystem module, and the two
  validators every archive entry passes before anything touches the disk. The lemmas
  characterise each validator exactly, and then show what the pair is for: in a directory
  whose links all passed for the place they are in, no accepted name can be followed out of the
  root, whatever the order in which the links were planted.
\<close>

section \<open>Errors\<close>

datatype limit = TotalBytes | FileBytes | Entries

fun limit_display :: "limit \<Rightarrow> string" where
  "limit_display TotalBytes = ''total bytes''"
| "limit_display FileBytes = ''file bytes''"
| "limit_display Entries = ''entries''"

datatype fs_error =
    Io io_error
  | Zip string
  | SevenZ string
  | EmptyName
  | NoConfigDir
  | NoDocumentsDir
  | UnknownArchiveFormat string
  | IllegalPath string string
  | IllegalSymlink string string
  | DeclaredSizeMismatch string nat
  | LimitExceeded limit nat
  | Trash string string
  | Restore string string

section \<open>The validators\<close>

definition reserved_stems :: "string list" where
  "reserved_stems =
    [''CON'', ''PRN'', ''AUX'', ''NUL'', ''CLOCK$'',
     ''COM1'', ''COM2'', ''COM3'', ''COM4'', ''COM5'', ''COM6'', ''COM7'', ''COM8'', ''COM9'',
     ''COM'' @ [CHR 0xC2, CHR 0xB9], ''COM'' @ [CHR 0xC2, CHR 0xB2], ''COM'' @ [CHR 0xC2, CHR 0xB3],
     ''LPT1'', ''LPT2'', ''LPT3'', ''LPT4'', ''LPT5'', ''LPT6'', ''LPT7'', ''LPT8'', ''LPT9'',
     ''LPT'' @ [CHR 0xC2, CHR 0xB9], ''LPT'' @ [CHR 0xC2, CHR 0xB2], ''LPT'' @ [CHR 0xC2, CHR 0xB3]]"

definition is_separator :: "char \<Rightarrow> bool" where
  "is_separator c = (c = CHR ''/'' \<or> c = CHR 0x5C)"

definition unsafe_prefix :: "string \<Rightarrow> string option" where
  "unsafe_prefix path =
    (if CHR 0x00 \<in> set path then Some ''contains an embedded NUL byte''
     else if prefix [CHR ''/''] path \<or> prefix [CHR 0x5C] path then Some ''is an absolute path''
     else if 2 \<le> length path \<and> is_ascii_alphabetic (path ! 0) \<and> path ! 1 = CHR '':''
       then Some ''starts with a Windows drive letter''
     else None)"

definition is_reserved_device_name :: "string \<Rightarrow> bool" where
  "is_reserved_device_name component =
    (let stem = trim_end (hd (split_on (\<lambda>c. c = CHR ''.'') component))
     in list_ex (\<lambda>reserved. eq_ignore_ascii_case stem reserved) reserved_stems)"

text \<open>The loop of \<open>validate_entry_name\<close> over the components, with the vector it fills.\<close>

fun validate_components :: "string \<Rightarrow> string list \<Rightarrow> string list \<Rightarrow> fs_error + string list" where
  "validate_components name acc [] = Inr acc"
| "validate_components name acc (c # cs) =
    (if c = '''' \<or> c = ''.'' then validate_components name acc cs
     else if c = ''..'' then Inl (IllegalPath name ''contains a `..` component'')
     else if is_reserved_device_name c
       then Inl (IllegalPath name ''contains a reserved Windows device name'')
     else validate_components name (acc @ [c]) cs)"

definition validate_entry_name :: "string \<Rightarrow> fs_error + string list" where
  "validate_entry_name name =
    (case unsafe_prefix name of
       Some reason \<Rightarrow> Inl (IllegalPath name reason)
     | None \<Rightarrow> validate_components name [] (split_on is_separator name))"

text \<open>The walk of \<open>validate_symlink_target\<close>: the remaining depth, and whether a named
  component was already seen. It returns whether the target is accepted.\<close>

fun walk_target :: "nat \<Rightarrow> bool \<Rightarrow> string list \<Rightarrow> bool" where
  "walk_target depth descended [] = True"
| "walk_target depth descended (c # cs) =
    (if c = '''' \<or> c = ''.'' then walk_target depth descended cs
     else if c = ''..'' then
       (if descended then False
        else case checked_sub depth 1 of
          Some next \<Rightarrow> walk_target next descended cs
        | None \<Rightarrow> False)
     else walk_target depth True cs)"

definition validate_symlink_target :: "string list \<Rightarrow> string \<Rightarrow> fs_error + unit" where
  "validate_symlink_target link_components target =
    (let reject = Inl (IllegalSymlink (join ''/'' link_components) target) in
     if target = [] \<or> unsafe_prefix target \<noteq> None then reject
     else if walk_target (sat_sub (length link_components) 1) False (split_on is_separator target)
       then Inr () else reject)"

section \<open>Entry names\<close>

text \<open>What is left of the pieces of a name once the empty ones and the dots are dropped.\<close>

definition named_pieces :: "string \<Rightarrow> string list" where
  "named_pieces name = filter (\<lambda>c. c \<noteq> '''' \<and> c \<noteq> ''.'') (split_on is_separator name)"

definition safe_component :: "string \<Rightarrow> bool" where
  "safe_component c = (c \<noteq> '''' \<and> c \<noteq> ''.'' \<and> c \<noteq> ''..'' \<and> CHR 0x00 \<notin> set c
     \<and> (\<forall>x \<in> set c. \<not> is_separator x) \<and> \<not> is_reserved_device_name c)"

lemma validate_components_Inr:
  "validate_components name acc cs = Inr out \<longleftrightarrow>
     out = acc @ filter (\<lambda>c. c \<noteq> '''' \<and> c \<noteq> ''.'') cs
     \<and> (\<forall>c \<in> set cs. c = '''' \<or> c = ''.'' \<or> (c \<noteq> ''..'' \<and> \<not> is_reserved_device_name c))"
  by (induction cs arbitrary: acc) auto

lemma validate_components_Inl:
  "validate_components name acc cs = Inl e \<Longrightarrow>
     (\<exists>reason. e = IllegalPath name reason)"
  by (induction cs arbitrary: acc) (auto split: if_splits)

lemma entry_name_accepted_iff:
  "validate_entry_name name = Inr cs \<longleftrightarrow>
     unsafe_prefix name = None \<and> cs = named_pieces name
     \<and> (\<forall>c \<in> set cs. c \<noteq> ''..'' \<and> \<not> is_reserved_device_name c)"
proof -
  have "(\<forall>c \<in> set (filter (\<lambda>c. c \<noteq> e \<and> c \<noteq> d) xs). P c) \<longleftrightarrow> (\<forall>c \<in> set xs. c = e \<or> c = d \<or> P c)"
    for e d :: string and xs P
    by (simp, blast)
  then show ?thesis
    by (cases "unsafe_prefix name")
      (simp_all add: validate_entry_name_def named_pieces_def validate_components_Inr cong: conj_cong)
qed

lemma unsafe_prefix_None_NUL: "unsafe_prefix name = None \<Longrightarrow> CHR 0x00 \<notin> set name"
  by (auto simp: unsafe_prefix_def split: if_splits)

lemma entry_name_safe:
  assumes "validate_entry_name name = Inr cs" and "c \<in> set cs"
  shows "safe_component c"
proof -
  from assms have piece: "c \<in> set (split_on is_separator name)"
    and "c \<noteq> ''''" "c \<noteq> ''.''" "c \<noteq> ''..''" "\<not> is_reserved_device_name c"
    and "unsafe_prefix name = None"
    by (simp_all add: entry_name_accepted_iff named_pieces_def)
  moreover have "\<forall>x \<in> set c. \<not> is_separator x"
    using split_on_clean [OF piece] by blast
  moreover have "CHR 0x00 \<notin> set c"
    using split_on_chars [OF piece] unsafe_prefix_None_NUL \<open>unsafe_prefix name = None\<close> by blast
  ultimately show ?thesis
    unfolding safe_component_def by blast
qed

lemma entry_name_error:
  "validate_entry_name name = Inl e \<Longrightarrow> \<exists>reason. e = IllegalPath name reason"
  by (auto simp: validate_entry_name_def dest: validate_components_Inl split: option.splits)

section \<open>Symbolic links\<close>

text \<open>The shape the walk accepts: climbing components first, at most as many as the link's
  directory is deep, and then names only.\<close>

definition climb_then_names :: "nat \<Rightarrow> string list \<Rightarrow> bool" where
  "climb_then_names depth cs =
    (\<exists>k names. cs = replicate k ''..'' @ names \<and> k \<le> depth \<and> ''..'' \<notin> set names)"

lemma walk_target_filter:
  "walk_target depth descended cs
   = walk_target depth descended (filter (\<lambda>c. c \<noteq> '''' \<and> c \<noteq> ''.'') cs)"
  by (induction depth descended cs rule: walk_target.induct) (auto split: option.splits)

lemma walk_target_descended:
  "'''' \<notin> set cs \<Longrightarrow> ''.'' \<notin> set cs \<Longrightarrow> walk_target depth True cs \<longleftrightarrow> ''..'' \<notin> set cs"
  by (induction cs) auto

lemma climb_then_names_Nil [simp]: "climb_then_names depth []"
  by (auto simp: climb_then_names_def)

lemma climb_then_names_up [simp]:
  "climb_then_names depth (''..'' # cs) \<longleftrightarrow> 0 < depth \<and> climb_then_names (depth - 1) cs"
proof
  assume "climb_then_names depth (''..'' # cs)"
  then obtain k names where k: "''..'' # cs = replicate k ''..'' @ names" "k \<le> depth"
      "''..'' \<notin> set names"
    unfolding climb_then_names_def by blast
  then obtain j where "k = Suc j"
    by (cases k) auto
  with k show "0 < depth \<and> climb_then_names (depth - 1) cs"
    unfolding climb_then_names_def by (intro conjI exI [of _ j] exI [of _ names]) auto
next
  assume "0 < depth \<and> climb_then_names (depth - 1) cs"
  then obtain k names where "cs = replicate k ''..'' @ names" "Suc k \<le> depth"
      "''..'' \<notin> set names"
    unfolding climb_then_names_def by fastforce
  then show "climb_then_names depth (''..'' # cs)"
    unfolding climb_then_names_def by (intro exI [of _ "Suc k"] exI [of _ names]) simp
qed

lemma climb_then_names_name [simp]:
  "c \<noteq> ''..'' \<Longrightarrow> climb_then_names depth (c # cs) \<longleftrightarrow> ''..'' \<notin> set cs"
proof
  assume "c \<noteq> ''..''" "climb_then_names depth (c # cs)"
  then obtain k names where k: "c # cs = replicate k ''..'' @ names" "''..'' \<notin> set names"
    unfolding climb_then_names_def by blast
  with \<open>c \<noteq> ''..''\<close> have "k = 0"
    by (cases k) auto
  with k show "''..'' \<notin> set cs"
    by auto
next
  assume "c \<noteq> ''..''" "''..'' \<notin> set cs"
  then show "climb_then_names depth (c # cs)"
    unfolding climb_then_names_def by (intro exI [of _ 0] exI [of _ "c # cs"]) auto
qed

lemma walk_target_iff:
  "'''' \<notin> set cs \<Longrightarrow> ''.'' \<notin> set cs \<Longrightarrow>
     walk_target depth False cs \<longleftrightarrow> climb_then_names depth cs"
proof (induction cs arbitrary: depth)
  case (Cons c cs)
  then show ?case
    by (cases "c = ''..''") (auto simp: checked_sub_def walk_target_descended)
qed simp

lemma symlink_accepted_iff:
  "validate_symlink_target link target = Inr () \<longleftrightarrow>
     target \<noteq> [] \<and> unsafe_prefix target = None
     \<and> climb_then_names (length link - 1) (named_pieces target)"
proof -
  have "walk_target d False (split_on is_separator target)
      \<longleftrightarrow> climb_then_names d (named_pieces target)" for d
    by (subst walk_target_filter) (simp add: walk_target_iff named_pieces_def)
  then show ?thesis
    by (simp add: validate_symlink_target_def Let_def sat_sub_def)
qed

section \<open>Following links from an accepted name\<close>

text \<open>
  How the operating system resolves a path below the root, in a tree whose links are the
  map \<open>links\<close> from the real location of a link to the pieces of its target. The walk holds
  the real directory reached so far and the pieces still to go; a piece that names a link
  is replaced by the pieces of its target, resolved from the directory holding the link.
  Climbing at the root leaves it.
\<close>

datatype resolution = Escaped | At "string list" | OutOfFuel

fun resolve :: "(string list \<Rightarrow> string list option) \<Rightarrow> nat \<Rightarrow> string list \<Rightarrow> string list \<Rightarrow> resolution"
where
  "resolve links fuel dir [] = At dir"
| "resolve links 0 dir (c # cs) = OutOfFuel"
| "resolve links (Suc fuel) dir (c # cs) =
    (if c = ''..'' then (if dir = [] then Escaped else resolve links fuel (butlast dir) cs)
     else case links (dir @ [c]) of
       Some target \<Rightarrow> resolve links fuel dir (target @ cs)
     | None \<Rightarrow> resolve links fuel (dir @ [c]) cs)"

text \<open>A tree of links is vetted when every link passed the check for the place it is in.\<close>

definition vetted_links :: "(string list \<Rightarrow> string option) \<Rightarrow> bool" where
  "vetted_links tree = (\<forall>location target. tree location = Some target \<longrightarrow>
     validate_symlink_target location target = Inr ())"

lemma climb_then_names_plain: "''..'' \<notin> set cs \<Longrightarrow> climb_then_names depth cs"
  unfolding climb_then_names_def by (intro exI [of _ 0] exI [of _ cs]) simp

lemma climb_then_names_append:
  "climb_then_names depth cs \<Longrightarrow> ''..'' \<notin> set ds \<Longrightarrow> climb_then_names depth (cs @ ds)"
  unfolding climb_then_names_def
  by (elim exE conjE) (rule_tac x = k in exI, rule_tac x = "names @ ds" in exI, simp)

lemma resolve_contained:
  assumes "vetted_links tree"
    and "climb_then_names (length dir) cs"
  shows "resolve (\<lambda>p. map_option named_pieces (tree p)) fuel dir cs \<noteq> Escaped"
  using assms(2)
proof (induction fuel arbitrary: dir cs)
  case 0
  then show ?case by (cases cs) auto
next
  case (Suc fuel)
  show ?case
  proof (cases cs)
    case Nil
    then show ?thesis by simp
  next
    case (Cons c ds)
    show ?thesis
    proof (cases "c = ''..''")
      case True
      with Suc Cons show ?thesis
        by (auto simp del: length_greater_0_conv)
    next
      case False
      with Suc.prems Cons have names: "''..'' \<notin> set ds"
        by simp
      show ?thesis
      proof (cases "tree (dir @ [c])")
        case None
        with False Cons Suc.IH [OF climb_then_names_plain [OF names]] show ?thesis
          by simp
      next
        case (Some target)
        with assms(1) have "validate_symlink_target (dir @ [c]) target = Inr ()"
          by (auto simp: vetted_links_def)
        then have "climb_then_names (length dir) (named_pieces target @ ds)"
          using names by (simp add: symlink_accepted_iff climb_then_names_append)
        with Suc.IH False Cons Some show ?thesis
          by simp
      qed
    qed
  qed
qed

section \<open>Properties\<close>

text \<open>In a tree where every symbolic link passed \<open>validate_symlink_target\<close> for the place it
  is in, following an entry name that \<open>validate_entry_name\<close> accepts never leaves the
  extraction root: however many links are followed, and whatever later entries plant at the
  names the earlier targets mention. The extractor checks a link for its name, which is not the
  place it is in when the name leads through an earlier link; \<open>Extract_Links\<close> shows that its
  second check, through the directory, makes up for that.\<close>

lemma accepted_names_stay_inside:
  assumes "vetted_links tree"
    and "validate_entry_name name = Inr cs"
  shows "resolve (\<lambda>p. map_option named_pieces (tree p)) fuel [] cs \<noteq> Escaped"
proof (rule resolve_contained [OF assms(1)])
  show "climb_then_names (length ([] :: string list)) cs"
    using assms(2) by (intro climb_then_names_plain) (auto simp: entry_name_accepted_iff)
qed

text \<open>A tree with a link that climbs and descends, and one that a later entry planted on the
  name the first descends through.\<close>

definition two_links :: "string list \<Rightarrow> string option" where
  "two_links location =
    (if location = [''a'', ''up''] then Some ''../c/d''
     else if location = [''c''] then Some ''a'' else None)"

lemma two_links_stay_inside:
  "vetted_links two_links \<and> validate_entry_name ''a/up/x'' = Inr [''a'', ''up'', ''x'']
   \<and> resolve (\<lambda>p. map_option named_pieces (two_links p)) 20 [] [''a'', ''up'', ''x''] \<noteq> Escaped
   \<and> resolve (\<lambda>p. map_option named_pieces (two_links p)) 20 [] [''a'', ''up'', ''x'']
       = At [''a'', ''d'', ''x'']"
proof -
  have "validate_symlink_target [''a'', ''up''] ''../c/d'' = Inr ()"
    "validate_symlink_target [''c''] ''a'' = Inr ()"
    by code_simp+
  then have vetted: "vetted_links two_links"
    by (simp add: vetted_links_def two_links_def)
  have name: "validate_entry_name ''a/up/x'' = Inr [''a'', ''up'', ''x'']"
    by code_simp
  have "resolve (\<lambda>p. map_option named_pieces (two_links p)) 20 [] [''a'', ''up'', ''x'']
      = At [''a'', ''d'', ''x'']"
    by code_simp
  with vetted name accepted_names_stay_inside [OF vetted name, of 20] show ?thesis
    by simp
qed

text \<open>\<open>validate_entry_name\<close> accepts a name exactly when its prefix is harmless and every
  piece left after dropping empty pieces and dots is a safe component (not \<open>..\<close>, no
  separator or NUL in it, no reserved device name), and it returns exactly those pieces.\<close>

theorem entry_name_exact:
  "validate_entry_name name = Inr cs \<longleftrightarrow>
     unsafe_prefix name = None \<and> cs = named_pieces name \<and> list_all safe_component cs"
proof
  assume "validate_entry_name name = Inr cs"
  then show "unsafe_prefix name = None \<and> cs = named_pieces name \<and> list_all safe_component cs"
    using entry_name_safe [of name cs] by (simp add: entry_name_accepted_iff list_all_iff)
next
  assume "unsafe_prefix name = None \<and> cs = named_pieces name \<and> list_all safe_component cs"
  then show "validate_entry_name name = Inr cs"
    unfolding entry_name_accepted_iff list_all_iff safe_component_def by blast
qed

text \<open>\<open>validate_symlink_target\<close> accepts a target exactly when it is not empty, its prefix is
  harmless, and it climbs at most to the root before its first name and never after it.\<close>

theorem symlink_target_exact:
  "validate_symlink_target link target = Inr () \<longleftrightarrow>
     target \<noteq> [] \<and> unsafe_prefix target = None
     \<and> climb_then_names (length link - 1) (named_pieces target)"
  by (rule symlink_accepted_iff)

text \<open>The drive prefix is looked for at the start of the whole name only, so a component can
  still carry one, and joining the components again gives a name that is refused.\<close>

lemma drive_prefix_after_dot:
  "validate_entry_name ''./C:x'' = Inr [''C:x'']"
  "validate_entry_name (join ''/'' [''C:x''])
   = Inl (IllegalPath ''C:x'' ''starts with a Windows drive letter'')"
  by code_simp+

end
