(* ===== verification/Extract_Root.thy ===== *)
theory Extract_Root
  imports Safe_Path
begin

text \<open>
  \<open>fs/extract_root.rs\<close>: the target directory every archive entry is written through. The
  capability handle of \<open>cap-std\<close> is not code of this repository, so it is a parameter: a
  record of functions on an abstract directory state. Paths are the lists of components the
  name validator returned.

  The second half states what a client of this handle may rely on, as a locale: any
  property of the directory state that every call with harmless arguments keeps is kept by
  every operation of the root.
\<close>

type_synonym path = "string list"

datatype platform = Linux | Other_Unix | Windows

fun is_unix :: "platform \<Rightarrow> bool" where
  "is_unix Windows = False"
| "is_unix _ = True"

text \<open>The calls on \<open>cap_std::fs::Dir\<close> and on the files it opens. A failed write says how many
  bytes it had accepted; a write that is cut short and continued is one call here.\<close>

record 'd dir_ops =
  create_dir_with :: "'d \<Rightarrow> path \<Rightarrow> u32 option \<Rightarrow> 'd \<times> (io_error + unit)"
  dir_metadata :: "'d \<Rightarrow> path \<Rightarrow> io_error + bool"
  open_with :: "'d \<Rightarrow> path \<Rightarrow> u32 option \<Rightarrow> 'd \<times> (io_error + unit)"
  write_file :: "'d \<Rightarrow> path \<Rightarrow> bytes \<Rightarrow> 'd \<times> (nat \<times> io_error + unit)"
  dir_remove_file :: "'d \<Rightarrow> path \<Rightarrow> 'd \<times> (io_error + unit)"
  dir_symlink :: "'d \<Rightarrow> string \<Rightarrow> path \<Rightarrow> 'd \<times> (io_error + unit)"
  set_permissions :: "'d \<Rightarrow> path \<Rightarrow> u32 \<Rightarrow> 'd \<times> (io_error + unit)"

section \<open>The root\<close>

record 'd extract_root =
  root_dir :: 'd
  root_created :: "path set"

text \<open>Octal modes are written in hexadecimal: 0755 is 0x1ED, 0644 is 0x1A4.\<close>

definition working_dir_mode :: u32 where
  "working_dir_mode = 0x1ED"

definition default_file_mode :: u32 where
  "default_file_mode = 0x1A4"

fun eloop :: "platform \<Rightarrow> int" where
  "eloop Linux = 40"
| "eloop Other_Unix = 62"
| "eloop Windows = 0"

definition is_symlink_loop :: "platform \<Rightarrow> io_error \<Rightarrow> bool" where
  "is_symlink_loop plat err = (if is_unix plat then raw_os err = Some (eloop plat) else False)"

definition display_path :: "path \<Rightarrow> string" where
  "display_path p = join ''/'' p"

definition escape_or_io :: "io_error \<Rightarrow> path \<Rightarrow> fs_error" where
  "escape_or_io err path =
    (if io_kind err = PermissionDenied
     then IllegalPath (display_path path) ''could not be resolved inside the target directory''
     else Io err)"

text \<open>\<open>ExtractRoot::open\<close>: the two ambient calls are the caller's own directory.\<close>

definition open_root :: "io_error + unit \<Rightarrow> io_error + 'd \<Rightarrow> fs_error + 'd extract_root" where
  "open_root create_dir_all open_ambient =
    rbind (map_err Io create_dir_all) (\<lambda>_.
    rbind (map_err Io open_ambient) (\<lambda>d.
    Inr \<lparr> root_dir = d, root_created = {} \<rparr>))"

text \<open>The ancestors of a path, itself first, without the empty one; and the loop that records
  them until one was already there.\<close>

definition ancestors :: "path \<Rightarrow> path list" where
  "ancestors path = filter (\<lambda>a. a \<noteq> []) (rev (prefixes path))"

fun record_ancestors :: "path set \<Rightarrow> path list \<Rightarrow> path set" where
  "record_ancestors seen [] = seen"
| "record_ancestors seen (a # as) =
    (if a \<in> seen then seen else record_ancestors (insert a seen) as)"

definition create_dir_uncached ::
    "'d dir_ops \<Rightarrow> platform \<Rightarrow> 'd extract_root \<Rightarrow> path \<Rightarrow> 'd extract_root \<times> (fs_error + unit)" where
  "create_dir_uncached ops plat root path =
    (let mode = (if is_unix plat then Some working_dir_mode else None) in
     case create_dir_with ops (root_dir root) path mode of
       (d, Inr _) \<Rightarrow> (root\<lparr>root_dir := d\<rparr>, Inr ())
     | (d, Inl err) \<Rightarrow>
         if io_kind err = AlreadyExists then
           (root\<lparr>root_dir := d\<rparr>,
            case dir_metadata ops d path of
              Inr True \<Rightarrow> Inr ()
            | _ \<Rightarrow> Inl (IllegalPath (display_path path)
                       ''exists and is not a directory inside the target directory''))
         else (root\<lparr>root_dir := d\<rparr>, Inl (escape_or_io err path)))"

definition create_dir ::
    "'d dir_ops \<Rightarrow> platform \<Rightarrow> 'd extract_root \<Rightarrow> path \<Rightarrow> 'd extract_root \<times> (fs_error + unit)" where
  "create_dir ops plat root path =
    (if path \<in> root_created root then (root, Inr ())
     else sbind (create_dir_uncached ops plat root path) (\<lambda>root _.
       (root\<lparr>root_created := record_ancestors (root_created root) (ancestors path)\<rparr>, Inr ())))"

text \<open>The parent of a path, when it is not the root itself.\<close>

definition parent_dir :: "path \<Rightarrow> path option" where
  "parent_dir path = (if butlast path = [] then None else Some (butlast path))"

definition create_parent ::
    "'d dir_ops \<Rightarrow> platform \<Rightarrow> 'd extract_root \<Rightarrow> path \<Rightarrow> 'd extract_root \<times> (fs_error + unit)" where
  "create_parent ops plat root path =
    (case parent_dir path of Some parent \<Rightarrow> create_dir ops plat root parent | None \<Rightarrow> (root, Inr ()))"

definition create_file ::
    "'d dir_ops \<Rightarrow> platform \<Rightarrow> 'd extract_root \<Rightarrow> path \<Rightarrow> u32 option \<Rightarrow> 'd extract_root \<times> (fs_error + unit)"
where
  "create_file ops plat root path mode =
    sbind (create_parent ops plat root path) (\<lambda>root _.
      let mode = (if is_unix plat
                  then Some (case mode of Some m \<Rightarrow> m | None \<Rightarrow> default_file_mode) else None) in
      case open_with ops (root_dir root) path mode of
        (d, r) \<Rightarrow> (root\<lparr>root_dir := d\<rparr>, map_err (\<lambda>err. escape_or_io err path) r))"

definition remove_file ::
    "'d dir_ops \<Rightarrow> 'd extract_root \<Rightarrow> path \<Rightarrow> 'd extract_root \<times> (fs_error + unit)" where
  "remove_file ops root path =
    (case dir_remove_file ops (root_dir root) path of (d, r) \<Rightarrow> (root\<lparr>root_dir := d\<rparr>, map_err Io r))"

definition create_symlink ::
    "'d dir_ops \<Rightarrow> platform \<Rightarrow> 'd extract_root \<Rightarrow> path \<Rightarrow> string \<Rightarrow> 'd extract_root \<times> (fs_error + bool)"
where
  "create_symlink ops plat root path target =
    (if plat = Windows then (root, Inr False)
     else sbind (create_parent ops plat root path) (\<lambda>root _.
       case dir_symlink ops (root_dir root) target path of
         (d, Inl err) \<Rightarrow> (root\<lparr>root_dir := d\<rparr>, Inl (escape_or_io err path))
       | (d, Inr _) \<Rightarrow> (root\<lparr>root_dir := d\<rparr>, Inr True)))"

definition verify_symlink ::
    "'d dir_ops \<Rightarrow> platform \<Rightarrow> 'd extract_root \<Rightarrow> path \<Rightarrow> string \<Rightarrow> string
      \<Rightarrow> 'd extract_root \<times> (fs_error + unit)" where
  "verify_symlink ops plat root path link target =
    (case dir_metadata ops (root_dir root) path of
       Inr _ \<Rightarrow> (root, Inr ())
     | Inl err \<Rightarrow>
         if io_kind err = NotFound then (root, Inr ())
         else if is_symlink_loop plat err then (root, Inr ())
         else (root\<lparr>root_dir := fst (dir_remove_file ops (root_dir root) path)\<rparr>,
               Inl (IllegalSymlink link target)))"

definition set_dir_mode ::
    "'d dir_ops \<Rightarrow> 'd extract_root \<Rightarrow> path \<Rightarrow> u32 \<Rightarrow> 'd extract_root \<times> (fs_error + unit)" where
  "set_dir_mode ops root path mode =
    (case set_permissions ops (root_dir root) path mode of (d, r) \<Rightarrow> (root\<lparr>root_dir := d\<rparr>, map_err Io r))"

text \<open>An uncached creation is one call, and touches nothing but the directory.\<close>

lemma create_dir_uncached_cases:
  assumes "create_dir_with ops (root_dir root) path (if is_unix plat then Some working_dir_mode else None)
    = (d, r)"
  shows "\<exists>r'. create_dir_uncached ops plat root path = (root\<lparr>root_dir := d\<rparr>, r')"
proof (cases r)
  case (Inl err)
  with assms show ?thesis
    by (cases "io_kind err = AlreadyExists") (simp_all add: create_dir_uncached_def Let_def)
next
  case (Inr a)
  with assms show ?thesis
    by (simp add: create_dir_uncached_def Let_def)
qed

lemma create_dir_uncached_dir:
  "fst (create_dir_uncached ops plat root path)
   = root\<lparr>root_dir := fst (create_dir_with ops (root_dir root) path
            (if is_unix plat then Some working_dir_mode else None))\<rparr>"
  using create_dir_uncached_cases [OF prod.collapse [symmetric]] by (metis fst_conv)

section \<open>The cache of created directories\<close>

definition prefix_closed :: "path set \<Rightarrow> bool" where
  "prefix_closed S = (\<forall>p \<in> S. \<forall>q. prefix q p \<and> q \<noteq> [] \<longrightarrow> q \<in> S)"

lemma set_ancestors: "set (ancestors path) = {q. prefix q path \<and> q \<noteq> []}"
  by (auto simp: ancestors_def)

lemma ancestors_snoc: "ancestors (p @ [c]) = (p @ [c]) # ancestors p"
  by (simp add: ancestors_def prefixes_snoc)

lemma ancestors_Nil [simp]: "ancestors [] = []"
  by (simp add: ancestors_def)

text \<open>Stopping at the first ancestor already recorded loses nothing, because the set is
  closed under prefixes.\<close>

lemma record_ancestors_all:
  assumes "prefix_closed (created_dirs - gone)" and "set (ancestors path) \<inter> gone = {}"
    and "gone \<subseteq> created_dirs"
  shows "record_ancestors created_dirs (ancestors path) = created_dirs \<union> set (ancestors path)"
  using assms
proof (induction path arbitrary: created_dirs gone rule: rev_induct)
  case Nil
  then show ?case by simp
next
  case (snoc c p)
  show ?case
  proof (cases "p @ [c] \<in> created_dirs")
    case True
    with snoc.prems have "p @ [c] \<in> created_dirs - gone"
      by (auto simp: set_ancestors)
    with snoc.prems(1) have "set (ancestors (p @ [c])) \<subseteq> created_dirs"
      unfolding prefix_closed_def set_ancestors by blast
    with True show ?thesis
      by (auto simp: ancestors_snoc)
  next
    case False
    have "insert (p @ [c]) created_dirs - insert (p @ [c]) gone = created_dirs - gone"
      using False by auto
    moreover have "set (ancestors p) \<inter> insert (p @ [c]) gone = {}"
      using snoc.prems(2) by (auto simp: set_ancestors dest: prefix_length_le)
    ultimately have "record_ancestors (insert (p @ [c]) created_dirs) (ancestors p)
        = insert (p @ [c]) created_dirs \<union> set (ancestors p)"
      using snoc.IH [of "insert (p @ [c]) created_dirs" "insert (p @ [c]) gone"] snoc.prems
      by auto
    with False show ?thesis
      by (simp add: ancestors_snoc)
  qed
qed

lemma record_ancestors_closed:
  "prefix_closed S \<Longrightarrow> record_ancestors S (ancestors path) = S \<union> set (ancestors path)"
  using record_ancestors_all [of S "{}" path] by simp

lemma prefix_closed_ancestors:
  "prefix_closed S \<Longrightarrow> prefix_closed (S \<union> set (ancestors path))"
  by (auto simp: prefix_closed_def set_ancestors dest: prefix_order.trans)

section \<open>What the root asks of the directory\<close>

datatype dir_call =
    Mkdir path "u32 option"
  | Open path "u32 option"
  | Write path bytes
  | Unlink path
  | Symlink string path
  | Chmod path u32

text \<open>A property of the directory that harmless calls keep is kept by every operation whose
  own arguments are harmless.\<close>

locale dir_keeps =
  fixes ops :: "'d dir_ops"
    and ok_call :: "dir_call \<Rightarrow> bool"
    and inv :: "'d \<Rightarrow> bool"
  assumes mkdir_keeps: "inv d \<Longrightarrow> ok_call (Mkdir p m) \<Longrightarrow> inv (fst (create_dir_with ops d p m))"
    and open_keeps: "inv d \<Longrightarrow> ok_call (Open p m) \<Longrightarrow> inv (fst (open_with ops d p m))"
    and write_keeps: "inv d \<Longrightarrow> ok_call (Write p b) \<Longrightarrow> inv (fst (write_file ops d p b))"
    and unlink_keeps: "inv d \<Longrightarrow> ok_call (Unlink p) \<Longrightarrow> inv (fst (dir_remove_file ops d p))"
    and symlink_keeps: "inv d \<Longrightarrow> ok_call (Symlink t p) \<Longrightarrow> inv (fst (dir_symlink ops d t p))"
    and chmod_keeps: "inv d \<Longrightarrow> ok_call (Chmod p m') \<Longrightarrow> inv (fst (set_permissions ops d p m'))"
begin

lemma create_dir_uncached_keeps:
  assumes "inv (root_dir root)" and "ok_call (Mkdir p (if is_unix plat then Some working_dir_mode else None))"
  shows "inv (root_dir (fst (create_dir_uncached ops plat root p)))"
  using mkdir_keeps [OF assms] by (simp add: create_dir_uncached_dir)

lemma create_dir_keeps:
  assumes "inv (root_dir root)" and "ok_call (Mkdir p (if is_unix plat then Some working_dir_mode else None))"
  shows "inv (root_dir (fst (create_dir ops plat root p)))"
  using create_dir_uncached_keeps [OF assms] assms(1)
  by (auto simp: create_dir_def sbind_def split: prod.splits sum.splits)

lemma create_parent_keeps:
  assumes "inv (root_dir root)"
    and "butlast p \<noteq> [] \<Longrightarrow> ok_call (Mkdir (butlast p) (if is_unix plat then Some working_dir_mode else None))"
  shows "inv (root_dir (fst (create_parent ops plat root p)))"
  using assms by (auto simp: create_parent_def parent_dir_def intro: create_dir_keeps)

lemma create_file_keeps:
  assumes "inv (root_dir root)"
    and "butlast p \<noteq> [] \<Longrightarrow> ok_call (Mkdir (butlast p) (if is_unix plat then Some working_dir_mode else None))"
    and "ok_call (Open p (if is_unix plat
           then Some (case mode of Some m \<Rightarrow> m | None \<Rightarrow> default_file_mode) else None))"
  shows "inv (root_dir (fst (create_file ops plat root p mode)))"
proof -
  obtain root1 r where parent: "create_parent ops plat root p = (root1, r)"
    by (cases "create_parent ops plat root p")
  then have "inv (root_dir root1)"
    using create_parent_keeps [OF assms(1,2)] by simp
  from open_keeps [OF this assms(3)] this parent show ?thesis
    by (auto simp: create_file_def Let_def sbind_def split: prod.splits sum.splits)
qed

lemma remove_file_keeps:
  assumes "inv (root_dir root)" and "ok_call (Unlink p)"
  shows "inv (root_dir (fst (remove_file ops root p)))"
  using unlink_keeps [OF assms] by (auto simp: remove_file_def split: prod.splits)

lemma create_symlink_keeps:
  assumes "inv (root_dir root)"
    and "butlast p \<noteq> [] \<Longrightarrow> ok_call (Mkdir (butlast p) (if is_unix plat then Some working_dir_mode else None))"
    and "plat \<noteq> Windows \<Longrightarrow> ok_call (Symlink target p)"
  shows "inv (root_dir (fst (create_symlink ops plat root p target)))"
proof (cases "plat = Windows")
  case True
  with assms(1) show ?thesis by (simp add: create_symlink_def)
next
  case False
  obtain root1 r where parent: "create_parent ops plat root p = (root1, r)"
    by (cases "create_parent ops plat root p")
  then have "inv (root_dir root1)"
    using create_parent_keeps [OF assms(1,2)] by simp
  from symlink_keeps [OF this assms(3) [OF False]] this parent False show ?thesis
    by (auto simp: create_symlink_def sbind_def split: prod.splits sum.splits)
qed

lemma verify_symlink_keeps:
  assumes "inv (root_dir root)" and "ok_call (Unlink p)"
  shows "inv (root_dir (fst (verify_symlink ops plat root p link target)))"
  using assms unlink_keeps [OF assms] by (simp add: verify_symlink_def split: sum.splits)

lemma set_dir_mode_keeps:
  assumes "inv (root_dir root)" and "ok_call (Chmod p mode)"
  shows "inv (root_dir (fst (set_dir_mode ops root p mode)))"
  using chmod_keeps [OF assms] by (auto simp: set_dir_mode_def split: prod.splits)

end

text \<open>The same calls, with a log of them: every call is appended, whatever its outcome, and a
  write with the bytes the file accepted.\<close>

definition log_call :: "dir_call \<Rightarrow> dir_call list \<Rightarrow> 'd \<times> 'r \<Rightarrow> ('d \<times> dir_call list) \<times> 'r" where
  "log_call c log out = (case out of (d, r) \<Rightarrow> ((d, log @ [c]), r))"

definition accepted_bytes :: "bytes \<Rightarrow> nat \<times> io_error + unit \<Rightarrow> bytes" where
  "accepted_bytes b r = (case r of Inl (n, e) \<Rightarrow> take n b | Inr _ \<Rightarrow> b)"

definition logged :: "'d dir_ops \<Rightarrow> ('d \<times> dir_call list) dir_ops" where
  "logged ops = \<lparr>
     create_dir_with = (\<lambda>(d, log) p m. log_call (Mkdir p m) log (create_dir_with ops d p m)),
     dir_metadata = (\<lambda>(d, log) p. dir_metadata ops d p),
     open_with = (\<lambda>(d, log) p m. log_call (Open p m) log (open_with ops d p m)),
     write_file = (\<lambda>(d, log) p b.
       log_call (Write p (accepted_bytes b (snd (write_file ops d p b)))) log (write_file ops d p b)),
     dir_remove_file = (\<lambda>(d, log) p. log_call (Unlink p) log (dir_remove_file ops d p)),
     dir_symlink = (\<lambda>(d, log) t p. log_call (Symlink t p) log (dir_symlink ops d t p)),
     set_permissions = (\<lambda>(d, log) p m. log_call (Chmod p m) log (set_permissions ops d p m)) \<rparr>"

lemma snd_fst_log_call [simp]: "snd (fst (log_call c log out)) = log @ [c]"
  by (simp add: log_call_def split: prod.splits)

lemma snd_log_call [simp]: "snd (log_call c log out) = snd out"
  by (simp add: log_call_def split: prod.splits)

section \<open>The cache after a creation\<close>

text \<open>The cache of created directories stays closed under ancestors, so stopping the
  recording loop at the first known ancestor loses none: after a successful \<open>create_dir\<close>
  the directory and all its ancestors are recorded, and what was recorded stays.\<close>

theorem create_dir_records:
  assumes "prefix_closed (root_created root)"
    and "create_dir ops plat root path = (root', Inr ())"
  shows "prefix_closed (root_created root')"
    and "root_created root \<subseteq> root_created root'"
    and "q \<noteq> [] \<Longrightarrow> prefix q path \<Longrightarrow> q \<in> root_created root'"
proof -
  obtain root1 r where step: "create_dir_uncached ops plat root path = (root1, r)"
    by (cases "create_dir_uncached ops plat root path")
  then have "root_created root1 = root_created root"
    using create_dir_uncached_dir [of ops plat root path] by simp
  moreover have "path \<in> root_created root \<or> r = Inr ()"
    using assms(2) step by (cases r) (auto simp: create_dir_def split: if_splits)
  ultimately have "path \<in> root_created root \<and> root' = root
      \<or> root_created root' = root_created root \<union> set (ancestors path)"
    using assms(2) step record_ancestors_closed [OF assms(1), of path]
    by (cases "path \<in> root_created root") (auto simp: create_dir_def)
  moreover have "set (ancestors path) \<subseteq> root_created root" if "path \<in> root_created root"
    using that assms(1) unfolding set_ancestors prefix_closed_def by blast
  ultimately have grown: "root_created root' = root_created root \<union> set (ancestors path)"
    by blast
  show "prefix_closed (root_created root')"
    using prefix_closed_ancestors [OF assms(1)] grown by simp
  show "root_created root \<subseteq> root_created root'"
    using grown by simp
  show "q \<in> root_created root'" if "q \<noteq> []" "prefix q path"
    using that grown by (simp add: set_ancestors)
qed

end
