(* ===== verification/Extract.thy ===== *)
theory Extract
  imports Extract_Root
begin

text \<open>
  \<open>fs/extract_options.rs\<close> and \<open>fs/extract.rs\<close>: the options of an extraction, the budget it
  runs under, the progress it reports, and the visitor each archive format drives, entry by
  entry. An entry's content is a third-party reader, given as the events of reading it; the
  clock is the sequence of its readings.
\<close>

section \<open>Options, progress and summary\<close>

text \<open>The hook is an opaque callback; its identity stands for it.\<close>

record extract_options =
  max_total_bytes :: "nat option"
  max_file_bytes :: "nat option"
  max_entries :: "nat option"
  symlinks :: bool
  file_mode :: "u32 option"
  on_progress :: "nat option"

definition default_options :: extract_options where
  "default_options = \<lparr> max_total_bytes = None, max_file_bytes = None, max_entries = None,
     symlinks = True, file_mode = None, on_progress = None \<rparr>"

record extract_progress =
  p_entries :: nat
  p_bytes :: nat
  total_entries :: "nat option"
  total_bytes :: "nat option"

record extract_summary =
  s_files :: nat
  s_directories :: nat
  s_symlinks :: nat
  s_skipped :: nat
  s_bytes :: nat

definition empty_summary :: extract_summary where
  "empty_summary = \<lparr> s_files = 0, s_directories = 0, s_symlinks = 0, s_skipped = 0, s_bytes = 0 \<rparr>"

section \<open>Constants\<close>

definition max_symlink_target :: nat where
  "max_symlink_target = 4096"

definition default_dir_mode :: u32 where
  "default_dir_mode = 0x1ED"

definition dir_mode_mask :: u32 where
  "dir_mode_mask = 0x012"

definition progress_bytes :: nat where
  "progress_bytes = 256 * 1024"

text \<open>100 ms, in nanoseconds.\<close>

definition progress_interval :: nat where
  "progress_interval = 100 * 10 ^ 6"

definition S_IFMT :: u32 where "S_IFMT = 0xF000"
definition S_IFREG :: u32 where "S_IFREG = 0x8000"
definition S_IFLNK :: u32 where "S_IFLNK = 0xA000"

definition permissions :: "u32 \<Rightarrow> u32" where
  "permissions mode = mode AND 0x1FF"

section \<open>Readers\<close>

datatype read_event = Chunk bytes | Fail io_error

text \<open>One read into a buffer of \<open>n\<close> bytes; no bytes is the end of the stream.\<close>

fun read_some :: "nat \<Rightarrow> read_event list \<Rightarrow> read_event list \<times> (io_error + bytes)" where
  "read_some n [] = ([], Inr [])"
| "read_some n (Fail e # r) = (r, Inl e)"
| "read_some n (Chunk bs # r) =
    (if length bs \<le> n then (r, Inr bs) else (Chunk (drop n bs) # r, Inr (take n bs)))"

fun event_size :: "read_event \<Rightarrow> nat" where
  "event_size (Chunk bs) = Suc (length bs)"
| "event_size (Fail e) = 1"

definition reader_size :: "read_event list \<Rightarrow> nat" where
  "reader_size r = sum_list (map event_size r)"

lemma read_some_Inl_size: "read_some n r = (r', Inl e) \<Longrightarrow> reader_size r' < reader_size r"
  by (cases "(n, r)" rule: read_some.cases) (auto simp: reader_size_def split: if_splits)

lemma read_some_Inr_size:
  "read_some n r = (r', Inr bs) \<Longrightarrow> bs \<noteq> [] \<Longrightarrow> reader_size r' < reader_size r"
  by (cases "(n, r)" rule: read_some.cases) (auto simp: reader_size_def split: if_splits)

lemma read_some_length: "read_some n r = (r', Inr bs) \<Longrightarrow> length bs \<le> n"
  by (cases "(n, r)" rule: read_some.cases) (auto split: if_splits)

section \<open>Entries\<close>

datatype entry_kind = Dir | File | Symlink_Kind | Other

record raw_entry =
  entry_name :: string
  entry_kind_of :: entry_kind
  entry_size :: nat
  entry_mode :: "u32 option"
  link_target :: "string option"

section \<open>Budget\<close>

record budget =
  used_bytes :: nat
  used_entries :: nat

definition new_budget :: budget where
  "new_budget = \<lparr> used_bytes = 0, used_entries = 0 \<rparr>"

definition count_entry :: "extract_options \<Rightarrow> budget \<Rightarrow> budget \<times> (fs_error + unit)" where
  "count_entry options b =
    (let b = b\<lparr>used_entries := wrap_add (used_entries b) 1\<rparr> in
     (b, case max_entries options of
           Some m \<Rightarrow> if m < used_entries b then Inl (LimitExceeded Entries m) else Inr ()
         | None \<Rightarrow> Inr ()))"

definition over :: "nat \<Rightarrow> nat option \<Rightarrow> bool" where
  "over n ceiling = (case ceiling of Some m \<Rightarrow> m < n | None \<Rightarrow> False)"

definition reserve :: "extract_options \<Rightarrow> nat \<Rightarrow> budget \<Rightarrow> budget \<times> (fs_error + unit)" where
  "reserve options declared b =
    (if over declared (max_file_bytes options)
     then (b, Inl (LimitExceeded FileBytes (the (max_file_bytes options))))
     else if over (sat_add (used_bytes b) declared) (max_total_bytes options)
     then (b, Inl (LimitExceeded TotalBytes (the (max_total_bytes options))))
     else (b\<lparr>used_bytes := sat_add (used_bytes b) declared\<rparr>, Inr ()))"

definition settle :: "nat \<Rightarrow> nat \<Rightarrow> budget \<Rightarrow> budget" where
  "settle reserved actual b =
    b\<lparr>used_bytes := sat_sub (used_bytes b) (sat_sub reserved actual)\<rparr>"

section \<open>Progress\<close>

record totals =
  t_entries :: "nat option"
  t_bytes :: "nat option"

text \<open>The reporter, with the log of the snapshots the hook received; \<open>reads\<close> counts the
  readings taken of the clock, so the next one is \<open>clock reads\<close>.\<close>

record reporter =
  rep_hook :: "nat option"
  rep_progress :: extract_progress
  reported_bytes :: nat
  reported_at :: nat
  rep_reads :: nat
  rep_reports :: "extract_progress list"

definition new_reporter :: "(nat \<Rightarrow> nat) \<Rightarrow> extract_options \<Rightarrow> totals \<Rightarrow> reporter" where
  "new_reporter clock options t =
    \<lparr> rep_hook = on_progress options,
      rep_progress = \<lparr> p_entries = 0, p_bytes = 0, total_entries = t_entries t, total_bytes = t_bytes t \<rparr>,
      reported_bytes = 0, reported_at = clock 0, rep_reads = 1, rep_reports = [] \<rparr>"

definition flush_report :: "(nat \<Rightarrow> nat) \<Rightarrow> reporter \<Rightarrow> reporter" where
  "flush_report clock rep =
    (let rep = (case rep_hook rep of Some h \<Rightarrow> rep\<lparr>rep_reports := rep_reports rep @ [rep_progress rep]\<rparr> | None \<Rightarrow> rep)
     in rep\<lparr>reported_bytes := p_bytes (rep_progress rep), reported_at := clock (rep_reads rep),
            rep_reads := rep_reads rep + 1\<rparr>)"

definition advance :: "(nat \<Rightarrow> nat) \<Rightarrow> nat \<Rightarrow> reporter \<Rightarrow> reporter" where
  "advance clock n rep =
    (let rep = rep\<lparr>rep_progress := (rep_progress rep)\<lparr>p_bytes := wrap_add (p_bytes (rep_progress rep)) n\<rparr>\<rparr> in
     if progress_bytes \<le> p_bytes (rep_progress rep) - reported_bytes rep then flush_report clock rep
     else let rep' = rep\<lparr>rep_reads := rep_reads rep + 1\<rparr> in
       if progress_interval \<le> clock (rep_reads rep) - reported_at rep
       then flush_report clock rep' else rep')"

definition finish_entry :: "(nat \<Rightarrow> nat) \<Rightarrow> reporter \<Rightarrow> reporter" where
  "finish_entry clock rep =
    flush_report clock
      (rep\<lparr>rep_progress := (rep_progress rep)\<lparr>p_entries := wrap_add (p_entries (rep_progress rep)) 1\<rparr>\<rparr>)"

section \<open>Copying an entry's content\<close>

text \<open>The buffered writer over the open file: its buffer, and the directory behind it. A
  failed flush keeps the bytes the file had not accepted.\<close>

definition copy_buffer :: nat where
  "copy_buffer = 8192"

record 'd copying =
  out_dir :: 'd
  out_buf :: bytes
  out_rep :: reporter

definition flush_buf :: "'d dir_ops \<Rightarrow> path \<Rightarrow> 'd copying \<Rightarrow> 'd copying \<times> (io_error + unit)" where
  "flush_buf ops path c =
    (if out_buf c = [] then (c, Inr ())
     else case write_file ops (out_dir c) path (out_buf c) of
       (d, Inr _) \<Rightarrow> (c\<lparr>out_dir := d, out_buf := []\<rparr>, Inr ())
     | (d, Inl (n, e)) \<Rightarrow> (c\<lparr>out_dir := d, out_buf := drop n (out_buf c)\<rparr>, Inl e))"

text \<open>Writing a chunk through \<open>ProgressWriter\<close>: into the buffer while it has room, else past
  it, and the reporter advances by what was accepted.\<close>

definition progress_write ::
    "'d dir_ops \<Rightarrow> (nat \<Rightarrow> nat) \<Rightarrow> path \<Rightarrow> bytes \<Rightarrow> 'd copying \<Rightarrow> 'd copying \<times> (io_error + unit)" where
  "progress_write ops clock path bs c =
    (let room = copy_buffer - length (out_buf c) in
     if length bs < room
     then (c\<lparr>out_buf := out_buf c @ bs, out_rep := advance clock (length bs) (out_rep c)\<rparr>, Inr ())
     else sbind (if room < length bs then flush_buf ops path c else (c, Inr ())) (\<lambda>c _.
       if length bs < copy_buffer
       then (c\<lparr>out_buf := out_buf c @ bs, out_rep := advance clock (length bs) (out_rep c)\<rparr>, Inr ())
       else case write_file ops (out_dir c) path bs of
         (d, Inr _) \<Rightarrow> (c\<lparr>out_dir := d, out_rep := advance clock (length bs) (out_rep c)\<rparr>, Inr ())
       | (d, Inl (n, e)) \<Rightarrow>
           (c\<lparr>out_dir := d, out_rep := (if 0 < n then advance clock n (out_rep c) else out_rep c)\<rparr>,
            Inl e)))"

text \<open>\<open>io::copy\<close> of at most \<open>limit\<close> bytes of the reader: the loop, and what it returns.\<close>

function copy_loop ::
    "'d dir_ops \<Rightarrow> (nat \<Rightarrow> nat) \<Rightarrow> path \<Rightarrow> nat \<Rightarrow> nat \<Rightarrow> read_event list \<Rightarrow> 'd copying
      \<Rightarrow> 'd copying \<times> read_event list \<times> (io_error + nat)" where
  "copy_loop ops clock path limit written r c =
    (if limit = 0 then (c, r, Inr written)
     else case read_some (min copy_buffer limit) r of
       (r', Inl e) \<Rightarrow>
         if io_kind e = Interrupted then copy_loop ops clock path limit written r' c
         else (c, r', Inl e)
     | (r', Inr bs) \<Rightarrow>
         if bs = [] then (c, r', Inr written)
         else case progress_write ops clock path bs c of
           (c', Inl e) \<Rightarrow> (c', r', Inl e)
         | (c', Inr _) \<Rightarrow>
             copy_loop ops clock path (limit - length bs) (written + length bs) r' c')"
  by pat_completeness auto
termination
  by (relation "measure (\<lambda>(ops, clock, path, limit, written, r, c). reader_size r)")
    (auto dest: read_some_Inl_size [OF sym] read_some_Inr_size [OF sym])

declare copy_loop.simps [simp del]

text \<open>\<open>read_to_end\<close> of at most \<open>limit\<close> bytes.\<close>

function read_all :: "nat \<Rightarrow> bytes \<Rightarrow> read_event list \<Rightarrow> read_event list \<times> (io_error + bytes)" where
  "read_all limit acc r =
    (if limit = 0 then (r, Inr acc)
     else case read_some limit r of
       (r', Inl e) \<Rightarrow> if io_kind e = Interrupted then read_all limit acc r' else (r', Inl e)
     | (r', Inr bs) \<Rightarrow>
         if bs = [] then (r', Inr acc) else read_all (limit - length bs) (acc @ bs) r')"
  by pat_completeness auto
termination
  by (relation "measure (\<lambda>(limit, acc, r). reader_size r)")
    (auto dest: read_some_Inl_size [OF sym] read_some_Inr_size [OF sym])

declare read_all.simps [simp del]

definition read_link_target :: "read_event list \<Rightarrow> read_event list \<times> (fs_error + string)" where
  "read_link_target r =
    (case read_all (max_symlink_target + 1) [] r of
       (r', Inl e) \<Rightarrow> (r', Inl (Io e))
     | (r', Inr bs) \<Rightarrow>
         (r', if \<not> utf8_valid bs then Inl (Io (Io_Error InvalidData None))
              else if max_symlink_target < length bs then Inl (Io (Io_Error InvalidData None))
              else Inr (rev (dropWhile (\<lambda>c. c \<in> {CHR 0x0D, CHR 0x0A, CHR 0x00}) (rev (to_text bs))))))"

section \<open>The extractor\<close>

record 'd env =
  env_dir :: "'d dir_ops"
  env_platform :: platform
  env_clock :: "nat \<Rightarrow> nat"
  env_options :: extract_options

text \<open>\<open>x_data\<close> is the reader of the entry being visited, which the visit borrows.\<close>

record 'd extractor =
  x_root :: "'d extract_root"
  x_budget :: budget
  x_dir_modes :: "(path \<times> u32) list"
  x_links :: "(path \<times> string \<times> string) list"
  x_summary :: extract_summary
  x_reporter :: reporter
  x_data :: "read_event list"

definition new_extractor :: "'d env \<Rightarrow> 'd extract_root \<Rightarrow> totals \<Rightarrow> 'd extractor" where
  "new_extractor env root t =
    \<lparr> x_root = root, x_budget = new_budget, x_dir_modes = [], x_links = [],
      x_summary = empty_summary, x_reporter = new_reporter (env_clock env) (env_options env) t, x_data = [] \<rparr>"

definition on_root ::
    "('d extract_root \<Rightarrow> 'd extract_root \<times> (fs_error + 'a)) \<Rightarrow> 'd extractor \<Rightarrow> 'd extractor \<times> (fs_error + 'a)"
where
  "on_root f x = (case f (x_root x) of (root, r) \<Rightarrow> (x\<lparr>x_root := root\<rparr>, r))"

definition on_budget ::
    "(budget \<Rightarrow> budget \<times> (fs_error + 'a)) \<Rightarrow> 'd extractor \<Rightarrow> 'd extractor \<times> (fs_error + 'a)" where
  "on_budget f x = (case f (x_budget x) of (b, r) \<Rightarrow> (x\<lparr>x_budget := b\<rparr>, r))"

definition skip_entry :: "'d extractor \<Rightarrow> 'd extractor \<times> (fs_error + unit)" where
  "skip_entry x =
    (x\<lparr>x_summary := (x_summary x)\<lparr>s_skipped := wrap_add (s_skipped (x_summary x)) 1\<rparr>\<rparr>, Inr ())"

definition visit_dir ::
    "'d env \<Rightarrow> path \<Rightarrow> u32 option \<Rightarrow> 'd extractor \<Rightarrow> 'd extractor \<times> (fs_error + unit)" where
  "visit_dir env path mode x =
    sbind (on_root (\<lambda>root. create_dir (env_dir env) (env_platform env) root path) x) (\<lambda>x _.
      let x = x\<lparr>x_summary := (x_summary x)\<lparr>s_directories := wrap_add (s_directories (x_summary x)) 1\<rparr>\<rparr> in
      (case mode of
         Some m \<Rightarrow>
           let m' = (if permissions m = 0 then default_dir_mode
                     else permissions m AND NOT dir_mode_mask) in
           x\<lparr>x_dir_modes := x_dir_modes x @ [(path, m')]\<rparr>
       | None \<Rightarrow> x, Inr ()))"

text \<open>Copying the content of the visited entry to an open file: \<open>io::copy\<close>, the final flush,
  and the drop of the writer, which tries once more and ignores the outcome.\<close>

definition copy_content ::
    "'d env \<Rightarrow> path \<Rightarrow> nat \<Rightarrow> 'd extractor \<Rightarrow> 'd extractor \<times> (io_error + nat)" where
  "copy_content env path declared x =
    (let start = \<lparr> out_dir = root_dir (x_root x), out_buf = [], out_rep = x_reporter x \<rparr> in
     case copy_loop (env_dir env) (env_clock env) path (sat_add declared 1) 0 (x_data x) start of
       (c, r, copied) \<Rightarrow>
         (case (case copied of
                  Inl e \<Rightarrow> (c, Inl e)
                | Inr written \<Rightarrow> sbind (flush_buf (env_dir env) path c) (\<lambda>c _. (c, Inr written))) of
            (c, copied) \<Rightarrow>
              (let c = fst (flush_buf (env_dir env) path c) in
               (x\<lparr>x_root := (x_root x)\<lparr>root_dir := out_dir c\<rparr>, x_reporter := out_rep c, x_data := r\<rparr>,
                copied))))"

definition visit_file ::
    "'d env \<Rightarrow> raw_entry \<Rightarrow> path \<Rightarrow> 'd extractor \<Rightarrow> 'd extractor \<times> (fs_error + unit)" where
  "visit_file env entry path x =
    (let declared = entry_size entry in
     sbind (on_budget (reserve (env_options env) declared) x) (\<lambda>x _.
     let mode = map_option permissions
           (case file_mode (env_options env) of Some m \<Rightarrow> Some m | None \<Rightarrow> entry_mode entry) in
     sbind (on_root (\<lambda>root. create_file (env_dir env) (env_platform env) root path mode) x) (\<lambda>x _.
     case copy_content env path declared x of
       (x, copied) \<Rightarrow>
         (case copied of
            Inr written \<Rightarrow>
              if written \<le> declared then
                (x\<lparr>x_budget := settle declared written (x_budget x),
                   x_summary := (x_summary x)
                     \<lparr>s_files := wrap_add (s_files (x_summary x)) 1,
                      s_bytes := wrap_add (s_bytes (x_summary x)) written\<rparr>\<rparr>, Inr ())
              else (fst (on_root (\<lambda>root. remove_file (env_dir env) root path) x),
                    Inl (DeclaredSizeMismatch (entry_name entry) declared))
          | Inl err \<Rightarrow> (fst (on_root (\<lambda>root. remove_file (env_dir env) root path) x),
                       Inl (Io err))))))"

definition visit_symlink ::
    "'d env \<Rightarrow> raw_entry \<Rightarrow> path \<Rightarrow> 'd extractor \<Rightarrow> 'd extractor \<times> (fs_error + unit)" where
  "visit_symlink env entry components x =
    (if \<not> symlinks (env_options env) then skip_entry x
     else sbind (case link_target entry of
                   Some target \<Rightarrow> (x, Inr target)
                 | None \<Rightarrow> (case read_link_target (x_data x) of (r, res) \<Rightarrow> (x\<lparr>x_data := r\<rparr>, res)))
       (\<lambda>x target.
     sbind (x, validate_symlink_target components target) (\<lambda>x _.
     sbind (on_root (\<lambda>root. create_symlink (env_dir env) (env_platform env) root components target) x)
       (\<lambda>x made.
     if \<not> made then skip_entry x
     else
       let link = join ''/'' components in
       sbind (on_root (\<lambda>root.
           verify_symlink (env_dir env) (env_platform env) root components link target) x) (\<lambda>x _.
       (x\<lparr>x_links := x_links x @ [(components, link, target)],
          x_summary := (x_summary x)\<lparr>s_symlinks := wrap_add (s_symlinks (x_summary x)) 1\<rparr>\<rparr>,
        Inr ()))))))"

definition visit_entry ::
    "'d env \<Rightarrow> raw_entry \<Rightarrow> 'd extractor \<Rightarrow> 'd extractor \<times> (fs_error + unit)" where
  "visit_entry env entry x =
    sbind (on_budget (count_entry (env_options env)) x) (\<lambda>x _.
    sbind (x, validate_entry_name (entry_name entry)) (\<lambda>x components.
    if components = [] then skip_entry x
    else case entry_kind_of entry of
        Dir \<Rightarrow> visit_dir env components (entry_mode entry) x
      | File \<Rightarrow> visit_file env entry components x
      | Symlink_Kind \<Rightarrow> visit_symlink env entry components x
      | Other \<Rightarrow> skip_entry x))"

text \<open>\<open>visit\<close> borrows the entry's reader, and reports once more when the entry succeeded.\<close>

definition visit ::
    "'d env \<Rightarrow> raw_entry \<Rightarrow> read_event list \<Rightarrow> 'd extractor \<Rightarrow> 'd extractor \<times> (fs_error + unit)" where
  "visit env entry data x =
    (case visit_entry env entry (x\<lparr>x_data := data\<rparr>) of
       (x, Inr _) \<Rightarrow> (x\<lparr>x_reporter := finish_entry (env_clock env) (x_reporter x)\<rparr>, Inr ())
     | (x, Inl e) \<Rightarrow> (x, Inl e))"

fun verify_links ::
    "'d env \<Rightarrow> (path \<times> string \<times> string) list \<Rightarrow> 'd extract_root \<Rightarrow> 'd extract_root \<times> (fs_error + unit)"
where
  "verify_links env [] root = (root, Inr ())"
| "verify_links env ((path, link, target) # rest) root =
    sbind (verify_symlink (env_dir env) (env_platform env) root path link target)
      (\<lambda>root _. verify_links env rest root)"

fun apply_modes ::
    "'d env \<Rightarrow> (path \<times> u32) list \<Rightarrow> 'd extract_root \<Rightarrow> 'd extract_root \<times> (fs_error + unit)" where
  "apply_modes env [] root = (root, Inr ())"
| "apply_modes env ((path, mode) # rest) root =
    sbind (set_dir_mode (env_dir env) root path mode) (\<lambda>root _. apply_modes env rest root)"

definition deepest_first :: "(path \<times> u32) list \<Rightarrow> (path \<times> u32) list" where
  "deepest_first modes = sort_key (\<lambda>(path, _). - int (length path)) modes"

definition finish :: "'d env \<Rightarrow> 'd extractor \<Rightarrow> 'd extractor \<times> (fs_error + extract_summary)" where
  "finish env x =
    sbind (on_root (verify_links env (x_links x)) x) (\<lambda>x _.
    sbind (if is_unix (env_platform env)
           then (let modes = deepest_first (x_dir_modes x) in
                 on_root (apply_modes env modes) (x\<lparr>x_dir_modes := modes\<rparr>))
           else (x, Inr ())) (\<lambda>x _.
    (x, Inr (x_summary x))))"

end
