(* ===== verification/Extract_Safety.thy ===== *)
theory Extract_Safety
  imports Extract
begin

text \<open>
  What the extractor asks of the directory, whatever the archive holds: the calls it makes
  are harmless, it writes each file's content and no more, and it stays in its budget.
\<close>

section \<open>The copy makes writes only\<close>

context dir_keeps
begin

lemma flush_buf_keeps:
  assumes "inv (out_dir c)" and "\<And>b. ok_call (Write path b)"
  shows "inv (out_dir (fst (flush_buf ops path c)))"
  using write_keeps [OF assms(1,2), of "out_buf c"] assms
  by (auto simp: flush_buf_def split: prod.splits sum.splits)

lemma progress_write_keeps:
  assumes "inv (out_dir c)" and "\<And>b. ok_call (Write path b)"
  shows "inv (out_dir (fst (progress_write ops clock path bs c)))"
proof (cases "length bs < copy_buffer - length (out_buf c)")
  case True
  with assms show ?thesis by (simp add: progress_write_def)
next
  case False
  have accepted: "inv d'" if "write_file ops d path bs = (d', r)" "inv d" for d d' r
    using write_keeps [OF that(2) assms(2), of bs] that(1) by simp
  show ?thesis
    unfolding progress_write_def Let_def if_not_P [OF False]
  proof (rule sbind_keeps [where Q = "\<lambda>c. inv (out_dir c)"])
    show "inv (out_dir (fst (if copy_buffer - length (out_buf c) < length bs
        then flush_buf ops path c else (c, Inr ()))))"
      using assms by (simp add: flush_buf_keeps)
  qed (auto split: prod.splits sum.splits intro: accepted)
qed

lemma copy_loop_keeps:
  assumes "inv (out_dir c)" and "\<And>b. ok_call (Write path b)"
  shows "inv (out_dir (fst (copy_loop ops clock path limit written r c)))"
  using assms
proof (induction the_ops \<equiv> ops clock path limit written r c rule: copy_loop.induct)
  case (1 clock path limit written r c)
  have step: "progress_write ops clock path bs c = (c', w) \<Longrightarrow> inv (out_dir c')" for bs c' w
    using progress_write_keeps [OF 1(3,4)] by (metis fst_conv)
  show ?case
    by (subst copy_loop.simps) (use 1 step in \<open>auto split: sum.splits prod.splits\<close>)
qed

end

section \<open>Harmless calls\<close>

definition safe_path :: "path \<Rightarrow> bool" where
  "safe_path p = (p \<noteq> [] \<and> list_all safe_component p)"

text \<open>A call is harmless when its path is made of safe components; a file opens with
  permission bits only; a directory ends with a mode no other user can write (its bits are
  those of 0755); and a link is made only when links are allowed, to a vetted target.\<close>

fun safe_call :: "extract_options \<Rightarrow> platform \<Rightarrow> dir_call \<Rightarrow> bool" where
  "safe_call options platform (Mkdir p m) = (safe_path p \<and> m \<in> {None, Some working_dir_mode})"
| "safe_call options platform (Open p m) =
    (safe_path p \<and> (case m of Some b \<Rightarrow> b AND NOT 0x1FF = 0 | None \<Rightarrow> True))"
| "safe_call options platform (Write p b) = safe_path p"
| "safe_call options platform (Unlink p) = safe_path p"
| "safe_call options platform (Symlink t p) =
    (safe_path p \<and> symlinks options \<and> platform \<noteq> Windows \<and> validate_symlink_target p t = Inr ())"
| "safe_call options platform (Chmod p m) = (safe_path p \<and> m AND NOT 0x1ED = 0)"

lemma safe_path_butlast: "safe_path p \<Longrightarrow> butlast p \<noteq> [] \<Longrightarrow> safe_path (butlast p)"
  by (auto simp: safe_path_def list_all_iff dest: in_set_butlastD)

lemma permissions_masked: "permissions m AND NOT 0x1FF = 0"
  by (simp add: permissions_def bit_eq_iff bit_simps) 

lemma default_file_mode_masked: "default_file_mode AND NOT 0x1FF = 0"
  by (simp add: default_file_mode_def)

lemma dir_mode_masked: "(permissions m AND NOT dir_mode_mask) AND NOT 0x1ED = 0"
proof -
  have "(0x1FF AND NOT dir_mode_mask) AND NOT 0x1ED = (0 :: u32)"
    by (simp add: dir_mode_mask_def)
  then have "m AND ((0x1FF AND NOT dir_mode_mask) AND NOT 0x1ED) = 0"
    by simp
  then show ?thesis
    by (simp add: permissions_def ac_simps)
qed

locale extract_dir = dir_keeps "env_dir env" "safe_call (env_options env) (env_platform env)" inv
  for env :: "'d env" and inv :: "'d \<Rightarrow> bool"
begin

definition extractor_ok :: "'d extractor \<Rightarrow> bool" where
  "extractor_ok x = (inv (root_dir (x_root x))
     \<and> list_all (\<lambda>(p, m). safe_path p \<and> m AND NOT 0x1ED = 0) (x_dir_modes x)
     \<and> list_all (\<lambda>(p, _, _). safe_path p) (x_links x))"

lemma on_root_keeps:
  assumes "extractor_ok x" and "inv (root_dir (x_root x)) \<Longrightarrow> inv (root_dir (fst (f (x_root x))))"
  shows "extractor_ok (fst (on_root f x))"
  using assms by (cases "f (x_root x)") (simp add: on_root_def extractor_ok_def)

lemma on_budget_keeps: "extractor_ok x \<Longrightarrow> extractor_ok (fst (on_budget f x))"
  by (cases "f (x_budget x)") (simp add: on_budget_def extractor_ok_def)

lemma skip_entry_keeps: "extractor_ok x \<Longrightarrow> extractor_ok (fst (skip_entry x))"
  by (simp add: skip_entry_def extractor_ok_def)

lemma visit_dir_keeps:
  assumes "extractor_ok x" and "safe_path path"
  shows "extractor_ok (fst (visit_dir env path mode x))"
  unfolding visit_dir_def
proof (rule sbind_keeps)
  show "extractor_ok (fst (on_root (\<lambda>root. create_dir (env_dir env) (env_platform env) root path) x))"
    using assms by (intro on_root_keeps create_dir_keeps) simp_all
next
  fix x' a
  assume "extractor_ok x'"
  then show "extractor_ok (fst (let x = x'\<lparr>x_summary := (x_summary x')
      \<lparr>s_directories := wrap_add (s_directories (x_summary x')) 1\<rparr>\<rparr> in
      (case mode of
         Some m \<Rightarrow>
           let m' = (if permissions m = 0 then default_dir_mode
                     else permissions m AND NOT dir_mode_mask) in
           x\<lparr>x_dir_modes := x_dir_modes x @ [(path, m')]\<rparr>
       | None \<Rightarrow> x, Inr ())))"
    using assms(2) dir_mode_masked
    by (cases mode) (simp_all add: extractor_ok_def Let_def default_dir_mode_def)
qed

lemma copy_content_keeps:
  assumes "extractor_ok x" and "safe_path path"
  shows "extractor_ok (fst (copy_content env path declared x))"
proof -
  let ?start = "\<lparr> out_dir = root_dir (x_root x), out_buf = [], out_rep = x_reporter x \<rparr>"
  obtain c r copied where loop: "copy_loop (env_dir env) (env_clock env) path (sat_add declared 1) 0
      (x_data x) ?start = (c, r, copied)"
    by (metis prod_cases3)
  have "inv (out_dir c)"
    using copy_loop_keeps [of ?start path] assms loop
    by (simp add: extractor_ok_def) (metis fst_conv)
  then have flush: "inv (out_dir (fst (flush_buf (env_dir env) path c)))"
    using assms(2) by (intro flush_buf_keeps) simp_all
  obtain c2 copied2 where flushed: "(case copied of Inl e \<Rightarrow> (c, Inl e)
      | Inr w \<Rightarrow> sbind (flush_buf (env_dir env) path c) (\<lambda>c _. (c, Inr w))) = (c2, copied2)"
    by (metis surj_pair)
  then have "inv (out_dir c2)"
    using \<open>inv (out_dir c)\<close> flush
    by (auto simp: sbind_def split: sum.splits prod.splits)
  then have "inv (out_dir (fst (flush_buf (env_dir env) path c2)))"
    using assms(2) by (intro flush_buf_keeps) simp_all
  with assms(1) loop flushed show ?thesis
    by (simp add: copy_content_def extractor_ok_def Let_def)
qed

lemma visit_file_keeps:
  assumes "extractor_ok x" and "safe_path path"
  shows "extractor_ok (fst (visit_file env entry path x))"
proof -
  have gone: "extractor_ok (fst (on_root (\<lambda>root. remove_file (env_dir env) root path) y))"
    if "extractor_ok y" for y
    using that assms(2) by (intro on_root_keeps remove_file_keeps) simp_all
  have opened: "extractor_ok (fst (on_root (\<lambda>root. create_file (env_dir env) (env_platform env) root path
      (map_option permissions m)) y))" if "extractor_ok y" for y m
    using that assms(2) safe_path_butlast [OF assms(2)] permissions_masked default_file_mode_masked
    by (intro on_root_keeps create_file_keeps) (auto split: option.splits)
  have written: "extractor_ok y' "
    if "copy_content env path d y = (y', r)" "extractor_ok y" for y y' d r
    using copy_content_keeps [OF that(2) assms(2), of d] that(1) by simp
  have settled: "extractor_ok (y\<lparr>x_budget := b, x_summary := s\<rparr>)" if "extractor_ok y" for y b s
    using that by (simp add: extractor_ok_def)
  show ?thesis
    unfolding visit_file_def Let_def
    by (intro sbind_keeps [where Q = extractor_ok] on_budget_keeps opened assms(1))
      (auto split: prod.splits sum.splits intro!: settled gone dest: written)
qed

lemma visit_symlink_keeps:
  assumes "extractor_ok x" and "safe_path path"
  shows "extractor_ok (fst (visit_symlink env entry path x))"
proof -
  have made: "extractor_ok (fst (on_root (\<lambda>root.
      create_symlink (env_dir env) (env_platform env) root path target) y))"
    if "extractor_ok y" "symlinks (env_options env)" "validate_symlink_target path target = Inr ()"
    for y target
    using that assms(2) safe_path_butlast [OF assms(2)]
    by (intro on_root_keeps create_symlink_keeps) auto
  have verified: "extractor_ok (fst (on_root (\<lambda>root.
      verify_symlink (env_dir env) (env_platform env) root path link target) y))"
    if "extractor_ok y" for y link target
    using that assms(2) by (intro on_root_keeps verify_symlink_keeps) auto
  have "extractor_ok (fst (case link_target entry of Some target \<Rightarrow> (x, Inr target)
     | None \<Rightarrow> (case read_link_target (x_data x) of (r, res) \<Rightarrow> (x\<lparr>x_data := r\<rparr>, res))))"
    using assms(1) by (auto simp: extractor_ok_def split: option.splits prod.splits)
  moreover have "extractor_ok (y\<lparr>x_links := x_links y @ [(path, l, t)], x_summary := s\<rparr>)"
    if "extractor_ok y" for y l t s
    using that assms(2) by (simp add: extractor_ok_def)
  ultimately show ?thesis
    unfolding visit_symlink_def Let_def
    by (auto intro!: sbind_keeps [where Q = extractor_ok] skip_entry_keeps assms(1) made verified)
qed

lemma visit_entry_keeps:
  assumes "extractor_ok x"
  shows "extractor_ok (fst (visit_entry env entry x))"
  unfolding visit_entry_def
proof (intro sbind_keeps [where Q = extractor_ok] on_budget_keeps assms)
  fix x1 x2 a components
  assume ok: "(x1, validate_entry_name (entry_name entry)) = (x2, Inr components)" "extractor_ok x2"
  show "extractor_ok (fst (if components = [] then skip_entry x2
      else case entry_kind_of entry of
        Dir \<Rightarrow> visit_dir env components (entry_mode entry) x2
      | File \<Rightarrow> visit_file env entry components x2
      | Symlink_Kind \<Rightarrow> visit_symlink env entry components x2
      | Other \<Rightarrow> skip_entry x2))"
  proof (cases "components = []")
    case True
    with ok(2) show ?thesis by (simp add: skip_entry_keeps)
  next
    case False
    with ok(1) have "safe_path components"
      by (auto simp: safe_path_def list_all_iff intro: entry_name_safe)
    with False ok(2) show ?thesis
      by (simp add: skip_entry_keeps visit_dir_keeps visit_file_keeps visit_symlink_keeps
          split: entry_kind.split)
  qed
qed simp

lemma visit_keeps:
  assumes "extractor_ok x"
  shows "extractor_ok (fst (visit env entry data x))"
proof -
  have "extractor_ok (fst (visit_entry env entry (x\<lparr>x_data := data\<rparr>)))"
    using assms by (intro visit_entry_keeps) (simp add: extractor_ok_def)
  then show ?thesis
    by (auto simp: visit_def extractor_ok_def split: prod.splits sum.splits)
qed

lemma verify_links_keeps:
  "inv (root_dir root) \<Longrightarrow> list_all (\<lambda>(p, _, _). safe_path p) ls \<Longrightarrow>
     inv (root_dir (fst (verify_links env ls root)))"
proof (induction ls arbitrary: root)
  case (Cons l rest)
  obtain path link target where l: "l = (path, link, target)"
    by (metis prod_cases3)
  show ?case
    unfolding l verify_links.simps using Cons l
    by (intro sbind_keeps [where Q = "\<lambda>r. inv (root_dir r)"])
      (auto intro: verify_symlink_keeps)
qed simp

lemma apply_modes_keeps:
  "inv (root_dir root) \<Longrightarrow> list_all (\<lambda>(p, m). safe_path p \<and> m AND NOT 0x1ED = 0) ms \<Longrightarrow>
     inv (root_dir (fst (apply_modes env ms root)))"
proof (induction ms arbitrary: root)
  case (Cons pm rest)
  obtain path mode where pm: "pm = (path, mode)"
    by (metis surj_pair)
  show ?case
    unfolding pm apply_modes.simps using Cons pm
    by (intro sbind_keeps [where Q = "\<lambda>r. inv (root_dir r)"])
      (auto intro: set_dir_mode_keeps)
qed simp

lemma finish_keeps:
  assumes "extractor_ok x"
  shows "extractor_ok (fst (finish env x))"
proof -
  have links: "extractor_ok (fst (on_root (verify_links env (x_links x)) x))"
    using assms by (intro on_root_keeps verify_links_keeps) (auto simp: extractor_ok_def)
  have modes: "extractor_ok (fst (on_root (apply_modes env ms) (y\<lparr>x_dir_modes := ms\<rparr>)))"
    if "extractor_ok y" "ms = deepest_first (x_dir_modes y)" for y ms
  proof (rule on_root_keeps)
    have "list_all (\<lambda>(p, m). safe_path p \<and> m AND NOT 0x1ED = 0) ms"
      using that by (simp add: extractor_ok_def deepest_first_def list_all_iff)
    with that(1) show "extractor_ok (y\<lparr>x_dir_modes := ms\<rparr>)"
      and "inv (root_dir (x_root (y\<lparr>x_dir_modes := ms\<rparr>))) \<Longrightarrow>
        inv (root_dir (fst (apply_modes env ms (x_root (y\<lparr>x_dir_modes := ms\<rparr>)))))"
      by (auto simp: extractor_ok_def intro: apply_modes_keeps)
  qed
  show ?thesis
    unfolding finish_def Let_def
    by (intro sbind_keeps [where Q = extractor_ok] links) (auto intro: modes)
qed

end

end
