(* ===== verification/Archives.thy ===== *)
theory Archives
  imports Extract
begin

text \<open>
  \<open>fs/archive_format.rs\<close>, \<open>fs/unzip.rs\<close>, \<open>fs/untar_xz.rs\<close>, \<open>fs/un7zip.rs\<close> and
  \<open>fs/extract_archive.rs\<close>: what each format makes of an entry, and the loop that feeds the
  extractor. The archive crates are parameters: what opening an archive gives, the entries
  it yields in order, each with its reader, and how the walk ends.
\<close>

section \<open>Formats\<close>

datatype archive_format = Zip_Format | SevenZ_Format | TarXz_Format

text \<open>The suffixes are ASCII, so lowering the ASCII letters of the file name is all the
  comparison sees of \<open>to_lowercase\<close>: the two characters outside ASCII whose lower case holds
  an ASCII letter, the Kelvin sign and the dotted capital I, complete none of them.\<close>

definition from_path :: "string option \<Rightarrow> archive_format option" where
  "from_path file_name =
    (case file_name of None \<Rightarrow> None | Some raw \<Rightarrow>
      let name = ascii_lowercase raw in
      if suffix ''.tar.xz'' name \<or> suffix ''.txz'' name then Some TarXz_Format
      else if suffix ''.zip'' name then Some Zip_Format
      else if suffix ''.7z'' name then Some SevenZ_Format
      else None)"

section \<open>ZIP\<close>

record zip_entry =
  z_name :: "string + string"
  z_size :: nat
  z_mode :: "u32 option"
  z_is_symlink :: bool
  z_is_dir :: bool
  z_data :: "read_event list"

definition classify_zip :: "zip_entry \<Rightarrow> u32 option \<Rightarrow> entry_kind" where
  "classify_zip entry mode =
    (if z_is_symlink entry then Symlink_Kind
     else if z_is_dir entry then Dir
     else case mode of
       Some m \<Rightarrow> if m AND S_IFMT \<noteq> 0 \<and> m AND S_IFMT \<noteq> S_IFREG then Other else File
     | None \<Rightarrow> File)"

text \<open>\<open>Extractor::new\<close>: the root is opened first, from the two ambient calls.\<close>

definition extractor_new ::
    "'d env \<Rightarrow> io_error + unit \<Rightarrow> io_error + 'd \<Rightarrow> totals \<Rightarrow> fs_error + 'd extractor" where
  "extractor_new env create_dir_all open_ambient t =
    rbind (open_root create_dir_all open_ambient) (\<lambda>root. Inr (new_extractor env root t))"

fun zip_loop :: "'d env \<Rightarrow> (string + zip_entry) list \<Rightarrow> 'd extractor \<Rightarrow> 'd extractor \<times> (fs_error + unit)"
where
  "zip_loop env [] x = (x, Inr ())"
| "zip_loop env (item # rest) x =
    sbind (x, map_err Zip item) (\<lambda>x entry.
    sbind (x, map_err Zip (z_name entry)) (\<lambda>x n.
    let raw = \<lparr> entry_name = n, entry_kind_of = classify_zip entry (z_mode entry),
                entry_size = z_size entry, entry_mode = z_mode entry, link_target = None \<rparr> in
    sbind (visit env raw (z_data entry) x) (\<lambda>x _. zip_loop env rest x)))"

text \<open>The total the crate computes is a 128-bit number, reported when it fits 64 bits.\<close>

definition zip_totals :: "(string + zip_entry) list \<Rightarrow> nat option \<Rightarrow> totals" where
  "zip_totals entries decompressed_size =
    \<lparr> t_entries = Some (length entries),
      t_bytes = (case decompressed_size of
        Some n \<Rightarrow> if n \<le> u64_max then Some n else None | None \<Rightarrow> None) \<rparr>"

definition run_extraction ::
    "'d env \<Rightarrow> ('d extractor \<Rightarrow> 'd extractor \<times> (fs_error + unit))
      \<Rightarrow> 'd extractor \<Rightarrow> 'd extractor \<times> (fs_error + extract_summary)" where
  "run_extraction env loop x = sbind (loop x) (\<lambda>x _. finish env x)"

definition unzip ::
    "'d env \<Rightarrow> fs_error + ((string + zip_entry) list \<times> nat option)
      \<Rightarrow> io_error + unit \<Rightarrow> io_error + 'd \<Rightarrow> fs_error + 'd extractor \<times> (fs_error + extract_summary)" where
  "unzip env opened create_dir_all open_ambient =
    rbind opened (\<lambda>(entries, size).
    rbind (extractor_new env create_dir_all open_ambient (zip_totals entries size)) (\<lambda>x.
    Inr (run_extraction env (zip_loop env entries) x)))"

section \<open>TAR.XZ\<close>

record tar_entry =
  t_path_bytes :: bytes
  t_is_dir :: bool
  t_is_symlink :: bool
  t_is_file :: bool
  t_mode :: "u32 option"
  t_size :: nat
  t_link_name :: "bytes option"
  t_data :: "read_event list"

definition classify_tar :: "tar_entry \<Rightarrow> entry_kind" where
  "classify_tar entry =
    (if t_is_dir entry then Dir
     else if t_is_symlink entry then Symlink_Kind
     else if t_is_file entry then File
     else Other)"

definition utf8_name :: "bytes \<Rightarrow> string \<Rightarrow> fs_error + string" where
  "utf8_name bs what =
    (if utf8_valid bs then Inr (to_text bs)
     else Inl (IllegalPath (utf8_lossy bs) (what @ '' is not valid UTF-8'')))"

definition tar_link_target :: "extract_options \<Rightarrow> tar_entry \<Rightarrow> fs_error + string option" where
  "tar_link_target options entry =
    (case t_link_name entry of
       Some target \<Rightarrow>
         if classify_tar entry = Symlink_Kind \<and> symlinks options
         then rbind (utf8_name target ''symlink target'') (\<lambda>t. Inr (Some t))
         else Inr None
     | None \<Rightarrow> Inr None)"

fun tar_loop :: "'d env \<Rightarrow> (io_error + tar_entry) list \<Rightarrow> 'd extractor \<Rightarrow> 'd extractor \<times> (fs_error + unit)"
where
  "tar_loop env [] x = (x, Inr ())"
| "tar_loop env (item # rest) x =
    sbind (x, map_err Io item) (\<lambda>x entry.
    sbind (x, utf8_name (t_path_bytes entry) ''entry name'') (\<lambda>x n.
    sbind (x, tar_link_target (env_options env) entry) (\<lambda>x target.
    let raw = \<lparr> entry_name = n, entry_kind_of = classify_tar entry, entry_size = t_size entry,
                entry_mode = t_mode entry, link_target = target \<rparr> in
    sbind (visit env raw (t_data entry) x) (\<lambda>x _. tar_loop env rest x))))"

definition untar_xz ::
    "'d env \<Rightarrow> io_error + unit \<Rightarrow> io_error + (io_error + tar_entry) list
      \<Rightarrow> io_error + unit \<Rightarrow> io_error + 'd \<Rightarrow> fs_error + 'd extractor \<times> (fs_error + extract_summary)" where
  "untar_xz env opened tar_entries create_dir_all open_ambient =
    rbind (map_err Io opened) (\<lambda>_.
    rbind (extractor_new env create_dir_all open_ambient \<lparr> t_entries = None, t_bytes = None \<rparr>) (\<lambda>x.
    Inr (sbind (x, map_err Io tar_entries) (\<lambda>x entries.
         run_extraction env (tar_loop env entries) x))))"

section \<open>7z\<close>

record sevenz_entry =
  v_name :: string
  v_is_directory :: bool
  v_has_attributes :: bool
  v_attributes :: u32
  v_size :: nat
  v_data :: "read_event list"

definition unix_extension :: u32 where
  "unix_extension = 0x8000"

definition unix_mode :: "bool \<Rightarrow> u32 \<Rightarrow> u32 option" where
  "unix_mode has_attributes attributes =
    (if has_attributes \<and> attributes AND unix_extension \<noteq> 0
     then Some (drop_bit 16 attributes) else None)"

definition classify_7z :: "bool \<Rightarrow> bool \<Rightarrow> u32 \<Rightarrow> entry_kind \<times> u32 option" where
  "classify_7z is_directory has_attributes attributes =
    (if is_directory then (Dir, unix_mode has_attributes attributes)
     else case unix_mode has_attributes attributes of
       Some mode \<Rightarrow> if mode AND S_IFMT = S_IFLNK then (Symlink_Kind, Some mode) else (File, Some mode)
     | None \<Rightarrow> (File, None))"

text \<open>\<open>io::copy\<close> into the sink: reads to the end, so that a solid archive stays aligned.\<close>

fun drain :: "read_event list \<Rightarrow> io_error + unit" where
  "drain [] = Inr ()"
| "drain (Chunk bs # r) = (if bs = [] then Inr () else drain r)"
| "drain (Fail e # r) = (if io_kind e = Interrupted then drain r else Inl e)"

text \<open>The walk of the crate, with the closure that parks the failure and stops it.\<close>

fun sevenz_walk :: "'d env \<Rightarrow> sevenz_entry list \<Rightarrow> 'd extractor \<Rightarrow> 'd extractor \<times> (fs_error + unit)"
where
  "sevenz_walk env [] x = (x, Inr ())"
| "sevenz_walk env (entry # rest) x =
    (let km = classify_7z (v_is_directory entry) (v_has_attributes entry) (v_attributes entry);
         raw = \<lparr> entry_name = v_name entry, entry_kind_of = fst km, entry_size = v_size entry,
                 entry_mode = snd km, link_target = None \<rparr> in
     sbind (visit env raw (v_data entry) x) (\<lambda>x _.
     sbind (x, map_err Io (drain (x_data x))) (\<lambda>x _. sevenz_walk env rest x)))"

fun checked_sum :: "nat \<Rightarrow> nat list \<Rightarrow> nat option" where
  "checked_sum acc [] = Some acc"
| "checked_sum acc (n # ns) =
    (case checked_add acc n of Some s \<Rightarrow> checked_sum s ns | None \<Rightarrow> None)"

text \<open>\<open>listed\<close> is the header; \<open>yielded\<close> the entries the walk reaches before it ends with
  \<open>walk_end\<close>.\<close>

definition un7zip ::
    "'d env \<Rightarrow> fs_error + sevenz_entry list \<Rightarrow> sevenz_entry list \<Rightarrow> string + unit
      \<Rightarrow> io_error + unit \<Rightarrow> io_error + 'd \<Rightarrow> fs_error + 'd extractor \<times> (fs_error + extract_summary)" where
  "un7zip env listed yielded walk_end create_dir_all open_ambient =
    rbind listed (\<lambda>header.
    rbind (extractor_new env create_dir_all open_ambient
             \<lparr> t_entries = Some (length header), t_bytes = checked_sum 0 (map v_size header) \<rparr>) (\<lambda>x.
    Inr (run_extraction env
           (\<lambda>x. sbind (sevenz_walk env yielded x) (\<lambda>x _. (x, map_err SevenZ walk_end))) x)))"

section \<open>Any format\<close>

text \<open>What each crate makes of the file at hand.\<close>

record archive_file =
  as_zip :: "fs_error + ((string + zip_entry) list \<times> nat option)"
  as_7z_listed :: "fs_error + sevenz_entry list"
  as_7z_yielded :: "sevenz_entry list"
  as_7z_end :: "string + unit"
  as_tar_opened :: "io_error + unit"
  as_tar_entries :: "io_error + (io_error + tar_entry) list"

definition extract_as ::
    "'d env \<Rightarrow> archive_format \<Rightarrow> archive_file \<Rightarrow> io_error + unit \<Rightarrow> io_error + 'd
      \<Rightarrow> fs_error + 'd extractor \<times> (fs_error + extract_summary)" where
  "extract_as env format archive create_dir_all open_ambient =
    (case format of
       Zip_Format \<Rightarrow> unzip env (as_zip archive) create_dir_all open_ambient
     | SevenZ_Format \<Rightarrow> un7zip env (as_7z_listed archive) (as_7z_yielded archive) (as_7z_end archive)
         create_dir_all open_ambient
     | TarXz_Format \<Rightarrow> untar_xz env (as_tar_opened archive) (as_tar_entries archive)
         create_dir_all open_ambient)"

text \<open>\<open>file_name\<close> is the last component of the path, if it has one; \<open>shown\<close> is what the error
  names instead when it has none.\<close>

definition extract_archive ::
    "'d env \<Rightarrow> string option \<Rightarrow> string \<Rightarrow> archive_file \<Rightarrow> io_error + unit \<Rightarrow> io_error + 'd
      \<Rightarrow> fs_error + 'd extractor \<times> (fs_error + extract_summary)" where
  "extract_archive env file_name shown archive create_dir_all open_ambient =
    rbind (ok_or (from_path file_name)
             (UnknownArchiveFormat (case file_name of Some n \<Rightarrow> n | None \<Rightarrow> shown))) (\<lambda>format.
    extract_as env format archive create_dir_all open_ambient)"

section \<open>What holds of a visit holds of an extraction\<close>

text \<open>A condition that successful visits keep, and a weaker one that failed visits leave, hold
  of the extractor however the archive of any format ends.\<close>

locale visitor =
  fixes env :: "'d env" and ok :: "'d extractor \<Rightarrow> bool" and left :: "'d extractor \<Rightarrow> bool"
  assumes visit_ok: "ok x \<Longrightarrow> visit env entry data x = (x', Inr u) \<Longrightarrow> ok x'"
    and visit_left: "ok x \<Longrightarrow> visit env entry data x = (x', Inl e) \<Longrightarrow> left x'"
    and finish_ok: "ok x \<Longrightarrow> finish env x = (x', Inr s) \<Longrightarrow> ok x'"
    and finish_left: "ok x \<Longrightarrow> finish env x = (x', Inl e) \<Longrightarrow> left x'"
    and ok_left: "ok x \<Longrightarrow> left x"
begin

definition ends_well :: "'d extractor \<times> (fs_error + 'a) \<Rightarrow> bool" where
  "ends_well out = (left (fst out) \<and> (is_ok (snd out) \<longrightarrow> ok (fst out)))"

lemma ends_well_sbind:
  assumes "ends_well m" and "\<And>x a. m = (x, Inr a) \<Longrightarrow> ok x \<Longrightarrow> ends_well (f x a)"
  shows "ends_well (sbind m f)"
  using assms by (cases m; cases "snd m") (auto simp: ends_well_def sbind_def split: sum.splits)

lemma ends_well_here: "ok x \<Longrightarrow> ends_well (x, r)"
  by (simp add: ends_well_def ok_left)

lemma ends_well_visit: "ok x \<Longrightarrow> ends_well (visit env entry data x)"
  by (cases "visit env entry data x"; cases "snd (visit env entry data x)")
    (auto simp: ends_well_def intro: visit_ok visit_left ok_left)

lemma ends_well_finish: "ok x \<Longrightarrow> ends_well (finish env x)"
  by (cases "finish env x"; cases "snd (finish env x)")
    (auto simp: ends_well_def intro: finish_ok finish_left ok_left)

lemma ends_well_zip: "ok x \<Longrightarrow> ends_well (zip_loop env items x)"
  by (induction items arbitrary: x)
    (auto intro!: ends_well_sbind intro: ends_well_here ends_well_visit simp: Let_def)

lemma ends_well_tar: "ok x \<Longrightarrow> ends_well (tar_loop env items x)"
  by (induction items arbitrary: x)
    (auto intro!: ends_well_sbind intro: ends_well_here ends_well_visit simp: Let_def)

lemma ends_well_7z: "ok x \<Longrightarrow> ends_well (sevenz_walk env items x)"
  by (induction items arbitrary: x)
    (auto intro!: ends_well_sbind intro: ends_well_here ends_well_visit simp: Let_def)

lemma ends_well_run:
  "ok x \<Longrightarrow> (\<And>y. ok y \<Longrightarrow> ends_well (loop y)) \<Longrightarrow> ends_well (run_extraction env loop x)"
  by (auto simp: run_extraction_def intro!: ends_well_sbind ends_well_finish)

lemma ends_well_extract:
  assumes "extract_as env format archive create_dir_all (Inr d) = Inr out"
    and "\<And>t. ok (new_extractor env \<lparr> root_dir = d, root_created = {} \<rparr> t)"
  shows "ends_well out"
  using assms(1)
  by (cases format)
    (auto simp: extract_as_def unzip_def un7zip_def untar_xz_def extractor_new_def open_root_def
        rbind_Inr intro!: ends_well_run ends_well_sbind
        intro: ends_well_here ends_well_zip ends_well_tar ends_well_7z assms(2))

end

end
