(* ===== verification/Extract_Content.thy ===== *)
theory Extract_Content
  imports Extract_Safety
begin

text \<open>
  What lands in the files: the copy loop hands the open file exactly the content of the
  entry's reader, in order, and never a byte past the declared size plus the one that shows
  the header lied. Seen through the log of the calls on the directory.
\<close>

definition logged_env :: "'d env \<Rightarrow> ('d \<times> dir_call list) env" where
  "logged_env env = \<lparr> env_dir = logged (env_dir env), env_platform = env_platform env,
     env_clock = env_clock env, env_options = env_options env \<rparr>"

lemma logged_env_simps [simp]:
  "env_dir (logged_env env) = logged (env_dir env)"
  "env_platform (logged_env env) = env_platform env"
  "env_clock (logged_env env) = env_clock env"
  "env_options (logged_env env) = env_options env"
  by (simp_all add: logged_env_def)

text \<open>The log of harmless calls, and the log with a given content, are two properties the
  directory keeps.\<close>

interpretation harmless: extract_dir "logged_env env"
    "\<lambda>s. list_all (safe_call (env_options env) (env_platform env)) (snd s)"
  for env :: "'d env"
  by unfold_locales (simp_all add: logged_def case_prod_beta accepted_bytes_def)

fun call_bytes :: "dir_call \<Rightarrow> bytes" where
  "call_bytes (Write p b) = b"
| "call_bytes _ = []"

definition written_bytes :: "dir_call list \<Rightarrow> bytes" where
  "written_bytes log = concat (map call_bytes log)"

fun is_write :: "dir_call \<Rightarrow> bool" where
  "is_write (Write p b) = True"
| "is_write _ = False"

lemma written_bytes_append [simp]:
  "written_bytes (xs @ ys) = written_bytes xs @ written_bytes ys"
  by (simp add: written_bytes_def)

lemma written_bytes_Nil [simp]: "written_bytes [] = []"
  by (simp add: written_bytes_def)

lemma written_bytes_single [simp]: "written_bytes [c] = call_bytes c"
  by (simp add: written_bytes_def)

interpretation quiet: dir_keeps "logged ops" "\<lambda>c. \<not> is_write c" "\<lambda>s. written_bytes (snd s) = W"
  for ops :: "'d dir_ops" and W
  by unfold_locales (simp_all add: logged_def case_prod_beta)

interpretation growing: dir_keeps "logged ops" "\<lambda>_. True" "\<lambda>s. prefix W (written_bytes (snd s))"
  for ops :: "'d dir_ops" and W
  by unfold_locales (auto simp: logged_def case_prod_beta)

section \<open>The content of a reader\<close>

text \<open>What reading to the end yields: interrupted reads are tried again, an empty read is the
  end, and any other failure stops it.\<close>

fun content :: "read_event list \<Rightarrow> bytes" where
  "content [] = []"
| "content (Chunk bs # r) = (if bs = [] then [] else bs @ content r)"
| "content (Fail e # r) = (if io_kind e = Interrupted then content r else [])"

lemma read_some_content:
  "read_some n r = (r', Inr bs) \<Longrightarrow> 0 < n \<Longrightarrow> bs \<noteq> [] \<Longrightarrow> content r = bs @ content r'"
  by (cases "(n, r)" rule: read_some.cases) (auto split: if_splits simp flip: append_assoc)

lemma read_some_end: "read_some n r = (r', Inr []) \<Longrightarrow> 0 < n \<Longrightarrow> content r = []"
  by (cases "(n, r)" rule: read_some.cases) (auto split: if_splits)

lemma read_some_interrupted:
  "read_some n r = (r', Inl e) \<Longrightarrow> io_kind e = Interrupted \<Longrightarrow> content r = content r'"
  by (cases "(n, r)" rule: read_some.cases) (auto split: if_splits)

section \<open>The copy\<close>

abbreviation written_to :: "('d \<times> dir_call list) copying \<Rightarrow> bytes" where
  "written_to c \<equiv> written_bytes (snd (out_dir c))"

lemma logged_write:
  "write_file (logged ops) d path b = (d', r) \<Longrightarrow>
     written_bytes (snd d') = written_bytes (snd d) @ accepted_bytes b r"
  by (cases d) (auto simp: logged_def log_call_def split: prod.splits)

lemma flush_buf_content:
  assumes "flush_buf (logged ops) path c = (c', r)"
  shows "written_to c' @ out_buf c' = written_to c @ out_buf c"
    and "r = Inr u \<Longrightarrow> out_buf c' = []"
  using assms
  by (auto simp: flush_buf_def accepted_bytes_def dest!: logged_write
      split: if_splits prod.splits sum.splits)

lemma progress_write_content:
  assumes "progress_write (logged ops) clock path bs c = (c', r)"
  shows "prefix (written_to c' @ out_buf c') (written_to c @ out_buf c @ bs)"
    and "r = Inr u \<Longrightarrow> written_to c' @ out_buf c' = written_to c @ out_buf c @ bs"
proof -
  let ?room = "copy_buffer - length (out_buf c)"
  have "prefix (written_to c' @ out_buf c') (written_to c @ out_buf c @ bs)
    \<and> (\<forall>u. r = Inr u \<longrightarrow> written_to c' @ out_buf c' = written_to c @ out_buf c @ bs)"
  proof (cases "length bs < ?room")
    case True
    with assms show ?thesis
      by (auto simp: progress_write_def)
  next
    case False
    obtain c1 r1 where flush: "(if ?room < length bs then flush_buf (logged ops) path c else (c, Inr ()))
        = (c1, r1)"
      by (metis surj_pair)
    then have kept: "written_to c1 @ out_buf c1 = written_to c @ out_buf c"
      by (auto split: if_splits dest: flush_buf_content(1))
    have empty: "out_buf c1 = []" if "r1 = Inr ()" "copy_buffer \<le> length bs"
    proof -
      from that(2) False have "out_buf c = []" if "\<not> ?room < length bs"
        using that by (cases "out_buf c") (auto simp: copy_buffer_def)
      with flush that(1) show ?thesis
        by (auto split: if_splits dest: flush_buf_content(2))
    qed
    show ?thesis
    proof (cases r1)
      case (Inl e)
      with assms False flush kept show ?thesis
        by (auto simp: progress_write_def simp flip: append_assoc)
    next
      case (Inr u)
      obtain d w where direct: "write_file (logged ops) (out_dir c1) path bs = (d, w)"
        by (metis surj_pair)
      with Inr assms False flush kept empty show ?thesis
        by (auto simp: progress_write_def accepted_bytes_def take_is_prefix
            dest!: logged_write simp flip: append_assoc split: if_splits sum.splits)
    qed
  qed
  then show "prefix (written_to c' @ out_buf c') (written_to c @ out_buf c @ bs)"
    and "r = Inr u \<Longrightarrow> written_to c' @ out_buf c' = written_to c @ out_buf c @ bs"
    by auto
qed

lemma copy_loop_content:
  assumes "copy_loop (logged ops) clock path limit written r c = (c', r', res)"
  shows "prefix (written_to c' @ out_buf c') (written_to c @ out_buf c @ take limit (content r))
    \<and> (\<forall>w. res = Inr w \<longrightarrow> w = written + length (take limit (content r))
        \<and> written_to c' @ out_buf c' = written_to c @ out_buf c @ take limit (content r))"
  using assms
proof (induction "logged ops" clock path limit written r c rule: copy_loop.induct)
  case (1 clock path limit written r c)
  show ?case
  proof (cases "limit = 0")
    case True
    with 1(3) show ?thesis
      by (auto simp: copy_loop.simps [of "logged ops" clock path 0])
  next
    case False
    then have pos: "0 < min copy_buffer limit"
      by (simp add: copy_buffer_def)
    obtain r1 got where read: "read_some (min copy_buffer limit) r = (r1, got)"
      by (metis surj_pair)
    show ?thesis
    proof (cases got)
      case (Inl e)
      with 1(1) [OF False read [symmetric] Inl] 1(3) False read read_some_interrupted [of _ r r1 e]
      show ?thesis
        by (auto simp: copy_loop.simps [of "logged ops" clock path limit] prefix_def split: if_splits)
    next
      case (Inr bs)
      show ?thesis
      proof (cases "bs = []")
        case True
        with 1(3) False read Inr read_some_end [OF _ pos] show ?thesis
          by (auto simp: copy_loop.simps [of "logged ops" clock path limit])
      next
        case more: False
        obtain c1 w where step: "progress_write (logged ops) clock path bs c = (c1, w)"
          by (metis surj_pair)
        have len: "length bs \<le> limit"
          using read_some_length [of _ r r1 bs] read Inr by fastforce
        have data: "take limit (content r) = bs @ take (limit - length bs) (content r1)"
          using read_some_content [OF _ pos more] read Inr len by simp
        show ?thesis
        proof (cases w)
          case (Inl e)
          with 1(3) False read Inr more step have "c' = c1" "res = Inl e"
            by (auto simp: copy_loop.simps [of "logged ops" clock path limit])
          moreover have "prefix (written_to c1 @ out_buf c1)
              ((written_to c @ out_buf c @ bs) @ take (limit - length bs) (content r1))"
            using progress_write_content(1) [OF step] by (rule prefix_prefix)
          ultimately show ?thesis
            by (simp add: data)
        next
          case (Inr u)
          with 1(3) False read \<open>got = Inr bs\<close> more step
          have "copy_loop (logged ops) clock path (limit - length bs) (written + length bs) r1 c1
              = (c', r', res)"
            by (simp add: copy_loop.simps [of "logged ops" clock path limit])
          note later = 1(2) [OF False read [symmetric] \<open>got = Inr bs\<close> more step [symmetric] Inr this]
          have whole: "written_to c @ out_buf c @ take limit (content r)
              = written_to c1 @ out_buf c1 @ take (limit - length bs) (content r1)"
            unfolding data using progress_write_content(2) [OF step Inr] by (metis append_assoc)
          have size: "written + length (take limit (content r))
              = written + length bs + length (take (limit - length bs) (content r1))"
            by (simp only: data length_append add.assoc)
          show ?thesis
            unfolding whole size by (rule later)
        qed
      qed
    qed
  qed
qed

section \<open>A file, and a visit\<close>

abbreviation log_of :: "('d \<times> dir_call list) extractor \<Rightarrow> dir_call list" where
  "log_of x \<equiv> snd (root_dir (x_root x))"

lemma on_root_parts:
  assumes "on_root f x = (x', r)"
  shows "f (x_root x) = (x_root x', r)" and "x' = x\<lparr>x_root := x_root x'\<rparr>"
  using assms by (auto simp: on_root_def split: prod.splits)

lemma on_root_quiet:
  assumes "on_root f x = (x', r)"
    and "\<And>root. written_bytes (snd (root_dir (fst (f root)))) = written_bytes (snd (root_dir root))"
  shows "written_bytes (log_of x') = written_bytes (log_of x)"
  using on_root_parts [OF assms(1)] assms(2) [of "x_root x"] by simp

lemma create_file_quiet:
  "written_bytes (snd (root_dir (fst (create_file (logged ops) plat root path mode))))
   = written_bytes (snd (root_dir root))"
  by (rule quiet.create_file_keeps) simp_all

lemma create_dir_quiet:
  "written_bytes (snd (root_dir (fst (create_dir (logged ops) plat root path))))
   = written_bytes (snd (root_dir root))"
  by (rule quiet.create_dir_keeps) simp_all

lemma remove_file_quiet:
  "written_bytes (snd (root_dir (fst (remove_file (logged ops) root path))))
   = written_bytes (snd (root_dir root))"
  by (rule quiet.remove_file_keeps) simp_all

lemma create_symlink_quiet:
  "written_bytes (snd (root_dir (fst (create_symlink (logged ops) plat root path target))))
   = written_bytes (snd (root_dir root))"
  by (rule quiet.create_symlink_keeps) simp_all

lemma verify_symlink_quiet:
  "written_bytes (snd (root_dir (fst (verify_symlink (logged ops) plat root path link target))))
   = written_bytes (snd (root_dir root))"
  by (rule quiet.verify_symlink_keeps) simp_all

lemma set_dir_mode_quiet:
  "written_bytes (snd (root_dir (fst (set_dir_mode (logged ops) root path mode))))
   = written_bytes (snd (root_dir root))"
  by (rule quiet.set_dir_mode_keeps) simp_all

lemmas root_quiet = create_file_quiet create_dir_quiet remove_file_quiet create_symlink_quiet
  verify_symlink_quiet set_dir_mode_quiet

lemma copy_content_written:
  assumes "copy_content (logged_env env) path declared x = (x', copied)"
  shows "\<exists>data. written_bytes (log_of x') = written_bytes (log_of x) @ data
      \<and> prefix data (take (sat_add declared 1) (content (x_data x)))
      \<and> (\<forall>w. copied = Inr w \<longrightarrow>
            data = take (sat_add declared 1) (content (x_data x)) \<and> w = length data)"
    and "x_budget x' = x_budget x" and "x_summary x' = x_summary x"
proof -
  let ?start = "\<lparr> out_dir = root_dir (x_root x), out_buf = [], out_rep = x_reporter x \<rparr>"
  let ?goal = "take (sat_add declared 1) (content (x_data x))"
  obtain c1 r got where loop: "copy_loop (logged (env_dir env)) (env_clock env) path
      (sat_add declared 1) 0 (x_data x) ?start = (c1, r, got)"
    by (metis prod_cases3)
  have base: "prefix (written_to c1 @ out_buf c1) (written_bytes (log_of x) @ ?goal)"
    "got = Inr w \<Longrightarrow> w = length ?goal \<and> written_to c1 @ out_buf c1 = written_bytes (log_of x) @ ?goal"
    for w
    using copy_loop_content [OF loop] by simp_all
  obtain c2 got2 where flushed: "(case got of Inl e \<Rightarrow> (c1, Inl e)
      | Inr w \<Rightarrow> sbind (flush_buf (logged (env_dir env)) path c1) (\<lambda>c _. (c, Inr w))) = (c2, got2)"
    by (metis surj_pair)
  have second: "written_to c2 @ out_buf c2 = written_to c1 @ out_buf c1"
    "got2 = Inr w \<Longrightarrow> got = Inr w \<and> out_buf c2 = []" for w
    using flushed by (auto simp: sbind_def dest: flush_buf_content split: sum.splits prod.splits)
  obtain c3 u where third: "flush_buf (logged (env_dir env)) path c2 = (c3, u)"
    by (metis surj_pair)
  have dropped: "written_to c3 @ out_buf c3 = written_to c2 @ out_buf c2"
    "out_buf c2 = [] \<Longrightarrow> c3 = c2"
    using flush_buf_content(1) [OF third] third by (auto simp: flush_buf_def)
  have out: "x' = x\<lparr>x_root := (x_root x)\<lparr>root_dir := out_dir c3\<rparr>, x_reporter := out_rep c3, x_data := r\<rparr>"
    "copied = got2"
    using assms [unfolded copy_content_def logged_env_simps Let_def] loop flushed third by auto
  show "x_budget x' = x_budget x" "x_summary x' = x_summary x"
    by (simp_all add: out)
  have "prefix (written_bytes (log_of x)) (written_to c1)"
    using growing.copy_loop_keeps [of _ ?start] loop by (metis copying.select_convs(1) fst_conv prefix_order.refl)
  moreover have "prefix (written_to c1) (written_to c2)"
  proof -
    have "prefix (written_to c1) (written_to (fst (flush_buf (logged (env_dir env)) path c1)))"
      by (rule growing.flush_buf_keeps) simp_all
    with flushed show ?thesis
      by (auto simp: sbind_def split: sum.splits prod.splits)
  qed
  moreover have "prefix (written_to c2) (written_to c3)"
    using third growing.flush_buf_keeps [of _ c2] by (metis fst_conv prefix_order.refl)
  ultimately have "prefix (written_bytes (log_of x)) (written_to c3)"
    by (meson prefix_order.trans)
  then obtain data where data: "written_to c3 = written_bytes (log_of x) @ data"
    by (auto elim: prefixE)
  have "prefix (written_to c3 @ out_buf c3) (written_bytes (log_of x) @ ?goal)"
    using base(1) second(1) dropped(1) by simp
  then have "prefix data ?goal"
    by (simp add: data) (meson append_prefixD same_prefix_prefix)
  moreover have "data = ?goal \<and> w = length data" if "copied = Inr w" for w
  proof -
    from that have "got = Inr w" "out_buf c2 = []"
      using second(2) by (simp_all add: out)
    with base(2) second(1) dropped data have "data = ?goal"
      by simp
    with base(2) \<open>got = Inr w\<close> show ?thesis
      by (simp only:)
  qed
  ultimately show "\<exists>data. written_bytes (log_of x') = written_bytes (log_of x) @ data
      \<and> prefix data ?goal \<and> (\<forall>w. copied = Inr w \<longrightarrow> data = ?goal \<and> w = length data)"
  proof (intro exI [of _ data] conjI allI impI)
    show "written_bytes (log_of x') = written_bytes (log_of x) @ data"
      by (simp add: out(1) data)
  qed blast+
qed

lemma written_remove:
  "written_bytes (log_of (fst (on_root (\<lambda>root. remove_file (logged ops) root path) x)))
   = written_bytes (log_of x)"
  by (cases "on_root (\<lambda>root. remove_file (logged ops) root path) x")
    (auto dest!: on_root_quiet simp: root_quiet)

lemma on_root_kept:
  assumes "on_root f x = (x', r)"
  shows "x_budget x' = x_budget x \<and> x_summary x' = x_summary x \<and> x_data x' = x_data x
    \<and> x_links x' = x_links x \<and> x_dir_modes x' = x_dir_modes x"
  using assms by (auto simp: on_root_def split: prod.splits)

lemmas on_root_same = on_root_kept [THEN conjunct1] on_root_kept [THEN conjunct2, THEN conjunct1]
  on_root_kept [THEN conjunct2, THEN conjunct2, THEN conjunct1]

text \<open>Visiting a file: whatever happens, the bytes that reach the files are the beginning of
  the entry's content, at most one past its declared size; and when the visit succeeds, they
  are what was read of it, no more than declared, and the budget and the summary count them.\<close>

lemma on_budget_same:
  assumes "on_budget f x = (x', r)"
  shows "x_root x' = x_root x" "x_summary x' = x_summary x" "x_data x' = x_data x"
    "f (x_budget x) = (x_budget x', r)"
  using assms by (auto simp: on_budget_def split: prod.splits)

lemma visit_file_failed:
  assumes "visit_file env entry path x = (x', Inl e)"
  obtains
    (budget) "on_budget (reserve (env_options env) (entry_size entry)) x = (x', Inl e)"
  | (create) x1 u m where
      "on_budget (reserve (env_options env) (entry_size entry)) x = (x1, Inr u)"
      "on_root (\<lambda>root. create_file (env_dir env) (env_platform env) root path m) x1 = (x', Inl e)"
  | (copy) x1 u m x2 v x3 copied where
      "on_budget (reserve (env_options env) (entry_size entry)) x = (x1, Inr u)"
      "on_root (\<lambda>root. create_file (env_dir env) (env_platform env) root path m) x1 = (x2, Inr v)"
      "copy_content env path (entry_size entry) x2 = (x3, copied)"
      "x' = fst (on_root (\<lambda>root. remove_file (env_dir env) root path) x3)"
proof -
  define m where "m = map_option permissions
    (case file_mode (env_options env) of Some m \<Rightarrow> Some m | None \<Rightarrow> entry_mode entry)"
  obtain x1 r1 where b: "on_budget (reserve (env_options env) (entry_size entry)) x = (x1, r1)"
    by (metis surj_pair)
  obtain x2 r2 where f:
    "on_root (\<lambda>root. create_file (env_dir env) (env_platform env) root path m) x1 = (x2, r2)"
    by (metis surj_pair)
  obtain x3 copied where c: "copy_content env path (entry_size entry) x2 = (x3, copied)"
    by (metis surj_pair)
  note visit = assms [unfolded visit_file_def Let_def m_def [symmetric] b]
  show thesis
  proof (cases r1)
    case (Inl e1)
    with visit b show thesis
      by (intro budget) simp
  next
    case r1: (Inr u)
    show thesis
    proof (cases r2)
      case (Inl e2)
      with visit r1 f b show thesis
        by (intro create [of x1 u m]) simp_all
    next
      case (Inr v)
      with visit r1 f c have "x' = fst (on_root (\<lambda>root. remove_file (env_dir env) root path) x3)"
        by (auto split: sum.splits if_splits)
      with r1 Inr b f c show thesis
        by (intro copy [of x1 u m x2 v x3 copied]) simp_all
    qed
  qed
qed

lemma visit_file_done:
  assumes "visit_file env entry path x = (x', Inr u)"
  obtains x1 u1 m x2 u2 x3 w where
    "on_budget (reserve (env_options env) (entry_size entry)) x = (x1, Inr u1)"
    "on_root (\<lambda>root. create_file (env_dir env) (env_platform env) root path m) x1 = (x2, Inr u2)"
    "copy_content env path (entry_size entry) x2 = (x3, Inr w)"
    "w \<le> entry_size entry"
    "x' = x3\<lparr>x_budget := settle (entry_size entry) w (x_budget x3),
             x_summary := (x_summary x3)
               \<lparr>s_files := wrap_add (s_files (x_summary x3)) 1,
                s_bytes := wrap_add (s_bytes (x_summary x3)) w\<rparr>\<rparr>"
  using assms unfolding visit_file_def Let_def sbind_Inr
  by (elim exE conjE) (auto split: prod.splits sum.splits if_splits)

lemma visit_file_written:
  assumes "visit_file (logged_env env) entry path x = (x', r)"
  obtains data where
    "written_bytes (log_of x') = written_bytes (log_of x) @ data"
    "prefix data (take (sat_add (entry_size entry) 1) (content (x_data x)))"
    "data \<noteq> [] \<Longrightarrow> snd (reserve (env_options env) (entry_size entry) (x_budget x)) = Inr ()"
    "r = Inr () \<Longrightarrow> data = take (sat_add (entry_size entry) 1) (content (x_data x))
       \<and> length data \<le> entry_size entry
       \<and> reserve (env_options env) (entry_size entry) (x_budget x)
          = ((x_budget x)\<lparr>used_bytes := sat_add (used_bytes (x_budget x)) (entry_size entry)\<rparr>, Inr ())
       \<and> x_budget x' = settle (entry_size entry) (length data)
          ((x_budget x)\<lparr>used_bytes := sat_add (used_bytes (x_budget x)) (entry_size entry)\<rparr>)
       \<and> x_summary x' = (x_summary x)\<lparr>s_files := wrap_add (s_files (x_summary x)) 1,
            s_bytes := wrap_add (s_bytes (x_summary x)) (length data)\<rparr>"
proof (cases r)
  case (Inr u)
  with assms have ok: "visit_file (logged_env env) entry path x = (x', Inr u)"
    by simp
  from visit_file_done [OF ok] obtain x1 u1 m x2 u2 x3 w where steps:
    "on_budget (reserve (env_options env) (entry_size entry)) x = (x1, Inr u1)"
    "on_root (\<lambda>root. create_file (logged (env_dir env)) (env_platform env) root path m) x1 = (x2, Inr u2)"
    "copy_content (logged_env env) path (entry_size entry) x2 = (x3, Inr w)"
    "w \<le> entry_size entry"
    "x' = x3\<lparr>x_budget := settle (entry_size entry) w (x_budget x3),
             x_summary := (x_summary x3)
               \<lparr>s_files := wrap_add (s_files (x_summary x3)) 1,
                s_bytes := wrap_add (s_bytes (x_summary x3)) w\<rparr>\<rparr>"
    by (metis logged_env_simps)
  note b = on_budget_same [OF steps(1)] and f = on_root_same [OF steps(2)]
  from copy_content_written [OF steps(3)] obtain data where data:
    "written_bytes (log_of x3) = written_bytes (log_of x2) @ data"
    "data = take (sat_add (entry_size entry) 1) (content (x_data x2))" "w = length data"
    by auto
  have "written_bytes (log_of x2) = written_bytes (log_of x)"
    using on_root_quiet [OF steps(2) create_file_quiet] b by simp
  moreover have "reserve (env_options env) (entry_size entry) (x_budget x)
      = ((x_budget x)\<lparr>used_bytes := sat_add (used_bytes (x_budget x)) (entry_size entry)\<rparr>, Inr ())"
    using b(4) by (auto simp: reserve_def split: if_splits)
  ultimately show thesis
    using that [of data] data steps(4,5) b f copy_content_written(2,3) [OF steps(3)] Inr
    by simp
next
  case (Inl e)
  with assms have failed: "visit_file (logged_env env) entry path x = (x', Inl e)"
    by simp
  have quiet: "written_bytes (log_of x2) = written_bytes (log_of x)"
    if "on_budget g x = (x1, r1)"
      "on_root (\<lambda>root. create_file (logged (env_dir env)) (env_platform env) root path m) x1 = (x2, r2)"
    for g x1 x2 r1 r2 m
    using on_root_quiet [OF that(2) create_file_quiet] on_budget_same(1) [OF that(1)] by simp
  from failed show thesis
  proof (cases rule: visit_file_failed)
    case budget
    with on_budget_same(1) [OF this] Inl show thesis
      by (intro that [of "[]"]) simp_all
  next
    case (create x1 u m)
    with quiet [of _ x1] Inl show thesis
      by (intro that [of "[]"]) simp_all
  next
    case (copy x1 u m x2 v x3 copied)
    from copy_content_written(1) [OF copy(3)] obtain data where data:
      "written_bytes (log_of x3) = written_bytes (log_of x2) @ data"
      "prefix data (take (sat_add (entry_size entry) 1) (content (x_data x2)))"
      by blast
    with copy quiet [of _ x1] on_budget_same [OF copy(1)] on_root_same(3) [OF copy(2)] Inl
    show thesis
      by (intro that [of data]) (simp_all add: written_remove)
  qed
qed

end
