(* ===== verification/Extract_Budget.thy ===== *)
theory Extract_Budget
  imports Archives Extract_Content "HOL-Library.Multiset"
begin

text \<open>
  The ceilings of an extraction, over whole archives of every format: how many bytes reach
  the disk, how many entries are read, and that the summary accounts for each of them.
\<close>

section \<open>Visits that write no content\<close>

definition same_content ::
    "('d \<times> dir_call list) extractor \<Rightarrow> ('d \<times> dir_call list) extractor \<Rightarrow> bool" where
  "same_content x y = (x_budget y = x_budget x \<and> s_bytes (x_summary y) = s_bytes (x_summary x)
     \<and> written_bytes (log_of y) = written_bytes (log_of x))"

lemma same_content_refl [simp]: "same_content x x"
  by (simp add: same_content_def)

lemma same_content_on_root:
  assumes "same_content x y"
    and "\<And>root. written_bytes (snd (root_dir (fst (f root)))) = written_bytes (snd (root_dir root))"
  shows "same_content x (fst (on_root f y))"
  using assms by (cases "f (x_root y)") (auto simp: same_content_def on_root_def, metis fst_conv)

lemma same_content_skip: "same_content x y \<Longrightarrow> same_content x (fst (skip_entry y))"
  by (simp add: same_content_def skip_entry_def)

lemma visit_dir_same: "same_content x (fst (visit_dir (logged_env env) path mode x))"
  unfolding visit_dir_def
  by (rule sbind_keeps [where Q = "same_content x"])
    (auto intro!: same_content_on_root simp: root_quiet,
     auto simp: same_content_def Let_def split: option.split)

lemma visit_symlink_same: "same_content x (fst (visit_symlink (logged_env env) entry path x))"
proof -
  have "same_content x (fst (case link_target entry of Some target \<Rightarrow> (x, Inr target)
     | None \<Rightarrow> (case read_link_target (x_data x) of (r, res) \<Rightarrow> (x\<lparr>x_data := r\<rparr>, res))))"
    by (auto simp: same_content_def split: option.splits prod.splits)
  moreover have "same_content x (y\<lparr>x_links := l, x_summary := (x_summary y)\<lparr>s_symlinks := n\<rparr>\<rparr>)"
    if "same_content x y" for y l n
    using that by (simp add: same_content_def)
  ultimately show ?thesis
    unfolding visit_symlink_def Let_def
    by (auto intro!: sbind_keeps [where Q = "same_content x"] same_content_skip same_content_on_root
        simp: root_quiet)
qed

lemma verify_links_quiet:
  "written_bytes (snd (root_dir (fst (verify_links (logged_env env) ls root))))
   = written_bytes (snd (root_dir root))"
proof (induction ls arbitrary: root)
  case (Cons l rest)
  obtain path link target where l: "l = (path, link, target)"
    by (metis prod_cases3)
  show ?case
    unfolding l verify_links.simps
    by (rule sbind_keeps [where Q = "\<lambda>r. written_bytes (snd (root_dir r)) = written_bytes (snd (root_dir root))"])
      (simp_all add: root_quiet Cons.IH)
qed simp

lemma apply_modes_quiet:
  "written_bytes (snd (root_dir (fst (apply_modes (logged_env env) ms root))))
   = written_bytes (snd (root_dir root))"
proof (induction ms arbitrary: root)
  case (Cons pm rest)
  obtain path mode where pm: "pm = (path, mode)"
    by (metis surj_pair)
  show ?case
    unfolding pm apply_modes.simps
    by (rule sbind_keeps [where Q = "\<lambda>r. written_bytes (snd (root_dir r)) = written_bytes (snd (root_dir root))"])
      (simp_all add: root_quiet Cons.IH)
qed simp

lemma finish_same: "same_content x (fst (finish (logged_env env) x))"
proof -
  have "same_content x (fst (on_root (apply_modes (logged_env env) ms) (y\<lparr>x_dir_modes := l\<rparr>)))"
    if "same_content x y" for y l ms
    using that by (intro same_content_on_root) (simp_all add: same_content_def apply_modes_quiet)
  then show ?thesis
    unfolding finish_def Let_def
    by (auto intro!: sbind_keeps [where Q = "same_content x"] same_content_on_root
        simp: verify_links_quiet)
qed

lemma finish_summary: "finish env x = (x', Inr s) \<Longrightarrow> s = x_summary x"
  by (auto simp: finish_def sbind_Inr Let_def split: if_splits dest!: on_root_same(2))

section \<open>Staying in the budget\<close>

text \<open>Between visits, the bytes the budget counts, the bytes the summary counts and the bytes
  the files received are the same number, below the ceiling.\<close>

definition in_budget :: "nat \<Rightarrow> ('d \<times> dir_call list) extractor \<Rightarrow> bool" where
  "in_budget m x = (used_bytes (x_budget x) = s_bytes (x_summary x)
     \<and> s_bytes (x_summary x) = length (written_bytes (log_of x)) \<and> s_bytes (x_summary x) \<le> m)"

lemma in_budget_same: "in_budget m x \<Longrightarrow> same_content x y \<Longrightarrow> in_budget m y"
  by (simp add: in_budget_def same_content_def)

lemma visit_file_budget:
  assumes "in_budget m x" and "max_total_bytes (env_options env) = Some m" and "m < u64_max"
    and "visit_file (logged_env env) entry path x = (x', r)"
  shows "length (written_bytes (log_of x')) \<le> m + 1"
    and "r = Inr () \<Longrightarrow> in_budget m x'"
proof -
  let ?d = "entry_size entry"
  from visit_file_written [OF assms(4)] obtain data where data:
    "written_bytes (log_of x') = written_bytes (log_of x) @ data"
    "prefix data (take (sat_add ?d 1) (content (x_data x)))"
    "data \<noteq> [] \<Longrightarrow> snd (reserve (env_options env) ?d (x_budget x)) = Inr ()"
    and ok: "r = Inr () \<Longrightarrow> length data \<le> ?d
       \<and> reserve (env_options env) ?d (x_budget x)
          = ((x_budget x)\<lparr>used_bytes := sat_add (used_bytes (x_budget x)) ?d\<rparr>, Inr ())
       \<and> x_budget x' = settle ?d (length data)
          ((x_budget x)\<lparr>used_bytes := sat_add (used_bytes (x_budget x)) ?d\<rparr>)
       \<and> x_summary x' = (x_summary x)\<lparr>s_files := wrap_add (s_files (x_summary x)) 1,
            s_bytes := wrap_add (s_bytes (x_summary x)) (length data)\<rparr>"
    by metis
  have room: "sat_add (used_bytes (x_budget x)) ?d \<le> m"
    if "snd (reserve (env_options env) ?d (x_budget x)) = Inr ()"
    using that assms(2) by (auto simp: reserve_def over_def split: if_splits)
  have len: "length data \<le> sat_add ?d 1"
    using data(2) by (auto dest: prefix_length_le)
  show "length (written_bytes (log_of x')) \<le> m + 1"
    using assms(1,3) data(1,3) room len
    by (cases "data = []") (auto simp: in_budget_def sat_add_def min_def split: if_splits)
  show "in_budget m x'" if "r = Inr ()"
    using ok [OF that] room assms(1,3) data(1)
    by (auto simp: in_budget_def settle_def sat_sub_def sat_add_def wrap_add_def u64_max_def min_def
        split: if_splits)
qed

lemma visit_budget:
  assumes "in_budget m x" and "max_total_bytes (env_options env) = Some m" and "m < u64_max"
    and "visit (logged_env env) entry data x = (x', r)"
  shows "length (written_bytes (log_of x')) \<le> m + 1"
    and "r = Inr () \<Longrightarrow> in_budget m x'"
proof -
  obtain x1 r1 where entry: "visit_entry (logged_env env) entry (x\<lparr>x_data := data\<rparr>) = (x1, r1)"
    by (metis surj_pair)
  obtain x0 r0 where counted: "on_budget (count_entry (env_options env)) (x\<lparr>x_data := data\<rparr>) = (x0, r0)"
    by (metis surj_pair)
  have "in_budget m x0"
    using counted assms(1)
    by (auto simp: on_budget_def count_entry_def Let_def in_budget_def split: option.splits if_splits)
  have small: "length (written_bytes (log_of y)) \<le> m + 1" if "in_budget m y" for y
    using that by (simp add: in_budget_def)
  have same: "in_budget m y" if "same_content x0 y" for y
    using \<open>in_budget m x0\<close> that by (rule in_budget_same)
  have "length (written_bytes (log_of x1)) \<le> m + 1 \<and> (r1 = Inr () \<longrightarrow> in_budget m x1)"
  proof (cases "r0 = Inr () \<and> (\<exists>cs. validate_entry_name (entry_name entry) = Inr cs \<and> cs \<noteq> []
      \<and> entry_kind_of entry = File)")
    case True
    then obtain cs where "visit_file (logged_env env) entry cs x0 = (x1, r1)"
      using entry counted by (auto simp: visit_entry_def)
    from visit_file_budget [OF \<open>in_budget m x0\<close> assms(2,3) this] show ?thesis
      by simp
  next
    case False
    have "same_content x0 x1"
      using entry counted False visit_dir_same [of x0 env] visit_symlink_same [of x0 env entry]
        same_content_skip [OF same_content_refl, of x0]
      by (cases r0; cases "validate_entry_name (entry_name entry)"; cases "entry_kind_of entry")
        (auto simp: visit_entry_def split: if_splits, (metis fst_conv)+)
    with same small show ?thesis
      by blast
  qed
  moreover have "log_of x' = log_of x1" "x_budget x' = x_budget x1" "x_summary x' = x_summary x1"
    "r = r1"
    using assms(4) entry by (auto simp: visit_def split: sum.splits)
  ultimately show "length (written_bytes (log_of x')) \<le> m + 1" "r = Inr () \<Longrightarrow> in_budget m x'"
    by (auto simp: in_budget_def)
qed

section \<open>Counting entries\<close>

definition accounted :: "extract_summary \<Rightarrow> nat" where
  "accounted s = s_files s + s_directories s + s_symlinks s + s_skipped s"

definition entry_limit_ok :: "extract_options \<Rightarrow> nat \<Rightarrow> bool" where
  "entry_limit_ok options n = (case max_entries options of Some m \<Rightarrow> n \<le> m | None \<Rightarrow> True)"

lemma wrap_add_one: "n < u64_max \<Longrightarrow> wrap_add n (Suc 0) = Suc n"
  by (simp add: wrap_add_exact)

lemma accounted_step:
  assumes "accounted s < u64_max"
  shows "accounted (s\<lparr>s_skipped := wrap_add (s_skipped s) (Suc 0)\<rparr>) = Suc (accounted s)"
    and "accounted (s\<lparr>s_directories := wrap_add (s_directories s) (Suc 0)\<rparr>) = Suc (accounted s)"
    and "accounted (s\<lparr>s_symlinks := wrap_add (s_symlinks s) (Suc 0)\<rparr>) = Suc (accounted s)"
    and "accounted (s\<lparr>s_files := wrap_add (s_files s) (Suc 0), s_bytes := b\<rparr>) = Suc (accounted s)"
  using assms by (simp_all add: accounted_def wrap_add_one)

lemma skip_entry_counts:
  "accounted (x_summary x) < u64_max \<Longrightarrow> skip_entry x = (x', r) \<Longrightarrow>
     accounted (x_summary x') = Suc (accounted (x_summary x)) \<and> x_budget x' = x_budget x"
  by (auto simp: skip_entry_def accounted_step)

lemma visit_dir_counts:
  "accounted (x_summary x) < u64_max \<Longrightarrow> visit_dir env path mode x = (x', Inr u) \<Longrightarrow>
     accounted (x_summary x') = Suc (accounted (x_summary x)) \<and> x_budget x' = x_budget x"
  by (auto simp: visit_dir_def sbind_Inr Let_def accounted_step dest!: on_root_kept
      split: option.splits)

lemma visit_symlink_counts:
  "accounted (x_summary x) < u64_max \<Longrightarrow> visit_symlink env entry path x = (x', Inr u) \<Longrightarrow>
     accounted (x_summary x') = Suc (accounted (x_summary x)) \<and> x_budget x' = x_budget x"
  by (auto simp: visit_symlink_def sbind_Inr Let_def skip_entry_def accounted_step
      dest!: on_root_kept split: if_splits option.splits prod.splits)

lemma reserve_entries: "reserve options d b = (b', r) \<Longrightarrow> used_entries b' = used_entries b"
  by (auto simp: reserve_def split: if_splits)

lemma count_entry_done:
  "count_entry options b = (b', Inr u) \<Longrightarrow>
     used_entries b' = wrap_add (used_entries b) 1 \<and> entry_limit_ok options (used_entries b')"
  by (auto simp: count_entry_def Let_def entry_limit_ok_def split: option.splits if_splits)

lemma copy_content_same:
  "copy_content env path declared x = (x', copied) \<Longrightarrow>
     x_budget x' = x_budget x \<and> x_summary x' = x_summary x"
  by (auto simp: copy_content_def Let_def split: prod.splits)

lemma visit_file_counts:
  assumes "accounted (x_summary x) < u64_max" and "visit_file env entry path x = (x', Inr u)"
  shows "accounted (x_summary x') = Suc (accounted (x_summary x))
    \<and> used_entries (x_budget x') = used_entries (x_budget x)"
proof -
  from assms(2) obtain x1 u1 m x2 u2 x3 w where steps:
    "on_budget (reserve (env_options env) (entry_size entry)) x = (x1, Inr u1)"
    "on_root (\<lambda>root. create_file (env_dir env) (env_platform env) root path m) x1 = (x2, Inr u2)"
    "copy_content env path (entry_size entry) x2 = (x3, Inr w)"
    "x' = x3\<lparr>x_budget := settle (entry_size entry) w (x_budget x3),
             x_summary := (x_summary x3)
               \<lparr>s_files := wrap_add (s_files (x_summary x3)) 1,
                s_bytes := wrap_add (s_bytes (x_summary x3)) w\<rparr>\<rparr>"
    by (rule visit_file_done)
  have "used_entries (x_budget x1) = used_entries (x_budget x)"
    by (rule reserve_entries [OF on_budget_same(4) [OF steps(1)]])
  with assms(1) steps(4) on_budget_same(2) [OF steps(1)] on_root_kept [OF steps(2)]
    copy_content_same [OF steps(3)]
  show ?thesis
    by (simp add: accounted_step settle_def)
qed

lemma visit_counts:
  assumes "accounted (x_summary x) < u64_max" and "visit env entry data x = (x', Inr u)"
  shows "accounted (x_summary x') = Suc (accounted (x_summary x))"
    and "used_entries (x_budget x') = wrap_add (used_entries (x_budget x)) 1"
    and "entry_limit_ok (env_options env) (used_entries (x_budget x'))"
proof -
  from assms(2) obtain x1 where entry: "visit_entry env entry (x\<lparr>x_data := data\<rparr>) = (x1, Inr ())"
    and x': "x_budget x' = x_budget x1" "x_summary x' = x_summary x1"
    by (auto simp: visit_def split: prod.splits sum.splits)
  from entry obtain x0 u0 cs where counted:
    "on_budget (count_entry (env_options env)) (x\<lparr>x_data := data\<rparr>) = (x0, Inr u0)"
    and rest: "(if cs = [] then skip_entry x0 else case entry_kind_of entry of
        Dir \<Rightarrow> visit_dir env cs (entry_mode entry) x0
      | File \<Rightarrow> visit_file env entry cs x0
      | Symlink_Kind \<Rightarrow> visit_symlink env entry cs x0
      | Other \<Rightarrow> skip_entry x0) = (x1, Inr ())"
    by (auto simp: visit_entry_def sbind_Inr)
  have count: "used_entries (x_budget x0) = wrap_add (used_entries (x_budget x)) 1"
    "entry_limit_ok (env_options env) (used_entries (x_budget x0))" "x_summary x0 = x_summary x"
    using on_budget_same(2) [OF counted] count_entry_done [OF on_budget_same(4) [OF counted]]
    by auto
  have "accounted (x_summary x1) = Suc (accounted (x_summary x0))
      \<and> used_entries (x_budget x1) = used_entries (x_budget x0)"
    using rest assms(1) count(3)
    by (auto split: if_splits entry_kind.splits dest!: skip_entry_counts [rotated]
        visit_dir_counts [rotated] visit_file_counts [rotated] visit_symlink_counts [rotated])
  with count x' show "accounted (x_summary x') = Suc (accounted (x_summary x))"
    "used_entries (x_budget x') = wrap_add (used_entries (x_budget x)) 1"
    "entry_limit_ok (env_options env) (used_entries (x_budget x'))"
    by simp_all
qed

text \<open>After \<open>n\<close> successful visits both counts stand at \<open>n\<close>, below the ceiling.\<close>

definition counted :: "extract_options \<Rightarrow> nat \<Rightarrow> 'd extractor \<Rightarrow> bool" where
  "counted options n x = (accounted (x_summary x) = n \<and> used_entries (x_budget x) = n
     \<and> (0 < n \<longrightarrow> entry_limit_ok options n))"

lemma counted_visit:
  "counted (env_options env) n x \<Longrightarrow> n < u64_max \<Longrightarrow> visit env entry data x = (x', Inr u) \<Longrightarrow>
     counted (env_options env) (Suc n) x'"
  using visit_counts [of x env entry data x' u]
  by (auto simp: counted_def wrap_add_one)

lemma counted_zip:
  "\<lbrakk>counted (env_options env) n x; n + length items \<le> u64_max; zip_loop env items x = (x', Inr u)\<rbrakk>
     \<Longrightarrow> counted (env_options env) (n + length items) x'"
  by (induction items arbitrary: n x)
    (force simp: sbind_Inr Let_def dest: counted_visit)+

lemma counted_tar:
  "\<lbrakk>counted (env_options env) n x; n + length items \<le> u64_max; tar_loop env items x = (x', Inr u)\<rbrakk>
     \<Longrightarrow> counted (env_options env) (n + length items) x'"
  by (induction items arbitrary: n x)
    (force simp: sbind_Inr Let_def dest: counted_visit)+

lemma counted_7z:
  "\<lbrakk>counted (env_options env) n x; n + length items \<le> u64_max; sevenz_walk env items x = (x', Inr u)\<rbrakk>
     \<Longrightarrow> counted (env_options env) (n + length items) x'"
  by (induction items arbitrary: n x)
    (force simp: sbind_Inr Let_def dest: counted_visit)+

section \<open>Whole extractions\<close>

interpretation harmless_run: visitor "logged_env env"
    "extract_dir.extractor_ok (\<lambda>s. list_all (safe_call (env_options env) (env_platform env)) (snd s))"
    "extract_dir.extractor_ok (\<lambda>s. list_all (safe_call (env_options env) (env_platform env)) (snd s))"
  for env :: "'d env"
  by unfold_locales
    (metis fst_conv harmless.visit_keeps, metis fst_conv harmless.visit_keeps,
     metis fst_conv harmless.finish_keeps, metis fst_conv harmless.finish_keeps)

text \<open>The ceiling on bytes, when there is one below the largest number.\<close>

definition byte_limit :: "extract_options \<Rightarrow> nat option" where
  "byte_limit options =
    (case max_total_bytes options of Some m \<Rightarrow> if m < u64_max then Some m else None | None \<Rightarrow> None)"

definition within :: "extract_options \<Rightarrow> ('d \<times> dir_call list) extractor \<Rightarrow> bool" where
  "within options x = (\<forall>m. byte_limit options = Some m \<longrightarrow> in_budget m x)"

definition barely_within :: "extract_options \<Rightarrow> ('d \<times> dir_call list) extractor \<Rightarrow> bool" where
  "barely_within options x =
    (\<forall>m. byte_limit options = Some m \<longrightarrow> length (written_bytes (log_of x)) \<le> m + 1)"

lemma byte_limit_Some:
  "byte_limit options = Some m \<longleftrightarrow> max_total_bytes options = Some m \<and> m < u64_max"
  by (auto simp: byte_limit_def split: option.splits)

lemma within_finish:
  assumes "within options x" and "finish (logged_env env) x = (x', r)"
  shows "within options x'"
  using assms finish_same [of x env] by (auto simp: within_def intro: in_budget_same)

interpretation budget_run: visitor "logged_env env" "within (env_options env)"
    "barely_within (env_options env)"
  for env :: "'d env"
proof unfold_locales
  fix x entry data x' u
  assume "within (env_options env) x" "visit (logged_env env) entry data x = (x', Inr u)"
  then show "within (env_options env) x'"
    by (auto simp: within_def byte_limit_Some intro: visit_budget(2))
next
  fix x entry data x' e
  assume "within (env_options env) x" "visit (logged_env env) entry data x = (x', Inl e)"
  then show "barely_within (env_options env) x'"
    unfolding within_def barely_within_def byte_limit_Some by (blast intro: visit_budget(1))
next
  fix x :: "('d \<times> dir_call list) extractor"
  show "barely_within (env_options env) x" if "within (env_options env) x"
    using that by (auto simp: within_def barely_within_def in_budget_def)
  then show "barely_within (env_options env) x'"
    if "within (env_options env) x" "finish (logged_env env) x = (x', Inl e)" for x' e
    using within_finish [OF that] by (auto simp: within_def barely_within_def in_budget_def)
qed (rule within_finish)

lemma run_extraction_summary:
  assumes "run_extraction env loop x = (x', Inr s)"
  shows "s = x_summary x'"
  using assms
  by (auto simp: run_extraction_def finish_def sbind_Inr Let_def split: if_splits)

lemma extract_as_summary:
  assumes "extract_as env format archive create_dir_all root_d = Inr (x', Inr s)"
  shows "s = x_summary x'"
  using assms
  by (cases format)
    (auto simp: extract_as_def unzip_def un7zip_def untar_xz_def rbind_Inr sbind_Inr
      dest: run_extraction_summary)

text \<open>The entries an archive yields.\<close>

definition entry_total :: "archive_format \<Rightarrow> archive_file \<Rightarrow> nat" where
  "entry_total format archive =
    (case format of
       Zip_Format \<Rightarrow> (case as_zip archive of Inr (items, _) \<Rightarrow> length items | _ \<Rightarrow> 0)
     | SevenZ_Format \<Rightarrow> length (as_7z_yielded archive)
     | TarXz_Format \<Rightarrow> (case as_tar_entries archive of Inr items \<Rightarrow> length items | _ \<Rightarrow> 0))"

lemma counted_new: "counted options 0 (new_extractor env root t)"
  by (simp add: counted_def new_extractor_def empty_summary_def new_budget_def accounted_def)

lemma finish_kept:
  assumes "finish env x = (x', Inr s)"
  shows "x_budget x' = x_budget x \<and> x_summary x' = x_summary x"
proof -
  from assms obtain x1 u where links: "on_root (verify_links env (x_links x)) x = (x1, Inr u)"
    and modes: "x' = x1 \<or> (\<exists>ms v. on_root (apply_modes env ms) (x1\<lparr>x_dir_modes := ms\<rparr>) = (x', Inr v))"
    by (auto simp: finish_def sbind_Inr Let_def split: if_splits)
  from modes on_root_same(1,2) [OF links] show ?thesis
    by (elim disjE exE) (simp_all, metis extractor.select_convs on_root_same(1,2)
      extractor.surjective extractor.update_convs(3))
qed

lemma counted_finish:
  "counted options n x \<Longrightarrow> finish env x = (x', Inr s) \<Longrightarrow> counted options n x'"
  by (drule finish_kept) (simp add: counted_def)

lemma counted_run:
  assumes "run_extraction env loop x = (x', Inr s)"
    and "\<And>y u. loop x = (y, Inr u) \<Longrightarrow> counted options n y"
  shows "counted options n x'"
  using assms by (auto simp: run_extraction_def sbind_Inr intro: counted_finish)

lemma counted_extract:
  assumes "extract_as env format archive create_dir_all root_d = Inr (x', Inr s)"
    and "entry_total format archive \<le> u64_max"
  shows "counted (env_options env) (entry_total format archive) x'"
proof (cases format)
  case Zip_Format
  then obtain items size root t where "as_zip archive = Inr (items, size)"
    and "run_extraction env (zip_loop env items) (new_extractor env root t) = (x', Inr s)"
    using assms(1) by (auto simp: extract_as_def unzip_def extractor_new_def rbind_Inr)
  with Zip_Format assms(2) show ?thesis
    using counted_zip [OF counted_new, where env = env and items = items]
    by (auto simp: entry_total_def elim!: counted_run)
next
  case SevenZ_Format
  then obtain root t where "run_extraction env (\<lambda>x. sbind (sevenz_walk env (as_7z_yielded archive) x)
      (\<lambda>x _. (x, map_err SevenZ (as_7z_end archive)))) (new_extractor env root t) = (x', Inr s)"
    using assms(1) by (auto simp: extract_as_def un7zip_def extractor_new_def rbind_Inr)
  with SevenZ_Format assms(2) show ?thesis
    using counted_7z [OF counted_new, where env = env and items = "as_7z_yielded archive"]
    by (auto simp: entry_total_def sbind_Inr elim!: counted_run)
next
  case TarXz_Format
  then obtain items root t where "as_tar_entries archive = Inr items"
    and "run_extraction env (tar_loop env items) (new_extractor env root t) = (x', Inr s)"
    using assms(1)
    by (auto simp: extract_as_def untar_xz_def extractor_new_def rbind_Inr sbind_Inr map_err_Inr)
  with TarXz_Format assms(2) show ?thesis
    using counted_tar [OF counted_new, where env = env and items = items]
    by (auto simp: entry_total_def elim!: counted_run)
qed

text \<open>An archive of a directory, a file, a link and a device node, extracted into a directory
  that refuses nothing; the witnesses below run it.\<close>

definition willing_dir :: "unit dir_ops" where
  "willing_dir = \<lparr> create_dir_with = (\<lambda>d p m. (d, Inr ())), dir_metadata = (\<lambda>d p. Inr True),
     open_with = (\<lambda>d p m. (d, Inr ())), write_file = (\<lambda>d p b. (d, Inr ())),
     dir_remove_file = (\<lambda>d p. (d, Inr ())), dir_symlink = (\<lambda>d t p. (d, Inr ())),
     set_permissions = (\<lambda>d p m. (d, Inr ())) \<rparr>"

definition demo_env :: "unit env" where
  "demo_env = \<lparr> env_dir = willing_dir, env_platform = Linux, env_clock = (\<lambda>_. 0),
     env_options = default_options\<lparr>max_total_bytes := Some 10, max_entries := Some 4\<rparr> \<rparr>"

definition zip_item ::
    "string \<Rightarrow> nat \<Rightarrow> u32 option \<Rightarrow> bool \<Rightarrow> bool \<Rightarrow> read_event list \<Rightarrow> string + zip_entry" where
  "zip_item n sz mode link dir data =
    Inr \<lparr> z_name = Inr n, z_size = sz, z_mode = mode, z_is_symlink = link, z_is_dir = dir,
          z_data = data \<rparr>"

definition demo_archive :: archive_file where
  "demo_archive = \<lparr> as_zip = Inr ([zip_item ''d/'' 0 (Some 0x41FF) False True [],
       zip_item ''d/a.txt'' 3 (Some 0x81A4) False False [Chunk [1, 2], Chunk [3]],
       zip_item ''d/l'' 5 (Some 0xA1FF) True False [Chunk (of_text ''a.txt'')],
       zip_item ''dev'' 0 (Some 0x21A4) False False []], Some 8),
     as_7z_listed = Inr [], as_7z_yielded = [], as_7z_end = Inr (),
     as_tar_opened = Inr (), as_tar_entries = Inr [] \<rparr>"

definition demo_out :: "(unit \<times> dir_call list) extractor \<times> (fs_error + extract_summary)" where
  "demo_out = projr (extract_as (logged_env demo_env) Zip_Format demo_archive (Inr ()) (Inr ((), [])))"

lemma demo_run:
  "extract_as (logged_env demo_env) Zip_Format demo_archive (Inr ()) (Inr ((), []))
   = Inr (fst demo_out, snd demo_out)"
proof -
  have "\<not> isl (extract_as (logged_env demo_env) Zip_Format demo_archive (Inr ()) (Inr ((), [])))"
    by code_simp
  then show ?thesis
    by (simp add: demo_out_def)
qed

lemma demo_log:
  "snd (root_dir (x_root (fst demo_out))) =
    [Mkdir [''d''] (Some 0x1ED), Open [''d'', ''a.txt''] (Some 0x1A4),
     Write [''d'', ''a.txt''] [1, 2, 3], Symlink ''a.txt'' [''d'', ''l''], Chmod [''d''] 0x1ED]"
  by code_simp

lemma demo_summary:
  "snd demo_out = Inr \<lparr> s_files = 1, s_directories = 1, s_symlinks = 1, s_skipped = 1, s_bytes = 3 \<rparr>"
  by code_simp

text \<open>What \<open>finish\<close> asks of a link, of the directory as the entries left it.\<close>

definition link_contained :: "'d env \<Rightarrow> 'd \<Rightarrow> path \<Rightarrow> bool" where
  "link_contained env d path = (case dir_metadata (env_dir env) d path of
     Inr _ \<Rightarrow> True
   | Inl err \<Rightarrow> io_kind err = NotFound \<or> is_symlink_loop (env_platform env) err)"

lemma verify_symlink_done:
  "verify_symlink (env_dir env) (env_platform env) root path link target = (root', Inr u) \<Longrightarrow>
     root' = root \<and> link_contained env (root_dir root) path"
  by (auto simp: verify_symlink_def link_contained_def split: sum.splits if_splits)

lemma verify_links_done:
  "verify_links env ls root = (root', Inr u) \<Longrightarrow>
     root' = root \<and> list_all (\<lambda>(path, _, _). link_contained env (root_dir root) path) ls"
proof (induction ls arbitrary: root)
  case (Cons l rest)
  then show ?case
    by (cases l) (auto simp: sbind_Inr dest!: verify_symlink_done)
qed simp

lemma apply_modes_done:
  "apply_modes (logged_env env) ms root = (root', Inr u) \<Longrightarrow>
     snd (root_dir root') = snd (root_dir root) @ map (\<lambda>(path, mode). Chmod path mode) ms"
proof (induction ms arbitrary: root)
  case (Cons pm rest)
  then show ?case
    by (cases pm; cases "root_dir root")
      (auto simp: sbind_Inr set_dir_mode_def logged_def log_call_def map_err_Inr
        split: prod.splits dest!: Cons.IH)
qed simp

lemma deepest_first_sorted:
  "sorted_wrt (\<lambda>a b. length (fst b) \<le> length (fst a)) (deepest_first modes)"
proof -
  have "sorted (map (\<lambda>(path, _ :: u32). - int (length path)) (deepest_first modes))"
    by (simp add: deepest_first_def)
  then show ?thesis
    by (auto simp: sorted_wrt_map elim!: sorted_wrt_mono_rel [rotated])
qed

text \<open>A successful \<open>finish\<close> on Unix found every link the extraction made contained in the
  finished tree, and changed nothing but the recorded directory modes, each applied once and
  the deeper directories first.\<close>

theorem finish_checks_links_and_modes:
  assumes "finish (logged_env env) x = (x', Inr s)" and "is_unix (env_platform env)"
  shows "list_all (\<lambda>(path, _, _). link_contained env (fst (root_dir (x_root x))) path) (x_links x)
    \<and> (\<exists>modes. snd (root_dir (x_root x')) = snd (root_dir (x_root x))
          @ map (\<lambda>(path, mode). Chmod path mode) modes
        \<and> mset modes = mset (x_dir_modes x)
        \<and> sorted_wrt (\<lambda>a b. length (fst b) \<le> length (fst a)) modes)"
proof -
  let ?ms = "deepest_first (x_dir_modes x)"
  from assms obtain x1 u v where links: "on_root (verify_links (logged_env env) (x_links x)) x = (x1, Inr u)"
    and modes: "on_root (apply_modes (logged_env env) (deepest_first (x_dir_modes x1)))
      (x1\<lparr>x_dir_modes := deepest_first (x_dir_modes x1)\<rparr>) = (x', Inr v)"
    by (auto simp: finish_def sbind_Inr Let_def)
  from verify_links_done [OF on_root_parts(1) [OF links]]
  have same: "x_root x1 = x_root x"
    and contained: "list_all (\<lambda>(path, _, _). link_contained (logged_env env) (root_dir (x_root x)) path)
      (x_links x)"
    by auto
  have "link_contained (logged_env env) d path = link_contained env (fst d) path" for d path
    by (cases d) (auto simp: link_contained_def logged_def split: sum.splits)
  moreover have "snd (root_dir (x_root x')) = snd (root_dir (x_root x))
      @ map (\<lambda>(path, mode). Chmod path mode) ?ms"
    using apply_modes_done [OF on_root_parts(1) [OF modes]] on_root_kept [OF links] same by simp
  moreover have "mset ?ms = mset (x_dir_modes x)"
    by (simp add: deepest_first_def)
  ultimately show ?thesis
    using contained deepest_first_sorted by auto
qed

definition demo_tree :: "(unit \<times> dir_call list) extractor" where
  "demo_tree = (new_extractor (logged_env demo_env) \<lparr> root_dir = ((), []), root_created = {} \<rparr>
     \<lparr> t_entries = None, t_bytes = None \<rparr>)
     \<lparr>x_dir_modes := [([''a''], 0x1ED), ([''a'', ''b''], 0x140)],
      x_links := [([''l''], ''l'', ''a'')]\<rparr>"

theorem finish_checks_links_and_modes_witness:
  "link_contained demo_env () [''l'']
   \<and> snd (root_dir (x_root (fst (finish (logged_env demo_env) demo_tree))))
     = [Chmod [''a'', ''b''] 0x140, Chmod [''a''] 0x1ED]"
proof -
  have "\<not> isl (snd (finish (logged_env demo_env) demo_tree))"
    by code_simp
  then have run: "finish (logged_env demo_env) demo_tree
      = (fst (finish (logged_env demo_env) demo_tree),
         Inr (projr (snd (finish (logged_env demo_env) demo_tree))))"
    by simp
  have unix: "is_unix (env_platform demo_env)"
    by (simp add: demo_env_def)
  have "list_all (\<lambda>(path, _, _). link_contained demo_env () path) (x_links demo_tree)"
    using finish_checks_links_and_modes [OF run unix] by simp
  moreover have "snd (root_dir (x_root (fst (finish (logged_env demo_env) demo_tree))))
     = [Chmod [''a'', ''b''] 0x140, Chmod [''a''] 0x1ED]"
    by code_simp
  ultimately show ?thesis
    by (simp add: demo_tree_def)
qed

text \<open>C1. Whatever the archive of whatever format holds, and however the extraction ends, every
  call made on the target directory is harmless: its path consists of safe components below
  the root; directories are made with mode 0755 and end without write permission for others;
  files open with permission bits only; links are made only when the options allow them, on
  Unix, and only to targets the validator accepts for their place.\<close>

theorem extraction_calls_harmless:
  assumes "extract_as (logged_env env) format archive create_dir_all (Inr (d, []))
    = Inr (x', r)"
  shows "list_all (safe_call (env_options env) (env_platform env)) (snd (root_dir (x_root x')))"
proof -
  have "harmless_run.ends_well env (x', r)"
    by (rule harmless_run.ends_well_extract [OF assms])
      (simp add: harmless.extractor_ok_def new_extractor_def)
  then show ?thesis
    by (simp add: harmless_run.ends_well_def harmless.extractor_ok_def)
qed

theorem extraction_calls_harmless_witness:
  "extract_as (logged_env demo_env) Zip_Format demo_archive (Inr ()) (Inr ((), []))
     = Inr (fst demo_out, snd demo_out)
   \<and> list_all (safe_call (env_options demo_env) (env_platform demo_env))
       (snd (root_dir (x_root (fst demo_out))))
   \<and> length (snd (root_dir (x_root (fst demo_out)))) = 5"
  using demo_run extraction_calls_harmless [OF demo_run] by (simp add: demo_log)

text \<open>C2. Under a ceiling on the total size, the files of the target receive at most one byte
  more than it, even when the extraction fails; and when it succeeds, they received exactly
  the bytes the summary reports, within the ceiling.\<close>

theorem extraction_within_byte_limit:
  assumes "extract_as (logged_env env) format archive create_dir_all (Inr (d, []))
    = Inr (x', r)"
    and "max_total_bytes (env_options env) = Some m" and "m < u64_max"
  shows "length (written_bytes (snd (root_dir (x_root x')))) \<le> m + 1
    \<and> (\<forall>s. r = Inr s \<longrightarrow> s_bytes s = length (written_bytes (snd (root_dir (x_root x'))))
          \<and> s_bytes s \<le> m)"
proof -
  have "budget_run.ends_well env (x', r)"
    by (rule budget_run.ends_well_extract [OF assms(1)])
      (simp add: within_def in_budget_def new_extractor_def new_budget_def empty_summary_def)
  then have "barely_within (env_options env) x'" "is_ok r \<Longrightarrow> within (env_options env) x'"
    by (simp_all add: budget_run.ends_well_def)
  with assms(2,3) extract_as_summary [of "logged_env env" format archive create_dir_all _ x']
    assms(1) show ?thesis
    by (auto simp: within_def barely_within_def in_budget_def byte_limit_Some)
qed

theorem extraction_within_byte_limit_witness:
  "length (written_bytes (snd (root_dir (x_root (fst demo_out))))) = 3
   \<and> length (written_bytes (snd (root_dir (x_root (fst demo_out))))) \<le> 10 + 1
   \<and> s_bytes (projr (snd demo_out)) \<le> 10"
proof -
  have "max_total_bytes (env_options demo_env) = Some 10"
    by (simp add: demo_env_def)
  from extraction_within_byte_limit [OF demo_run this] show ?thesis
    by (simp add: u64_max_def demo_log written_bytes_def demo_summary)
qed

text \<open>C4. A successful extraction accounts for every entry of the archive exactly once, as a
  file, a directory, a link or a skipped entry, and reads no more of them than the ceiling on
  entries allows, skipped ones included.\<close>

theorem extraction_accounts_for_entries:
  assumes "extract_as env format archive create_dir_all root_d = Inr (x', Inr s)"
    and "entry_total format archive \<le> u64_max"
  shows "s_files s + s_directories s + s_symlinks s + s_skipped s = entry_total format archive
    \<and> (\<forall>m. max_entries (env_options env) = Some m \<longrightarrow> entry_total format archive \<le> m)"
  using counted_extract [OF assms] extract_as_summary [OF assms(1)]
  by (auto simp: counted_def accounted_def entry_limit_ok_def)

theorem extraction_accounts_for_entries_witness:
  "s_files (projr (snd demo_out)) + s_directories (projr (snd demo_out))
     + s_symlinks (projr (snd demo_out)) + s_skipped (projr (snd demo_out)) = 4
   \<and> entry_total Zip_Format demo_archive = 4 \<and> entry_total Zip_Format demo_archive \<le> 4"
proof -
  have run: "extract_as (logged_env demo_env) Zip_Format demo_archive (Inr ()) (Inr ((), []))
      = Inr (fst demo_out, Inr (projr (snd demo_out)))"
    using demo_run by (simp add: demo_summary)
  have total: "entry_total Zip_Format demo_archive = 4"
    by code_simp
  then have "entry_total Zip_Format demo_archive \<le> u64_max"
    by (simp add: u64_max_def)
  from extraction_accounts_for_entries [OF run this] total show ?thesis
    by (simp add: demo_summary)
qed

end
