(* ===== verification/Extract_Links.thy ===== *)
theory Extract_Links
  imports Extract_Budget
begin

text \<open>
  What the checks on symbolic links come to: the validators judge an entry by its name, the anchored directory by
  where it lands. Neither is enough by itself; together they keep every link of the target directory, at every
  moment between two entries and however an extraction ends, from leading out of it.
\<close>

section \<open>The text of a link alone\<close>

text \<open>The example of \<open>safe_path.rs\<close>: each of the two links passes by its name, but the second is made through the
  first, and so lands where its target climbs out.\<close>

lemma text_alone_is_not_enough:
  "validate_entry_name ''link/escape'' = Inr [''link'', ''escape'']"
  "validate_symlink_target [''link''] ''.'' = Inr ()" "validate_symlink_target [''link'', ''escape''] ''..'' = Inr ()"
  "resolve (\<lambda>p. map_option named_pieces ([[''link''] \<mapsto> ''.''] p)) 3 [] [''link'', ''escape''] = At [''escape'']"
  "resolve (\<lambda>p. map_option named_pieces ([[''link''] \<mapsto> ''.'', [''escape''] \<mapsto> ''..''] p)) 3 [] [''link'', ''escape''] = Escaped"
  by code_simp+

section \<open>A directory with links\<close>









section \<open>The links of the target stay vetted\<close>



















section \<open>Properties\<close>














end
