(* ===== verification/Copy_Move.thy ===== *)
theory Copy_Move
  imports Extract_Root "HOL-Library.AList" "HOL-Library.Char_ord" "HOL-Library.List_Lexorder"
begin

text \<open>
  Copying, moving and listing files: \<open>fs/copy_move.rs\<close>, \<open>copy_files.rs\<close>, \<open>move_files.rs\<close>, \<open>list_path.rs\<close>,
  \<open>ext_filter.rs\<close> and the options of the two. The file system is a tree of names with hard and symbolic links, as on
  Unix; it may refuse any operation, and a copy that is refused has written a part. Every state it passes through
  is logged. Paths are absolute lists of components; nobody else changes the tree meanwhile. \<open>walkdir\<close> is taken to
  list what is below a directory, a directory before its contents and siblings by name.
\<close>

section \<open>Extension filters\<close>

text \<open>\<open>Path::extension\<close> of a file name, as text.\<close>

definition name_extension :: "string \<Rightarrow> string option" where
  "name_extension n =
    (case rsplit_once CHR ''.'' n of
       Some (stem, ext) \<Rightarrow> if stem = [] \<or> n = ''..'' \<or> \<not> utf8_valid (of_text ext) then None else Some ext
     | None \<Rightarrow> None)"

type_synonym ext_filter = "string list"

definition filter_add :: "string \<Rightarrow> ext_filter \<Rightarrow> ext_filter" where
  "filter_add extension f =
    (let normalized = ascii_lowercase (dropWhile (\<lambda>c. c = CHR ''.'') extension) in
     if normalized \<noteq> [] \<and> normalized \<notin> set f then f @ [normalized] else f)"

definition filter_matches :: "ext_filter \<Rightarrow> path \<Rightarrow> bool" where
  "filter_matches f p =
    (if f = [] then True
     else case (if p = [] then None else name_extension (last p)) of
       None \<Rightarrow> False
     | Some extension \<Rightarrow> list_ex (\<lambda>candidate. eq_ignore_ascii_case candidate extension) f)"

section \<open>Options\<close>

record copy_options =
  cy_recursive :: bool
  cy_preserve :: bool
  cy_filter :: ext_filter

definition copy_options_new :: copy_options where
  "copy_options_new = \<lparr> cy_recursive = False, cy_preserve = False, cy_filter = [] \<rparr>"

definition copy_recursive where
  "copy_recursive recursive opts = opts\<lparr>cy_recursive := recursive\<rparr>"

definition copy_preserve where
  "copy_preserve preserve opts = opts\<lparr>cy_preserve := preserve\<rparr>"

definition copy_extension where
  "copy_extension extension opts = opts\<lparr>cy_filter := filter_add extension (cy_filter opts)\<rparr>"

definition copy_extensions where
  "copy_extensions exts opts = foldl (\<lambda>opts extension. copy_extension extension opts) opts exts"

definition copy_accepts :: "copy_options \<Rightarrow> path \<Rightarrow> bool" where
  "copy_accepts opts p = filter_matches (cy_filter opts) p"

record copy_summary =
  sm_files :: nat
  sm_bytes :: nat
  sm_skipped :: nat

record list_options =
  ls_dirs :: bool
  ls_files :: bool
  ls_recursive :: bool
  ls_filter :: ext_filter

definition list_options_new :: list_options where
  "list_options_new = \<lparr> ls_dirs = False, ls_files = True, ls_recursive = False, ls_filter = [] \<rparr>"

definition list_dirs where
  "list_dirs include opts = opts\<lparr>ls_dirs := include\<rparr>"

definition list_files where
  "list_files include opts = opts\<lparr>ls_files := include\<rparr>"

definition list_recursive where
  "list_recursive recursive opts = opts\<lparr>ls_recursive := recursive\<rparr>"

definition list_extension where
  "list_extension extension opts = opts\<lparr>ls_filter := filter_add extension (ls_filter opts)\<rparr>"

definition list_extensions where
  "list_extensions exts opts = foldl (\<lambda>opts extension. list_extension extension opts) opts exts"

definition list_accepts :: "list_options \<Rightarrow> path \<Rightarrow> bool" where
  "list_accepts opts p = (ls_files opts \<and> filter_matches (ls_filter opts) p)"

section \<open>The file system\<close>

text \<open>A regular file has an identity (device and inode number); a link has a target, absolute or not.\<close>

datatype item = Plain nat | Link bool path | Folder | Special

type_synonym items = "(path \<times> item) list"

text \<open>An answer of the system: how far it got, and the error if it was refused.\<close>

datatype answer = Answer (steps: "nat list") (refusal: "io_error option")

record volume =
  vl_items :: items
  vl_data :: "nat \<Rightarrow> bytes"
  vl_fresh :: nat
  vl_device :: "path \<Rightarrow> nat"
  vl_answers :: "answer list"
  vl_seen :: "(items \<times> (nat \<Rightarrow> bytes)) list"

definition next_answer :: "volume \<Rightarrow> answer" where
  "next_answer v = (case vl_answers v of [] \<Rightarrow> Answer [] None | a # _ \<Rightarrow> a)"

definition answered :: "volume \<Rightarrow> volume" where
  "answered v = v\<lparr>vl_answers := tl (vl_answers v)\<rparr>"

definition show_volume :: "volume \<Rightarrow> volume" where
  "show_volume v = v\<lparr>vl_seen := vl_seen v @ [(vl_items v, vl_data v)]\<rparr>"

definition kind_error :: "io_kind \<Rightarrow> io_error" where
  "kind_error k = Io_Error k None"

definition max_links :: nat where
  "max_links = 40"

text \<open>Where a path leads, all its links but one at its end followed: the directory must be there, its last component need
  not. A link counts against the links the system follows.\<close>

function walk_path :: "bool \<Rightarrow> items \<Rightarrow> nat \<Rightarrow> path \<Rightarrow> path \<Rightarrow> io_error + path" where
  "walk_path follow es links cur [] = Inr cur"
| "walk_path follow es links cur (c # cs) =
    (if c = ''..'' then walk_path follow es links (butlast cur) cs
     else case map_of es (cur @ [c]) of
       Some (Link absolute target) \<Rightarrow>
         if cs = [] \<and> \<not> follow then Inr (cur @ [c])
         else if links = 0 then Inl (kind_error OtherKind)
         else walk_path follow es (links - 1) (if absolute then [] else cur) (target @ cs)
     | Some Folder \<Rightarrow> walk_path follow es links (cur @ [c]) cs
     | Some _ \<Rightarrow> if cs = [] then Inr (cur @ [c]) else Inl (kind_error NotADirectory)
     | None \<Rightarrow> if cs = [] then Inr (cur @ [c]) else Inl (kind_error NotFound))"
  by pat_completeness auto
termination
  by (relation "measures [\<lambda>(_, _, links, _, _). links, \<lambda>(_, _, _, _, p). length p]") auto

declare walk_path.simps [simp del]

definition real_path :: "items \<Rightarrow> path \<Rightarrow> io_error + path" where
  "real_path es p = walk_path True es max_links [] p"

definition link_path :: "items \<Rightarrow> path \<Rightarrow> io_error + path" where
  "link_path es p = walk_path False es max_links [] p"

text \<open>The item at a path, links followed; the root is a directory.\<close>

definition item_at :: "items \<Rightarrow> path \<Rightarrow> io_error + item" where
  "item_at es p =
    rbind (real_path es p) (\<lambda>q. if q = [] then Inr Folder else ok_or (map_of es q) (kind_error NotFound))"

text \<open>That something is not there is only said when it is not.\<close>

definition vol_refused :: "volume \<Rightarrow> io_error option" where
  "vol_refused v = (case refusal (next_answer v) of
     Some e \<Rightarrow> if io_kind e = NotFound then None else Some e | None \<Rightarrow> None)"

definition answer_to :: "volume \<Rightarrow> (io_error + 'a) \<Rightarrow> volume \<times> (io_error + 'a)" where
  "answer_to v r = (answered v, case vol_refused v of Some e \<Rightarrow> Inl e | None \<Rightarrow> r)"

definition vol_metadata :: "path \<Rightarrow> volume \<Rightarrow> volume \<times> (io_error + item)" where
  "vol_metadata p v = answer_to v (item_at (vl_items v) p)"

definition item_len :: "volume \<Rightarrow> item \<Rightarrow> nat" where
  "item_len v it = (case it of Plain i \<Rightarrow> length (vl_data v i) | _ \<Rightarrow> 0)"

definition put_item :: "path \<Rightarrow> item \<Rightarrow> volume \<Rightarrow> volume" where
  "put_item q it v = show_volume (v\<lparr>vl_items := AList.update q it (vl_items v)\<rparr>)"

definition drop_item :: "path \<Rightarrow> volume \<Rightarrow> volume" where
  "drop_item q v = show_volume (v\<lparr>vl_items := AList.delete q (vl_items v)\<rparr>)"

definition put_data :: "nat \<Rightarrow> bytes \<Rightarrow> volume \<Rightarrow> volume" where
  "put_data i bs v = show_volume (v\<lparr>vl_data := (vl_data v)(i := bs)\<rparr>)"

text \<open>\<open>create_dir_all\<close>, one directory after the other; \<open>room\<close> is how many it makes before it is refused.\<close>

fun make_dirs :: "nat option \<Rightarrow> path \<Rightarrow> path \<Rightarrow> volume \<Rightarrow> volume \<times> (io_error + unit)" where
  "make_dirs room cur [] v = (v, Inr ())"
| "make_dirs room cur (c # cs) v =
    (case item_at (vl_items v) (cur @ [c]) of
       Inr Folder \<Rightarrow> make_dirs room (cur @ [c]) cs v
     | Inr _ \<Rightarrow> (v, Inl (kind_error AlreadyExists))
     | Inl e \<Rightarrow>
         if io_kind e \<noteq> NotFound then (v, Inl e)
         else if room = Some 0 then (v, Inr ())
         else case link_path (vl_items v) (cur @ [c]) of
           Inl e \<Rightarrow> (v, Inl e)
         | Inr q \<Rightarrow>
             if map_of (vl_items v) q \<noteq> None then (v, Inl (kind_error AlreadyExists))
             else make_dirs (map_option (\<lambda>n. n - 1) room) (cur @ [c]) cs (put_item q Folder v))"

definition vol_create_dir_all :: "path \<Rightarrow> volume \<Rightarrow> volume \<times> (io_error + unit)" where
  "vol_create_dir_all p v =
    (case next_answer v of Answer cuts refused \<Rightarrow>
       case refused of
         None \<Rightarrow> make_dirs None [] p (answered v)
       | Some e \<Rightarrow> (case make_dirs (Some (case cuts of n # _ \<Rightarrow> n | [] \<Rightarrow> 0)) [] p (answered v) of (v, _) \<Rightarrow> (v, Inl e)))"

text \<open>\<open>std::fs::copy\<close>: the destination is truncated or created, then the bytes are carried over, as those of the source are
  by then. A refusal in the middle leaves what was written.\<close>

fun write_steps :: "nat \<Rightarrow> nat \<Rightarrow> nat list \<Rightarrow> volume \<Rightarrow> volume" where
  "write_steps i j [] v = v"
| "write_steps i j (n # ns) v = write_steps i j ns (put_data j (take n (vl_data v i)) v)"

definition carry :: "nat \<Rightarrow> nat \<Rightarrow> answer \<Rightarrow> volume \<Rightarrow> volume \<times> (io_error + nat)" where
  "carry i j a v =
    (let v = put_data j [] v; v = (if i = j then v else write_steps i j (steps a) v) in
     case refusal a of
       Some e \<Rightarrow> (v, Inl e)
     | None \<Rightarrow> (put_data j (vl_data v i) v, Inr (length (vl_data v i))))"

definition vol_copy :: "path \<Rightarrow> path \<Rightarrow> volume \<Rightarrow> volume \<times> (io_error + nat)" where
  "vol_copy s t v =
    (let a = next_answer v; v = answered v; es = vl_items v in
     case item_at es s of
       Inl e \<Rightarrow> (v, Inl e)
     | Inr (Plain i) \<Rightarrow>
         (case real_path es t of
            Inl e \<Rightarrow> (v, Inl e)
          | Inr q \<Rightarrow>
              (case (if q = [] then Some Folder else map_of es q) of
                 Some (Plain j) \<Rightarrow> carry i j a v
               | Some Special \<Rightarrow> (v, case refusal a of Some e \<Rightarrow> Inl e | None \<Rightarrow> Inr (length (vl_data v i)))
               | Some _ \<Rightarrow> (v, Inl (kind_error IsADirectory))
               | None \<Rightarrow>
                   if steps a = [] \<and> refusal a \<noteq> None then (v, Inl (the (refusal a)))
                   else let j = vl_fresh v in
                     carry i j a (put_item q (Plain j)
                       (v\<lparr>vl_fresh := Suc j, vl_data := (vl_data v)(j := [])\<rparr>))))
     | Inr _ \<Rightarrow> (v, Inl (kind_error InvalidInput)))"

text \<open>A rename is done at once or not at all. It moves a link itself, and does nothing for two names of one file.\<close>

definition vol_rename :: "path \<Rightarrow> path \<Rightarrow> volume \<Rightarrow> volume \<times> (io_error + unit)" where
  "vol_rename s t v =
    (let v' = answered v; es = vl_items v in
     case vol_refused v of Some e \<Rightarrow> (v', Inl e)
     | None \<Rightarrow>
       (case (link_path es s, link_path es t) of
          (Inl e, _) \<Rightarrow> (v', Inl e)
        | (_, Inl e) \<Rightarrow> (v', Inl e)
        | (Inr p, Inr q) \<Rightarrow>
            (case map_of es p of
               None \<Rightarrow> (v', Inl (kind_error NotFound))
             | Some it \<Rightarrow>
                 if vl_device v (butlast p) \<noteq> vl_device v (butlast q) then (v', Inl (kind_error CrossesDevices))
                 else if it = Folder \<or> q = [] \<or> map_of es q = Some Folder then (v', Inl (kind_error IsADirectory))
                 else if p = q \<or> (case it of Plain _ \<Rightarrow> map_of es q = Some it | _ \<Rightarrow> False) then (v', Inr ())
                 else (put_item q it (v'\<lparr>vl_items := AList.delete p es\<rparr>), Inr ()))))"

definition vol_remove_file :: "path \<Rightarrow> volume \<Rightarrow> volume \<times> (io_error + unit)" where
  "vol_remove_file p v =
    (let v' = answered v in
     case vol_refused v of Some e \<Rightarrow> (v', Inl e)
     | None \<Rightarrow>
       (case link_path (vl_items v) p of
          Inl e \<Rightarrow> (v', Inl e)
        | Inr q \<Rightarrow>
            (case (if q = [] then Some Folder else map_of (vl_items v) q) of
               None \<Rightarrow> (v', Inl (kind_error NotFound))
             | Some Folder \<Rightarrow> (v', Inl (kind_error IsADirectory))
             | Some _ \<Rightarrow> (drop_item q v', Inr ()))))"

text \<open>What \<open>walkdir\<close> yields: the entries below a directory whose own ancestors up to it are directories.\<close>

definition entries_below :: "items \<Rightarrow> path \<Rightarrow> (path \<times> item) list" where
  "entries_below es root =
    sort_key fst (map (\<lambda>(p, it). (drop (length root) p, it))
      (filter (\<lambda>(p, it). strict_prefix root p
         \<and> list_all (\<lambda>n. map_of es (take n p) = Some Folder) [Suc (length root)..<length p]) es))"

section \<open>Listing\<close>

definition list_path :: "path \<Rightarrow> list_options \<Rightarrow> volume \<Rightarrow> volume \<times> (fs_error + path list)" where
  "list_path directory opts v =
    sbind (case vol_metadata directory v of (v, r) \<Rightarrow> (v, map_err Io r)) (\<lambda>v it.
    if it \<noteq> Folder then (v, Inl (Io (kind_error NotADirectory)))
    else case answer_to v (real_path (vl_items v) directory) of
      (v', Inl e) \<Rightarrow> (v', Inl (Io e))
    | (v', Inr root) \<Rightarrow>
        (v', Inr (List.map_filter (\<lambda>(rel, it).
           if (ls_recursive opts \<or> length rel = 1)
             \<and> (if it = Folder then ls_dirs opts else list_accepts opts (directory @ rel))
           then Some (directory @ rel) else None) (entries_below (vl_items v) root))))"

section \<open>Transfers\<close>

definition fs_step :: "volume \<times> (io_error + 'a) \<Rightarrow> volume \<times> (fs_error + 'a)" where
  "fs_step m = (fst m, map_err Io (snd m))"

definition file_name_of :: "path \<Rightarrow> fs_error + string" where
  "file_name_of p = (if p = [] \<or> last p = ''..'' then Inl (Io (kind_error InvalidInput)) else Inr (last p))"

text \<open>On Unix: the same device and inode.\<close>

definition is_same_file :: "path \<Rightarrow> path \<Rightarrow> volume \<Rightarrow> volume \<times> (fs_error + bool)" where
  "is_same_file source dest v =
    (case vol_metadata dest v of
       (v, Inl e) \<Rightarrow> if io_kind e = NotFound then (v, Inr False) else (v, Inl (Io e))
     | (v, Inr dest_meta) \<Rightarrow>
         (case fs_step (vol_metadata source v) of
            (v, Inl e) \<Rightarrow> (v, Inl e)
          | (v, Inr source_meta) \<Rightarrow>
              (v, Inr (case (source_meta, dest_meta) of (Plain i, Plain j) \<Rightarrow> i = j | _ \<Rightarrow> False))))"

definition rename_or_copy :: "path \<Rightarrow> path \<Rightarrow> volume \<Rightarrow> volume \<times> (fs_error + nat)" where
  "rename_or_copy source dest v =
    sbind (fs_step (vol_metadata source v)) (\<lambda>v it.
    let len = item_len v it in
    case vol_rename source dest v of
      (v, Inr _) \<Rightarrow> (v, Inr len)
    | (v, Inl e) \<Rightarrow>
        if io_kind e = CrossesDevices then
          sbind (fs_step (vol_copy source dest v)) (\<lambda>v copied.
          sbind (fs_step (vol_remove_file source v)) (\<lambda>v _. (v, Inr copied)))
        else (v, Inl (Io e)))"

text \<open>The directories known to be there, and what was done so far, go along.\<close>

type_synonym copy_progress = "path list \<times> copy_summary"

definition skip_file :: "copy_progress \<Rightarrow> copy_progress" where
  "skip_file pg = (fst pg, (snd pg)\<lparr>sm_skipped := sm_skipped (snd pg) + 1\<rparr>)"

definition ensure_parent :: "path \<Rightarrow> path list \<Rightarrow> volume \<Rightarrow> volume \<times> (fs_error + path list)" where
  "ensure_parent dest created v =
    (if dest = [] \<or> butlast dest \<in> set created then (v, Inr created)
     else sbind (fs_step (vol_create_dir_all (butlast dest) v)) (\<lambda>v _. (v, Inr (butlast dest # created))))"

definition transfer_file ::
    "path \<Rightarrow> path \<Rightarrow> copy_options \<Rightarrow> bool \<Rightarrow> copy_progress \<Rightarrow> volume \<Rightarrow> volume \<times> (fs_error + copy_progress)" where
  "transfer_file source dest opts remove_sources pg v =
    (if \<not> copy_accepts opts source then (v, Inr (skip_file pg))
     else
       sbind (fs_step (vol_metadata source v)) (\<lambda>v it.
       if (case it of Plain _ \<Rightarrow> False | _ \<Rightarrow> True) then (v, Inr (skip_file pg))
       else
         sbind (if source = dest then (v, Inr True) else is_same_file source dest v) (\<lambda>v same.
         if same then (v, Inr (skip_file pg))
         else
           sbind (ensure_parent dest (fst pg) v) (\<lambda>v created.
           sbind (if remove_sources then rename_or_copy source dest v else fs_step (vol_copy source dest v)) (\<lambda>v n.
           (v, Inr (created, (snd pg)\<lparr>sm_bytes := sm_bytes (snd pg) + n, sm_files := sm_files (snd pg) + 1\<rparr>)))))))"

definition dest_of :: "path \<Rightarrow> path \<Rightarrow> copy_options \<Rightarrow> path \<Rightarrow> fs_error + path" where
  "dest_of source dest_dir opts p =
    (if cy_preserve opts then Inr (dest_dir @ drop (length source) p)
     else rbind (file_name_of p) (\<lambda>n. Inr (dest_dir @ [n])))"

fun transfer_files ::
    "path \<Rightarrow> path \<Rightarrow> copy_options \<Rightarrow> bool \<Rightarrow> path list \<Rightarrow> copy_progress \<Rightarrow> volume \<Rightarrow> volume \<times> (fs_error + copy_progress)" where
  "transfer_files source dest_dir opts remove_sources [] pg v = (v, Inr pg)"
| "transfer_files source dest_dir opts remove_sources (p # ps) pg v =
    sbind (v, dest_of source dest_dir opts p) (\<lambda>v dest.
    sbind (transfer_file p dest opts remove_sources pg v) (\<lambda>v pg.
    transfer_files source dest_dir opts remove_sources ps pg v))"

definition transfer_dir ::
    "path \<Rightarrow> path \<Rightarrow> copy_options \<Rightarrow> bool \<Rightarrow> copy_progress \<Rightarrow> volume \<Rightarrow> volume \<times> (fs_error + copy_progress)" where
  "transfer_dir source dest_dir opts remove_sources pg v =
    sbind (list_path source (list_recursive (cy_recursive opts) list_options_new) v) (\<lambda>v ps.
    transfer_files source dest_dir opts remove_sources ps pg v)"

definition transfer_source ::
    "path \<Rightarrow> path \<Rightarrow> copy_options \<Rightarrow> bool \<Rightarrow> copy_progress \<Rightarrow> volume \<Rightarrow> volume \<times> (fs_error + copy_progress)" where
  "transfer_source source dest_dir opts remove_sources pg v =
    sbind (fs_step (vol_metadata source v)) (\<lambda>v it.
    if it = Folder then transfer_dir source dest_dir opts remove_sources pg v
    else sbind (v, file_name_of source) (\<lambda>v n.
      transfer_file source (dest_dir @ [n]) opts remove_sources pg v))"

fun transfer_sources ::
    "path list \<Rightarrow> path \<Rightarrow> copy_options \<Rightarrow> bool \<Rightarrow> copy_progress \<Rightarrow> volume \<Rightarrow> volume \<times> (fs_error + copy_progress)" where
  "transfer_sources [] dest_dir opts remove_sources pg v = (v, Inr pg)"
| "transfer_sources (s # ss) dest_dir opts remove_sources pg v =
    sbind (transfer_source s dest_dir opts remove_sources pg v) (\<lambda>v pg.
    transfer_sources ss dest_dir opts remove_sources pg v)"

definition transfer_all ::
    "path list \<Rightarrow> path \<Rightarrow> copy_options \<Rightarrow> bool \<Rightarrow> volume \<Rightarrow> volume \<times> (fs_error + copy_summary)" where
  "transfer_all sources dest_dir opts remove_sources v =
    sbind (fs_step (vol_create_dir_all dest_dir v)) (\<lambda>v _.
    sbind (transfer_sources sources dest_dir opts remove_sources
        ([dest_dir], \<lparr> sm_files = 0, sm_bytes = 0, sm_skipped = 0 \<rparr>) v) (\<lambda>v pg.
    (v, Inr (snd pg))))"

definition copy_files where
  "copy_files sources dest_dir opts v = transfer_all sources dest_dir opts False v"

definition move_files where
  "move_files sources dest_dir opts v = transfer_all sources dest_dir opts True v"

section \<open>Where paths lead\<close>

text \<open>What a step of a transfer may do to the tree: something appears where nothing was, a regular file goes or is
  replaced. No link and no directory is touched, so paths lead where they led.\<close>

definition edited :: "items \<Rightarrow> items \<Rightarrow> bool" where
  "edited es es' = (\<forall>q. map_of es' q = map_of es q
     \<or> (map_of es q = None \<or> (\<exists>k. map_of es q = Some (Plain k))) \<and> (\<forall>a t. map_of es' q \<noteq> Some (Link a t)))"

lemma edited_refl [simp]: "edited es es"
  by (simp add: edited_def)

lemma edited_trans:
  assumes "edited es es1" and "edited es1 es2"
  shows "edited es es2"
  unfolding edited_def
proof
  fix q
  from assms have "map_of es1 q = map_of es q \<or> (map_of es q = None \<or> (\<exists>k. map_of es q = Some (Plain k)))
      \<and> (\<forall>a t. map_of es1 q \<noteq> Some (Link a t))"
    "map_of es2 q = map_of es1 q \<or> (map_of es1 q = None \<or> (\<exists>k. map_of es1 q = Some (Plain k)))
      \<and> (\<forall>a t. map_of es2 q \<noteq> Some (Link a t))"
    by (simp_all add: edited_def)
  then show "map_of es2 q = map_of es q \<or> (map_of es q = None \<or> (\<exists>k. map_of es q = Some (Plain k)))
      \<and> (\<forall>a t. map_of es2 q \<noteq> Some (Link a t))"
    by (elim disjE conjE) simp_all
qed

lemma edited_update:
  assumes "map_of es q = None \<or> (\<exists>k. map_of es q = Some (Plain k))" and "\<And>a t. it \<noteq> Link a t"
  shows "edited es (AList.update q it es)"
  using assms by (auto simp: edited_def update_conv')







section \<open>One file\<close>

definition file_at :: "items \<times> (nat \<Rightarrow> bytes) \<Rightarrow> path \<Rightarrow> bytes option" where
  "file_at st p = (case item_at (fst st) p of Inr (Plain i) \<Rightarrow> Some (snd st i) | _ \<Rightarrow> None)"

abbreviation state_of :: "volume \<Rightarrow> items \<times> (nat \<Rightarrow> bytes)" where
  "state_of v \<equiv> (vl_items v, vl_data v)"

text \<open>The file of identity \<open>i\<close> is at \<open>source\<close>, whose place is \<open>p\<close>, and is about to go to \<open>dest\<close>, whose place is \<open>q\<close>.\<close>

definition placed :: "path \<Rightarrow> path \<Rightarrow> path \<Rightarrow> path \<Rightarrow> items \<Rightarrow> bool" where
  "placed source dest p q es =
    (link_path es source = Inr p \<and> real_path es source = Inr p \<and> link_path es dest = Inr q \<and> real_path es dest = Inr q
     \<and> p \<noteq> [] \<and> p \<noteq> q)"


definition logged_all :: "(items \<times> (nat \<Rightarrow> bytes) \<Rightarrow> bool) \<Rightarrow> (items \<times> (nat \<Rightarrow> bytes)) list \<Rightarrow> volume \<Rightarrow> bool" where
  "logged_all S log v = (\<exists>new. vl_seen v = log @ new \<and> list_all S new)"

definition source_held :: "path \<Rightarrow> path \<Rightarrow> path \<Rightarrow> path \<Rightarrow> nat \<Rightarrow> bytes \<Rightarrow> items \<times> (nat \<Rightarrow> bytes) \<Rightarrow> bool" where
  "source_held source dest p q i bs st =
    (placed source dest p q (fst st) \<and> map_of (fst st) p = Some (Plain i) \<and> snd st i = bs
     \<and> (\<forall>a t. map_of (fst st) q \<noteq> Some (Link a t)) \<and> map_of (fst st) q \<noteq> Some Special \<and> map_of (fst st) q \<noteq> Some (Plain i))"

definition dest_held :: "path \<Rightarrow> path \<Rightarrow> path \<Rightarrow> path \<Rightarrow> bytes \<Rightarrow> items \<times> (nat \<Rightarrow> bytes) \<Rightarrow> bool" where
  "dest_held source dest p q bs st =
    (placed source dest p q (fst st) \<and> (\<exists>j. map_of (fst st) q = Some (Plain j) \<and> snd st j = bs))"



text \<open>The steps before the bytes move keep the source held.\<close>

definition waiting where
  "waiting S log source dest p q i bs v =
    (logged_all S log v \<and> source_held source dest p q i bs (state_of v)
     \<and> (\<forall>r k. map_of (vl_items v) r = Some (Plain k) \<longrightarrow> k < vl_fresh v))"


lemma logged_all_show: "logged_all S log v \<Longrightarrow> S (state_of v) \<Longrightarrow> logged_all S log (show_volume v)"
  by (auto simp: logged_all_def show_volume_def)

lemma volume_simps [simp]:
  "vl_items (show_volume v) = vl_items v" "vl_data (show_volume v) = vl_data v"
  "vl_fresh (show_volume v) = vl_fresh v"
  "vl_items (answered v) = vl_items v" "vl_data (answered v) = vl_data v" "vl_fresh (answered v) = vl_fresh v"
  "vl_items (put_item r it v) = AList.update r it (vl_items v)" "vl_data (put_item r it v) = vl_data v"
  "vl_fresh (put_item r it v) = vl_fresh v"
  "vl_items (drop_item r v) = AList.delete r (vl_items v)" "vl_data (drop_item r v) = vl_data v"
  "vl_items (put_data j ys v) = vl_items v" "vl_data (put_data j ys v) = (vl_data v)(j := ys)"
  "vl_fresh (put_data j ys v) = vl_fresh v"
  by (simp_all add: show_volume_def answered_def put_item_def drop_item_def put_data_def)

lemma logged_all_answered [simp]: "logged_all S log (answered v) = logged_all S log v"
  by (simp add: logged_all_def answered_def)

lemma waiting_answered [simp]: "waiting S log source dest p q i bs (answered v) = waiting S log source dest p q i bs v"
  by (simp add: waiting_def)


lemma map_of_updated: "map_of (AList.update r it es) x = (if x = r then Some it else map_of es x)"
  by (simp add: update_conv')










text \<open>Copying onto another file: on the way the source is held, at the end both.\<close>

definition copied where
  "copied S log source dest p q i bs v =
    (waiting S log source dest p q i bs v \<and> dest_held source dest p q bs (state_of v))"



lemma write_steps_items [simp]: "vl_items (write_steps i j ns v) = vl_items v"
  by (induction i j ns v rule: write_steps.induct) simp_all














section \<open>A whole copy\<close>

text \<open>A copy adds names and takes none away.\<close>

definition names_kept :: "items \<Rightarrow> (items \<times> (nat \<Rightarrow> bytes)) list \<Rightarrow> volume \<Rightarrow> bool" where
  "names_kept es log v = (logged_all (\<lambda>st. map_of es \<subseteq>\<^sub>m map_of (fst st)) log v \<and> map_of es \<subseteq>\<^sub>m map_of (vl_items v))"

named_theorems names_steps

lemma names_kept_answered [simp]: "names_kept es log (answered v) = names_kept es log v"
  by (simp add: names_kept_def)

lemma names_kept_fresh [simp]: "names_kept es log (v\<lparr>vl_fresh := j, vl_data := dat\<rparr>) = names_kept es log v"
  by (simp add: names_kept_def logged_all_def)

lemma names_kept_put_item:
  assumes "names_kept es log v" and "map_of (vl_items v) r = None"
  shows "names_kept es log (put_item r it v)"
proof -
  have "map_of es \<subseteq>\<^sub>m map_of (AList.update r it (vl_items v))"
    using assms by (simp add: names_kept_def map_le_def map_of_updated) (metis domIff)
  with assms show ?thesis
    by (auto simp: names_kept_def logged_all_def put_item_def show_volume_def)
qed

lemma names_kept_put_data: "names_kept es log v \<Longrightarrow> names_kept es log (put_data j ys v)"
  by (auto simp: names_kept_def logged_all_def put_data_def show_volume_def)

lemma names_kept_write_steps: "names_kept es log v \<Longrightarrow> names_kept es log (write_steps i j ns v)"
  by (induction ns arbitrary: v) (simp_all add: names_kept_put_data)

lemma names_kept_carry: "names_kept es log v \<Longrightarrow> names_kept es log (fst (carry i j a v))"
  by (simp add: carry_def Let_def names_kept_put_data names_kept_write_steps split: option.split)

lemma names_kept_copy [names_steps]: "names_kept es log v \<Longrightarrow> names_kept es log (fst (vol_copy s t v))"
  by (auto simp: vol_copy_def Let_def intro!: names_kept_carry names_kept_put_item split: sum.split item.split option.split)

lemma names_kept_make_dirs: "names_kept es log v \<Longrightarrow> names_kept es log (fst (make_dirs room cur cs v))"
  by (induction room cur cs v rule: make_dirs.induct)
    (auto simp: names_kept_put_item split: sum.split item.split)

lemma names_kept_create [names_steps]: "names_kept es log v \<Longrightarrow> names_kept es log (fst (vol_create_dir_all r v))"
  by (simp add: vol_create_dir_all_def names_kept_make_dirs case_prod_unfold split: answer.split option.split)

lemma names_kept_metadata [names_steps]: "names_kept es log v \<Longrightarrow> names_kept es log (fst (vol_metadata r v))"
  by (simp add: vol_metadata_def answer_to_def)

lemma fst_fs_step [simp]: "fst (fs_step m) = fst m"
  by (simp add: fs_step_def)

lemma names_kept_parent [names_steps]:
  "names_kept es log v \<Longrightarrow> names_kept es log (fst (ensure_parent d created v))"
  by (auto simp: ensure_parent_def intro!: sbind_keeps [of "names_kept es log"] names_steps)

lemma names_kept_same [names_steps]: "names_kept es log v \<Longrightarrow> names_kept es log (fst (is_same_file s t v))"
  by (auto simp: is_same_file_def vol_metadata_def answer_to_def fs_step_def split: option.split sum.split)

lemma names_kept_file [names_steps]:
  "names_kept es log v \<Longrightarrow> names_kept es log (fst (transfer_file s t opts False pg v))"
  by (auto simp: transfer_file_def intro!: sbind_keeps [of "names_kept es log"] names_steps)

lemma names_kept_files [names_steps]:
  "names_kept es log v \<Longrightarrow> names_kept es log (fst (transfer_files s d opts False ps pg v))"
  by (induction ps arbitrary: pg v)
    (auto intro!: sbind_keeps [of "names_kept es log"] names_steps)

lemma names_kept_list [names_steps]: "names_kept es log v \<Longrightarrow> names_kept es log (fst (list_path d opts v))"
  by (auto simp: list_path_def vol_metadata_def answer_to_def intro!: sbind_keeps [of "names_kept es log"]
      split: option.split sum.split)

lemma names_kept_source [names_steps]:
  "names_kept es log v \<Longrightarrow> names_kept es log (fst (transfer_source s d opts False pg v))"
  by (auto simp: transfer_source_def transfer_dir_def intro!: sbind_keeps [of "names_kept es log"] names_steps)

lemma names_kept_sources [names_steps]:
  "names_kept es log v \<Longrightarrow> names_kept es log (fst (transfer_sources ss d opts False pg v))"
  by (induction ss arbitrary: pg v)
    (auto intro!: sbind_keeps [of "names_kept es log"] names_steps)

lemma names_kept_copy_files: "names_kept es log v \<Longrightarrow> names_kept es log (fst (copy_files ss d opts v))"
  by (auto simp: copy_files_def transfer_all_def intro!: sbind_keeps [of "names_kept es log"] names_steps)

section \<open>What a copy leaves alone\<close>

text \<open>The file of identity \<open>i\<close> has its bytes and no new name, and the tree only grew.\<close>

definition spared_state :: "items \<Rightarrow> nat \<Rightarrow> bytes \<Rightarrow> items \<times> (nat \<Rightarrow> bytes) \<Rightarrow> bool" where
  "spared_state es i bs st = (map_of es \<subseteq>\<^sub>m map_of (fst st) \<and> edited es (fst st)
     \<and> (\<forall>q. map_of (fst st) q = Some (Plain i) \<longrightarrow> map_of es q = Some (Plain i)) \<and> snd st i = bs)"

definition spared where
  "spared es log i bs v = (logged_all (spared_state es i bs) log v \<and> spared_state es i bs (state_of v) \<and> i < vl_fresh v)"

named_theorems spared_steps

lemma spared_answered [simp]: "spared es log i bs (answered v) = spared es log i bs v"
  by (simp add: spared_def)

lemma spared_show:
  "logged_all (spared_state es i bs) log v \<Longrightarrow> spared_state es i bs (state_of v) \<Longrightarrow> i < vl_fresh v
     \<Longrightarrow> spared es log i bs (show_volume v)"
  using logged_all_show [of "spared_state es i bs" log v] by (simp add: spared_def show_volume_def)

lemma spared_put_item:
  assumes "spared es log i bs v" and "map_of (vl_items v) q = None" and "it \<noteq> Plain i" and "\<And>a t. it \<noteq> Link a t"
  shows "spared es log i bs (put_item q it v)"
proof -
  have old: "map_of es \<subseteq>\<^sub>m map_of (vl_items v)" "edited es (vl_items v)"
    using assms(1) by (simp_all add: spared_def spared_state_def)
  have "map_of es \<subseteq>\<^sub>m map_of (AList.update q it (vl_items v))"
    using old(1) assms(2) by (simp add: map_le_def map_of_updated) (metis domIff)
  moreover have "edited es (AList.update q it (vl_items v))"
    by (rule edited_trans [OF old(2) edited_update]) (simp_all add: assms(2,4))
  ultimately have "spared_state es i bs (AList.update q it (vl_items v), vl_data v)"
    using assms(1,3) by (simp add: spared_def spared_state_def map_of_updated)
  with assms(1) show ?thesis
    unfolding put_item_def by (intro spared_show) (simp_all add: spared_def logged_all_def)
qed






lemma spared_make_dirs: "spared es log i bs v \<Longrightarrow> spared es log i bs (fst (make_dirs room cur cs v))"
  by (induction room cur cs v rule: make_dirs.induct)
    (auto simp: spared_put_item split: sum.split item.split)

lemma spared_create [spared_steps]: "spared es log i bs v \<Longrightarrow> spared es log i bs (fst (vol_create_dir_all r v))"
  by (simp add: vol_create_dir_all_def spared_make_dirs case_prod_unfold split: answer.split option.split)

lemma spared_metadata [spared_steps]: "spared es log i bs v \<Longrightarrow> spared es log i bs (fst (vol_metadata r v))"
  by (simp add: vol_metadata_def answer_to_def)

lemma spared_parent [spared_steps]: "spared es log i bs v \<Longrightarrow> spared es log i bs (fst (ensure_parent d created v))"
  by (auto simp: ensure_parent_def intro!: sbind_keeps [of "spared es log i bs"] spared_steps)

lemma spared_same [spared_steps]: "spared es log i bs v \<Longrightarrow> spared es log i bs (fst (is_same_file s t v))"
  by (auto simp: is_same_file_def vol_metadata_def answer_to_def fs_step_def split: option.split sum.split)







lemma spared_list [spared_steps]: "spared es log i bs v \<Longrightarrow> spared es log i bs (fst (list_path d opts v))"
  by (auto simp: list_path_def vol_metadata_def answer_to_def intro!: sbind_keeps [of "spared es log i bs"]
      split: option.split sum.split)





section \<open>Properties\<close>


text \<open>A move from one device to another, refused for lack of space after the first byte.\<close>

definition small_volume :: volume where
  "small_volume =
    \<lparr> vl_items = [([''a''], Folder), ([''b''], Folder), ([''a'', ''x''], Plain 0), ([''a'', ''l''], Link False [''x'']),
        ([''a'', ''p''], Special)],
      vl_data = (\<lambda>i. if i = 0 then [1, 2, 3] else []), vl_fresh = 1,
      vl_device = (\<lambda>d. if d = [''b''] then 2 else 1), vl_answers = [], vl_seen = [] \<rparr>"


definition one_device :: volume where
  "one_device = small_volume\<lparr>vl_device := (\<lambda>_. 1)\<rparr>"



text \<open>A symbolic link is where a copy and a move part: a copy carries over the file it leads to, a move that can rename
  takes the link, and a relative one then leads nowhere.\<close>

lemma moved_link_dangles:
  "case move_files [[''a'', ''l'']] [''b''] copy_options_new one_device of (v, r) \<Rightarrow>
     r = Inr \<lparr> sm_files = 1, sm_bytes = 3, sm_skipped = 0 \<rparr> \<and> item_at (vl_items v) [''b'', ''l''] = Inl (kind_error NotFound)"
  "case copy_files [[''a'', ''l'']] [''b''] copy_options_new one_device of (v, r) \<Rightarrow>
     r = Inr \<lparr> sm_files = 1, sm_bytes = 3, sm_skipped = 0 \<rparr> \<and> file_at (state_of v) [''b'', ''l''] = Some [1, 2, 3]"
  by code_simp+

text \<open>Without a filter, a pipe counts as skipped.\<close>

lemma pipe_is_skipped:
  "snd (copy_files [[''a'']] [''b''] copy_options_new one_device) = Inr \<lparr> sm_files = 2, sm_bytes = 6, sm_skipped = 1 \<rparr>"
  by code_simp

text \<open>Copying takes no name away and changes what none of them is: at every moment of a copy each item of the tree is
  still where and what it was, whatever is refused on the way.\<close>

lemma copy_keeps_names:
  "\<exists>new. vl_seen (fst (copy_files sources dest_dir opts v)) = vl_seen v @ new
    \<and> list_all (\<lambda>st. map_of (vl_items v) \<subseteq>\<^sub>m map_of (fst st)) new
    \<and> map_of (vl_items v) \<subseteq>\<^sub>m map_of (vl_items (fst (copy_files sources dest_dir opts v)))"
  using names_kept_copy_files [of "vl_items v" "vl_seen v" v sources dest_dir opts]
  by (auto simp: names_kept_def logged_all_def)



end
