(* ===== verification/Retry.thy ===== *)
theory Retry
  imports Complex_Main Prelude
begin

text \<open>
  \<open>fetch/retry.rs\<close>: which failures are tried again, how long to wait, and the loop that runs
  an operation with growing delays. Durations are in nanoseconds. The floating-point value of
  Binet's formula is a parameter, assumed accurate only where the code relies on it.
\<close>

section \<open>Waiting\<close>

definition nanos :: "nat \<Rightarrow> nat" where
  "nanos seconds = seconds * 10 ^ 9"

definition max_backoff_secs :: nat where
  "max_backoff_secs = 60"

text \<open>\<open>(phi.powf(n + 1) / sqrt5).round() as u64\<close>, from the value \<open>binet n\<close> of the quotient: the
  conversion saturates, so an infinite quotient is any one past the largest \<open>u64\<close>.\<close>

definition fibonacci_delay :: "(nat \<Rightarrow> real) \<Rightarrow> nat \<Rightarrow> nat" where
  "fibonacci_delay binet n = min (nat (round (binet n))) u64_max"

record http_answer =
  a_status :: nat
  a_retry_after :: "string option"

text \<open>\<open>http_date\<close> is \<open>httpdate::parse_http_date\<close>, as nanoseconds since the epoch; a header that
  is not text counts as absent.\<close>

definition parse_retry_after :: "(string \<Rightarrow> nat option) \<Rightarrow> string \<Rightarrow> nat \<Rightarrow> nat option" where
  "parse_retry_after http_date value now =
    (let value = trim value in
     case parse_u64 value of
       Some seconds \<Rightarrow> Some (nanos seconds)
     | None \<Rightarrow> (case http_date value of Some until \<Rightarrow> Some (until - now) | None \<Rightarrow> None))"

definition requested_wait :: "(string \<Rightarrow> nat option) \<Rightarrow> http_answer \<Rightarrow> nat \<Rightarrow> nat option" where
  "requested_wait http_date response now =
    (if a_status response \<in> {429, 503}
     then (case a_retry_after response of
             Some value \<Rightarrow> parse_retry_after http_date value now | None \<Rightarrow> None)
     else None)"

section \<open>Which failures go away\<close>

record request_error =
  err_status :: "nat option"
  err_decode :: bool
  err_json_source :: bool
  err_builder :: bool
  err_redirect :: bool

definition is_transient :: "request_error \<Rightarrow> bool" where
  "is_transient err =
    (case err_status err of
       Some status \<Rightarrow> (500 \<le> status \<and> status < 600) \<or> status = 408 \<or> status = 429
     | None \<Rightarrow>
         if err_decode err \<and> err_json_source err then False
         else \<not> (err_builder err \<or> err_redirect err))"

section \<open>The loop\<close>

text \<open>The operation acts on a state and on the hint an answer leaves for the loop, which takes
  it. \<open>slept\<close> is the list of the delays.\<close>

definition backoff_delay :: "(nat \<Rightarrow> real) \<Rightarrow> nat \<Rightarrow> nat option \<Rightarrow> nat" where
  "backoff_delay binet attempt hint =
    min (case hint of Some d \<Rightarrow> d | None \<Rightarrow> nanos (fibonacci_delay binet (attempt + 1)))
      (nanos max_backoff_secs)"

function backoff_loop ::
    "(nat \<Rightarrow> real) \<Rightarrow> nat \<Rightarrow> ('e \<Rightarrow> bool) \<Rightarrow> ('s \<times> nat option \<Rightarrow> ('s \<times> nat option) \<times> ('e + 'a))
      \<Rightarrow> nat \<Rightarrow> nat list \<Rightarrow> 's \<times> nat option \<Rightarrow> ('s \<times> nat option) \<times> nat list \<times> ('e + 'a)" where
  "backoff_loop binet retries should_retry operation attempt slept s =
    (case operation s of
       (s', Inr v) \<Rightarrow> (s', slept, Inr v)
     | (s', Inl err) \<Rightarrow>
         if retries \<le> attempt \<or> \<not> should_retry err then (s', slept, Inl err)
         else backoff_loop binet retries should_retry operation (attempt + 1)
                (slept @ [backoff_delay binet attempt (snd s')]) (fst s', None))"
  by pat_completeness auto
termination
  by (relation "measure (\<lambda>(_, retries, _, _, attempt, _, _). retries - attempt)") auto

declare backoff_loop.simps [simp del]

definition with_fibonacci_backoff ::
    "(nat \<Rightarrow> real) \<Rightarrow> nat \<Rightarrow> ('e \<Rightarrow> bool) \<Rightarrow> ('s \<times> nat option \<Rightarrow> ('s \<times> nat option) \<times> ('e + 'a))
      \<Rightarrow> 's \<times> nat option \<Rightarrow> ('s \<times> nat option) \<times> nat list \<times> ('e + 'a)" where
  "with_fibonacci_backoff binet retries should_retry operation s =
    backoff_loop binet retries should_retry operation 0 [] s"

section \<open>The Fibonacci schedule\<close>

fun fib :: "nat \<Rightarrow> nat" where
  "fib 0 = 0"
| "fib (Suc 0) = 1"
| "fib (Suc (Suc n)) = fib (Suc n) + fib n"

definition phi :: real where
  "phi = (1 + sqrt 5) / 2"

definition psi :: real where
  "psi = (1 - sqrt 5) / 2"

lemma phi_square: "phi ^ 2 = phi + 1" and psi_square: "psi ^ 2 = psi + 1"
  by (simp_all add: phi_def psi_def power2_eq_square field_simps)

lemma binet_fib: "sqrt 5 * fib n = phi ^ n - psi ^ n"
proof (induction n rule: fib.induct)
  case (3 n)
  have "phi ^ Suc (Suc n) = phi ^ n * phi ^ 2" "psi ^ Suc (Suc n) = psi ^ n * psi ^ 2"
    by (simp_all add: power2_eq_square algebra_simps)
  then have "phi ^ Suc (Suc n) - psi ^ Suc (Suc n)
      = (phi ^ Suc n - psi ^ Suc n) + (phi ^ n - psi ^ n)"
    by (simp add: phi_square psi_square algebra_simps)
  with 3 show ?case
    by (simp add: algebra_simps)
qed (simp_all add: phi_def psi_def field_simps)

lemma psi_small: "\<bar>psi\<bar> < 1"
proof -
  have "sqrt 5 < 3"
    by (rule real_less_lsqrt) simp_all
  moreover have "1 < sqrt 5"
    by simp
  ultimately show ?thesis
    by (simp add: psi_def)
qed

lemma binet_close: "\<bar>phi ^ n / sqrt 5 - fib n\<bar> \<le> 1 / sqrt 5"
proof -
  have "\<bar>psi ^ n\<bar> \<le> 1"
    using psi_small power_le_one [of "\<bar>psi\<bar>" n] by (simp add: power_abs)
  moreover have "phi ^ n / sqrt 5 - fib n = psi ^ n / sqrt 5"
    using binet_fib [of n] by (simp add: field_simps)
  ultimately show ?thesis
    by (simp add: divide_right_mono)
qed

text \<open>What the code relies on of the floating-point quotient: it is close to the exact one for
  the retries whose delay is below the cap, and no smaller than the cap after them.\<close>

definition binet_accurate :: "(nat \<Rightarrow> real) \<Rightarrow> bool" where
  "binet_accurate binet = ((\<forall>n \<le> 9. \<bar>binet n - phi ^ (n + 1) / sqrt 5\<bar> < 1 / 100)
     \<and> (\<forall>n > 9. 60 \<le> binet n))"

lemma inverse_sqrt5: "1 / sqrt 5 < 48 / 100"
proof -
  have "100 / 48 < sqrt 5"
    by (rule real_less_rsqrt) (simp add: power2_eq_square)
  then show ?thesis
    by (simp add: field_simps)
qed

lemma fib_mono: "m \<le> n \<Longrightarrow> fib (Suc m) \<le> fib (Suc n)"
proof (induction rule: dec_induct)
  case (step n)
  then show ?case by (cases n) auto
qed simp

lemma fibonacci_delay_capped:
  assumes "binet_accurate binet"
  shows "min (fibonacci_delay binet n) 60 = min (fib (n + 1)) 60"
proof (cases "n \<le> 9")
  case True
  with assms have "\<bar>binet n - phi ^ (n + 1) / sqrt 5\<bar> < 1 / 100"
    by (simp add: binet_accurate_def)
  with binet_close [of "n + 1"] inverse_sqrt5 have "\<bar>binet n - fib (n + 1)\<bar> < 1 / 2"
    by linarith
  then have "round (binet n) = int (fib (n + 1))"
    by (intro round_unique') (simp add: abs_minus_commute)
  moreover have "fib (n + 1) \<le> fib (Suc 9)"
    using fib_mono [OF True] by simp
  moreover have "fib (Suc 9) = 55"
    by (simp add: eval_nat_numeral)
  ultimately show ?thesis
    by (simp add: fibonacci_delay_def u64_max_def)
next
  case False
  with assms have "60 \<le> binet n"
    by (simp add: binet_accurate_def)
  then have "60 \<le> round (binet n)"
    using round_mono [of 60 "binet n"] by simp
  moreover have "fib (Suc 10) \<le> fib (Suc n)"
    using False by (intro fib_mono) simp
  moreover have "fib (Suc 10) = 89"
    by (simp add: eval_nat_numeral)
  ultimately show ?thesis
    by (simp add: fibonacci_delay_def u64_max_def)
qed

section \<open>What the loop does\<close>

text \<open>The state before the attempt of the given number, and its outcome.\<close>

fun before_attempt ::
    "('s \<times> nat option \<Rightarrow> ('s \<times> nat option) \<times> ('e + 'a)) \<Rightarrow> 's \<times> nat option \<Rightarrow> nat \<Rightarrow> 's \<times> nat option"
where
  "before_attempt operation s 0 = s"
| "before_attempt operation s (Suc i) = (fst (fst (operation (before_attempt operation s i))), None)"

definition outcome ::
    "('s \<times> nat option \<Rightarrow> ('s \<times> nat option) \<times> ('e + 'a)) \<Rightarrow> 's \<times> nat option \<Rightarrow> nat \<Rightarrow> 'e + 'a" where
  "outcome operation s i = snd (operation (before_attempt operation s i))"

definition hint_after ::
    "('s \<times> nat option \<Rightarrow> ('s \<times> nat option) \<times> ('e + 'a)) \<Rightarrow> 's \<times> nat option \<Rightarrow> nat \<Rightarrow> nat option" where
  "hint_after operation s i = snd (fst (operation (before_attempt operation s i)))"

definition try_again :: "('e \<Rightarrow> bool) \<Rightarrow> 'e + 'a \<Rightarrow> bool" where
  "try_again should_retry r = (case r of Inl e \<Rightarrow> should_retry e | Inr _ \<Rightarrow> False)"

text \<open>The number of attempts after the first: the first attempt that settles the matter, or the
  last one allowed.\<close>

fun last_attempt :: "(nat \<Rightarrow> bool) \<Rightarrow> nat \<Rightarrow> nat" where
  "last_attempt again 0 = 0"
| "last_attempt again (Suc n) =
    (if again 0 then Suc (last_attempt (\<lambda>i. again (Suc i)) n) else 0)"

lemma last_attempt_le: "last_attempt again n \<le> n"
  by (induction again n rule: last_attempt.induct) auto

lemma last_attempt_before: "i < last_attempt again n \<Longrightarrow> again i"
  by (induction again n arbitrary: i rule: last_attempt.induct)
    (auto split: if_splits simp: less_Suc_eq_0_disj)

lemma last_attempt_stops: "last_attempt again n = n \<or> \<not> again (last_attempt again n)"
  by (induction again n rule: last_attempt.induct) auto

lemma before_attempt_shift:
  "before_attempt operation (fst (fst (operation s)), None) i = before_attempt operation s (Suc i)"
  by (induction i) auto

lemma backoff_loop_runs:
  assumes "attempt \<le> retries"
  shows "\<exists>k. k = last_attempt (\<lambda>i. try_again should_retry (outcome operation s i)) (retries - attempt)
    \<and> backoff_loop binet retries should_retry operation attempt slept s =
       (fst (operation (before_attempt operation s k)),
        slept @ map (\<lambda>i. backoff_delay binet (attempt + i) (hint_after operation s i)) [0..<k],
        outcome operation s k)"
  using assms
proof (induction "retries - attempt" arbitrary: attempt slept s)
  case 0
  then show ?case
    by (subst backoff_loop.simps) (auto simp: outcome_def split: prod.split sum.split)
next
  case (Suc n)
  obtain s' r where op: "operation s = (s', r)"
    by (metis surj_pair)
  show ?case
  proof (cases "try_again should_retry r")
    case False
    then show ?thesis
      by (subst backoff_loop.simps)
        (use op Suc.hyps(2) in \<open>auto simp: outcome_def try_again_def simp flip: Suc.hyps(2)
          split: sum.splits\<close>)
  next
    case True
    then obtain e where r: "r = Inl e" "should_retry e"
      by (auto simp: try_again_def split: sum.splits)
    let ?s = "(fst s', None)" and ?d = "backoff_delay binet attempt (snd s')"
    have n: "n = retries - (attempt + 1)" "attempt + 1 \<le> retries"
      using Suc.hyps(2) by simp_all
    have shift: "before_attempt operation ?s i = before_attempt operation s (Suc i)" for i
      using before_attempt_shift [of operation s i] op by simp
    then have shifted: "outcome operation ?s i = outcome operation s (Suc i)"
      "hint_after operation ?s i = hint_after operation s (Suc i)" for i
      by (simp_all add: outcome_def hint_after_def)
    define k where "k = last_attempt (\<lambda>i. try_again should_retry (outcome operation s (Suc i))) n"
    have step: "backoff_loop binet retries should_retry operation attempt slept s
        = backoff_loop binet retries should_retry operation (attempt + 1) (slept @ [?d]) ?s"
      using op r n by (subst backoff_loop.simps) simp
    have later: "backoff_loop binet retries should_retry operation (attempt + 1) (slept @ [?d]) ?s =
        (fst (operation (before_attempt operation s (Suc k))),
         (slept @ [?d]) @ map (\<lambda>i. backoff_delay binet (attempt + 1 + i) (hint_after operation s (Suc i))) [0..<k],
         outcome operation s (Suc k))"
      using Suc.hyps(1) [OF n, of ?s "slept @ [?d]"] shifted shift by (simp add: k_def n(1))
    have first: "hint_after operation s 0 = snd s'" "outcome operation s 0 = r"
      using op by (simp_all add: hint_after_def outcome_def)
    have last: "last_attempt (\<lambda>i. try_again should_retry (outcome operation s i)) (retries - attempt)
        = Suc k"
      using True first(2) by (simp add: k_def Suc.hyps(2) [symmetric])
    have "[0..<Suc k] = 0 # map Suc [0..<k]"
      by (simp add: map_Suc_upt upt_conv_Cons del: upt_Suc)
    then have "(slept @ [?d]) @ map (\<lambda>i. backoff_delay binet (attempt + 1 + i) (hint_after operation s (Suc i))) [0..<k]
        = slept @ map (\<lambda>i. backoff_delay binet (attempt + i) (hint_after operation s i)) [0..<Suc k]"
      using first(1) by (simp add: comp_def del: upt_Suc)
    with step later last show ?thesis
      by (intro exI [of _ "Suc k"]) (simp del: upt_Suc)
  qed
qed

text \<open>What every failed attempt leaves for the next one holds at the end of a failed loop, and
  what a successful attempt gives at the end of a successful one.\<close>

lemma backoff_loop_keeps:
  assumes "\<And>s. P s \<Longrightarrow> spec (operation s) Q (\<lambda>s' e. P (fst s', None))" and "P s"
    and "backoff_loop binet retries should_retry operation attempt slept s = (s', slept', r)"
  shows "(\<forall>v. r = Inr v \<longrightarrow> Q s' v) \<and> (\<forall>e. r = Inl e \<longrightarrow> P (fst s', None))"
  using assms(2,3)
proof (induction "retries - attempt" arbitrary: attempt slept s)
  case 0
  with assms(1) [OF 0(2)] show ?case
    by (subst (asm) backoff_loop.simps) (auto simp: spec_def split: prod.splits sum.splits)
next
  case (Suc n)
  obtain s1 r1 where op: "operation s = (s1, r1)"
    by (rule prod.exhaust)
  show ?case
  proof (cases "\<exists>e. r1 = Inl e \<and> should_retry e")
    case True
    moreover have "\<not> retries \<le> attempt"
      using Suc.hyps(2) by simp
    ultimately have "backoff_loop binet retries should_retry operation (attempt + 1)
        (slept @ [backoff_delay binet attempt (snd s1)]) (fst s1, None) = (s', slept', r)"
      using Suc.prems(2) op by (subst (asm) backoff_loop.simps) auto
    moreover have "P (fst s1, None)"
      using assms(1) [OF Suc.prems(1)] op True by auto
    moreover have "n = retries - (attempt + 1)"
      using Suc.hyps(2) by simp
    ultimately show ?thesis
      using Suc.hyps(1) by blast
  next
    case False
    with Suc.prems(2) op assms(1) [OF Suc.prems(1)] show ?thesis
      by (subst (asm) backoff_loop.simps) (auto split: sum.splits)
  qed
qed

section \<open>Properties\<close>

text \<open>C7. The retry loop always ends. It runs the operation until it succeeds, fails in a way
  that must not be retried, or has been retried the allowed number of times, and returns that
  last outcome; between two attempts it sleeps once, for the wait the failed attempt's answer
  asked for, or else for the next Fibonacci number of seconds, and never more than a minute.\<close>

theorem backoff_runs:
  assumes "binet_accurate binet"
    and "with_fibonacci_backoff binet retries should_retry operation s = (s', slept, result)"
    and "k = last_attempt (\<lambda>i. try_again should_retry (outcome operation s i)) retries"
  shows "k \<le> retries \<and> list_all (\<lambda>i. try_again should_retry (outcome operation s i)) [0..<k]
    \<and> result = outcome operation s k
    \<and> (k = retries \<or> \<not> try_again should_retry result)
    \<and> slept = map (\<lambda>i. min (case hint_after operation s i of Some d \<Rightarrow> d
          | None \<Rightarrow> nanos (fib (i + 2))) (nanos 60)) [0..<k]"
proof -
  let ?again = "\<lambda>i. try_again should_retry (outcome operation s i)"
  have delay: "backoff_delay binet i hint
      = min (case hint of Some d \<Rightarrow> d | None \<Rightarrow> nanos (fib (i + 2))) (nanos 60)" for i hint
  proof -
    have "min (nanos a) (nanos 60) = nanos (min a 60)" for a
      by (simp add: nanos_def min_def)
    with fibonacci_delay_capped [OF assms(1), of "i + 1"] show ?thesis
      by (simp add: backoff_delay_def max_backoff_secs_def split: option.split del: fib.simps)
  qed
  have "result = outcome operation s k"
    "slept = map (\<lambda>i. backoff_delay binet i (hint_after operation s i)) [0..<k]"
    using backoff_loop_runs [of 0 retries should_retry operation s binet "[]"] assms(2,3)
    by (simp_all add: with_fibonacci_backoff_def)
  moreover have "k \<le> retries" "k = retries \<or> \<not> try_again should_retry (outcome operation s k)"
    "list_all (\<lambda>i. try_again should_retry (outcome operation s i)) [0..<k]"
    using last_attempt_le [of ?again retries] last_attempt_stops [of ?again retries]
      last_attempt_before [of _ ?again retries]
    by (simp_all add: assms(3) list_all_iff)
  ultimately show ?thesis
    by (simp add: delay)
qed

text \<open>A server that is overloaded twice, asking once for five seconds, and then answers.\<close>

definition flaky :: "nat \<times> nat option \<Rightarrow> (nat \<times> nat option) \<times> (bool + nat)" where
  "flaky s = (if fst s = 0 then ((1, None), Inl True)
     else if fst s = 1 then ((2, Some (5 * 10 ^ 9)), Inl True)
     else ((fst s + 1, None), Inr 7))"

lemma exact_binet: "binet_accurate (\<lambda>n. if n \<le> 9 then phi ^ (n + 1) / sqrt 5 else 60)"
  by (simp add: binet_accurate_def)

theorem backoff_runs_witness:
  "snd (with_fibonacci_backoff (\<lambda>n. if n \<le> 9 then phi ^ (n + 1) / sqrt 5 else 60) 5 (\<lambda>e. e) flaky (0, None))
   = ([10 ^ 9, 5 * 10 ^ 9], Inr 7)"
proof -
  let ?run = "with_fibonacci_backoff (\<lambda>n. if n \<le> 9 then phi ^ (n + 1) / sqrt 5 else 60) 5 (\<lambda>e. e)
    flaky (0, None)"
  have run: "?run = (fst ?run, fst (snd ?run), snd (snd ?run))"
    by simp
  have "last_attempt (\<lambda>i. try_again (\<lambda>e. e) (outcome flaky (0, None) i)) 5 = 2"
    by code_simp
  then have "fst (snd ?run) = map (\<lambda>i. min (case hint_after flaky (0, None) i of Some d \<Rightarrow> d
          | None \<Rightarrow> nanos (fib (i + 2))) (nanos 60)) [0..<2]"
    "snd (snd ?run) = outcome flaky (0, None) 2"
    using backoff_runs [OF exact_binet run refl] by simp_all
  moreover have "map (\<lambda>i. min (case hint_after flaky (0, None) i of Some d \<Rightarrow> d
          | None \<Rightarrow> nanos (fib (i + 2))) (nanos 60)) [0..<2] = [10 ^ 9, 5 * 10 ^ 9]"
    by code_simp
  moreover have "outcome flaky (0, None) 2 = Inr 7"
    by code_simp
  ultimately show ?thesis
    by (simp add: prod_eq_iff)
qed

end
