(* ===== verification/Partial.thy ===== *)
theory Partial
  imports Prelude
begin

text \<open>
  \<open>fetch/partial.rs\<close>, over the disk it works on: the partial file of a download, the sidecar
  that says what its bytes are, and the decision to resume. The disk answers each operation
  with success or an error of its choosing; a write that fails may have left a part of its
  bytes behind. The JSON library is a parameter.
\<close>

section \<open>The disk\<close>

text \<open>An answer to one operation: for a write, how many bytes reach the file; and the error, if
  it fails. A disk with no answers left succeeds.\<close>

datatype answer = Answer (spilled: nat) (failure: "io_error option")

record disk =
  d_files :: "string \<Rightarrow> bytes option"
  d_answers :: "answer list"

definition next_answer :: "'a disk_scheme \<Rightarrow> answer" where
  "next_answer d = (case d_answers d of [] \<Rightarrow> Answer 0 None | a # _ \<Rightarrow> a)"

definition answered :: "'a disk_scheme \<Rightarrow> 'a disk_scheme" where
  "answered d = d\<lparr>d_answers := tl (d_answers d)\<rparr>"

definition set_file :: "string \<Rightarrow> bytes option \<Rightarrow> 'a disk_scheme \<Rightarrow> 'a disk_scheme" where
  "set_file p b d = d\<lparr>d_files := (d_files d)(p := b)\<rparr>"

definition not_found :: io_error where
  "not_found = Io_Error NotFound None"

text \<open>An operation on a file that must be there. That it is not there is said exactly when it
  is not; any other error may come at any time.\<close>

definition refusal :: "'a disk_scheme \<Rightarrow> io_error option" where
  "refusal d = (case failure (next_answer d) of
     Some e \<Rightarrow> if io_kind e = NotFound then None else Some e | None \<Rightarrow> None)"

definition on_file ::
    "'a disk_scheme \<Rightarrow> string \<Rightarrow> ('a disk_scheme \<Rightarrow> bytes \<Rightarrow> 'a disk_scheme \<times> 'b)
      \<Rightarrow> 'a disk_scheme \<times> (io_error + 'b)" where
  "on_file d p f =
    (case refusal d of
       Some e \<Rightarrow> (answered d, Inl e)
     | None \<Rightarrow> (case d_files d p of
         None \<Rightarrow> (answered d, Inl not_found)
       | Some b \<Rightarrow> (case f (answered d) b of (d', r) \<Rightarrow> (d', Inr r))))"

definition file_metadata :: "'a disk_scheme \<Rightarrow> string \<Rightarrow> 'a disk_scheme \<times> (io_error + nat)" where
  "file_metadata d p = on_file d p (\<lambda>d b. (d, length b))"

definition read_file :: "'a disk_scheme \<Rightarrow> string \<Rightarrow> 'a disk_scheme \<times> (io_error + bytes)" where
  "read_file d p = on_file d p (\<lambda>d b. (d, b))"

definition delete_file :: "'a disk_scheme \<Rightarrow> string \<Rightarrow> 'a disk_scheme \<times> (io_error + unit)" where
  "delete_file d p = on_file d p (\<lambda>d b. (set_file p None d, ()))"

definition open_append :: "'a disk_scheme \<Rightarrow> string \<Rightarrow> 'a disk_scheme \<times> (io_error + unit)" where
  "open_append d p = on_file d p (\<lambda>d b. (d, ()))"

text \<open>The rename replaces its target at once.\<close>

definition rename_file :: "'a disk_scheme \<Rightarrow> string \<Rightarrow> string \<Rightarrow> 'a disk_scheme \<times> (io_error + unit)" where
  "rename_file d p q = on_file d p (\<lambda>d b. (set_file q (Some b) (set_file p None d), ()))"

definition try_exists :: "'a disk_scheme \<Rightarrow> string \<Rightarrow> 'a disk_scheme \<times> (io_error + bool)" where
  "try_exists d p =
    (answered d, case failure (next_answer d) of
       Some e \<Rightarrow> Inl e | None \<Rightarrow> Inr (d_files d p \<noteq> None))"

definition create_truncate :: "'a disk_scheme \<Rightarrow> string \<Rightarrow> 'a disk_scheme \<times> (io_error + unit)" where
  "create_truncate d p =
    (case failure (next_answer d) of
       Some e \<Rightarrow> (answered d, Inl e)
     | None \<Rightarrow> (set_file p (Some []) (answered d), Inr ()))"

text \<open>\<open>tokio::fs::write\<close>: when it fails, the file is as it was, or holds the beginning of what
  was written.\<close>

definition write_whole :: "'a disk_scheme \<Rightarrow> string \<Rightarrow> bytes \<Rightarrow> 'a disk_scheme \<times> (io_error + unit)" where
  "write_whole d p b =
    (case failure (next_answer d) of
       None \<Rightarrow> (set_file p (Some b) (answered d), Inr ())
     | Some e \<Rightarrow>
         (case spilled (next_answer d) of
            0 \<Rightarrow> (answered d, Inl e)
          | Suc n \<Rightarrow> (set_file p (Some (take n b)) (answered d), Inl e)))"

section \<open>Identity and sidecar\<close>

record identity =
  id_url :: string
  id_resume_key :: "string option"
  id_across_urls :: bool

record sidecar =
  sc_url :: string
  sc_etag :: "string option"
  sc_last_modified :: "string option"
  sc_total :: "nat option"
  sc_resume_key :: "string option"

text \<open>\<open>serde_json\<close> on the sidecar.\<close>

record sidecar_codec =
  to_json :: "sidecar \<Rightarrow> bytes option"
  from_json :: "bytes \<Rightarrow> sidecar option"

definition matches :: "sidecar \<Rightarrow> identity \<Rightarrow> bool" where
  "matches recorded ident =
    (let same_url = sc_url recorded = id_url ident
           \<or> (id_across_urls ident \<and> id_resume_key ident \<noteq> None) in
     same_url \<and> sc_resume_key recorded = id_resume_key ident)"

definition part_path :: "string \<Rightarrow> string" where
  "part_path path = path @ ''.part''"

definition sidecar_path :: "string \<Rightarrow> string" where
  "sidecar_path path = part_path path @ ''.json''"

definition read_sidecar ::
    "sidecar_codec \<Rightarrow> 'a disk_scheme \<Rightarrow> string \<Rightarrow> 'a disk_scheme \<times> sidecar option" where
  "read_sidecar codec d path =
    (case read_file d path of
       (d, Inr b) \<Rightarrow> (d, from_json codec b)
     | (d, Inl e) \<Rightarrow> (d, None))"

definition write_sidecar ::
    "sidecar_codec \<Rightarrow> 'a disk_scheme \<Rightarrow> string \<Rightarrow> sidecar \<Rightarrow> 'a disk_scheme \<times> (io_error + unit)" where
  "write_sidecar codec d path sc =
    sbind (d, ok_or (to_json codec sc) (Io_Error OtherKind None)) (\<lambda>d json.
    write_whole d path json)"

definition remove_if_there :: "'a disk_scheme \<Rightarrow> string \<Rightarrow> 'a disk_scheme \<times> (io_error + unit)" where
  "remove_if_there d path =
    (case delete_file d path of
       (d, Inr _) \<Rightarrow> (d, Inr ())
     | (d, Inl err) \<Rightarrow> (d, if io_kind err = NotFound then Inr () else Inl err))"

definition discard :: "'a disk_scheme \<Rightarrow> string \<Rightarrow> string \<Rightarrow> 'a disk_scheme \<times> (io_error + unit)" where
  "discard d part sidecar =
    sbind (remove_if_there d part) (\<lambda>d _. remove_if_there d sidecar)"

definition reconcile ::
    "sidecar_codec \<Rightarrow> 'a disk_scheme \<Rightarrow> string \<Rightarrow> string \<Rightarrow> identity \<Rightarrow> 'a disk_scheme \<times> (io_error + unit)" where
  "reconcile codec d part sidecar ident =
    sbind (try_exists d part) (\<lambda>d there.
    case (if there then read_sidecar codec d sidecar else (d, None)) of
      (d, recorded) \<Rightarrow>
        if (case recorded of Some r \<Rightarrow> matches r ident | None \<Rightarrow> False) then (d, Inr ())
        else discard d part sidecar)"

definition promote ::
    "'a disk_scheme \<Rightarrow> string \<Rightarrow> string \<Rightarrow> string \<Rightarrow> 'a disk_scheme \<times> (io_error + unit)" where
  "promote d part sidecar path =
    sbind (remove_if_there d sidecar) (\<lambda>d _. rename_file d part path)"

section \<open>Paths\<close>

lemma paths_distinct [simp]:
  "part_path path \<noteq> path" "path \<noteq> part_path path"
  "sidecar_path path \<noteq> path" "path \<noteq> sidecar_path path"
  "sidecar_path path \<noteq> part_path path" "part_path path \<noteq> sidecar_path path"
  by (simp_all add: part_path_def sidecar_path_def)

section \<open>What each operation leaves\<close>

lemma answered_simps [simp]: "d_files (answered d) = d_files d" "disk.more (answered d) = disk.more d"
  by (simp_all add: answered_def)

lemma set_file_simps [simp]:
  "d_files (set_file p b d) = (d_files d)(p := b)" "disk.more (set_file p b d) = disk.more d"
  by (simp_all add: set_file_def)

text \<open>A step that leaves a given disk, up to the answers it used.\<close>

definition leaves :: "(string \<Rightarrow> bytes option) \<Rightarrow> 'a disk_scheme \<Rightarrow> 'a disk_scheme \<Rightarrow> bool" where
  "leaves files d d' = (d_files d' = files \<and> disk.more d' = disk.more d)"

named_theorems disk_specs \<open>what the operations on the disk leave\<close>

lemma file_metadata_spec [disk_specs]:
  "spec (file_metadata d p)
     (\<lambda>d' n. leaves (d_files d) d d' \<and> (\<exists>b. d_files d p = Some b \<and> n = length b))
     (\<lambda>d' e. leaves (d_files d) d d' \<and> (io_kind e = NotFound \<longrightarrow> True))"
  by (simp add: file_metadata_def on_file_def leaves_def split: option.split)

lemma read_file_spec [disk_specs]:
  "spec (read_file d p) (\<lambda>d' b. leaves (d_files d) d d' \<and> d_files d p = Some b)
     (\<lambda>d' e. leaves (d_files d) d d')"
  by (simp add: read_file_def on_file_def leaves_def split: option.split)

lemma open_append_spec [disk_specs]:
  "spec (open_append d p) (\<lambda>d' _. leaves (d_files d) d d' \<and> d_files d p \<noteq> None)
     (\<lambda>d' e. leaves (d_files d) d d')"
  by (simp add: open_append_def on_file_def leaves_def split: option.split)

lemma create_truncate_spec [disk_specs]:
  "spec (create_truncate d p) (\<lambda>d' _. leaves ((d_files d)(p := Some [])) d d')
     (\<lambda>d' e. leaves (d_files d) d d')"
  by (simp add: create_truncate_def leaves_def split: option.split)

lemma write_whole_spec [disk_specs]:
  "spec (write_whole d p b) (\<lambda>d' _. leaves ((d_files d)(p := Some b)) d d')
     (\<lambda>d' e. \<exists>b'. leaves ((d_files d)(p := b')) d d')"
  by (auto simp: write_whole_def leaves_def split: option.split nat.split)
    (metis fun_upd_triv)

lemma rename_file_spec [disk_specs]:
  "spec (rename_file d p q)
     (\<lambda>d' _. d_files d p \<noteq> None \<and> leaves ((d_files d)(p := None, q := d_files d p)) d d')
     (\<lambda>d' e. leaves (d_files d) d d')"
  by (simp add: rename_file_def on_file_def leaves_def split: option.split)

lemma refusal_kind: "refusal d = Some e \<Longrightarrow> io_kind e \<noteq> NotFound"
  by (auto simp: refusal_def split: option.splits if_splits)

lemma delete_file_spec:
  "spec (delete_file d p) (\<lambda>d' _. leaves ((d_files d)(p := None)) d d')
     (\<lambda>d' e. leaves (d_files d) d d' \<and> (io_kind e = NotFound \<longrightarrow> d_files d p = None))"
  by (auto simp: delete_file_def on_file_def leaves_def dest: refusal_kind split: option.split)

lemma remove_if_there_spec [disk_specs]:
  "spec (remove_if_there d p) (\<lambda>d' _. leaves ((d_files d)(p := None)) d d')
     (\<lambda>d' e. leaves (d_files d) d d')"
  using delete_file_spec [of d p]
  by (auto simp: remove_if_there_def spec_def leaves_def fun_upd_idem split: prod.splits sum.splits)

text \<open>The meaning of a disk, its answers aside, is all the specifications below speak of.\<close>

lemma leaves_trans:
  "leaves f d d' \<Longrightarrow> leaves g d' d'' \<Longrightarrow> leaves g d d''"
  by (simp add: leaves_def)

lemma discard_spec [disk_specs]:
  "spec (discard d part sidecar)
     (\<lambda>d' _. leaves ((d_files d)(part := None, sidecar := None)) d d')
     (\<lambda>d' e. leaves (d_files d) d d' \<or> leaves ((d_files d)(part := None)) d d')"
  unfolding discard_def spec_sbind
  by (rule spec_mono [OF remove_if_there_spec], rule spec_mono [OF remove_if_there_spec])
    (auto simp: leaves_def)

definition recorded_match :: "sidecar_codec \<Rightarrow> (string \<Rightarrow> bytes option) \<Rightarrow> string \<Rightarrow> identity \<Rightarrow> bool" where
  "recorded_match codec files sidecar ident =
    (case files sidecar of None \<Rightarrow> False | Some b \<Rightarrow>
     case from_json codec b of None \<Rightarrow> False | Some r \<Rightarrow> matches r ident)"

lemma read_sidecar_spec:
  "read_sidecar codec d p = (d', r) \<Longrightarrow>
     leaves (d_files d) d d' \<and> (\<forall>x. r = Some x \<longrightarrow> (\<exists>b. d_files d p = Some b \<and> from_json codec b = Some x))"
  using read_file_spec [of d p]
  by (auto simp: read_sidecar_def spec_def split: prod.splits sum.splits)

text \<open>A reconciled partial is either gone, or there with a sidecar that matches.\<close>

lemma reconcile_spec [disk_specs]:
  "spec (reconcile codec d part sidecar ident)
     (\<lambda>d' _. (leaves (d_files d) d d' \<and> d_files d part \<noteq> None
              \<and> recorded_match codec (d_files d) sidecar ident)
           \<or> leaves ((d_files d)(part := None, sidecar := None)) d d')
     (\<lambda>d' e. leaves (d_files d) d d' \<or> leaves ((d_files d)(part := None)) d d')"
proof (cases "failure (next_answer d)")
  case (Some e)
  then show ?thesis
    by (simp add: reconcile_def try_exists_def leaves_def)
next
  case None
  obtain d1 recorded where read:
    "(if d_files d part \<noteq> None then read_sidecar codec (answered d) sidecar else (answered d, None))
      = (d1, recorded)"
    by (metis surj_pair)
  have d1: "leaves (d_files d) d d1"
    using read read_sidecar_spec [of codec "answered d" sidecar d1 recorded]
    by (auto simp: leaves_def split: if_splits)
  show ?thesis
  proof (cases "\<exists>r. recorded = Some r \<and> matches r ident")
    case True
    with read read_sidecar_spec [of codec "answered d" sidecar d1 recorded] None d1
    show ?thesis
      by (auto simp: reconcile_def try_exists_def recorded_match_def split: if_splits)
  next
    case False
    then have "reconcile codec d part sidecar ident = discard d1 part sidecar"
      using read None by (auto simp: reconcile_def try_exists_def split: option.splits)
    then show ?thesis
      using spec_mono [OF discard_spec [of d1 part sidecar]] d1
      by (auto simp: leaves_def elim!: spec_mono [OF discard_spec, rotated])
  qed
qed

lemma promote_spec [disk_specs]:
  "spec (promote d (part_path path) (sidecar_path path) path)
     (\<lambda>d' _. d_files d (part_path path) \<noteq> None
        \<and> leaves ((d_files d)(sidecar_path path := None, part_path path := None,
                              path := d_files d (part_path path))) d d')
     (\<lambda>d' e. leaves (d_files d) d d' \<or> leaves ((d_files d)(sidecar_path path := None)) d d')"
  unfolding promote_def spec_sbind
  by (rule spec_mono [OF remove_if_there_spec], rule spec_mono [OF rename_file_spec])
    (auto simp: leaves_def)

end
