(* ===== verification/Download.thy ===== *)
theory Download
  imports Partial Retry
begin

text \<open>
  \<open>fetch/download.rs\<close> and \<open>fetch/digest.rs\<close>: a transfer streams a response into the partial
  file, attempt after attempt, hashing the bytes on the way, and renames it onto the target
  once it is whole. The server is a parameter: its answer to each request. So are the hash
  function and the clock. Written bytes may stay in buffers until a flush; how many of them
  reach the file before is up to the disk.
\<close>

section \<open>Requests and responses\<close>

datatype download_mode = Resume | Overwrite | Skip

datatype download_error = Http request_error | Io_Failed io_error | Cancelled

datatype digest_algorithm = Sha256

datatype body_event = Piece bytes | Break request_error

record request =
  rq_range :: "nat option"
  rq_if_range :: "string option"

record response =
  rs_status :: nat
  rs_content_range :: "string option"
  rs_etag :: "string option"
  rs_last_modified :: "string option"
  rs_retry_after :: "string option"
  rs_content_length :: "nat option"
  rs_body :: "body_event list"

record 'h hash_fn =
  h_new :: 'h
  h_update :: "'h \<Rightarrow> bytes \<Rightarrow> 'h"
  h_finish :: "'h \<Rightarrow> string"

record progress =
  pg_total :: "nat option"
  pg_downloaded :: nat
  pg_completed :: bool
  pg_failed :: bool

definition in_flight :: "nat option \<Rightarrow> nat \<Rightarrow> progress" where
  "in_flight full downloaded =
    \<lparr> pg_total = full, pg_downloaded = downloaded, pg_completed = False, pg_failed = False \<rparr>"

definition progress_chunk :: nat where
  "progress_chunk = 256 * 1024"

definition progress_pause :: nat where
  "progress_pause = 100 * 10 ^ 6"

definition prefix_chunk :: nat where
  "prefix_chunk = 64 * 1024"

text \<open>The first-byte position of \<open>bytes 1024-2047/4096\<close>, and the length of \<open>bytes */4096\<close>.\<close>

definition content_range_start :: "response \<Rightarrow> nat option" where
  "content_range_start resp =
    (case rs_content_range resp of None \<Rightarrow> None | Some value \<Rightarrow>
     case strip_prefix ''bytes '' value of None \<Rightarrow> None | Some rest \<Rightarrow>
     parse_u64 (trim (hd (split_on (\<lambda>c. c = CHR ''-'') rest))))"

definition unsatisfied_range_total :: "response \<Rightarrow> nat option" where
  "unsatisfied_range_total resp =
    (case rs_content_range resp of None \<Rightarrow> None | Some value \<Rightarrow>
     case strip_prefix ''bytes */'' value of None \<Rightarrow> None | Some rest \<Rightarrow> parse_u64 (trim rest))"

definition is_retryable :: "download_error \<Rightarrow> bool" where
  "is_retryable err =
    (case err of
       Http e \<Rightarrow> is_transient e
     | Io_Failed e \<Rightarrow> io_kind e \<notin> {PermissionDenied, NotFound, ReadOnlyFilesystem, StorageFull,
         QuotaExceeded, FileTooLarge, IsADirectory, NotADirectory, InvalidInput}
     | Cancelled \<Rightarrow> False)"

definition response_etag :: "response \<Rightarrow> string option" where
  "response_etag resp =
    (case rs_etag resp of Some etag \<Rightarrow> if prefix ''W/'' etag then None else Some etag | None \<Rightarrow> None)"

definition response_last_modified :: "response \<Rightarrow> string option" where
  "response_last_modified resp = rs_last_modified resp"

text \<open>\<open>error_for_status\<close>: client and server errors become errors.\<close>

definition status_error :: "nat \<Rightarrow> request_error" where
  "status_error status = \<lparr> err_status = Some status, err_decode = False, err_json_source = False,
     err_builder = False, err_redirect = False \<rparr>"

definition error_for_status :: "response \<Rightarrow> download_error + response" where
  "error_for_status resp =
    (if 400 \<le> rs_status resp \<and> rs_status resp < 600
     then Inl (Http (status_error (rs_status resp))) else Inr resp)"

section \<open>The transfer\<close>

record 'h transfer = disk +
  t_checkpoint :: "('h \<times> nat) option"
  t_hint :: "nat option"
  t_requests :: "request list"
  t_updates :: "progress list"
  t_reads :: nat

record 'h job =
  j_server :: "nat \<Rightarrow> request \<Rightarrow> request_error + response"
  j_hash :: "'h hash_fn"
  j_codec :: sidecar_codec
  j_clock :: "nat \<Rightarrow> nat"
  j_now :: "nat \<Rightarrow> nat"
  j_http_date :: "string \<Rightarrow> nat option"
  j_binet :: "nat \<Rightarrow> real"
  j_retries :: nat
  j_path :: string
  j_mode :: download_mode
  j_ident :: identity
  j_algorithm :: "digest_algorithm option"

abbreviation j_part :: "'h job \<Rightarrow> string" where
  "j_part j \<equiv> part_path (j_path j)"

abbreviation j_sidecar :: "'h job \<Rightarrow> string" where
  "j_sidecar j \<equiv> sidecar_path (j_path j)"

definition io_step :: "'w \<times> (io_error + 'a) \<Rightarrow> 'w \<times> (download_error + 'a)" where
  "io_step m = (case m of (w, r) \<Rightarrow> (w, map_err Io_Failed r))"

definition send_update :: "progress \<Rightarrow> 'h transfer \<Rightarrow> 'h transfer" where
  "send_update p w = w\<lparr>t_updates := t_updates w @ [p]\<rparr>"

definition forget :: "'h transfer \<Rightarrow> 'h transfer" where
  "forget w = w\<lparr>t_checkpoint := None\<rparr>"

definition existing_len :: "'h transfer \<Rightarrow> string \<Rightarrow> 'h transfer \<times> (io_error + nat option)" where
  "existing_len w path =
    (case file_metadata w path of
       (w, Inr n) \<Rightarrow> (w, Inr (Some n))
     | (w, Inl err) \<Rightarrow> (w, if io_kind err = NotFound then Inr None else Inl err))"

definition file_len :: "'h transfer \<Rightarrow> string \<Rightarrow> 'h transfer \<times> (io_error + nat)" where
  "file_len w path =
    sbind (existing_len w path) (\<lambda>w n. (w, Inr (case n of Some n \<Rightarrow> n | None \<Rightarrow> 0)))"

text \<open>\<open>Hasher::update_range\<close>: reads of at most 64 KiB, each of which the disk may cut short.\<close>

function hash_bytes ::
    "'h hash_fn \<Rightarrow> bytes \<Rightarrow> nat \<Rightarrow> nat \<Rightarrow> 'h \<Rightarrow> 'h transfer \<Rightarrow> 'h transfer \<times> (io_error + 'h)" where
  "hash_bytes hf whole pos remaining h w =
    (if remaining = 0 then (w, Inr h)
     else case failure (next_answer w) of
       Some e \<Rightarrow> (answered w, Inl e)
     | None \<Rightarrow>
         let want = min remaining prefix_chunk;
             got = (if spilled (next_answer w) = 0 then want else min want (spilled (next_answer w)));
             piece = take got (drop pos whole) in
         if piece = [] then (answered w, Inl (Io_Error UnexpectedEof None))
         else hash_bytes hf whole (pos + length piece) (remaining - length piece)
                (h_update hf h piece) (answered w))"
  by pat_completeness auto
termination
  by (relation "measure (\<lambda>(hf, whole, pos, remaining, h, w). remaining)") auto

declare hash_bytes.simps [simp del]

definition update_range ::
    "'h hash_fn \<Rightarrow> 'h \<Rightarrow> string \<Rightarrow> nat \<Rightarrow> nat \<Rightarrow> 'h transfer \<Rightarrow> 'h transfer \<times> (io_error + 'h)" where
  "update_range hf h path from_pos to_pos w =
    sbind (read_file w path) (\<lambda>w whole. hash_bytes hf whole from_pos (to_pos - from_pos) h w)"

definition hash_prefix ::
    "'h job \<Rightarrow> nat \<Rightarrow> 'h transfer \<Rightarrow> 'h transfer \<times> (download_error + 'h)" where
  "hash_prefix j offset w =
    (let carried = (case t_checkpoint w of
           Some (h, hashed) \<Rightarrow> if hashed \<le> offset then Some (h, hashed) else None
         | None \<Rightarrow> None);
         w = w\<lparr>t_checkpoint := None\<rparr> in
     case (case carried of Some c \<Rightarrow> c | None \<Rightarrow> (h_new (j_hash j), 0)) of (hasher, hashed) \<Rightarrow>
       if hashed < offset
       then io_step (update_range (j_hash j) hasher (j_part j) hashed offset w)
       else (w, Inr hasher))"

text \<open>The buffered writer: bytes not yet in the file. Each write adds to them and lets the disk
  take some; a flush hands over the rest; dropping the writer loses what was not taken.\<close>

definition append_file :: "string \<Rightarrow> bytes \<Rightarrow> 'h transfer \<Rightarrow> 'h transfer" where
  "append_file p b w = set_file p (Some (the (d_files w p) @ b)) w"

definition buffered_write ::
    "string \<Rightarrow> bytes \<Rightarrow> bytes \<Rightarrow> 'h transfer \<Rightarrow> 'h transfer \<times> (io_error + bytes)" where
  "buffered_write p pending chunk w =
    (let n = spilled (next_answer w); all = pending @ chunk in
     (append_file p (take n all) (answered w),
      case failure (next_answer w) of Some e \<Rightarrow> Inl e | None \<Rightarrow> Inr (drop n all)))"

definition flush_pending :: "string \<Rightarrow> bytes \<Rightarrow> 'h transfer \<Rightarrow> 'h transfer \<times> (io_error + unit)" where
  "flush_pending p pending w =
    (case failure (next_answer w) of
       Some e \<Rightarrow> (append_file p (take (spilled (next_answer w)) pending) (answered w), Inl e)
     | None \<Rightarrow> (append_file p pending (answered w), Inr ()))"

definition drop_pending :: "string \<Rightarrow> bytes \<Rightarrow> 'h transfer \<Rightarrow> 'h transfer" where
  "drop_pending p pending w = append_file p (take (spilled (next_answer w)) pending) (answered w)"

definition sync_all :: "'h transfer \<Rightarrow> 'h transfer \<times> (io_error + unit)" where
  "sync_all w = (answered w, case failure (next_answer w) of Some e \<Rightarrow> Inl e | None \<Rightarrow> Inr ())"

section \<open>Streaming the body\<close>

record 'h streaming =
  st_pending :: bytes
  st_hasher :: "'h option"
  st_downloaded :: nat
  st_reported :: nat
  st_reported_at :: nat

text \<open>After each piece: an update when enough bytes or enough time passed, and then, when the
  transfer hashes, a flush and a checkpoint of the hash. The clock is only read when the bytes
  alone do not force the update.\<close>

definition update_due :: "'h job \<Rightarrow> 'h streaming \<Rightarrow> 'h transfer \<Rightarrow> 'h transfer \<times> bool" where
  "update_due j st w =
    (if progress_chunk \<le> st_downloaded st - st_reported st then (w, True)
     else (w\<lparr>t_reads := t_reads w + 1\<rparr>,
           progress_pause \<le> j_clock j (t_reads w) - st_reported_at st))"

definition mark_reported ::
    "'h job \<Rightarrow> nat option \<Rightarrow> 'h streaming \<Rightarrow> 'h transfer \<Rightarrow> 'h transfer \<times> 'h streaming" where
  "mark_reported j full st w =
    ((send_update (in_flight full (st_downloaded st)) w)\<lparr>t_reads := t_reads w + 1\<rparr>,
     st\<lparr>st_reported := st_downloaded st, st_reported_at := j_clock j (t_reads w)\<rparr>)"

definition report_piece ::
    "'h job \<Rightarrow> nat option \<Rightarrow> 'h streaming \<Rightarrow> 'h transfer \<Rightarrow> 'h transfer \<times> (download_error + 'h streaming)"
where
  "report_piece j full st w =
    (case update_due j st w of (w, due) \<Rightarrow>
       if \<not> due then (w, Inr st)
       else case mark_reported j full st w of (w, st) \<Rightarrow>
         (case st_hasher st of
            None \<Rightarrow> (w, Inr st)
          | Some h \<Rightarrow>
              sbind (io_step (flush_pending (j_part j) (st_pending st) w)) (\<lambda>w _.
              (w\<lparr>t_checkpoint := Some (h, st_downloaded st)\<rparr>, Inr (st\<lparr>st_pending := []\<rparr>)))))"

fun stream_body ::
    "'h job \<Rightarrow> nat option \<Rightarrow> body_event list \<Rightarrow> 'h streaming \<Rightarrow> 'h transfer
      \<Rightarrow> 'h transfer \<times> (download_error + 'h streaming)" where
  "stream_body j full [] st w = (w, Inr st)"
| "stream_body j full (Break e # rest) st w = (drop_pending (j_part j) (st_pending st) w, Inl (Http e))"
| "stream_body j full (Piece chunk # rest) st w =
    sbind (io_step (buffered_write (j_part j) (st_pending st) chunk w)) (\<lambda>w pending.
    let st = st\<lparr>st_pending := pending,
                st_hasher := map_option (\<lambda>h. h_update (j_hash j) h chunk) (st_hasher st),
                st_downloaded := st_downloaded st + length chunk\<rparr> in
    sbind (report_piece j full st w) (\<lambda>w st. stream_body j full rest st w))"

text \<open>The end of an attempt whose body arrived whole.\<close>

definition complete_transfer ::
    "'h job \<Rightarrow> nat option \<Rightarrow> 'h streaming \<Rightarrow> 'h transfer \<Rightarrow> 'h transfer \<times> (download_error + string option)"
where
  "complete_transfer j full st w =
    sbind (io_step (flush_pending (j_part j) (st_pending st) w)) (\<lambda>w _.
    sbind (io_step (sync_all w)) (\<lambda>w _.
    sbind (io_step (promote w (j_part j) (j_sidecar j) (j_path j))) (\<lambda>w _.
    let digest = map_option (h_finish (j_hash j)) (st_hasher st);
        w = (if st_downloaded st \<noteq> st_reported st
             then send_update (in_flight full (st_downloaded st)) w else w) in
    (w, Inr digest))))"

section \<open>An attempt\<close>

definition invalid_data :: download_error where
  "invalid_data = Io_Failed (Io_Error InvalidData None)"

definition build_request :: "nat \<Rightarrow> sidecar option \<Rightarrow> request" where
  "build_request offset recorded =
    (if 0 < offset
     then \<lparr> rq_range = Some offset,
            rq_if_range = (case recorded of None \<Rightarrow> None
              | Some r \<Rightarrow> (case sc_etag r of Some e \<Rightarrow> Some e | None \<Rightarrow> sc_last_modified r)) \<rparr>
     else \<lparr> rq_range = None, rq_if_range = None \<rparr>)"

definition send_request ::
    "'h job \<Rightarrow> request \<Rightarrow> 'h transfer \<Rightarrow> 'h transfer \<times> (download_error + response)" where
  "send_request j rq w =
    (case j_server j (length (t_requests w)) rq of
       Inl e \<Rightarrow> (w\<lparr>t_requests := t_requests w @ [rq]\<rparr>, Inl (Http e))
     | Inr resp \<Rightarrow>
         (w\<lparr>t_requests := t_requests w @ [rq],
            t_hint := requested_wait (j_http_date j)
              \<lparr> a_status = rs_status resp, a_retry_after = rs_retry_after resp \<rparr>
              (j_now j (length (t_requests w)))\<rparr>, Inr resp))"

text \<open>A \<open>416\<close> to a ranged request.\<close>

definition unsatisfied_range ::
    "'h job \<Rightarrow> nat \<Rightarrow> sidecar option \<Rightarrow> response \<Rightarrow> 'h transfer
      \<Rightarrow> 'h transfer \<times> (download_error + string option)" where
  "unsatisfied_range j offset recorded resp w =
    (let full = (case unsatisfied_range_total resp of Some t \<Rightarrow> Some t
           | None \<Rightarrow> (case recorded of Some r \<Rightarrow> sc_total r | None \<Rightarrow> None)) in
     if (case full of Some t \<Rightarrow> t \<noteq> offset | None \<Rightarrow> False)
     then sbind (io_step (discard w (j_part j) (j_sidecar j))) (\<lambda>w _. (forget w, Inl invalid_data))
     else
       sbind (case j_algorithm j of
                Some _ \<Rightarrow> sbind (hash_prefix j offset w) (\<lambda>w h. (w, Inr (Some (h_finish (j_hash j) h))))
              | None \<Rightarrow> (w, Inr None)) (\<lambda>w digest.
       sbind (io_step (promote w (j_part j) (j_sidecar j) (j_path j))) (\<lambda>w _.
       (send_update (in_flight (Some offset) offset) w, Inr digest))))"

text \<open>Opening the partial: appended to when the server resumes, truncated when it does not; with
  the bytes already there and the total size.\<close>

definition open_part ::
    "'h job \<Rightarrow> bool \<Rightarrow> nat \<Rightarrow> response \<Rightarrow> 'h transfer \<Rightarrow> 'h transfer \<times> (download_error + nat \<times> nat option)"
where
  "open_part j resuming offset resp w =
    (if resuming
     then sbind (io_step (open_append w (j_part j))) (\<lambda>w _.
       (w, Inr (offset, map_option (\<lambda>remaining. offset + remaining) (rs_content_length resp))))
     else sbind (io_step (create_truncate (forget w) (j_part j))) (\<lambda>w _.
       (w, Inr (0, rs_content_length resp))))"

definition start_hasher ::
    "'h job \<Rightarrow> bool \<Rightarrow> nat \<Rightarrow> 'h transfer \<Rightarrow> 'h transfer \<times> (download_error + 'h option)" where
  "start_hasher j resuming offset w =
    (case j_algorithm j of
       Some _ \<Rightarrow> if resuming then sbind (hash_prefix j offset w) (\<lambda>w h. (w, Inr (Some h)))
                 else (w, Inr (Some (h_new (j_hash j))))
     | None \<Rightarrow> (w, Inr None))"

definition new_sidecar ::
    "'h job \<Rightarrow> bool \<Rightarrow> sidecar option \<Rightarrow> response \<Rightarrow> nat option \<Rightarrow> sidecar" where
  "new_sidecar j resuming recorded resp full =
    (let or_else = (\<lambda>a b. case a of Some x \<Rightarrow> Some x | None \<Rightarrow> b);
         (etag, last_modified) =
           (case recorded of
              Some r \<Rightarrow>
                if resuming then (or_else (response_etag resp) (sc_etag r),
                                  or_else (response_last_modified resp) (sc_last_modified r))
                else (response_etag resp, response_last_modified resp)
            | None \<Rightarrow> (response_etag resp, response_last_modified resp)) in
     \<lparr> sc_url = id_url (j_ident j), sc_etag = etag, sc_last_modified = last_modified,
       sc_total = full, sc_resume_key = id_resume_key (j_ident j) \<rparr>)"

definition receive ::
    "'h job \<Rightarrow> nat \<Rightarrow> sidecar option \<Rightarrow> response \<Rightarrow> 'h transfer
      \<Rightarrow> 'h transfer \<times> (download_error + string option)" where
  "receive j offset recorded resp w =
    (let resuming = (0 < offset \<and> rs_status resp = 206) in
     if resuming \<and> content_range_start resp \<noteq> Some offset
     then sbind (io_step (create_truncate w (j_part j))) (\<lambda>w _. (forget w, Inl invalid_data))
     else
       sbind (open_part j resuming offset resp w) (\<lambda>w (downloaded, full).
       sbind (start_hasher j resuming offset w) (\<lambda>w hasher.
       sbind (io_step (write_sidecar (j_codec j) w (j_sidecar j)
                (new_sidecar j resuming recorded resp full))) (\<lambda>w _.
       let w = send_update (in_flight full downloaded) w;
           st = \<lparr> st_pending = [], st_hasher = hasher, st_downloaded = downloaded,
                  st_reported = downloaded, st_reported_at = j_clock j (t_reads w) \<rparr>;
           w = w\<lparr>t_reads := t_reads w + 1\<rparr> in
       sbind (stream_body j full (rs_body resp) st w) (\<lambda>w st.
       complete_transfer j full st w)))))"

definition attempt_from ::
    "'h job \<Rightarrow> nat \<Rightarrow> 'h transfer \<Rightarrow> 'h transfer \<times> (download_error + string option)" where
  "attempt_from j offset w =
    (case (if 0 < offset then read_sidecar (j_codec j) w (j_sidecar j) else (w, None)) of
      (w, recorded) \<Rightarrow>
        sbind (send_request j (build_request offset recorded) w) (\<lambda>w resp.
        if 0 < offset \<and> rs_status resp = 416 then unsatisfied_range j offset recorded resp w
        else sbind (w, error_for_status resp) (\<lambda>w resp. receive j offset recorded resp w)))"

text \<open>The offset is read again from the disk at each attempt.\<close>

definition attempt ::
    "'h job \<Rightarrow> 'h transfer \<Rightarrow> 'h transfer \<times> (download_error + string option)" where
  "attempt j w =
    sbind (if j_mode j = Overwrite then (w, Inr 0) else io_step (file_len w (j_part j))) (\<lambda>w offset.
    attempt_from j offset w)"

section \<open>The whole download\<close>

text \<open>The operation of the retry loop: the hint lives in its own cell.\<close>

definition attempt_op ::
    "'h job \<Rightarrow> 'h transfer \<times> nat option \<Rightarrow> ('h transfer \<times> nat option) \<times> (download_error + string option)"
where
  "attempt_op j s =
    (case attempt j ((fst s)\<lparr>t_hint := snd s\<rparr>) of (w, r) \<Rightarrow> ((w, t_hint w), r))"

definition retried ::
    "'h job \<Rightarrow> 'h transfer \<Rightarrow> 'h transfer \<times> (download_error + string option)" where
  "retried j w =
    (case with_fibonacci_backoff (j_binet j) (j_retries j) is_retryable (attempt_op j) (w, None) of
       (s, slept, r) \<Rightarrow> (fst s, r))"

text \<open>The resume decision, made once, and the attempts.\<close>

definition fetch_missing ::
    "'h job \<Rightarrow> 'h transfer \<Rightarrow> 'h transfer \<times> (download_error + string option)" where
  "fetch_missing j w =
    sbind (io_step (if j_mode j = Overwrite then discard w (j_part j) (j_sidecar j)
                    else reconcile (j_codec j) w (j_part j) (j_sidecar j) (j_ident j)))
      (\<lambda>w _. retried j (w\<lparr>t_checkpoint := None\<rparr>))"

definition stream_to_file ::
    "'h job \<Rightarrow> request_error + unit \<Rightarrow> 'h transfer \<Rightarrow> 'h transfer \<times> (download_error + string option)" where
  "stream_to_file j prepared w =
    sbind (w, map_err Http prepared) (\<lambda>w _.
    sbind (if j_mode j \<noteq> Overwrite then io_step (existing_len w (j_path j)) else (w, Inr None))
      (\<lambda>w there.
    case there of
      Some len \<Rightarrow> (send_update (in_flight (Some len) len) w, Inr None)
    | None \<Rightarrow> fetch_missing j w))"

text \<open>\<open>run\<close>: the last update says how it ended, and a digest is published only on success.\<close>

definition run_download ::
    "'h job \<Rightarrow> request_error + unit \<Rightarrow> 'h transfer
      \<Rightarrow> 'h transfer \<times> string option \<times> (download_error + unit)" where
  "run_download j prepared w =
    (case stream_to_file j prepared w of (w, result) \<Rightarrow>
       let last_update = (if t_updates w = [] then in_flight None 0 else last (t_updates w)) in
       (send_update (last_update\<lparr>pg_completed := True, pg_failed := \<not> is_ok result\<rparr>) w,
        (case result of Inr digest \<Rightarrow> digest | Inl _ \<Rightarrow> None),
        (case result of Inr _ \<Rightarrow> Inr () | Inl e \<Rightarrow> Inl e)))"

end
