(* ===== verification/Download_Props.thy ===== *)
theory Download_Props
  imports Download
begin

text \<open>
  What a download guarantees: a failed one leaves the target as it was; a digest is the hash
  of the file it comes with, however many attempts and checkpoints it took; and from a server
  that serves one resource, a successful download is that resource, resumed or not.
\<close>

section \<open>What is assumed\<close>

text \<open>The hash function is fed in pieces.\<close>

definition hash_ok :: "'h hash_fn \<Rightarrow> bool" where
  "hash_ok hf = (\<forall>h a b. h_update hf (h_update hf h a) b = h_update hf h (a @ b)
     \<and> h_update hf h [] = h)"

definition hash_of :: "'h hash_fn \<Rightarrow> bytes \<Rightarrow> 'h" where
  "hash_of hf b = h_update hf (h_new hf) b"

text \<open>What a body delivers: the pieces before it breaks, if it does.\<close>

fun pieces :: "body_event list \<Rightarrow> bytes" where
  "pieces [] = []"
| "pieces (Piece b # rest) = b @ pieces rest"
| "pieces (Break e # rest) = []"

fun unbroken :: "body_event list \<Rightarrow> bool" where
  "unbroken [] = True"
| "unbroken (Piece b # rest) = unbroken rest"
| "unbroken (Break e # rest) = False"

definition delivers :: "bytes \<Rightarrow> body_event list \<Rightarrow> bool" where
  "delivers b body = (prefix (pieces body) b \<and> (unbroken body \<longrightarrow> pieces body = b))"

text \<open>A server that serves the resource \<open>r\<close>: an accepted request gets it, or, as a partial
  answer starting where the request asked, the rest of it; a body may break off, but one that
  ends has delivered everything; and a range is not satisfiable only past the end.\<close>

definition serves :: "bytes \<Rightarrow> (nat \<Rightarrow> request \<Rightarrow> request_error + response) \<Rightarrow> bool" where
  "serves r server = (\<forall>i rq resp. server i rq = Inr resp \<longrightarrow>
     (rs_status resp = 416 \<longrightarrow> (\<forall>start. rq_range rq = Some start \<longrightarrow> length r \<le> start))
     \<and> (\<forall>start. rq_range rq = Some start \<and> rs_status resp = 206
            \<and> content_range_start resp = Some start \<longrightarrow> delivers (drop start r) (rs_body resp))
     \<and> (\<not> (400 \<le> rs_status resp \<and> rs_status resp < 600)
            \<and> (rq_range rq = None \<or> rs_status resp \<noteq> 206) \<longrightarrow> delivers r (rs_body resp)))"

section \<open>The invariant between attempts\<close>

definition part_bytes :: "'h job \<Rightarrow> 'h transfer \<Rightarrow> bytes" where
  "part_bytes j w = (case d_files w (j_part j) of Some b \<Rightarrow> b | None \<Rightarrow> [])"

text \<open>A checkpoint hashes a beginning of the partial.\<close>

definition checkpoint_of :: "'h hash_fn \<Rightarrow> bytes \<Rightarrow> ('h \<times> nat) option \<Rightarrow> bool" where
  "checkpoint_of hf b c = (case c of None \<Rightarrow> True
     | Some (h, n) \<Rightarrow> n \<le> length b \<and> h = hash_of hf (take n b))"

text \<open>\<open>R\<close> is the resource, when there is one. A checkpoint may outlive a partial that was
  removed, but not one that has bytes.\<close>

definition between :: "'h job \<Rightarrow> bytes option \<Rightarrow> bytes option \<Rightarrow> 'h transfer \<Rightarrow> bool" where
  "between j R target w = (d_files w (j_path j) = target
     \<and> (part_bytes j w = [] \<or> checkpoint_of (j_hash j) (part_bytes j w) (t_checkpoint w))
     \<and> (\<forall>r. R = Some r \<longrightarrow> prefix (part_bytes j w) r))"

text \<open>What a successful attempt leaves.\<close>

definition arrived :: "'h job \<Rightarrow> bytes option \<Rightarrow> 'h transfer \<Rightarrow> string option \<Rightarrow> bool" where
  "arrived j R w digest = (\<exists>c. d_files w (j_path j) = Some c
     \<and> (\<forall>r. R = Some r \<longrightarrow> c = r)
     \<and> digest = (case j_algorithm j of Some _ \<Rightarrow> Some (h_finish (j_hash j) (hash_of (j_hash j) c))
                 | None \<Rightarrow> None))"

lemma leaves_transfer:
  assumes "leaves F w (w' :: 'h transfer)"
  shows "d_files w' = F" "t_checkpoint w' = t_checkpoint w" "t_requests w' = t_requests w"
    "t_updates w' = t_updates w" "t_hint w' = t_hint w"
  using assms by (cases w; cases w'; simp add: leaves_def)+

lemma spec_io_step [simp]: "spec (io_step m) Q E = spec m Q (\<lambda>w e. E w (Io_Failed e))"
  by (cases m; cases "snd m") (auto simp: io_step_def spec_def)

lemma file_update_simps [simp]:
  "d_files (send_update p w) = d_files w" "t_checkpoint (send_update p w) = t_checkpoint w"
  "d_files (forget w) = d_files w" "t_checkpoint (forget w) = None"
  "t_requests (send_update p w) = t_requests w" "t_requests (forget w) = t_requests w"
  by (simp_all add: send_update_def forget_def)

lemma answered_transfer [simp]:
  "t_checkpoint (answered w) = t_checkpoint w" "t_requests (answered w) = t_requests w"
  by (simp_all add: answered_def)

lemma set_file_transfer [simp]:
  "t_checkpoint (set_file p b w) = t_checkpoint w" "t_requests (set_file p b w) = t_requests w"
  by (simp_all add: set_file_def)

section \<open>Hashing\<close>

lemma hash_of_append: "hash_ok hf \<Longrightarrow> h_update hf (hash_of hf a) b = hash_of hf (a @ b)"
  by (simp add: hash_ok_def hash_of_def)

lemma hash_of_Nil: "hash_ok hf \<Longrightarrow> hash_of hf [] = h_new hf"
  by (simp add: hash_ok_def hash_of_def)

lemma hash_bytes_spec:
  assumes "hash_ok hf" and "pos + remaining \<le> length whole" and "h = hash_of hf (take pos whole)"
  shows "spec (hash_bytes hf whole pos remaining h w)
    (\<lambda>w' h'. leaves (d_files w) w w' \<and> h' = hash_of hf (take (pos + remaining) whole))
    (\<lambda>w' e. leaves (d_files w) w w')"
  using assms
proof (induction hf whole pos remaining h w rule: hash_bytes.induct)
  case (1 hf whole pos remaining h w)
  show ?case
  proof (cases "remaining = 0 \<or> failure (next_answer w) \<noteq> None")
    case True
    with 1(4) show ?thesis
      by (subst hash_bytes.simps) (auto simp: leaves_def)
  next
    case False
    define want where "want = min remaining prefix_chunk"
    define got where "got = (if spilled (next_answer w) = 0 then want
      else min want (spilled (next_answer w)))"
    define piece where "piece = take got (drop pos whole)"
    have sizes: "0 < got" "got \<le> remaining" "pos < length whole"
      using False 1(3) by (auto simp: got_def want_def prefix_chunk_def)
    then have piece: "piece \<noteq> []" "length piece = got" "pos + got \<le> length whole"
      using 1(3) by (auto simp: piece_def)
    have grown: "h_update hf h piece = hash_of hf (take (pos + got) whole)"
      using 1(2,4) by (simp add: piece_def hash_of_append take_add)
    have "hash_bytes hf whole pos remaining h w
        = hash_bytes hf whole (pos + got) (remaining - got) (h_update hf h piece) (answered w)"
      using False piece(1,2) sizes
      by (subst hash_bytes.simps)
        (simp add: Let_def want_def [symmetric] got_def [symmetric] piece_def [symmetric])
    moreover have "spec (hash_bytes hf whole (pos + length piece) (remaining - length piece)
          (h_update hf h piece) (answered w))
        (\<lambda>w' h'. leaves (d_files (answered w)) (answered w) w'
          \<and> h' = hash_of hf (take (pos + length piece + (remaining - length piece)) whole))
        (\<lambda>w' e. leaves (d_files (answered w)) (answered w) w')"
      by (rule 1(1) [OF _ _ want_def got_def piece_def])
        (use False 1(2,3) piece sizes grown in simp_all)
    moreover have "pos + length piece + (remaining - length piece) = pos + remaining"
      using piece(2) sizes by simp
    ultimately show ?thesis
      unfolding piece(2) by (simp add: leaves_def)
  qed
qed

lemma update_range_spec:
  assumes "hash_ok hf" and "d_files w path = Some b" and "from_pos \<le> to_pos" and "to_pos \<le> length b"
    and "h = hash_of hf (take from_pos b)"
  shows "spec (update_range hf h path from_pos to_pos w)
    (\<lambda>w' h'. leaves (d_files w) w w' \<and> h' = hash_of hf (take to_pos b))
    (\<lambda>w' e. leaves (d_files w) w w')"
  unfolding update_range_def spec_sbind
proof (rule spec_mono [OF read_file_spec])
  fix w1 whole
  assume "leaves (d_files w) w w1 \<and> d_files w path = Some whole"
  then have w1: "leaves (d_files w) w w1" "whole = b"
    using assms(2) by simp_all
  show "spec (hash_bytes hf whole from_pos (to_pos - from_pos) h w1)
      (\<lambda>w' h'. leaves (d_files w) w w' \<and> h' = hash_of hf (take to_pos b))
      (\<lambda>w' e. leaves (d_files w) w w')"
    by (rule spec_mono [OF hash_bytes_spec [OF assms(1)]])
      (use assms w1 in \<open>auto simp: leaves_def\<close>)
qed (use assms in auto)

lemma hash_prefix_spec:
  assumes "hash_ok (j_hash j)" and "d_files w (j_part j) = Some b"
    and "checkpoint_of (j_hash j) b (t_checkpoint w)"
  shows "spec (hash_prefix j (length b) w)
    (\<lambda>w' h. d_files w' = d_files w \<and> t_checkpoint w' = None \<and> h = hash_of (j_hash j) b)
    (\<lambda>w' e. d_files w' = d_files w \<and> t_checkpoint w' = None)"
proof -
  let ?w = "w\<lparr>t_checkpoint := None\<rparr>"
  obtain h n where start: "(case (case t_checkpoint w of
        Some (h, hashed) \<Rightarrow> if hashed \<le> length b then Some (h, hashed) else None | None \<Rightarrow> None) of
      Some c \<Rightarrow> c | None \<Rightarrow> (h_new (j_hash j), 0)) = (h, n)"
    by (rule prod.exhaust)
  then have hn: "n \<le> length b" "h = hash_of (j_hash j) (take n b)"
  proof (atomize(full), cases "t_checkpoint w")
    case None
    have "(h_new (j_hash j), 0) = (h, n)"
      using start unfolding None by (simp only: option.case)
    then have "h = h_new (j_hash j)" "n = 0"
      by blast+
    then show "n \<le> length b \<and> h = hash_of (j_hash j) (take n b)"
      by (simp add: hash_of_Nil [OF assms(1)])
  next
    case (Some c)
    with start assms(3) show "n \<le> length b \<and> h = hash_of (j_hash j) (take n b)"
      by (cases c) (simp add: checkpoint_of_def)
  qed
  show ?thesis
  proof (cases "n < length b")
    case True
    with assms(1,2) hn have "spec (update_range (j_hash j) h (j_part j) n (length b) ?w)
        (\<lambda>w' h'. leaves (d_files ?w) ?w w' \<and> h' = hash_of (j_hash j) (take (length b) b))
        (\<lambda>w' e. leaves (d_files ?w) ?w w')"
      by (intro update_range_spec) auto
    with start True show ?thesis
      by (auto simp: hash_prefix_def Let_def leaves_transfer elim: spec_mono)
  next
    case False
    with start hn show ?thesis
      by (simp add: hash_prefix_def Let_def)
  qed
qed

section \<open>Streaming\<close>

lemma checkpoint_of_append: "checkpoint_of hf b c \<Longrightarrow> checkpoint_of hf (b @ x) c"
  by (auto simp: checkpoint_of_def split: option.splits)

lemma checkpoint_of_None [simp]: "checkpoint_of hf b None"
  by (simp add: checkpoint_of_def)

text \<open>While a body streams: what arrived is what the partial and the writer hold, the hash is
  its hash, and the body still holds the rest of the resource.\<close>

definition streaming ::
    "'h job \<Rightarrow> bytes option \<Rightarrow> bytes option \<Rightarrow> body_event list \<Rightarrow> 'h transfer \<Rightarrow> 'h streaming \<Rightarrow> bool" where
  "streaming j R target body w st = (\<exists>b. d_files w (j_path j) = target
     \<and> d_files w (j_part j) = Some b
     \<and> checkpoint_of (j_hash j) b (t_checkpoint w)
     \<and> st_downloaded st = length (b @ st_pending st)
     \<and> st_hasher st = (case j_algorithm j of
         Some _ \<Rightarrow> Some (hash_of (j_hash j) (b @ st_pending st)) | None \<Rightarrow> None)
     \<and> (\<forall>r. R = Some r \<longrightarrow> (\<exists>rest. r = (b @ st_pending st) @ rest \<and> delivers rest body)))"

lemma appended_between:
  assumes "d_files w (j_path j) = target" and "d_files w (j_part j) = Some b"
    and "checkpoint_of (j_hash j) b (t_checkpoint w)"
    and "\<And>r. R = Some r \<Longrightarrow> prefix (b @ x) r"
  shows "between j R target (append_file (j_part j) x w)"
  using assms checkpoint_of_append [OF assms(3), of x]
  by (simp add: between_def part_bytes_def append_file_def)

lemma stop_between:
  assumes "streaming j R target body w st" and "w' = append_file (j_part j) (take n (st_pending st)) (answered w)"
  shows "between j R target w'"
proof -
  from assms(1) obtain b where b: "d_files w (j_path j) = target" "d_files w (j_part j) = Some b"
    "checkpoint_of (j_hash j) b (t_checkpoint w)"
    "\<And>r. R = Some r \<Longrightarrow> \<exists>rest. r = (b @ st_pending st) @ rest"
    by (auto simp: streaming_def)
  have "prefix (b @ take n (st_pending st)) r" if "R = Some r" for r
  proof -
    from b(4) [OF that] obtain rest where "r = (b @ st_pending st) @ rest"
      by blast
    then have "r = (b @ take n (st_pending st)) @ drop n (st_pending st) @ rest"
      by (simp flip: append_assoc) (simp only: append_assoc append_take_drop_id)
    then show ?thesis
      by (rule prefixI)
  qed
  then show ?thesis
    unfolding assms(2) using b by (intro appended_between) auto
qed

lemma flush_streaming:
  assumes "streaming j R target body w st"
  shows "spec (flush_pending (j_part j) (st_pending st) w)
    (\<lambda>w' _. streaming j R target body w' (st\<lparr>st_pending := []\<rparr>) \<and>
        d_files w' (j_part j) = Some (the (d_files w (j_part j)) @ st_pending st))
    (\<lambda>w' e. between j R target w')"
  using assms stop_between [OF assms refl]
  by (auto simp: flush_pending_def streaming_def append_file_def checkpoint_of_append
      split: option.splits)

lemma report_piece_spec:
  assumes "streaming j R target body w st"
  shows "spec (report_piece j full st w) (\<lambda>w' st'. streaming j R target body w' st')
    (\<lambda>w' e. between j R target w')"
proof -
  have same: "streaming j R target body w1 st1"
    if "d_files w1 = d_files w" "t_checkpoint w1 = t_checkpoint w"
      "st_pending st1 = st_pending st" "st_hasher st1 = st_hasher st" "st_downloaded st1 = st_downloaded st"
    for w1 st1
    using assms unfolding streaming_def that .
  have checkpointed: "streaming j R target body (w2\<lparr>t_checkpoint := Some (h, st_downloaded st1)\<rparr>) (st1\<lparr>st_pending := []\<rparr>)"
    if "streaming j R target body w2 (st1\<lparr>st_pending := []\<rparr>)" "st_hasher st1 = Some h" for w2 st1 h
    using that by (auto simp: streaming_def checkpoint_of_def split: option.splits)
  have hashed: "spec (sbind (io_step (flush_pending (j_part j) (st_pending st1) w1)) (\<lambda>w _.
        (w\<lparr>t_checkpoint := Some (h, st_downloaded st1)\<rparr>, Inr (st1\<lparr>st_pending := []\<rparr>))))
      (\<lambda>w' st'. streaming j R target body w' st') (\<lambda>w' e. between j R target w')"
    if "streaming j R target body w1 st1" "st_hasher st1 = Some h" for w1 st1 h
    unfolding spec_sbind spec_io_step
    by (rule spec_mono [OF flush_streaming [OF that(1)]]) (auto intro: checkpointed that(2))
  obtain w1 due where due: "update_due j st w = (w1, due)"
    by (rule prod.exhaust)
  then have w1: "streaming j R target body w1 st"
    by (intro same) (auto simp: update_due_def split: if_splits)
  obtain w2 st2 where marked: "mark_reported j full st w1 = (w2, st2)"
    by (rule prod.exhaust)
  then have w2: "streaming j R target body w2 st2"
    using due by (intro same) (auto simp: update_due_def mark_reported_def split: if_splits)
  show ?thesis
    using hashed [OF w2] w1 w2 due marked
    by (cases "st_hasher st2") (simp_all add: report_piece_def)
qed

lemma stream_body_spec:
  assumes "hash_ok (j_hash j)" and "streaming j R target body w st"
  shows "spec (stream_body j full body st w) (\<lambda>w' st'. streaming j R target [] w' st')
    (\<lambda>w' e. between j R target w')"
  using assms
proof (induction j full body st w rule: stream_body.induct)
  case (1 j full st w)
  then show ?case by simp
next
  case (2 j full e rest st w)
  then show ?case
    by (simp add: drop_pending_def stop_between [OF 2(2) refl])
next
  case (3 j full chunk rest st w)
  let ?n = "spilled (next_answer w)" and ?all = "st_pending st @ chunk"
  let ?st = "st\<lparr>st_pending := drop ?n ?all,
    st_hasher := map_option (\<lambda>h. h_update (j_hash j) h chunk) (st_hasher st),
    st_downloaded := st_downloaded st + length chunk\<rparr>"
  let ?w = "append_file (j_part j) (take ?n ?all) (answered w)"
  from 3(3) obtain b where b: "d_files w (j_path j) = target" "d_files w (j_part j) = Some b"
    "checkpoint_of (j_hash j) b (t_checkpoint w)" "st_downloaded st = length (b @ st_pending st)"
    "st_hasher st = (case j_algorithm j of
         Some _ \<Rightarrow> Some (hash_of (j_hash j) (b @ st_pending st)) | None \<Rightarrow> None)"
    and rest: "\<And>r. R = Some r \<Longrightarrow> \<exists>t. r = (b @ st_pending st) @ t \<and> delivers t (Piece chunk # rest)"
    by (auto simp: streaming_def)
  have whole: "(b @ take ?n ?all) @ drop ?n ?all = (b @ st_pending st) @ chunk"
    by (simp only: append_assoc append_take_drop_id)
  have pend: "st_pending ?st = drop ?n ?all"
    by simp
  have more: "\<exists>t. r = ((b @ st_pending st) @ chunk) @ t \<and> delivers t rest" if "R = Some r" for r
  proof -
    from rest [OF that] obtain t where t: "r = (b @ st_pending st) @ t" "delivers t (Piece chunk # rest)"
      by blast
    then obtain u where "t = chunk @ u"
      by (auto simp: delivers_def elim: prefixE)
    with t show ?thesis
      by (auto simp: delivers_def)
  qed
  have "streaming j R target rest ?w ?st"
    unfolding streaming_def
  proof (rule exI [of _ "b @ take ?n ?all"], intro conjI allI impI)
    show "st_hasher ?st = (case j_algorithm j of
        Some _ \<Rightarrow> Some (hash_of (j_hash j) ((b @ take ?n ?all) @ st_pending ?st)) | None \<Rightarrow> None)"
      unfolding pend whole using b(5) hash_of_append [OF 3(2)] by (simp split: option.splits)
    show "\<exists>t. r = ((b @ take ?n ?all) @ st_pending ?st) @ t \<and> delivers t rest" if "R = Some r" for r
      unfolding pend whole by (rule more [OF that])
    show "checkpoint_of (j_hash j) (b @ take ?n ?all) (t_checkpoint ?w)"
      using b(3) by (simp add: append_file_def checkpoint_of_append)
    show "st_downloaded ?st = length ((b @ take ?n ?all) @ st_pending ?st)"
      unfolding pend whole using b(4) by simp
  qed (use b(1,2) in \<open>simp_all add: append_file_def\<close>)
  moreover have "prefix (b @ take ?n ?all) r" if "R = Some r" for r
    using more [OF that] whole by (metis prefixI append_assoc)
  then have "between j R target ?w"
    using b by (intro appended_between) simp_all
  ultimately show ?case
    using report_piece_spec [of j R target rest ?w ?st full] 3(1,2)
    by (auto simp: buffered_write_def Let_def split: option.split elim: spec_mono)
qed

section \<open>Attempts\<close>

lemma between_same:
  "between j R target w \<Longrightarrow> d_files w' = d_files w \<Longrightarrow> t_checkpoint w' = t_checkpoint w \<Longrightarrow>
     between j R target w'"
  by (simp add: between_def part_bytes_def)

lemma between_no_checkpoint:
  "between j R target w \<Longrightarrow> d_files w' = d_files w \<Longrightarrow> t_checkpoint w' = None \<Longrightarrow>
     between j R target w'"
  by (simp add: between_def part_bytes_def)

text \<open>Losing the partial, or the sidecar, keeps the invariant.\<close>

lemma between_files:
  assumes "between j R target w" and "t_checkpoint w' = t_checkpoint w"
    and "d_files w' (j_path j) = d_files w (j_path j)"
    and "d_files w' (j_part j) = d_files w (j_part j) \<or> d_files w' (j_part j) = None
      \<or> d_files w' (j_part j) = Some []"
  shows "between j R target w'"
  using assms by (auto simp: between_def part_bytes_def)

lemma promote_between:
  assumes "between j R target w" and "leaves F w w'"
    and "F = d_files w \<or> F = (d_files w)(j_sidecar j := None)"
  shows "between j R target w'"
  using assms leaves_transfer [OF assms(2)] by (intro between_files [OF assms(1)]) auto

lemma complete_transfer_spec:
  fixes j :: "'h job"
  assumes "hash_ok (j_hash j)" and "streaming j R target [] w st"
  shows "spec (complete_transfer j full st w) (\<lambda>w' d. arrived j R w' d) (\<lambda>w' e. between j R target w')"
proof -
  from assms(2) obtain b where b: "d_files w (j_part j) = Some b"
    and hasher: "st_hasher st = (case j_algorithm j of
         Some _ \<Rightarrow> Some (hash_of (j_hash j) (b @ st_pending st)) | None \<Rightarrow> None)"
    and whole: "\<And>r. R = Some r \<Longrightarrow> b @ st_pending st = r"
    by (auto simp: streaming_def delivers_def)
  let ?all = "b @ st_pending st"
  have synced: "between j R target w1" "d_files w1 (j_part j) = Some ?all"
    if "streaming j R target [] w0 (st\<lparr>st_pending := []\<rparr>)"
      "d_files w0 (j_part j) = Some (the (d_files w (j_part j)) @ st_pending st)"
      "w1 = answered w0" for w0 w1 :: "'h transfer"
  proof -
    show "d_files w1 (j_part j) = Some ?all"
      using that b by simp
    then show "between j R target w1"
      using that whole by (auto simp: streaming_def between_def part_bytes_def)
  qed
  have renamed: "arrived j R w3 (map_option (h_finish (j_hash j)) (st_hasher st))"
    if "leaves ((d_files w1)(j_sidecar j := None, j_part j := None, j_path j := d_files w1 (j_part j))) w1 w2"
      "d_files w1 (j_part j) = Some ?all" "d_files w3 = d_files w2" for w1 w2 w3 :: "'h transfer"
    using that leaves_transfer(1) [OF that(1)] hasher whole
    by (auto simp: arrived_def split: option.split)
  show ?thesis
    unfolding complete_transfer_def spec_sbind spec_io_step Let_def
  proof (rule spec_mono [OF flush_streaming [OF assms(2)]], goal_cases)
    case (1 w0 u)
    note here = synced [OF conjunct1 [OF 1] conjunct2 [OF 1] refl]
    show ?case
    proof (cases "failure (next_answer w0)")
      case (Some e)
      with here show ?thesis
        by (simp add: sync_all_def)
    next
      case None
      have "spec (promote (answered w0) (j_part j) (j_sidecar j) (j_path j))
        (\<lambda>w2 u. arrived j R (if st_downloaded st \<noteq> st_reported st
             then send_update (in_flight full (st_downloaded st)) w2 else w2)
           (map_option (h_finish (j_hash j)) (st_hasher st)))
        (\<lambda>w2 e. between j R target w2)"
        by (rule spec_mono [OF promote_spec])
          (auto intro: renamed [OF _ here(2)] promote_between [OF here(1)])
      with None show ?thesis
        by (simp add: sync_all_def)
    qed
  qed
qed

lemma existing_len_spec:
  "spec (existing_len w path) (\<lambda>w' n. leaves (d_files w) w w' \<and> n = map_option length (d_files w path))
     (\<lambda>w' e. leaves (d_files w) w w')"
proof (cases "refusal w")
  case (Some e)
  then have "io_kind e \<noteq> NotFound"
    by (rule refusal_kind)
  with Some show ?thesis
    by (simp add: existing_len_def file_metadata_def on_file_def leaves_def)
next
  case None
  then show ?thesis
    by (cases "d_files w path")
      (simp_all add: existing_len_def file_metadata_def on_file_def leaves_def not_found_def)
qed

lemma file_len_spec:
  "spec (file_len w (j_part j)) (\<lambda>w' n. leaves (d_files w) w w' \<and> n = length (part_bytes j w))
     (\<lambda>w' e. leaves (d_files w) w w')"
  unfolding file_len_def spec_sbind
  by (rule spec_mono [OF existing_len_spec]) (auto simp: part_bytes_def split: option.split)

lemma write_sidecar_spec:
  "spec (write_sidecar codec w path sc) (\<lambda>w' _. \<exists>b. leaves ((d_files w)(path := Some b)) w w')
     (\<lambda>w' e. \<exists>b'. leaves ((d_files w)(path := b')) w w')"
proof (cases "to_json codec sc")
  case None
  then show ?thesis
    by (auto simp: write_sidecar_def ok_or_def leaves_def intro: exI [of _ "d_files w path"])
next
  case (Some json)
  then show ?thesis
    by (auto simp: write_sidecar_def ok_or_def intro: spec_mono [OF write_whole_spec])
qed

text \<open>Writing the sidecar and streaming the body, once the partial is open and hashed.\<close>

definition opened ::
    "'h job \<Rightarrow> bytes option \<Rightarrow> bytes option \<Rightarrow> body_event list \<Rightarrow> nat \<Rightarrow> 'h option \<Rightarrow> 'h transfer \<Rightarrow> bool" where
  "opened j R target body downloaded hasher w = (\<exists>b. d_files w (j_path j) = target
     \<and> d_files w (j_part j) = Some b \<and> checkpoint_of (j_hash j) b (t_checkpoint w)
     \<and> downloaded = length b
     \<and> hasher = (case j_algorithm j of Some _ \<Rightarrow> Some (hash_of (j_hash j) b) | None \<Rightarrow> None)
     \<and> (\<forall>r. R = Some r \<longrightarrow> (\<exists>rest. r = b @ rest \<and> delivers rest body)))"

lemma opened_streaming:
  assumes "opened j R target body downloaded hasher w" and "d_files w' (j_path j) = d_files w (j_path j)"
    and "d_files w' (j_part j) = d_files w (j_part j)" and "t_checkpoint w' = t_checkpoint w"
  shows "streaming j R target body w' \<lparr> st_pending = [], st_hasher = hasher,
    st_downloaded = downloaded, st_reported = n, st_reported_at = t \<rparr>"
  using assms unfolding opened_def streaming_def by (cases "j_algorithm j") auto

lemma opened_between:
  assumes "opened j R target body downloaded hasher w" and "d_files w' (j_path j) = d_files w (j_path j)"
    and "d_files w' (j_part j) = d_files w (j_part j)" and "t_checkpoint w' = t_checkpoint w"
  shows "between j R target w'"
  using assms unfolding opened_def between_def part_bytes_def by auto

definition stream_opened ::
    "'h job \<Rightarrow> sidecar \<Rightarrow> response \<Rightarrow> nat option \<Rightarrow> nat \<Rightarrow> 'h option \<Rightarrow> 'h transfer
      \<Rightarrow> 'h transfer \<times> (download_error + string option)" where
  "stream_opened j sc resp full downloaded hasher w =
    sbind (io_step (write_sidecar (j_codec j) w (j_sidecar j) sc)) (\<lambda>w _.
    let w = send_update (in_flight full downloaded) w;
        st = \<lparr> st_pending = [], st_hasher = hasher, st_downloaded = downloaded,
               st_reported = downloaded, st_reported_at = j_clock j (t_reads w) \<rparr>;
        w = w\<lparr>t_reads := t_reads w + 1\<rparr> in
    sbind (stream_body j full (rs_body resp) st w) (\<lambda>w st. complete_transfer j full st w))"

lemma receive_opened:
  "receive j offset recorded resp w =
    (let resuming = (0 < offset \<and> rs_status resp = 206) in
     if resuming \<and> content_range_start resp \<noteq> Some offset
     then sbind (io_step (create_truncate w (j_part j))) (\<lambda>w _. (forget w, Inl invalid_data))
     else sbind (open_part j resuming offset resp w) (\<lambda>w (downloaded, full).
          sbind (start_hasher j resuming offset w) (\<lambda>w hasher.
          stream_opened j (new_sidecar j resuming recorded resp full) resp full downloaded hasher w)))"
  unfolding receive_def stream_opened_def Let_def by (rule refl)

lemma stream_opened_spec:
  fixes j :: "'h job"
  assumes "hash_ok (j_hash j)" and "opened j R target (rs_body resp) downloaded hasher w"
  shows "spec (stream_opened j sc resp full downloaded hasher w) (\<lambda>w' d. arrived j R w' d)
    (\<lambda>w' e. between j R target w')"
  unfolding stream_opened_def spec_sbind spec_io_step Let_def
proof (rule spec_mono [OF write_sidecar_spec], goal_cases)
  case (1 w1 u)
  then obtain b where w1: "leaves ((d_files w)(j_sidecar j := Some b)) w w1"
    by blast
  have "streaming j R target (rs_body resp)
      ((send_update (in_flight full downloaded) w1)\<lparr>t_reads := t_reads (send_update (in_flight full downloaded) w1) + 1\<rparr>)
      \<lparr> st_pending = [], st_hasher = hasher, st_downloaded = downloaded, st_reported = downloaded,
        st_reported_at = j_clock j (t_reads (send_update (in_flight full downloaded) w1)) \<rparr>"
    using leaves_transfer(1,2) [OF w1] by (intro opened_streaming [OF assms(2)]) simp_all
  from stream_body_spec [OF assms(1) this] show ?case
    by (rule spec_mono) (auto intro: complete_transfer_spec [OF assms(1)])
next
  case (2 w1 e)
  then obtain b where "leaves ((d_files w)(j_sidecar j := b)) w w1"
    by blast
  then show ?case
    using leaves_transfer(1,2) [of _ w w1] by (intro opened_between [OF assms(2)]) auto
qed

lemma receive_spec:
  fixes j :: "'h job"
  assumes "hash_ok (j_hash j)" and "between j R target w"
    and "0 < offset \<Longrightarrow> d_files w (j_part j) = Some b \<and> length b = offset"
    and "\<And>r. R = Some r \<Longrightarrow> 0 < offset \<Longrightarrow> rs_status resp = 206 \<Longrightarrow>
      content_range_start resp = Some offset \<Longrightarrow> delivers (drop offset r) (rs_body resp)"
    and "\<And>r. R = Some r \<Longrightarrow> offset = 0 \<or> rs_status resp \<noteq> 206 \<Longrightarrow> delivers r (rs_body resp)"
  shows "spec (receive j offset recorded resp w) (\<lambda>w' d. arrived j R w' d)
    (\<lambda>w' e. between j R target w')"
proof (cases "0 < offset \<and> rs_status resp = 206")
  case resuming: True
  with assms(3) have b: "d_files w (j_part j) = Some b" "length b = offset" "b \<noteq> []"
    by auto
  with assms(2) have ck: "checkpoint_of (j_hash j) b (t_checkpoint w)"
    and target: "d_files w (j_path j) = target" and pre: "\<And>r. R = Some r \<Longrightarrow> prefix b r"
    by (auto simp: between_def part_bytes_def)
  show ?thesis
  proof (cases "content_range_start resp = Some offset")
    case False
    have "between j R target (forget w')" if "leaves ((d_files w)(j_part j := Some [])) w w'" for w' :: "'h transfer"
      using assms(2) leaves_transfer(1) [OF that] by (simp add: between_def part_bytes_def)
    moreover have "between j R target w'" if "leaves (d_files w) w w'" for w' :: "'h transfer"
      using leaves_transfer(1,2) [OF that] by (intro between_same [OF assms(2)])
    ultimately show ?thesis
      using resuming False
      by (auto simp: receive_opened intro: spec_mono [OF create_truncate_spec])
  next
    case True
    have "delivers (drop offset r) (rs_body resp) \<and> r = b @ drop offset r" if "R = Some r" for r
      using assms(4) [OF that] resuming True pre [OF that] b(2) by (auto elim: prefixE)
    then have open1: "opened j R target (rs_body resp) offset
        (case j_algorithm j of Some _ \<Rightarrow> Some (hash_of (j_hash j) b) | None \<Rightarrow> None) w'"
      if "d_files w' = d_files w" "t_checkpoint w' = t_checkpoint w \<or> t_checkpoint w' = None" for w'
      unfolding opened_def using that b ck target by auto
    show ?thesis
    proof (cases "j_algorithm j")
      case None
      show ?thesis
        using resuming True None
        by (auto simp: receive_opened open_part_def start_hasher_def leaves_transfer None
            intro!: spec_mono [OF open_append_spec] stream_opened_spec [OF assms(1)]
              open1 [unfolded None option.case] intro: between_same [OF assms(2)])
    next
      case (Some a)
      have hashing: "spec (hash_prefix j offset w')
          (\<lambda>w'' h. d_files w'' = d_files w \<and> t_checkpoint w'' = None \<and> h = hash_of (j_hash j) b)
          (\<lambda>w'' e. d_files w'' = d_files w \<and> t_checkpoint w'' = None)"
        if "leaves (d_files w) w w'" for w' :: "'h transfer"
        using hash_prefix_spec [OF assms(1), of w' b] b ck leaves_transfer(1,2) [OF that] by simp
      show ?thesis
        using resuming True Some
        by (auto simp: receive_opened open_part_def start_hasher_def leaves_transfer
            intro!: spec_mono [OF open_append_spec] spec_mono [OF hashing] stream_opened_spec [OF assms(1)]
              open1 [unfolded Some option.case]
            intro: between_same [OF assms(2)] between_no_checkpoint [OF assms(2)])
    qed
  qed
next
  case fresh: False
  have open1: "opened j R target (rs_body resp) 0
      (case j_algorithm j of Some _ \<Rightarrow> Some (h_new (j_hash j)) | None \<Rightarrow> None) w'"
    if "leaves ((d_files (forget w))(j_part j := Some [])) (forget w) w'" for w' :: "'h transfer"
    using leaves_transfer(1,2) [OF that] assms(2,5) fresh hash_of_Nil [OF assms(1)]
    by (auto simp: opened_def between_def split: option.split)
  have failed: "between j R target w'" if "leaves (d_files w) (forget w) w'" for w' :: "'h transfer"
    using leaves_transfer(1,2) [OF that] by (intro between_no_checkpoint [OF assms(2)]) simp_all
  have run: "receive j offset recorded resp w
      = sbind (open_part j False offset resp w) (\<lambda>w (downloaded, full).
          sbind (start_hasher j False offset w) (\<lambda>w hasher.
          stream_opened j (new_sidecar j False recorded resp full) resp full downloaded hasher w))"
  proof -
    have "(0 < offset \<and> rs_status resp = 206) = False"
      using fresh by simp
    then show ?thesis
      unfolding receive_opened Let_def by (simp only:) simp
  qed
  show ?thesis
    unfolding run
    by (cases "j_algorithm j")
      (auto simp: open_part_def start_hasher_def intro!: spec_mono [OF create_truncate_spec]
        stream_opened_spec [OF assms(1)] intro: failed dest: open1)
qed

lemma send_request_spec:
  "spec (send_request j rq w)
     (\<lambda>w' resp. d_files w' = d_files w \<and> t_checkpoint w' = t_checkpoint w
        \<and> j_server j (length (t_requests w)) rq = Inr resp)
     (\<lambda>w' e. d_files w' = d_files w \<and> t_checkpoint w' = t_checkpoint w)"
  by (auto simp: send_request_def split: sum.split)

lemma unsatisfied_range_spec:
  fixes j :: "'h job"
  assumes "hash_ok (j_hash j)" and "between j R target w"
    and "d_files w (j_part j) = Some b" and "length b = offset" and "0 < offset"
    and "\<And>r. R = Some r \<Longrightarrow> length r \<le> offset"
  shows "spec (unsatisfied_range j offset recorded resp w) (\<lambda>w' d. arrived j R w' d)
    (\<lambda>w' e. between j R target w')"
proof -
  from assms have ck: "checkpoint_of (j_hash j) b (t_checkpoint w)"
    and target: "d_files w (j_path j) = target" and "\<And>r. R = Some r \<Longrightarrow> prefix b r"
    by (auto simp: between_def part_bytes_def)
  with assms(4,6) have whole: "R = Some r \<Longrightarrow> b = r" for r
    by (metis append_eq_conv_conj prefixE take_all)
  have gone: "between j R target (forget w')"
    if "leaves ((d_files w)(j_part j := None, j_sidecar j := None)) w w'" for w' :: "'h transfer"
    using leaves_transfer(1) [OF that] target by (simp add: between_def part_bytes_def)
  have half_gone: "between j R target w'"
    if "leaves (d_files w) w w' \<or> leaves ((d_files w)(j_part j := None)) w w'" for w' :: "'h transfer"
    using that by (auto dest: leaves_transfer intro!: between_files [OF assms(2)])
  have promoted: "spec (promote w1 (j_part j) (j_sidecar j) (j_path j))
      (\<lambda>w2 u. arrived j R (send_update p w2) digest) (\<lambda>w2 e. between j R target w2)"
    if "d_files w1 = d_files w" "t_checkpoint w1 = t_checkpoint w \<or> t_checkpoint w1 = None"
      "digest = (case j_algorithm j of Some _ \<Rightarrow> Some (h_finish (j_hash j) (hash_of (j_hash j) b)) | None \<Rightarrow> None)"
    for w1 :: "'h transfer" and p digest
  proof (rule spec_mono [OF promote_spec], goal_cases)
    case (1 w2 u)
    with that leaves_transfer(1) [of _ w1 w2] assms(3) whole show ?case
      by (auto simp: arrived_def)
  next
    case (2 w2 e)
    have "between j R target w1"
      using that(1,2) by (auto intro: between_same [OF assms(2)] between_no_checkpoint [OF assms(2)])
    with 2 show ?case
      by (auto intro: promote_between)
  qed
  have discarded: "spec (discard w (j_part j) (j_sidecar j))
      (\<lambda>w' u. between j R target (forget w')) (\<lambda>w' e. between j R target w')"
    by (rule spec_mono [OF discard_spec]) (erule gone, erule half_gone)
  have hashing: "spec (hash_prefix j offset w)
      (\<lambda>w1 h. d_files w1 = d_files w \<and> t_checkpoint w1 = None \<and> h = hash_of (j_hash j) b)
      (\<lambda>w1 e. d_files w1 = d_files w \<and> t_checkpoint w1 = None)"
    using hash_prefix_spec [OF assms(1,3) ck] assms(4) by simp
  show ?thesis
  proof (cases "j_algorithm j")
    case None
    then show ?thesis
      unfolding unsatisfied_range_def Let_def
      by (auto intro!: discarded promoted)
  next
    case (Some a)
    then show ?thesis
      unfolding unsatisfied_range_def Let_def
      by (auto intro!: discarded promoted spec_mono [OF hashing]
          intro: between_no_checkpoint [OF assms(2)])
  qed
qed

lemma attempt_spec:
  fixes j :: "'h job"
  assumes "hash_ok (j_hash j)" and "\<And>r. R = Some r \<Longrightarrow> serves r (j_server j)"
    and "between j R target w"
  shows "spec (attempt j w) (\<lambda>w' d. arrived j R w' d) (\<lambda>w' e. between j R target w')"
proof -
  have from_offset: "spec (attempt_from j offset w1)
      (\<lambda>w' d. arrived j R w' d) (\<lambda>w' e. between j R target w')"
    if "between j R target w1" "0 < offset \<Longrightarrow> offset = length (part_bytes j w1)" for w1 offset
  proof -
    obtain w2 recorded where read: "(if 0 < offset then read_sidecar (j_codec j) w1 (j_sidecar j)
        else (w1, None)) = (w2, recorded)"
      by (rule prod.exhaust)
    have left: "leaves (d_files w1) w1 w2"
      using read read_sidecar_spec [of "j_codec j" w1 "j_sidecar j" w2 recorded]
      by (auto simp: leaves_def split: if_splits)
    then have w2: "d_files w2 = d_files w1" "between j R target w2"
      using leaves_transfer(1,2) [OF left] between_same [OF that(1)] by auto
    have part: "\<exists>b. d_files w3 (j_part j) = Some b \<and> length b = offset"
      if "d_files w3 = d_files w2" "0 < offset" for w3 :: "'h transfer"
      using that \<open>0 < offset \<Longrightarrow> offset = length (part_bytes j w1)\<close> w2(1)
      by (auto simp: part_bytes_def split: option.splits)
    show ?thesis
      unfolding attempt_from_def read prod.case spec_sbind
    proof (rule spec_mono [OF send_request_spec], goal_cases)
      case (1 w3 resp)
      let ?rq = "build_request offset recorded"
      from 1 have w3: "d_files w3 = d_files w2" "between j R target w3"
        using between_same [OF w2(2)] by auto
      from 1 have answer: "j_server j (length (t_requests w2)) ?rq = Inr resp"
        by blast
      have rq: "rq_range ?rq = (if 0 < offset then Some offset else None)"
        by (simp add: build_request_def)
      show ?case
      proof (cases "0 < offset \<and> rs_status resp = 416")
        case True
        then obtain b where "d_files w3 (j_part j) = Some b" "length b = offset"
          using part [OF w3(1)] by auto
        moreover have "length r \<le> offset" if "R = Some r" for r
          using assms(2) [OF that] answer rq True unfolding serves_def by auto
        ultimately have "spec (unsatisfied_range j offset recorded resp w3)
            (\<lambda>w' d. arrived j R w' d) (\<lambda>w' e. between j R target w')"
          using True w3(2) by (intro unsatisfied_range_spec [OF assms(1)]) auto
        with True show ?thesis
          by simp
      next
        case False
        show ?thesis
        proof (cases "400 \<le> rs_status resp \<and> rs_status resp < 600")
          case True
          with False w3(2) show ?thesis
            by (auto simp: error_for_status_def)
        next
          case good: False
          obtain b where b: "0 < offset \<Longrightarrow> d_files w3 (j_part j) = Some b \<and> length b = offset"
            using part [OF w3(1)] by blast
          have "spec (receive j offset recorded resp w3)
              (\<lambda>w' d. arrived j R w' d) (\<lambda>w' e. between j R target w')"
          proof (rule receive_spec [OF assms(1) w3(2) b])
            fix r
            assume "R = Some r"
            note served = assms(2) [OF this, unfolded serves_def, rule_format, OF answer, unfolded rq]
            show "delivers (drop offset r) (rs_body resp)"
              if "0 < offset" "rs_status resp = 206" "content_range_start resp = Some offset"
              using served that by auto
            show "delivers r (rs_body resp)" if "offset = 0 \<or> rs_status resp \<noteq> 206"
              using served that good by auto
          qed
          with False good show ?thesis
            by (auto simp: error_for_status_def)
        qed
      qed
    next
      case (2 w3 e)
      then show ?case
        using between_same [OF w2(2)] by auto
    qed
  qed
  show ?thesis
  proof (cases "j_mode j = Overwrite")
    case True
    with from_offset [OF assms(3), of 0] show ?thesis
      by (simp add: attempt_def)
  next
    case False
    have "spec (file_len w (j_part j))
        (\<lambda>w1 offset. between j R target w1 \<and> offset = length (part_bytes j w1))
        (\<lambda>w1 e. between j R target w1)"
      by (rule spec_mono [OF file_len_spec])
        (auto simp: part_bytes_def leaves_transfer intro: between_same [OF assms(3)])
    then have "spec (file_len w (j_part j))
        (\<lambda>w1 offset. spec (attempt_from j offset w1)
          (\<lambda>w' d. arrived j R w' d) (\<lambda>w' e. between j R target w'))
        (\<lambda>w1 e. between j R target w1)"
      by (rule spec_mono) (auto intro: from_offset)
    with False show ?thesis
      by (simp add: attempt_def)
  qed
qed

lemma retried_spec:
  fixes j :: "'h job"
  assumes "hash_ok (j_hash j)" and "\<And>r. R = Some r \<Longrightarrow> serves r (j_server j)"
    and "between j R target w"
  shows "spec (retried j w) (\<lambda>w' d. arrived j R w' d) (\<lambda>w' e. between j R target w')"
proof -
  obtain s slept r where run: "with_fibonacci_backoff (j_binet j) (j_retries j) is_retryable
      (attempt_op j) (w, None) = (s, slept, r)"
    by (rule prod_cases3)
  have "spec (attempt_op j s0) (\<lambda>s d. arrived j R (fst s) d) (\<lambda>s e. between j R target (fst (fst s, None)))"
    if "between j R target (fst s0)" for s0
  proof -
    have "between j R target ((fst s0)\<lparr>t_hint := snd s0\<rparr>)"
      using that by (rule between_same) simp_all
    from attempt_spec [OF assms(1,2) this] show ?thesis
      by (auto simp: attempt_op_def spec_def split: prod.splits sum.splits)
  qed
  from backoff_loop_keeps [of "\<lambda>s. between j R target (fst s)", OF this,
      OF _ _ run [unfolded with_fibonacci_backoff_def]] assms(3)
  show ?thesis
    using run by (cases r) (auto simp: retried_def)
qed

section \<open>The whole download\<close>

text \<open>A partial that may be resumed holds the beginning of the resource.\<close>

definition resumable_ok :: "'h job \<Rightarrow> bytes \<Rightarrow> 'h transfer \<Rightarrow> bool" where
  "resumable_ok j r w = (j_mode j \<noteq> Overwrite
     \<and> recorded_match (j_codec j) (d_files w) (j_sidecar j) (j_ident j)
     \<longrightarrow> prefix (part_bytes j w) r)"

lemma reconciled_between:
  fixes j :: "'h job"
  assumes "\<And>r. R = Some r \<Longrightarrow> resumable_ok j r w" and "d_files w0 = d_files w"
  shows "spec (if j_mode j = Overwrite then discard w0 (j_part j) (j_sidecar j)
          else reconcile (j_codec j) w0 (j_part j) (j_sidecar j) (j_ident j))
    (\<lambda>w' u. between j R (d_files w (j_path j)) (w'\<lparr>t_checkpoint := None\<rparr>))
    (\<lambda>w' e. d_files w' (j_path j) = d_files w (j_path j))"
proof (cases "j_mode j = Overwrite")
  case True
  then show ?thesis
    by (auto intro!: spec_mono [OF discard_spec] simp: between_def part_bytes_def assms(2)
        dest!: leaves_transfer(1))
next
  case False
  with assms show ?thesis
    by (auto intro!: spec_mono [OF reconcile_spec] simp: between_def part_bytes_def resumable_ok_def
        dest!: leaves_transfer(1))
qed

lemma stream_to_file_spec:
  fixes j :: "'h job"
  assumes "hash_ok (j_hash j)" and "\<And>r. R = Some r \<Longrightarrow> serves r (j_server j) \<and> resumable_ok j r w"
  shows "spec (stream_to_file j prepared w)
    (\<lambda>w' d. arrived j R w' d \<or> (j_mode j \<noteq> Overwrite \<and> d_files w (j_path j) \<noteq> None
         \<and> d = None \<and> d_files w' = d_files w \<and> t_requests w' = t_requests w))
    (\<lambda>w' e. d_files w' (j_path j) = d_files w (j_path j))"
proof (cases prepared)
  case (Inl e)
  then show ?thesis
    by (simp add: stream_to_file_def)
next
  case (Inr u)
  have rest: "spec (fetch_missing j w0)
      (\<lambda>w' d. arrived j R w' d) (\<lambda>w' e. d_files w' (j_path j) = d_files w (j_path j))"
    if "d_files w0 = d_files w" for w0
    unfolding fetch_missing_def spec_sbind spec_io_step
    by (rule spec_mono [OF reconciled_between [OF _ that, of R]])
      (use assms in \<open>auto intro!: spec_mono [OF retried_spec [OF assms(1), of R]] simp: between_def\<close>)
  show ?thesis
  proof (cases "j_mode j = Overwrite")
    case True
    with Inr rest [of w] show ?thesis
      by (auto simp: stream_to_file_def elim: spec_mono)
  next
    case False
    have "spec (existing_len w (j_path j))
      (\<lambda>w0 there. spec (case there of
          Some len \<Rightarrow> (send_update (in_flight (Some len) len) w0, Inr None)
        | None \<Rightarrow> fetch_missing j w0)
        (\<lambda>w' d. arrived j R w' d \<or> (j_mode j \<noteq> Overwrite \<and> d_files w (j_path j) \<noteq> None
         \<and> d = None \<and> d_files w' = d_files w \<and> t_requests w' = t_requests w))
        (\<lambda>w' e. d_files w' (j_path j) = d_files w (j_path j)))
      (\<lambda>w0 e. d_files w0 (j_path j) = d_files w (j_path j))"
    proof (rule spec_mono [OF existing_len_spec], goal_cases)
      case (1 w0 there)
      then have w0: "d_files w0 = d_files w" "t_requests w0 = t_requests w"
        and there: "there = map_option length (d_files w (j_path j))"
        using leaves_transfer by auto
      show ?case
      proof (cases there)
        case None
        show ?thesis
          unfolding None option.case by (rule spec_mono [OF rest [OF w0(1)]]) simp_all
      next
        case (Some len)
        show ?thesis
          unfolding Some option.case spec_simps using there Some w0 False by auto
      qed
    next
      case (2 w0 e)
      then show ?case
        using leaves_transfer(1) [of _ w w0] by auto
    qed
    with Inr False show ?thesis
      by (simp add: stream_to_file_def)
  qed
qed

text \<open>A file that is there is left alone, but by \<open>Overwrite\<close>.\<close>

lemma stream_to_file_there:
  assumes "j_mode j \<noteq> Overwrite" and "d_files w (j_path j) \<noteq> None"
  shows "spec (stream_to_file j prepared w)
    (\<lambda>w' d. d = None \<and> d_files w' = d_files w \<and> t_requests w' = t_requests w)
    (\<lambda>w' e. d_files w' (j_path j) = d_files w (j_path j))"
proof (cases prepared)
  case (Inr u)
  have "spec (existing_len w (j_path j))
      (\<lambda>w0 there. spec (case there of
          Some len \<Rightarrow> (send_update (in_flight (Some len) len) w0, Inr None)
        | None \<Rightarrow> fetch_missing j w0)
        (\<lambda>w' d. d = None \<and> d_files w' = d_files w \<and> t_requests w' = t_requests w)
        (\<lambda>w' e. d_files w' (j_path j) = d_files w (j_path j)))
      (\<lambda>w0 e. d_files w0 (j_path j) = d_files w (j_path j))"
  proof (rule spec_mono [OF existing_len_spec], goal_cases)
    case (1 w0 there)
    with assms(2) obtain len where "there = Some len"
      using leaves_transfer by (cases "d_files w (j_path j)") auto
    moreover have "d_files w0 = d_files w" "t_requests w0 = t_requests w"
      using 1 leaves_transfer by auto
    ultimately show ?case
      by simp
  next
    case (2 w0 e)
    then show ?case
      using leaves_transfer(1) [of _ w w0] by auto
  qed
  with Inr assms(1) show ?thesis
    by (simp add: stream_to_file_def)
qed (simp add: stream_to_file_def)

section \<open>Which ranges are asked for\<close>

abbreviation asked :: "'h transfer \<Rightarrow> request list" where
  "asked w \<equiv> t_requests w"

lemma io_step_keeps: "Q (fst m) \<Longrightarrow> Q (fst (io_step m))"
  by (cases m) (simp add: io_step_def)

lemma leaves_asked:
  "spec m (\<lambda>w' a. \<exists>F. leaves F w w') (\<lambda>w' e. \<exists>F. leaves F w w') \<Longrightarrow>
     asked (fst (m :: 'h transfer \<times> ('e + 'a))) = asked w"
  by (auto simp: spec_def dest: leaves_transfer(3) split: prod.splits sum.splits)

lemma disk_asked:
  "asked (fst (discard w p q)) = asked w" "asked (fst (create_truncate w p)) = asked w"
  "asked (fst (open_append w p)) = asked w" "asked (fst (write_sidecar codec w p sc)) = asked w"
  "asked (fst (reconcile codec w p q ident)) = asked w"
  by (rule leaves_asked, rule spec_mono [OF discard_spec]
        spec_mono [OF create_truncate_spec] spec_mono [OF open_append_spec]
        spec_mono [OF write_sidecar_spec] spec_mono [OF reconcile_spec]; blast)+

lemma existing_len_asked: "asked (fst (existing_len w p)) = asked w"
  by (rule leaves_asked, rule spec_mono [OF existing_len_spec]) blast+

lemma file_len_asked: "asked (fst (file_len w p)) = asked w"
  unfolding file_len_def
  by (rule sbind_keeps [where Q = "\<lambda>x. asked x = asked w"]) (simp_all add: existing_len_asked)

lemma promote_asked: "asked (fst (promote w (part_path p) (sidecar_path p) p)) = asked w"
  by (rule leaves_asked, rule spec_mono [OF promote_spec]) blast+

lemma append_file_asked [simp]: "asked (append_file p b w) = asked w"
  by (simp add: append_file_def)

lemma flush_asked: "asked (fst (flush_pending p b w)) = asked w"
  by (simp add: flush_pending_def split: option.split)

lemma hash_bytes_asked: "asked (fst (hash_bytes hf whole pos remaining h w)) = asked w"
  by (induction hf whole pos remaining h w rule: hash_bytes.induct)
    (subst hash_bytes.simps, simp add: Let_def split: option.split)

lemma hash_prefix_asked: "asked (fst (hash_prefix j offset w)) = asked w"
proof -
  have "asked (fst (update_range hf h p a b w1)) = asked w" if "asked w1 = asked w"
    for hf h p a b and w1 :: "'a transfer"
    unfolding update_range_def
    by (rule sbind_keeps [where Q = "\<lambda>x. asked x = asked w"])
      (use that in \<open>simp_all add: read_file_def on_file_def hash_bytes_asked split: option.split\<close>)
  then show ?thesis
    by (auto simp: hash_prefix_def Let_def intro!: io_step_keeps [where Q = "\<lambda>x. asked x = asked w"]
        split: prod.split)
qed

lemma report_piece_asked: "asked (fst (report_piece j full st w)) = asked w"
  by (auto simp: report_piece_def update_due_def mark_reported_def flush_asked split: option.split
      intro!: sbind_keeps [where Q = "\<lambda>x. asked x = asked w"] io_step_keeps [where Q = "\<lambda>x. asked x = asked w"])

lemma stream_body_asked: "asked (fst (stream_body j full body st w)) = asked w"
proof (induction j full body st w rule: stream_body.induct)
  case (3 j full chunk rest st w)
  show ?case
    unfolding stream_body.simps
  proof (rule sbind_keeps [where Q = "\<lambda>x. asked x = asked w"])
    show "asked (fst (io_step (buffered_write (j_part j) (st_pending st) chunk w))) = asked w"
      by (rule io_step_keeps) (simp add: buffered_write_def Let_def)
  next
    fix w1 :: "'a transfer" and pending
    assume "asked w1 = asked w"
    then show "asked (fst (let st = st\<lparr>st_pending := pending,
        st_hasher := map_option (\<lambda>h. h_update (j_hash j) h chunk) (st_hasher st),
        st_downloaded := st_downloaded st + length chunk\<rparr> in
      sbind (report_piece j full st w1) (\<lambda>w st. stream_body j full rest st w))) = asked w"
      unfolding Let_def
      by (intro sbind_keeps [where Q = "\<lambda>x. asked x = asked w"]) (simp_all add: report_piece_asked 3)
  qed
qed (simp_all add: drop_pending_def)

lemma stream_opened_asked: "asked (fst (stream_opened j sc resp full n h w)) = asked w"
  unfolding stream_opened_def complete_transfer_def Let_def
  by (auto intro!: sbind_keeps [where Q = "\<lambda>x. asked x = asked w"]
      io_step_keeps [where Q = "\<lambda>x. asked x = asked w"]
      simp: disk_asked stream_body_asked flush_asked promote_asked sync_all_def)

lemma open_part_asked: "asked (fst (open_part j resuming offset resp w)) = asked w"
  unfolding open_part_def
  by (auto intro!: sbind_keeps [where Q = "\<lambda>x. asked x = asked w"]
      io_step_keeps [where Q = "\<lambda>x. asked x = asked w"] simp: disk_asked)

lemma start_hasher_asked: "asked (fst (start_hasher j resuming offset w)) = asked w"
  unfolding start_hasher_def
  by (auto intro!: sbind_keeps [where Q = "\<lambda>x. asked x = asked w"] simp: hash_prefix_asked
      split: option.split)

lemma receive_asked: "asked (fst (receive j offset recorded resp w)) = asked w"
  unfolding receive_opened Let_def
  by (auto intro!: sbind_keeps [where Q = "\<lambda>x. asked x = asked w"]
      io_step_keeps [where Q = "\<lambda>x. asked x = asked w"]
      simp: disk_asked open_part_asked start_hasher_asked stream_opened_asked split: prod.split)

lemma unsatisfied_asked: "asked (fst (unsatisfied_range j offset recorded resp w)) = asked w"
  unfolding unsatisfied_range_def Let_def
  by (auto intro!: sbind_keeps [where Q = "\<lambda>x. asked x = asked w"]
      io_step_keeps [where Q = "\<lambda>x. asked x = asked w"]
      simp: disk_asked promote_asked hash_prefix_asked split: option.split)

text \<open>An attempt asks once, for the bytes after those the partial holds, or does not ask.\<close>

lemma attempt_from_asked:
  "\<exists>recorded. asked (fst (attempt_from j offset w)) = asked w @ [build_request offset recorded]"
proof -
  obtain w1 recorded where read: "(if 0 < offset then read_sidecar (j_codec j) w (j_sidecar j)
      else (w, None)) = (w1, recorded)"
    by (rule prod.exhaust)
  then have "asked w1 = asked w"
    using read_sidecar_spec [of "j_codec j" w "j_sidecar j" w1 recorded]
    by (auto split: if_splits dest: leaves_transfer(3))
  then have "asked (fst (attempt_from j offset w)) = asked w @ [build_request offset recorded]"
    unfolding attempt_from_def read prod.case
    by (auto intro!: sbind_keeps [where Q = "\<lambda>x. asked x = asked w @ [build_request offset recorded]"]
        simp: send_request_def unsatisfied_asked receive_asked error_for_status_def split: sum.split)
  then show ?thesis ..
qed

text \<open>Nothing was asked yet and there is nothing to resume, or the first request was for the
  whole.\<close>

definition asks_whole_first :: "'h job \<Rightarrow> 'h transfer \<Rightarrow> bool" where
  "asks_whole_first j w =
    (if asked w = [] then j_mode j = Overwrite \<or> part_bytes j w = []
     else rq_range (hd (asked w)) = None)"

lemma attempt_from_first:
  assumes "asked w = [] \<Longrightarrow> offset = 0" and "asked w \<noteq> [] \<Longrightarrow> rq_range (hd (asked w)) = None"
  shows "asks_whole_first j (fst (attempt_from j offset w))"
proof -
  obtain recorded where "asked (fst (attempt_from j offset w)) = asked w @ [build_request offset recorded]"
    using attempt_from_asked by blast
  with assms show ?thesis
    by (cases "asked w") (simp_all add: asks_whole_first_def build_request_def)
qed

lemma attempt_first:
  assumes "asks_whole_first j w"
  shows "asks_whole_first j (fst (attempt j w))"
proof (cases "j_mode j = Overwrite")
  case True
  with assms show ?thesis
    by (simp add: attempt_def asks_whole_first_def [of j w] attempt_from_first split: if_splits)
next
  case False
  obtain w1 r where len: "file_len w (j_part j) = (w1, r)"
    by (rule prod.exhaust)
  have w1: "asked w1 = asked w" "part_bytes j w1 = part_bytes j w"
    "r = Inr n \<Longrightarrow> n = length (part_bytes j w)" for n
    using file_len_spec [of w j] file_len_asked [of w "j_part j"] len
    by (cases r; simp add: part_bytes_def leaves_def)+
  show ?thesis
  proof (cases r)
    case (Inl e)
    with False len assms w1(1,2) show ?thesis
      by (auto simp: attempt_def io_step_def asks_whole_first_def split: if_splits)
  next
    case (Inr n)
    with False len assms w1 show ?thesis
      by (simp add: attempt_def io_step_def asks_whole_first_def [of j w] attempt_from_first
          split: if_splits)
  qed
qed

lemma retried_first:
  assumes "asks_whole_first j w"
  shows "asks_whole_first j (fst (retried j w))"
proof -
  obtain s slept r where run: "with_fibonacci_backoff (j_binet j) (j_retries j) is_retryable
      (attempt_op j) (w, None) = (s, slept, r)"
    by (rule prod_cases3)
  have "spec (attempt_op j s0) (\<lambda>s d. asks_whole_first j (fst s))
      (\<lambda>s e. asks_whole_first j (fst (fst s, None)))" if "asks_whole_first j (fst s0)" for s0
  proof -
    have "asks_whole_first j ((fst s0)\<lparr>t_hint := snd s0\<rparr>)"
      using that by (auto simp: asks_whole_first_def part_bytes_def split: if_splits)
    from attempt_first [OF this] show ?thesis
      by (auto simp: attempt_op_def spec_def split: prod.splits sum.splits)
  qed
  from backoff_loop_keeps [of "\<lambda>s. asks_whole_first j (fst s)", OF this,
      OF _ _ run [unfolded with_fibonacci_backoff_def]] assms
  show ?thesis
    using run by (cases r) (auto simp: retried_def)
qed

section \<open>A concrete run\<close>

text \<open>A server whose first answer breaks off after two of five bytes; asked for the rest, it
  sends it. The hash collects the bytes, and the codec knows sidecars of one URL only.\<close>

definition cut_off :: request_error where
  "cut_off = \<lparr> err_status = None, err_decode = False, err_json_source = False,
     err_builder = False, err_redirect = False \<rparr>"

definition flaky_server :: "nat \<Rightarrow> request \<Rightarrow> request_error + response" where
  "flaky_server i rq =
    (case rq_range rq of
       None \<Rightarrow> Inr \<lparr> rs_status = 200, rs_content_range = None, rs_etag = Some ''v1'',
         rs_last_modified = None, rs_retry_after = None, rs_content_length = Some 5,
         rs_body = [Piece [1, 2], Break cut_off] \<rparr>
     | Some start \<Rightarrow>
         if start = 2
         then Inr \<lparr> rs_status = 206, rs_content_range = Some ''bytes 2-4/5'', rs_etag = Some ''v1'',
           rs_last_modified = None, rs_retry_after = None, rs_content_length = Some 3,
           rs_body = [Piece [3], Piece [4, 5]] \<rparr>
         else Inl cut_off)"

definition demo_job :: "download_mode \<Rightarrow> nat \<Rightarrow> bytes job" where
  "demo_job mode retries =
    \<lparr> j_server = flaky_server,
      j_hash = \<lparr> h_new = [], h_update = (@), h_finish = concat \<circ> map (show_nat \<circ> unat) \<rparr>,
      j_codec = \<lparr> to_json = \<lambda>sc. if sc_url sc = ''u'' then Some [1] else None,
        from_json = \<lambda>b. if b = [1]
          then Some \<lparr> sc_url = ''u'', sc_etag = None, sc_last_modified = None, sc_total = None,
            sc_resume_key = None \<rparr>
          else None \<rparr>,
      j_clock = \<lambda>i. i, j_now = \<lambda>i. i, j_http_date = \<lambda>s. None, j_binet = \<lambda>n. 1,
      j_retries = retries, j_path = ''f'', j_mode = mode,
      j_ident = \<lparr> id_url = ''u'', id_resume_key = None, id_across_urls = False \<rparr>,
      j_algorithm = Some Sha256 \<rparr>"

definition demo_disk :: "(string \<Rightarrow> bytes option) \<Rightarrow> bytes transfer" where
  "demo_disk files =
    \<lparr> d_files = files, d_answers = replicate 12 (Answer 2 None), t_checkpoint = None, t_hint = None,
      t_requests = [], t_updates = [], t_reads = 0 \<rparr>"

lemma demo_hash_ok: "hash_ok (j_hash (demo_job mode retries))"
  by (simp add: hash_ok_def demo_job_def)

lemma flaky_serves: "serves [1, 2, 3, 4, 5] (j_server (demo_job mode retries))"
proof -
  have "content_range_start resp = Some 2"
    if "rs_content_range resp = Some ''bytes 2-4/5''" for resp
    by (simp add: content_range_start_def that) code_simp
  then show ?thesis
    by (auto simp: serves_def demo_job_def flaky_server_def delivers_def split: option.splits if_splits)
qed

section \<open>Properties\<close>

text \<open>C5. From a server that serves one resource, whatever it refuses, cuts short or answers with
  another range, a download that succeeds leaves exactly that resource at the target, and, when
  it was asked to hash, returns the hash of it; this holds whether bytes were resumed, restarted
  or checkpointed, and however the disk fails in between. The one exception is a target that is
  there already, in another mode than \<open>Overwrite\<close>: it is left alone, nothing is requested and
  no hash is returned. A download that fails leaves the target as it was. A partial file that is
  resumed, one whose sidecar matches the request, must hold the beginning of the resource.\<close>

theorem download_delivers_resource:
  assumes "hash_ok (j_hash j)" and "serves r (j_server j)" and "resumable_ok j r w"
    and "stream_to_file j prepared w = (w', result)"
  shows "(case result of
      Inr digest \<Rightarrow>
        if j_mode j \<noteq> Overwrite \<and> d_files w (j_path j) \<noteq> None
        then digest = None \<and> d_files w' = d_files w \<and> t_requests w' = t_requests w
        else d_files w' (j_path j) = Some r
          \<and> digest = (case j_algorithm j of
              Some _ \<Rightarrow> Some (h_finish (j_hash j) (hash_of (j_hash j) r)) | None \<Rightarrow> None)
    | Inl e \<Rightarrow> d_files w' (j_path j) = d_files w (j_path j))"
proof (cases "j_mode j \<noteq> Overwrite \<and> d_files w (j_path j) \<noteq> None")
  case True
  with stream_to_file_there [of j w prepared] assms(4) show ?thesis
    by (cases result) auto
next
  case False
  with stream_to_file_spec [OF assms(1), of "Some r" w prepared] assms(2-4) show ?thesis
    by (cases result) (auto simp: arrived_def)
qed

theorem download_delivers_resource_witness:
  "d_files (fst (stream_to_file (demo_job Resume 3) (Inr ()) (demo_disk (\<lambda>p. None)))) ''f''
      = Some [1, 2, 3, 4, 5]
    \<and> snd (stream_to_file (demo_job Resume 3) (Inr ()) (demo_disk (\<lambda>p. None)))
      = Inr (Some ''12345'')"
proof -
  have result: "snd (stream_to_file (demo_job Resume 3) (Inr ()) (demo_disk (\<lambda>p. None)))
      = Inr (Some ''12345'')"
    by code_simp
  have "resumable_ok (demo_job Resume 3) [1, 2, 3, 4, 5] (demo_disk (\<lambda>p. None))"
    by code_simp
  moreover have "d_files (demo_disk (\<lambda>p. None)) (j_path (demo_job Resume 3)) = None"
    by code_simp
  moreover have "j_path (demo_job Resume 3) = ''f''"
    by (simp add: demo_job_def)
  ultimately show ?thesis
    using download_delivers_resource [OF demo_hash_ok flaky_serves _ prod.collapse [symmetric],
        of Resume 3 "demo_disk (\<lambda>p. None)" "Inr ()"] result
    by auto
qed

text \<open>A digest is only ever returned for a finished transfer, and it is the hash of the file
  then at the target, whatever the server sent and however many attempts it took.\<close>

theorem download_digest_is_hash:
  assumes "hash_ok (j_hash j)" and "stream_to_file j prepared w = (w', Inr (Some digest))"
  shows "\<exists>c. d_files w' (j_path j) = Some c
    \<and> digest = h_finish (j_hash j) (hash_of (j_hash j) c)"
  using stream_to_file_spec [OF assms(1), of None w prepared] assms(2)
  by (auto simp: arrived_def split: option.splits)

theorem download_digest_is_hash_witness:
  "\<exists>c. d_files (fst (stream_to_file (demo_job Resume 1) (Inr ()) (demo_disk (\<lambda>p. None)))) ''f'' = Some c
    \<and> ''12345'' = h_finish (j_hash (demo_job Resume 1)) (hash_of (j_hash (demo_job Resume 1)) c)"
proof -
  have "snd (stream_to_file (demo_job Resume 1) (Inr ()) (demo_disk (\<lambda>p. None)))
      = Inr (Some ''12345'')"
    by code_simp
  moreover have "j_path (demo_job Resume 1) = ''f''"
    by (simp add: demo_job_def)
  ultimately show ?thesis
    using download_digest_is_hash [OF demo_hash_ok, of Resume 1 "Inr ()" "demo_disk (\<lambda>p. None)"]
    by (metis prod.collapse)
qed

text \<open>C6. Whatever the server and the disk do, a download that fails leaves the file at the target
  as it was before: there is never a partial file there.\<close>

theorem failed_download_keeps_target:
  assumes "hash_ok (j_hash j)" and "stream_to_file j prepared w = (w', Inl e)"
  shows "d_files w' (j_path j) = d_files w (j_path j)"
  using stream_to_file_spec [OF assms(1), of None w prepared] assms(2) by simp

theorem failed_download_keeps_target_witness:
  "d_files (fst (stream_to_file (demo_job Overwrite 0) (Inr ()) (demo_disk [''f'' \<mapsto> [7]]))) ''f''
    = Some [7]"
proof -
  have "snd (stream_to_file (demo_job Overwrite 0) (Inr ()) (demo_disk [''f'' \<mapsto> [7]]))
      = Inl (Http cut_off)"
    by code_simp
  moreover have "j_path (demo_job Overwrite 0) = ''f''"
    by (simp add: demo_job_def)
  moreover have "d_files (demo_disk [''f'' \<mapsto> [7]]) ''f'' = Some [7]"
    by (simp add: demo_disk_def)
  ultimately show ?thesis
    using failed_download_keeps_target [OF demo_hash_ok, of Overwrite 0 "Inr ()"
        "demo_disk [''f'' \<mapsto> [7]]"]
    by (metis prod.collapse)
qed

text \<open>Bytes that are not known to belong to the request are never continued: when the download
  overwrites, or no sidecar on disk matches the request, the first request, if there is one, is
  for the whole resource.\<close>

theorem stale_partial_not_resumed:
  assumes "stream_to_file j prepared w = (w', result)" and "t_requests w = []"
    and "j_mode j = Overwrite
      \<or> \<not> recorded_match (j_codec j) (d_files w) (j_sidecar j) (j_ident j)"
    and "t_requests w' \<noteq> []"
  shows "rq_range (hd (t_requests w')) = None"
proof -
  have missing: "asked (fst (fetch_missing j w0)) \<noteq> [] \<longrightarrow>
      rq_range (hd (asked (fst (fetch_missing j w0)))) = None"
    if "d_files w0 = d_files w" "asked w0 = []" for w0
  proof -
    let ?m = "if j_mode j = Overwrite then discard w0 (j_part j) (j_sidecar j)
      else reconcile (j_codec j) w0 (j_part j) (j_sidecar j) (j_ident j)"
    obtain w1 r1 where step: "?m = (w1, r1)"
      by (rule prod.exhaust)
    have quiet: "asked w1 = []"
      using step disk_asked that(2) by (metis fst_conv)
    show ?thesis
    proof (cases r1)
      case (Inl e)
      with step quiet show ?thesis
        by (simp add: fetch_missing_def io_step_def)
    next
      case (Inr u)
      have "asks_whole_first j (w1\<lparr>t_checkpoint := None\<rparr>)"
      proof (cases "j_mode j = Overwrite")
        case False
        with step Inr reconcile_spec [of "j_codec j" w0 "j_part j" "j_sidecar j" "j_ident j"] that(1)
          assms(3)
        show ?thesis
          by (auto simp: asks_whole_first_def part_bytes_def quiet dest: leaves_transfer(1))
      qed (simp add: asks_whole_first_def quiet)
      from retried_first [OF this] step Inr show ?thesis
        by (auto simp: fetch_missing_def io_step_def asks_whole_first_def split: if_splits)
    qed
  qed
  show ?thesis
  proof (cases prepared)
    case (Inl e)
    with assms show ?thesis
      by (simp add: stream_to_file_def)
  next
    case (Inr u)
    show ?thesis
    proof (cases "j_mode j = Overwrite")
      case True
      with Inr assms(1,2,4) missing [of w] show ?thesis
        by (simp add: stream_to_file_def)
    next
      case False
      obtain w0 there where len: "existing_len w (j_path j) = (w0, there)"
        by (rule prod.exhaust)
      then have "d_files w0 = d_files w" "asked w0 = []"
        using existing_len_spec [of w "j_path j"] existing_len_asked [of w "j_path j"] assms(2)
        by (cases there; simp add: leaves_def)+
      with Inr False len assms(1,2,4) missing [of w0] show ?thesis
        by (cases there) (auto simp: stream_to_file_def io_step_def split: option.splits)
    qed
  qed
qed

theorem stale_partial_not_resumed_witness:
  "map rq_range (t_requests (fst (stream_to_file (demo_job Resume 1) (Inr ())
      (demo_disk [''f.part'' \<mapsto> [9, 9], ''f.part.json'' \<mapsto> [2]]))))
    = [None, Some 2]
   \<and> rq_range (hd (t_requests (fst (stream_to_file (demo_job Resume 1) (Inr ())
      (demo_disk [''f.part'' \<mapsto> [9, 9], ''f.part.json'' \<mapsto> [2]]))))) = None"
proof -
  let ?w = "demo_disk [''f.part'' \<mapsto> [9, 9], ''f.part.json'' \<mapsto> [2]]"
  let ?w' = "fst (stream_to_file (demo_job Resume 1) (Inr ()) ?w)"
  have "map rq_range (t_requests ?w') = [None, Some 2]"
    by code_simp
  moreover have "t_requests ?w' \<noteq> []"
    by code_simp
  moreover have "\<not> recorded_match (j_codec (demo_job Resume 1)) (d_files ?w)
      (j_sidecar (demo_job Resume 1)) (j_ident (demo_job Resume 1))"
    by code_simp
  moreover have "t_requests ?w = []"
    by (simp add: demo_disk_def)
  ultimately show ?thesis
    using stale_partial_not_resumed [OF prod.collapse [symmetric], of ?w "demo_job Resume 1" "Inr ()"]
    by blast
qed

text \<open>A file at the target is taken as finished unless the download overwrites: no request is
  made, no file changes, and no digest is claimed.\<close>

theorem existing_target_not_fetched:
  assumes "j_mode j \<noteq> Overwrite" and "d_files w (j_path j) = Some c"
    and "stream_to_file j prepared w = (w', result)"
  shows "d_files w' = d_files w \<and> t_requests w' = t_requests w
    \<and> (result = Inr None \<or> (\<exists>e. result = Inl e))"
proof -
  obtain w0 there where len: "existing_len w (j_path j) = (w0, there)"
    by (rule prod.exhaust)
  then have "d_files w0 = d_files w" "asked w0 = asked w" "there = Inr n \<Longrightarrow> n = Some (length c)" for n
    using existing_len_spec [of w "j_path j"] existing_len_asked [of w "j_path j"] assms(2)
    by (cases there; simp add: leaves_def)+
  with assms(1,3) len show ?thesis
    by (cases prepared; cases there) (auto simp: stream_to_file_def io_step_def)
qed

theorem existing_target_not_fetched_witness:
  "t_requests (fst (stream_to_file (demo_job Resume 1) (Inr ()) (demo_disk [''f'' \<mapsto> [7]]))) = []"
proof -
  let ?w = "demo_disk [''f'' \<mapsto> [7]]"
  have "j_mode (demo_job Resume 1) \<noteq> Overwrite" "d_files ?w (j_path (demo_job Resume 1)) = Some [7]"
    "t_requests ?w = []"
    by (simp_all add: demo_job_def demo_disk_def)
  with existing_target_not_fetched [OF _ _ prod.collapse [symmetric],
      of "demo_job Resume 1" ?w "[7]" "Inr ()"]
  show ?thesis
    by metis
qed

end
