(* ===== verification/Fetch_Config.thy ===== *)
theory Fetch_Config
  imports Download
begin

text \<open>
  The configuration side of \<open>fetch/mod.rs\<close>, with \<open>request.rs\<close>, \<open>proxy.rs\<close> and \<open>prepared.rs\<close>: headers
  and which of them are credentials, the builders of \<open>Fetch\<close> and of the options of one request, the
  client that is built once and kept until a setting it was built from changes, and the request
  assembled from all of it. \<open>reqwest\<close> and its header map are parameters.
\<close>

section \<open>Headers\<close>

record header_value =
  hv_text :: "string option"
  hv_sensitive :: bool

text \<open>The operations of \<open>HeaderMap\<close> the code calls; \<open>hm_update\<close> is a loop over \<open>iter_mut\<close>, and the
  names are lower case.\<close>

record 'm header_calls =
  hm_new :: 'm
  hm_insert :: "string \<Rightarrow> header_value \<Rightarrow> 'm \<Rightarrow> 'm"
  hm_get_all :: "'m \<Rightarrow> string \<Rightarrow> header_value list"
  hm_update :: "(string \<Rightarrow> header_value \<Rightarrow> header_value) \<Rightarrow> 'm \<Rightarrow> 'm"
  hm_parse_name :: "string \<Rightarrow> string option"
  hm_parse_value :: "string \<Rightarrow> header_value option"

definition header_calls_ok :: "'m header_calls \<Rightarrow> bool" where
  "header_calls_ok hm \<longleftrightarrow>
    (\<forall>name. hm_get_all hm (hm_new hm) name = [])
    \<and> (\<forall>name v m name'. hm_get_all hm (hm_insert hm name v m) name' =
        (if name' = name then [v] else hm_get_all hm m name'))
    \<and> (\<forall>f m name. hm_get_all hm (hm_update hm f m) name = map (f name) (hm_get_all hm m name))"

text \<open>\<open>contains\<close> on text.\<close>

fun contains :: "string \<Rightarrow> string \<Rightarrow> bool" where
  "contains word [] = (word = [])"
| "contains word (c # s) = (prefix word (c # s) \<or> contains word s)"

definition is_credential :: "string \<Rightarrow> bool" where
  "is_credential name =
    (name \<in> {''authorization'', ''proxy-authorization'', ''cookie''}
     \<or> list_ex (\<lambda>word. contains word name) [''token'', ''secret'', ''password'', ''api-key'', ''apikey''])"

text \<open>\<open>None\<close> is a panic: a name or a value that is not valid.\<close>

definition insert_header :: "'m header_calls \<Rightarrow> string \<Rightarrow> string \<Rightarrow> 'm \<Rightarrow> 'm option" where
  "insert_header hm key v m =
    (case hm_parse_name hm key of
       None \<Rightarrow> None
     | Some name \<Rightarrow>
         (case hm_parse_value hm v of
            None \<Rightarrow> None
          | Some v \<Rightarrow> Some (hm_insert hm name (v\<lparr>hv_sensitive := is_credential name\<rparr>) m)))"

definition mark_credentials :: "'m header_calls \<Rightarrow> 'm \<Rightarrow> 'm" where
  "mark_credentials hm = hm_update hm (\<lambda>name v. if is_credential name then v\<lparr>hv_sensitive := True\<rparr> else v)"

definition credentials_marked :: "'m header_calls \<Rightarrow> 'm \<Rightarrow> bool" where
  "credentials_marked hm m = (\<forall>name v. is_credential name \<longrightarrow> v \<in> set (hm_get_all hm m name) \<longrightarrow> hv_sensitive v)"

lemma header_callsD:
  assumes "header_calls_ok hm"
  shows "hm_get_all hm (hm_new hm) name = []"
    "hm_get_all hm (hm_insert hm name v m) name' = (if name' = name then [v] else hm_get_all hm m name')"
    "hm_get_all hm (hm_update hm f m) name = map (f name) (hm_get_all hm m name)"
  using assms by (simp_all add: header_calls_ok_def)

lemma credentials_marked_intros:
  assumes "header_calls_ok hm"
  shows "credentials_marked hm (hm_new hm)"
    "credentials_marked hm (mark_credentials hm m)"
    "credentials_marked hm m \<Longrightarrow> insert_header hm key v m = Some m' \<Longrightarrow> credentials_marked hm m'"
  using header_callsD [OF assms]
  by (auto simp: credentials_marked_def mark_credentials_def insert_header_def split: option.splits if_splits)

section \<open>Settings\<close>

record proxy_settings =
  px_url :: string
  px_basic_auth :: "(string \<times> string) option"
  px_no_proxy :: "string option"

definition proxy_new :: "string \<Rightarrow> proxy_settings" where
  "proxy_new url = \<lparr> px_url = url, px_basic_auth = None, px_no_proxy = None \<rparr>"

definition basic_auth :: "string \<Rightarrow> string \<Rightarrow> proxy_settings \<Rightarrow> proxy_settings" where
  "basic_auth username password px = px\<lparr>px_basic_auth := Some (username, password)\<rparr>"

definition no_proxy_list :: "string \<Rightarrow> proxy_settings \<Rightarrow> proxy_settings" where
  "no_proxy_list hosts px = px\<lparr>px_no_proxy := Some hosts\<rparr>"

datatype proxy_mode = Detect | Disabled | Explicit proxy_settings

text \<open>\<open>reqwest\<close>: proxies, the client builder, and requests. \<open>nx_from_string\<close> reads a bypass list.\<close>

record ('m, 'p, 'n, 'b, 'c) reqwest =
  px_all :: "string \<Rightarrow> request_error + 'p"
  px_with_auth :: "string \<Rightarrow> string \<Rightarrow> 'p \<Rightarrow> 'p"
  px_with_bypass :: "'n option \<Rightarrow> 'p \<Rightarrow> 'p"
  nx_from_string :: "string \<Rightarrow> 'n option"
  cb_new :: 'b
  cb_default_headers :: "'m \<Rightarrow> 'b \<Rightarrow> 'b"
  cb_http1_only :: "'b \<Rightarrow> 'b"
  cb_read_timeout :: "nat \<Rightarrow> 'b \<Rightarrow> 'b"
  cb_connect_timeout :: "nat \<Rightarrow> 'b \<Rightarrow> 'b"
  cb_no_proxy :: "'b \<Rightarrow> 'b"
  cb_proxy :: "'p \<Rightarrow> 'b \<Rightarrow> 'b"
  cb_build :: "'b \<Rightarrow> request_error + 'c"
  into_url :: "string \<Rightarrow> request_error + string"

definition to_reqwest :: "('m, 'p, 'n, 'b, 'c) reqwest \<Rightarrow> proxy_settings \<Rightarrow> request_error + 'p" where
  "to_reqwest rw px =
    rbind (px_all rw (px_url px)) (\<lambda>proxy.
    let proxy = (case px_basic_auth px of
          Some (username, password) \<Rightarrow> px_with_auth rw username password proxy | None \<Rightarrow> proxy) in
    Inr (case px_no_proxy px of
          Some hosts \<Rightarrow> px_with_bypass rw (nx_from_string rw hosts) proxy | None \<Rightarrow> proxy))"

record ('m, 'c) fetch =
  fe_headers :: 'm
  fe_retries :: nat
  fe_disable_http2 :: bool
  fe_read_timeout :: "nat option"
  fe_connect_timeout :: "nat option"
  fe_proxy :: proxy_mode
  fe_download_mode :: download_mode
  fe_max_body_bytes :: "nat option"
  fe_client :: "'c option"

definition fetch_new :: "'m header_calls \<Rightarrow> ('m, 'c) fetch" where
  "fetch_new hm =
    \<lparr> fe_headers = hm_new hm, fe_retries = 0, fe_disable_http2 = False, fe_read_timeout = Some (nanos 30),
      fe_connect_timeout = None, fe_proxy = Detect, fe_download_mode = Resume, fe_max_body_bytes = None,
      fe_client = None \<rparr>"

definition fetch_clone :: "('m, 'c) fetch \<Rightarrow> ('m, 'c) fetch" where
  "fetch_clone f = f\<lparr>fe_client := None\<rparr>"

definition set_header :: "'m header_calls \<Rightarrow> string \<Rightarrow> string \<Rightarrow> ('m, 'c) fetch \<Rightarrow> ('m, 'c) fetch option" where
  "set_header hm key v f =
    map_option (\<lambda>m. f\<lparr>fe_headers := m, fe_client := None\<rparr>) (insert_header hm key v (fe_headers f))"

definition set_headers :: "'m header_calls \<Rightarrow> 'm \<Rightarrow> ('m, 'c) fetch \<Rightarrow> ('m, 'c) fetch" where
  "set_headers hm m f = f\<lparr>fe_headers := mark_credentials hm m, fe_client := None\<rparr>"

definition set_retries :: "nat \<Rightarrow> ('m, 'c) fetch \<Rightarrow> ('m, 'c) fetch" where
  "set_retries n f = f\<lparr>fe_retries := n\<rparr>"

definition set_disable_http2 :: "bool \<Rightarrow> ('m, 'c) fetch \<Rightarrow> ('m, 'c) fetch" where
  "set_disable_http2 b f = f\<lparr>fe_disable_http2 := b, fe_client := None\<rparr>"

definition set_read_timeout :: "nat option \<Rightarrow> ('m, 'c) fetch \<Rightarrow> ('m, 'c) fetch" where
  "set_read_timeout t f = f\<lparr>fe_read_timeout := t, fe_client := None\<rparr>"

definition set_connect_timeout :: "nat option \<Rightarrow> ('m, 'c) fetch \<Rightarrow> ('m, 'c) fetch" where
  "set_connect_timeout t f = f\<lparr>fe_connect_timeout := t, fe_client := None\<rparr>"

definition set_proxy :: "proxy_settings \<Rightarrow> ('m, 'c) fetch \<Rightarrow> ('m, 'c) fetch" where
  "set_proxy px f = f\<lparr>fe_proxy := Explicit px, fe_client := None\<rparr>"

definition set_no_proxy :: "('m, 'c) fetch \<Rightarrow> ('m, 'c) fetch" where
  "set_no_proxy f = f\<lparr>fe_proxy := Disabled, fe_client := None\<rparr>"

definition set_download_mode :: "download_mode \<Rightarrow> ('m, 'c) fetch \<Rightarrow> ('m, 'c) fetch" where
  "set_download_mode mode f = f\<lparr>fe_download_mode := mode\<rparr>"

definition set_max_body_bytes :: "nat option \<Rightarrow> ('m, 'c) fetch \<Rightarrow> ('m, 'c) fetch" where
  "set_max_body_bytes limit f = f\<lparr>fe_max_body_bytes := limit\<rparr>"

text \<open>A client built from the current settings, and \<open>client\<close>, which keeps the first one.\<close>

definition build_client :: "('m, 'p, 'n, 'b, 'c) reqwest \<Rightarrow> ('m, 'c) fetch \<Rightarrow> request_error + 'c" where
  "build_client rw f =
    (let b = cb_default_headers rw (fe_headers f) (cb_new rw);
         b = (if fe_disable_http2 f then cb_http1_only rw b else b);
         b = (case fe_read_timeout f of Some t \<Rightarrow> cb_read_timeout rw t b | None \<Rightarrow> b);
         b = (case fe_connect_timeout f of Some t \<Rightarrow> cb_connect_timeout rw t b | None \<Rightarrow> b) in
     rbind (case fe_proxy f of
              Detect \<Rightarrow> Inr b
            | Disabled \<Rightarrow> Inr (cb_no_proxy rw b)
            | Explicit px \<Rightarrow> rbind (to_reqwest rw px) (\<lambda>p. Inr (cb_proxy rw p b)))
       (cb_build rw))"

definition client :: "('m, 'p, 'n, 'b, 'c) reqwest \<Rightarrow> ('m, 'c) fetch \<Rightarrow> ('m, 'c) fetch \<times> (request_error + 'c)" where
  "client rw f =
    (case fe_client f of
       Some c \<Rightarrow> (f, Inr c)
     | None \<Rightarrow>
         (case build_client rw f of
            Inl e \<Rightarrow> (f, Inl e)
          | Inr c \<Rightarrow> (f\<lparr>fe_client := Some c\<rparr>, Inr c)))"

section \<open>One request\<close>

datatype http_method = GET | HEAD | PUT | DELETE | OPTIONS | TRACE | POST | PATCH | CONNECT | Extension string

definition is_idempotent :: "http_method \<Rightarrow> bool" where
  "is_idempotent m = (m \<in> {GET, HEAD, PUT, DELETE, OPTIONS, TRACE})"

text \<open>\<open>'j\<close> are the values of JSON.\<close>

record ('m, 'j) request_options =
  ro_method :: "http_method option"
  ro_headers :: 'm
  ro_query :: "(string \<times> string) list"
  ro_retries :: "nat option"
  ro_retry_non_idempotent :: bool
  ro_body :: "'j option"
  ro_max_body_bytes :: "nat option"
  ro_download_mode :: "download_mode option"
  ro_resume_key :: "string option"
  ro_resume_across_urls :: bool
  ro_digest :: "digest_algorithm option"

definition options_new :: "'m header_calls \<Rightarrow> ('m, 'j) request_options" where
  "options_new hm =
    \<lparr> ro_method = None, ro_headers = hm_new hm, ro_query = [], ro_retries = None,
      ro_retry_non_idempotent = False, ro_body = None, ro_max_body_bytes = None, ro_download_mode = None,
      ro_resume_key = None, ro_resume_across_urls = False, ro_digest = None \<rparr>"

definition with_method :: "http_method \<Rightarrow> ('m, 'j) request_options \<Rightarrow> ('m, 'j) request_options" where
  "with_method m ro = ro\<lparr>ro_method := Some m\<rparr>"

definition with_header ::
    "'m header_calls \<Rightarrow> string \<Rightarrow> string \<Rightarrow> ('m, 'j) request_options \<Rightarrow> ('m, 'j) request_options option" where
  "with_header hm key v ro = map_option (\<lambda>m. ro\<lparr>ro_headers := m\<rparr>) (insert_header hm key v (ro_headers ro))"

definition with_headers :: "'m header_calls \<Rightarrow> 'm \<Rightarrow> ('m, 'j) request_options \<Rightarrow> ('m, 'j) request_options" where
  "with_headers hm m ro = ro\<lparr>ro_headers := mark_credentials hm m\<rparr>"

definition with_query :: "string \<Rightarrow> string \<Rightarrow> ('m, 'j) request_options \<Rightarrow> ('m, 'j) request_options" where
  "with_query key v ro = ro\<lparr>ro_query := ro_query ro @ [(key, v)]\<rparr>"

definition with_retries :: "nat \<Rightarrow> ('m, 'j) request_options \<Rightarrow> ('m, 'j) request_options" where
  "with_retries n ro = ro\<lparr>ro_retries := Some n\<rparr>"

definition with_retry_non_idempotent :: "bool \<Rightarrow> ('m, 'j) request_options \<Rightarrow> ('m, 'j) request_options" where
  "with_retry_non_idempotent allow ro = ro\<lparr>ro_retry_non_idempotent := allow\<rparr>"

text \<open>\<open>to_value\<close> is \<open>serde_json::to_value\<close>; a value it refuses is a panic.\<close>

definition with_body ::
    "('a \<Rightarrow> 'j option) \<Rightarrow> 'a \<Rightarrow> ('m, 'j) request_options \<Rightarrow> ('m, 'j) request_options option" where
  "with_body to_value body ro = map_option (\<lambda>j. ro\<lparr>ro_body := Some j\<rparr>) (to_value body)"

definition with_max_body_bytes :: "nat \<Rightarrow> ('m, 'j) request_options \<Rightarrow> ('m, 'j) request_options" where
  "with_max_body_bytes limit ro = ro\<lparr>ro_max_body_bytes := Some limit\<rparr>"

definition with_download_mode :: "download_mode \<Rightarrow> ('m, 'j) request_options \<Rightarrow> ('m, 'j) request_options" where
  "with_download_mode mode ro = ro\<lparr>ro_download_mode := Some mode\<rparr>"

definition with_resume_key :: "string \<Rightarrow> ('m, 'j) request_options \<Rightarrow> ('m, 'j) request_options" where
  "with_resume_key key ro = ro\<lparr>ro_resume_key := Some key\<rparr>"

definition with_resume_across_urls :: "bool \<Rightarrow> ('m, 'j) request_options \<Rightarrow> ('m, 'j) request_options" where
  "with_resume_across_urls allow ro = ro\<lparr>ro_resume_across_urls := allow\<rparr>"

definition with_digest :: "digest_algorithm \<Rightarrow> ('m, 'j) request_options \<Rightarrow> ('m, 'j) request_options" where
  "with_digest algorithm ro = ro\<lparr>ro_digest := Some algorithm\<rparr>"

record ('m, 'j, 'c) prepared_request =
  pr_client :: 'c
  pr_url :: string
  pr_method :: http_method
  pr_query :: "(string \<times> string) list"
  pr_headers :: 'm
  pr_body :: "'j option"
  pr_retries :: nat
  pr_max_body_bytes :: "nat option"

definition prepare ::
    "('m, 'p, 'n, 'b, 'c) reqwest \<Rightarrow> ('m, 'c) fetch \<Rightarrow> string \<Rightarrow> ('m, 'j) request_options
      \<Rightarrow> ('m, 'c) fetch \<times> (request_error + ('m, 'j, 'c) prepared_request)" where
  "prepare rw f url options =
    sbind (client rw f) (\<lambda>f c.
    let m = (case ro_method options of Some m \<Rightarrow> m | None \<Rightarrow> GET);
        retries = (case ro_retries options of Some n \<Rightarrow> n | None \<Rightarrow> fe_retries f);
        retries = (if is_idempotent m \<or> ro_retry_non_idempotent options then retries else 0) in
    sbind (f, into_url rw url) (\<lambda>f url.
    (f, Inr \<lparr> pr_client = c, pr_url = url, pr_method = m, pr_query = ro_query options,
          pr_headers = ro_headers options, pr_body = ro_body options, pr_retries = retries,
          pr_max_body_bytes = (case ro_max_body_bytes options of
             Some limit \<Rightarrow> Some limit | None \<Rightarrow> fe_max_body_bytes f) \<rparr>)))"

text \<open>What \<open>request\<close> hands to \<open>reqwest\<close> for one attempt.\<close>

record ('m, 'j, 'c) outgoing =
  og_client :: 'c
  og_method :: http_method
  og_url :: string
  og_query :: "(string \<times> string) list"
  og_headers :: 'm
  og_json :: "'j option"

definition request_of :: "('m, 'j, 'c) prepared_request \<Rightarrow> ('m, 'j, 'c) outgoing" where
  "request_of p =
    \<lparr> og_client = pr_client p, og_method = pr_method p, og_url = pr_url p, og_query = pr_query p,
      og_headers = pr_headers p, og_json = pr_body p \<rparr>"

definition effective_url ::
    "(('m, 'j, 'c) outgoing \<Rightarrow> string option) \<Rightarrow> ('m, 'j, 'c) prepared_request \<Rightarrow> string" where
  "effective_url built_url p =
    (case built_url (request_of p) of Some url \<Rightarrow> url | None \<Rightarrow> pr_url p)"

section \<open>The client is current\<close>

text \<open>What a program does with a \<open>Fetch\<close> between two requests.\<close>

datatype 'm fetch_call = Header string string | Headers 'm | Retries nat | Disable_Http2 bool
  | Read_Timeout "nat option" | Connect_Timeout "nat option" | Proxy proxy_settings | No_Proxy
  | Mode download_mode | Max_Body "nat option" | Clone | Uses_Client

fun fetch_step ::
    "'m header_calls \<Rightarrow> ('m, 'p, 'n, 'b, 'c) reqwest \<Rightarrow> 'm fetch_call \<Rightarrow> ('m, 'c) fetch \<Rightarrow> ('m, 'c) fetch option"
where
  "fetch_step hm rw (Header key v) f = set_header hm key v f"
| "fetch_step hm rw (Headers m) f = Some (set_headers hm m f)"
| "fetch_step hm rw (Retries n) f = Some (set_retries n f)"
| "fetch_step hm rw (Disable_Http2 b) f = Some (set_disable_http2 b f)"
| "fetch_step hm rw (Read_Timeout t) f = Some (set_read_timeout t f)"
| "fetch_step hm rw (Connect_Timeout t) f = Some (set_connect_timeout t f)"
| "fetch_step hm rw (Proxy px) f = Some (set_proxy px f)"
| "fetch_step hm rw No_Proxy f = Some (set_no_proxy f)"
| "fetch_step hm rw (Mode mode) f = Some (set_download_mode mode f)"
| "fetch_step hm rw (Max_Body limit) f = Some (set_max_body_bytes limit f)"
| "fetch_step hm rw Clone f = Some (fetch_clone f)"
| "fetch_step hm rw Uses_Client f = Some (fst (client rw f))"

fun fetch_run ::
    "'m header_calls \<Rightarrow> ('m, 'p, 'n, 'b, 'c) reqwest \<Rightarrow> 'm fetch_call list \<Rightarrow> ('m, 'c) fetch \<Rightarrow> ('m, 'c) fetch option"
where
  "fetch_run hm rw [] f = Some f"
| "fetch_run hm rw (call # calls) f =
    (case fetch_step hm rw call f of None \<Rightarrow> None | Some f \<Rightarrow> fetch_run hm rw calls f)"

definition fetch_ok :: "'m header_calls \<Rightarrow> ('m, 'p, 'n, 'b, 'c) reqwest \<Rightarrow> ('m, 'c) fetch \<Rightarrow> bool" where
  "fetch_ok hm rw f \<longleftrightarrow>
    credentials_marked hm (fe_headers f) \<and> (\<forall>c. fe_client f = Some c \<longrightarrow> build_client rw f = Inr c)"

lemmas fetch_builder_defs = set_header_def set_headers_def set_retries_def set_disable_http2_def
  set_read_timeout_def set_connect_timeout_def set_proxy_def set_no_proxy_def set_download_mode_def
  set_max_body_bytes_def fetch_clone_def

lemma build_client_frame:
  "build_client rw (f\<lparr>fe_client := x\<rparr>) = build_client rw f"
  "build_client rw (f\<lparr>fe_retries := n\<rparr>) = build_client rw f"
  "build_client rw (f\<lparr>fe_download_mode := mode\<rparr>) = build_client rw f"
  "build_client rw (f\<lparr>fe_max_body_bytes := limit\<rparr>) = build_client rw f"
  by (simp_all add: build_client_def)

lemma fetch_step_ok:
  assumes "header_calls_ok hm" and "fetch_ok hm rw f" and "fetch_step hm rw call f = Some f'"
  shows "fetch_ok hm rw f'"
  using assms(2,3)
proof (cases call)
  case (Header key v)
  with assms credentials_marked_intros(3) [OF assms(1)] show ?thesis
    by (auto simp: fetch_ok_def fetch_builder_defs)
next
  case Uses_Client
  with assms(2,3) show ?thesis
    by (auto simp: fetch_ok_def client_def build_client_frame split: option.splits sum.splits)
qed (use credentials_marked_intros(2) [OF assms(1)] in
  \<open>auto simp: fetch_ok_def fetch_builder_defs build_client_frame\<close>)

lemma fetch_run_ok:
  "\<lbrakk>header_calls_ok hm; fetch_ok hm rw f; fetch_run hm rw calls f = Some f'\<rbrakk> \<Longrightarrow> fetch_ok hm rw f'"
  by (induction calls arbitrary: f) (auto split: option.splits intro: fetch_step_ok)

lemma fetch_new_ok: "header_calls_ok hm \<Longrightarrow> fetch_ok hm rw (fetch_new hm)"
  by (simp add: fetch_ok_def fetch_new_def credentials_marked_intros(1))

lemma client_current:
  assumes "fetch_ok hm rw f"
  shows "snd (client rw f) = build_client rw f"
  using assms by (auto simp: fetch_ok_def client_def split: option.splits sum.splits)

end
