(* ===== verification/Fetch.thy ===== *)
theory Fetch
  imports Fetch_Config
begin

text \<open>
  The requests of \<open>fetch/mod.rs\<close>: the pipeline every \<open>text\<close> and \<open>json\<close> method goes through, the
  reading of a body under a limit, the errors of \<open>error.rs\<close>, and the handle of a download. The
  server is a parameter that answers each request from a state of its own; the network also keeps
  the list of the requests sent.
\<close>

section \<open>Responses and errors\<close>

record 'm http_response =
  ht_status :: nat
  ht_version :: string
  ht_headers :: 'm
  ht_content_length :: "nat option"
  ht_body :: "body_event list"

record ('m, 'a) fetched =
  fr_body :: 'a
  fr_status :: nat
  fr_headers :: 'm

datatype fetch_error = Request_Failed request_error | Body_Too_Large nat

fun fetch_error_status :: "fetch_error \<Rightarrow> nat option" where
  "fetch_error_status (Request_Failed e) = err_status e"
| "fetch_error_status (Body_Too_Large limit) = None"

fun fetch_error_display :: "(request_error \<Rightarrow> string) \<Rightarrow> fetch_error \<Rightarrow> string" where
  "fetch_error_display show_error (Request_Failed e) = ''request failed: '' @ show_error e"
| "fetch_error_display show_error (Body_Too_Large limit) =
    ''response body is larger than the '' @ show_nat limit @ ''-byte limit''"

fun fetch_retryable :: "fetch_error \<Rightarrow> bool" where
  "fetch_retryable (Request_Failed e) = is_transient e"
| "fetch_retryable (Body_Too_Large limit) = False"

section \<open>A body under a limit\<close>

fun read_pieces :: "nat \<Rightarrow> bytes \<Rightarrow> body_event list \<Rightarrow> fetch_error + bytes" where
  "read_pieces limit body [] = Inr body"
| "read_pieces limit body (Break e # events) = Inl (Request_Failed e)"
| "read_pieces limit body (Piece chunk # events) =
    (if limit < length body + length chunk then Inl (Body_Too_Large limit)
     else read_pieces limit (body @ chunk) events)"

text \<open>The response built around the bytes declares their length.\<close>

definition read_capped :: "'m http_response \<Rightarrow> nat \<Rightarrow> fetch_error + 'm http_response" where
  "read_capped resp limit =
    (if (case ht_content_length resp of Some len \<Rightarrow> limit < len | None \<Rightarrow> False)
     then Inl (Body_Too_Large limit)
     else rbind (read_pieces limit [] (ht_body resp)) (\<lambda>body.
       Inr (resp\<lparr>ht_content_length := Some (length body), ht_body := [Piece body]\<rparr>)))"

section \<open>The pipeline\<close>

record ('m, 'j, 'c, 's) network =
  nw_server :: 's
  nw_sent :: "('m, 'j, 'c) outgoing list"

text \<open>What a server and the machine are to the pipeline: \<open>sv_send\<close> answers a request, \<open>sv_now\<close>
  is the clock at the answer to request \<open>i\<close>.\<close>

record ('m, 'j, 'c, 's) server =
  sv_send :: "('m, 'j, 'c) outgoing \<Rightarrow> 's \<Rightarrow> 's \<times> (request_error + 'm http_response)"
  sv_now :: "nat \<Rightarrow> nat"
  sv_http_date :: "string \<Rightarrow> nat option"
  sv_binet :: "nat \<Rightarrow> real"

definition send_logged ::
    "('m, 'j, 'c, 's) server \<Rightarrow> ('m, 'j, 'c) outgoing \<Rightarrow> ('m, 'j, 'c, 's) network
      \<Rightarrow> ('m, 'j, 'c, 's) network \<times> (request_error + 'm http_response)" where
  "send_logged sv rq nw =
    (case sv_send sv rq (nw_server nw) of
       (s, r) \<Rightarrow> (nw\<lparr>nw_server := s, nw_sent := nw_sent nw @ [rq]\<rparr>, r))"

definition first_text :: "'m header_calls \<Rightarrow> 'm \<Rightarrow> string \<Rightarrow> string option" where
  "first_text hm m name = (case hm_get_all hm m name of [] \<Rightarrow> None | v # _ \<Rightarrow> hv_text v)"

definition response_wait :: "'m header_calls \<Rightarrow> ('m, 'j, 'c, 's) server \<Rightarrow> nat \<Rightarrow> 'm http_response \<Rightarrow> nat option" where
  "response_wait hm sv i resp =
    requested_wait (sv_http_date sv)
      \<lparr> a_status = ht_status resp, a_retry_after = first_text hm (ht_headers resp) ''retry-after'' \<rparr>
      (sv_now sv i)"

definition reject_status :: "'m http_response \<Rightarrow> request_error + 'm http_response" where
  "reject_status resp =
    (if 400 \<le> ht_status resp \<and> ht_status resp < 600 then Inl (status_error (ht_status resp)) else Inr resp)"

text \<open>The headers and the body of an accepted response. Without a limit the headers are moved out
  before \<open>extract\<close> sees the response; with one it sees them.\<close>

definition take_response ::
    "'m header_calls \<Rightarrow> nat option \<Rightarrow> ('m http_response \<Rightarrow> request_error + 'a) \<Rightarrow> 'm http_response
      \<Rightarrow> fetch_error + 'm \<times> 'a" where
  "take_response hm limit extract resp =
    (case limit of
       None \<Rightarrow> rbind (map_err Request_Failed (extract (resp\<lparr>ht_headers := hm_new hm\<rparr>)))
                 (\<lambda>body. Inr (ht_headers resp, body))
     | Some limit \<Rightarrow>
         rbind (read_capped resp limit) (\<lambda>capped.
         rbind (map_err Request_Failed (extract capped)) (\<lambda>body. Inr (ht_headers resp, body))))"

text \<open>One attempt, with the hint it leaves for the retry loop.\<close>

definition send_once ::
    "'m header_calls \<Rightarrow> ('m, 'j, 'c, 's) server \<Rightarrow> ('m http_response \<Rightarrow> request_error + 'a)
      \<Rightarrow> ('m, 'j, 'c) prepared_request \<Rightarrow> ('m, 'j, 'c, 's) network \<times> nat option
      \<Rightarrow> (('m, 'j, 'c, 's) network \<times> nat option) \<times> (fetch_error + ('m, 'a) fetched)" where
  "send_once hm sv extract p st =
    (case send_logged sv (request_of p) (fst st) of
       (nw, Inl e) \<Rightarrow> ((nw, snd st), Inl (Request_Failed e))
     | (nw, Inr resp) \<Rightarrow>
         ((nw, response_wait hm sv (length (nw_sent nw)) resp),
          rbind (map_err Request_Failed (reject_status resp)) (\<lambda>resp.
          rbind (take_response hm (pr_max_body_bytes p) extract resp) (\<lambda>(headers, body).
          Inr \<lparr> fr_body = body, fr_status = ht_status resp, fr_headers = headers \<rparr>))))"

definition send_retrying ::
    "'m header_calls \<Rightarrow> ('m, 'p, 'n, 'b, 'c) reqwest \<Rightarrow> ('m, 'j, 'c, 's) server
      \<Rightarrow> ('m http_response \<Rightarrow> request_error + 'a) \<Rightarrow> ('m, 'c) fetch \<Rightarrow> string \<Rightarrow> ('m, 'j) request_options
      \<Rightarrow> ('m, 'j, 'c, 's) network
      \<Rightarrow> (('m, 'c) fetch \<times> ('m, 'j, 'c, 's) network) \<times> (fetch_error + ('m, 'a) fetched)" where
  "send_retrying hm rw sv extract f url options nw =
    (case prepare rw f url options of
       (f, Inl e) \<Rightarrow> ((f, nw), Inl (Request_Failed e))
     | (f, Inr p) \<Rightarrow>
         (case with_fibonacci_backoff (sv_binet sv) (pr_retries p) fetch_retryable
                 (send_once hm sv extract p) (nw, None) of
            (st, slept, r) \<Rightarrow> ((f, fst st), r)))"

text \<open>\<open>decode_text\<close> and \<open>decode_json\<close> are \<open>Response::text\<close> and \<open>Response::json\<close> of \<open>reqwest\<close>.\<close>

definition text_response_with_options where
  "text_response_with_options hm rw sv (decode_text :: 'm http_response \<Rightarrow> request_error + string) f url options nw =
    send_retrying hm rw sv decode_text f url options nw"

definition text_with_options where
  "text_with_options hm rw sv decode_text f url options nw =
    (case text_response_with_options hm rw sv decode_text f url options nw of
       (st, r) \<Rightarrow> (st, rbind r (\<lambda>resp. Inr (fr_body resp))))"

definition text_response where
  "text_response hm rw sv decode_text f url nw =
    text_response_with_options hm rw sv decode_text f url (options_new hm) nw"

definition fetch_text where
  "fetch_text hm rw sv decode_text f url nw = text_with_options hm rw sv decode_text f url (options_new hm) nw"

definition json_response_with_options where
  "json_response_with_options hm rw sv (decode_json :: 'm http_response \<Rightarrow> request_error + 'a) f url options nw =
    send_retrying hm rw sv decode_json f url options nw"

definition json_with_options where
  "json_with_options hm rw sv decode_json f url options nw =
    (case json_response_with_options hm rw sv decode_json f url options nw of
       (st, r) \<Rightarrow> (st, rbind r (\<lambda>resp. Inr (fr_body resp))))"

definition json_response where
  "json_response hm rw sv decode_json f url nw =
    json_response_with_options hm rw sv decode_json f url (options_new hm) nw"

definition fetch_json where
  "fetch_json hm rw sv decode_json f url nw = json_with_options hm rw sv decode_json f url (options_new hm) nw"

section \<open>Downloads\<close>

text \<open>What \<open>download_with_options\<close> hands to the background task: the job, or the error of preparing
  it. \<open>job_of\<close> fills in what is outside: the server, the clocks, the disk's codec.\<close>

definition download_with_options ::
    "('m, 'p, 'n, 'b, 'c) reqwest \<Rightarrow> (('m, 'j, 'c) outgoing \<Rightarrow> string option)
      \<Rightarrow> (('m, 'j, 'c) prepared_request \<Rightarrow> 'h job) \<Rightarrow> 'h job \<Rightarrow> ('m, 'c) fetch \<Rightarrow> string \<Rightarrow> string
      \<Rightarrow> ('m, 'j) request_options \<Rightarrow> 'h transfer
      \<Rightarrow> ('m, 'c) fetch \<times> 'h transfer \<times> string option \<times> (download_error + unit)" where
  "download_with_options rw built_url job_of idle f url path options w =
    (let mode = (case ro_download_mode options of Some m \<Rightarrow> m | None \<Rightarrow> fe_download_mode f) in
     case prepare rw f url options of
       (f, Inl e) \<Rightarrow> (f, run_download (idle\<lparr>j_path := path, j_mode := mode\<rparr>) (Inl e) w)
     | (f, Inr p) \<Rightarrow>
         (f, run_download ((job_of p)\<lparr>j_retries := pr_retries p, j_path := path, j_mode := mode,
               j_ident := \<lparr> id_url = effective_url built_url p, id_resume_key = ro_resume_key options,
                            id_across_urls = ro_resume_across_urls options \<rparr>,
               j_algorithm := ro_digest options\<rparr>) (Inr ()) w))"

text \<open>The handle. \<open>dh_task\<close> is whether the task has not been awaited yet, and \<open>ended\<close> how it ends:
  with its result, or cancelled.\<close>

record handle =
  dh_task :: bool
  dh_succeeded :: "bool option"

datatype task_end = Ran "download_error + unit" | Aborted

definition from_parts :: handle where
  "from_parts = \<lparr> dh_task = True, dh_succeeded = None \<rparr>"

definition join_handle :: "task_end \<Rightarrow> download_error + unit" where
  "join_handle ended = (case ended of Ran r \<Rightarrow> r | Aborted \<Rightarrow> Inl Cancelled)"

definition join_once :: "task_end \<Rightarrow> handle \<Rightarrow> handle \<times> (download_error + unit)" where
  "join_once ended h =
    (if dh_task h
     then let r = join_handle ended in (h\<lparr>dh_task := False, dh_succeeded := Some (is_ok r)\<rparr>, r)
     else if dh_succeeded h = Some False then (h, Inl (Io_Failed (Io_Error OtherKind None)))
     else (h, Inr ()))"

text \<open>\<open>track\<close> hands every update to the callback, then awaits the task.\<close>

definition track ::
    "progress list \<Rightarrow> task_end \<Rightarrow> ('s \<Rightarrow> nat option \<Rightarrow> nat \<Rightarrow> 's) \<Rightarrow> 's \<Rightarrow> handle
      \<Rightarrow> 's \<times> handle \<times> (download_error + unit)" where
  "track updates ended callback s h =
    (fold (\<lambda>p s. callback s (pg_total p) (pg_downloaded p)) updates s, join_once ended h)"

section \<open>How often a request is sent\<close>

lemma send_once_sends:
  "nw_sent (fst (fst (send_once hm sv extract p st))) = nw_sent (fst st) @ [request_of p]"
  by (auto simp: send_once_def send_logged_def split: prod.splits sum.splits)

lemma backoff_sends:
  assumes "backoff_loop binet retries should_retry (send_once hm sv extract p) k slept st = (st', slept', r)"
  shows "\<exists>n \<le> Suc (retries - k). nw_sent (fst st') = nw_sent (fst st) @ replicate n (request_of p)"
  using assms
proof (induction "retries - k" arbitrary: k slept st rule: less_induct)
  case less
  obtain st1 r1 where once: "send_once hm sv extract p st = (st1, r1)"
    by fastforce
  then have sent: "nw_sent (fst st1) = nw_sent (fst st) @ [request_of p]"
    using send_once_sends [of hm sv "extract" p st] by simp
  show ?case
  proof (cases "\<exists>e. r1 = Inl e \<and> k < retries \<and> should_retry e")
    case True
    then have "backoff_loop binet retries should_retry (send_once hm sv extract p) (k + 1)
        (slept @ [backoff_delay binet k (snd st1)]) (fst st1, None) = (st', slept', r)"
      using less.prems once by (subst (asm) backoff_loop.simps) auto
    moreover have "retries - (k + 1) < retries - k"
      using True by auto
    ultimately obtain n where
      "n \<le> Suc (retries - (k + 1))" "nw_sent (fst st') = nw_sent (fst st1) @ replicate n (request_of p)"
      using less.hyps by fastforce
    with True sent show ?thesis
      by (intro exI [of _ "Suc n"]) auto
  next
    case False
    then have "st' = st1"
      using less.prems once by (subst (asm) backoff_loop.simps) (auto split: sum.splits if_splits)
    with sent show ?thesis
      by (intro exI [of _ 1]) simp
  qed
qed

lemma prepare_spec:
  assumes "prepare rw f url options = (f', Inr p)"
  shows "pr_method p = (case ro_method options of Some m \<Rightarrow> m | None \<Rightarrow> GET)"
    "pr_query p = ro_query options" "pr_headers p = ro_headers options" "pr_body p = ro_body options"
    "pr_retries p = (if is_idempotent (pr_method p) \<or> ro_retry_non_idempotent options
       then case ro_retries options of Some n \<Rightarrow> n | None \<Rightarrow> fe_retries f else 0)"
    "snd (client rw f) = Inr (pr_client p)"
proof -
  have kept: "fe_retries (fst (client rw f)) = fe_retries f"
    by (auto simp: client_def split: option.splits sum.splits)
  show "pr_method p = (case ro_method options of Some m \<Rightarrow> m | None \<Rightarrow> GET)"
    "pr_query p = ro_query options" "pr_headers p = ro_headers options" "pr_body p = ro_body options"
    "pr_retries p = (if is_idempotent (pr_method p) \<or> ro_retry_non_idempotent options
       then case ro_retries options of Some n \<Rightarrow> n | None \<Rightarrow> fe_retries f else 0)"
    "snd (client rw f) = Inr (pr_client p)"
    using assms kept by (auto simp: prepare_def Let_def sbind_def split: prod.splits sum.splits option.splits)
qed

text \<open>Splitting a body into what is read before an end, a break or the limit.\<close>

lemma read_pieces_spec:
  assumes "length body \<le> limit"
  shows "case read_pieces limit body events of
      Inr whole \<Rightarrow> length whole \<le> limit \<and> (\<exists>chunks. events = map Piece chunks \<and> whole = body @ concat chunks)
    | Inl (Body_Too_Large l) \<Rightarrow> l = limit \<and>
        (\<exists>chunks rest. events = map Piece chunks @ rest \<and> limit < length (body @ concat chunks))
    | Inl (Request_Failed e) \<Rightarrow>
        (\<exists>chunks rest. events = map Piece chunks @ Break e # rest \<and> length (body @ concat chunks) \<le> limit)"
  using assms
proof (induction limit body events rule: read_pieces.induct)
  case (1 limit body)
  then show ?case
    by simp
next
  case (2 limit body e events)
  then show ?case
    by (auto intro: exI [of _ "[]"])
next
  case (3 limit body chunk events)
  show ?case
  proof (cases "limit < length body + length chunk")
    case True
    then show ?thesis
      by (auto intro!: exI [of _ "[chunk]"])
  next
    case False
    with 3 have IH: "case read_pieces limit (body @ chunk) events of
      Inr whole \<Rightarrow> length whole \<le> limit \<and>
        (\<exists>chunks. events = map Piece chunks \<and> whole = (body @ chunk) @ concat chunks)
    | Inl (Body_Too_Large l) \<Rightarrow> l = limit \<and>
        (\<exists>chunks rest. events = map Piece chunks @ rest \<and> limit < length ((body @ chunk) @ concat chunks))
    | Inl (Request_Failed e) \<Rightarrow>
        (\<exists>chunks rest. events = map Piece chunks @ Break e # rest
          \<and> length ((body @ chunk) @ concat chunks) \<le> limit)"
      by simp
    have cons: "\<exists>all. Piece chunk # map Piece chunks @ rest = map Piece all @ rest
        \<and> (body @ chunk) @ concat chunks = body @ concat all" for chunks rest
      by (intro exI [of _ "chunk # chunks"]) simp
    from False IH show ?thesis
      by (auto split: sum.splits fetch_error.splits)
        (metis append.assoc append_Cons concat.simps(2) list.map(2) length_append)+
  qed
qed

section \<open>Properties\<close>

text \<open>However its settings are changed and its requests interleave with the changes, a \<open>Fetch\<close>
  never sends with a client built from other settings than its present ones, and every header of
  its own that carries a credential is marked sensitive.\<close>

theorem client_follows_settings:
  assumes "header_calls_ok hm" and "fetch_run hm rw calls (fetch_new hm) = Some f"
  shows "snd (client rw f) = build_client rw f \<and> credentials_marked hm (fe_headers f)"
  using client_current fetch_run_ok [OF assms(1) fetch_new_ok [OF assms(1)] assms(2)]
  by (auto simp: fetch_ok_def)

text \<open>C14. A request is sent at most once more than the retries allow, always the same one, with the
  method, the query, the headers and the body of its options; with a method that is not idempotent
  it is sent at most once, unless the options ask for retries even so.\<close>

theorem unsafe_requests_sent_once:
  assumes "send_retrying hm rw sv extract f url options nw = ((f', nw'), r)"
  shows "\<exists>n rq. nw_sent nw' = nw_sent nw @ replicate n rq
    \<and> n \<le> Suc (if is_idempotent (og_method rq) \<or> ro_retry_non_idempotent options
        then case ro_retries options of Some n \<Rightarrow> n | None \<Rightarrow> fe_retries f else 0)
    \<and> og_method rq = (case ro_method options of Some m \<Rightarrow> m | None \<Rightarrow> GET)
    \<and> og_query rq = ro_query options \<and> og_headers rq = ro_headers options \<and> og_json rq = ro_body options"
proof (cases "prepare rw f url options")
  case (Pair f1 prepared)
  show ?thesis
  proof (cases prepared)
    case (Inl e)
    with Pair assms have "nw' = nw"
      by (simp add: send_retrying_def)
    then show ?thesis
      by (intro exI [of _ 0] exI [of _ "\<lparr> og_client = undefined,
        og_method = (case ro_method options of Some m \<Rightarrow> m | None \<Rightarrow> GET), og_url = [],
        og_query = ro_query options, og_headers = ro_headers options, og_json = ro_body options \<rparr>"]) simp
  next
    case (Inr p)
    note spec = prepare_spec [OF Pair [unfolded Inr]]
    obtain st slept where run: "with_fibonacci_backoff (sv_binet sv) (pr_retries p) fetch_retryable
        (send_once hm sv extract p) (nw, None) = (st, slept, r)" and "nw' = fst st"
      using assms Pair Inr by (auto simp: send_retrying_def split: prod.splits)
    with backoff_sends [OF run [unfolded with_fibonacci_backoff_def]] obtain n where
      "n \<le> Suc (pr_retries p)" "nw_sent nw' = nw_sent nw @ replicate n (request_of p)"
      by auto
    with spec show ?thesis
      by (intro exI [of _ n] exI [of _ "request_of p"]) (simp add: request_of_def)
  qed
qed

text \<open>Under a limit a response is read whole or not at all: what is handed on is exactly the
  body that was sent, within the limit; the limit is only reported when the response declared more
  or sent more, and a broken body is never taken for a whole one.\<close>

theorem capped_body_is_whole:
  "case read_capped resp limit of
     Inr capped \<Rightarrow> (\<exists>chunks. ht_body resp = map Piece chunks \<and> ht_body capped = [Piece (concat chunks)]
         \<and> ht_content_length capped = Some (length (concat chunks)) \<and> length (concat chunks) \<le> limit)
       \<and> ht_status capped = ht_status resp \<and> ht_headers capped = ht_headers resp
   | Inl (Body_Too_Large l) \<Rightarrow> l = limit \<and>
       ((\<exists>len. ht_content_length resp = Some len \<and> limit < len)
        \<or> (\<exists>chunks rest. ht_body resp = map Piece chunks @ rest \<and> limit < length (concat chunks)))
   | Inl (Request_Failed e) \<Rightarrow>
       (\<exists>chunks rest. ht_body resp = map Piece chunks @ Break e # rest \<and> length (concat chunks) \<le> limit)"
proof (cases "case ht_content_length resp of Some len \<Rightarrow> limit < len | None \<Rightarrow> False")
  case True
  then show ?thesis
    by (auto simp: read_capped_def split: option.splits)
next
  case False
  with read_pieces_spec [of "[]" limit "ht_body resp"] show ?thesis
    by (cases "read_pieces limit [] (ht_body resp)")
      (auto simp: read_capped_def split: fetch_error.splits)
qed

text \<open>Without a limit the text of a body is decoded with no headers at hand, the charset of the
  \<open>Content-Type\<close> included.\<close>

lemma unlimited_body_ignores_headers:
  "rbind (take_response hm None extract resp) (\<lambda>(headers, body). Inr body)
    = rbind (take_response hm None extract (resp\<lparr>ht_headers := m\<rparr>)) (\<lambda>(headers, body). Inr body)"
  by (cases "extract (resp\<lparr>ht_headers := hm_new hm\<rparr>)") (simp_all add: take_response_def)

text \<open>A download's result is told once; whoever asks again learns whether it succeeded.\<close>

lemma joined_twice:
  assumes "join_once ended from_parts = (h, r)" and "join_once ended' h = (h', r')"
  shows "r = join_handle ended" "is_ok r' = is_ok r" "h' = h"
  using assms by (auto simp: join_once_def from_parts_def Let_def split: if_splits)

section \<open>A concrete client\<close>

definition list_headers :: "(string \<times> header_value) list header_calls" where
  "list_headers =
    \<lparr> hm_new = [], hm_insert = (\<lambda>name v m. (name, v) # filter (\<lambda>x. fst x \<noteq> name) m),
      hm_get_all = (\<lambda>m name. map snd (filter (\<lambda>x. fst x = name) m)),
      hm_update = (\<lambda>f. map (\<lambda>(name, v). (name, f name v))),
      hm_parse_name = (\<lambda>s. Some (ascii_lowercase s)),
      hm_parse_value = (\<lambda>s. Some \<lparr> hv_text = Some s, hv_sensitive = False \<rparr>) \<rparr>"

lemma list_headers_ok: "header_calls_ok list_headers"
proof -
  have "map snd (filter (\<lambda>x. fst x = name) (map (\<lambda>(name, v). (name, f name v)) m))
      = map (f name \<circ> snd) (filter (\<lambda>x. fst x = name) m)"
    for f :: "string \<Rightarrow> header_value \<Rightarrow> header_value" and m :: "(string \<times> header_value) list" and name
    by (induction m) auto
  moreover have "filter (\<lambda>x. fst x = name') (filter (\<lambda>x. fst x \<noteq> name) m)
      = (if name' = name then [] else filter (\<lambda>x. fst x = name') m)"
    for m :: "(string \<times> header_value) list" and name name'
    by (induction m) auto
  ultimately show ?thesis
    by (simp add: header_calls_ok_def list_headers_def)
qed

text \<open>A client that remembers what it was built with.\<close>

definition plain_reqwest :: "((string \<times> header_value) list, string, string, string list, string list) reqwest" where
  "plain_reqwest =
    \<lparr> px_all = Inr, px_with_auth = (\<lambda>u p x. x), px_with_bypass = (\<lambda>n x. x), nx_from_string = Some,
      cb_new = [], cb_default_headers = (\<lambda>m b. map fst m @ b), cb_http1_only = (\<lambda>b. ''http1'' # b),
      cb_read_timeout = (\<lambda>t b. ''read'' # b), cb_connect_timeout = (\<lambda>t b. ''connect'' # b),
      cb_no_proxy = (\<lambda>b. ''direct'' # b), cb_proxy = (\<lambda>p b. p # b), cb_build = Inr, into_url = Inr \<rparr>"

lemma client_follows_settings_witness:
  "map_option (\<lambda>f. snd (client plain_reqwest f))
      (fetch_run list_headers plain_reqwest
        [Uses_Client, Header ''X-Api-Key'' ''k'', Uses_Client, No_Proxy] (fetch_new list_headers))
    = Some (Inr [''direct'', ''read'', ''x-api-key''])"
proof -
  let ?run = "fetch_run list_headers plain_reqwest
        [Uses_Client, Header ''X-Api-Key'' ''k'', Uses_Client, No_Proxy] (fetch_new list_headers)"
  have "\<not> Option.is_none ?run"
    by code_simp
  then have run: "?run = Some (the ?run)"
    by (simp add: Option.is_none_def)
  from client_follows_settings [OF list_headers_ok run]
  have "snd (client plain_reqwest (the ?run)) = build_client plain_reqwest (the ?run)"
    by simp
  moreover have "build_client plain_reqwest (the ?run) = Inr [''direct'', ''read'', ''x-api-key'']"
    by code_simp
  ultimately show ?thesis
    by (subst run) simp
qed

text \<open>A server that is always overloaded.\<close>

definition busy_server :: "((string \<times> header_value) list, unit, string list, unit) server" where
  "busy_server =
    \<lparr> sv_send = (\<lambda>rq s. (s, Inr \<lparr> ht_status = 503, ht_version = ''1.1'', ht_headers = [],
          ht_content_length = None, ht_body = [] \<rparr>)),
      sv_now = (\<lambda>i. 0), sv_http_date = (\<lambda>s. None), sv_binet = (\<lambda>n. 0) \<rparr>"

lemma unsafe_requests_sent_once_witness:
  "\<exists>n rq. nw_sent (snd (fst (send_retrying list_headers plain_reqwest busy_server (\<lambda>resp. Inr ()) (fetch_new list_headers)
       ''u'' (with_retries 3 (with_method POST (options_new list_headers))) \<lparr> nw_server = (), nw_sent = [] \<rparr>)))
     = replicate n rq \<and> n \<le> 1 \<and> og_method rq = POST"
proof -
  let ?run = "send_retrying list_headers plain_reqwest busy_server (\<lambda>resp. Inr ()) (fetch_new list_headers)
       ''u'' (with_retries 3 (with_method POST (options_new list_headers))) \<lparr> nw_server = (), nw_sent = [] \<rparr>"
  have "?run = ((fst (fst ?run), snd (fst ?run)), snd ?run)"
    by simp
  note sent = unsafe_requests_sent_once [OF this]
  have options: "ro_method (with_retries 3 (with_method POST (options_new list_headers))) = Some POST"
    "\<not> ro_retry_non_idempotent (with_retries 3 (with_method POST (options_new list_headers)))"
    "\<not> is_idempotent POST"
    by (simp_all add: with_retries_def with_method_def options_new_def is_idempotent_def)
  from sent show ?thesis
    by (elim exE conjE) (intro exI conjI, assumption?, auto simp: options)
qed

end
