(* ===== verification/Link.thy ===== *)
theory Link
  imports Prelude
begin

text \<open>
  \<open>fetch/response.rs\<close>: a response with its metadata, and the \<open>Link\<close> headers a paginated API is
  followed by. The header map of the \<open>http\<close> crate is a parameter: here only what it answers for a
  name, each value as the text \<open>to_str\<close> reads in it, \<open>None\<close> where it is not text.
\<close>

section \<open>Splitting and reading links\<close>

definition is_ascii_whitespace :: "char \<Rightarrow> bool" where
  "is_ascii_whitespace c = (c \<in> {CHR 0x20, CHR 0x09, CHR 0x0A, CHR 0x0C, CHR 0x0D})"

definition split_ascii_whitespace :: "string \<Rightarrow> string list" where
  "split_ascii_whitespace s = filter (\<lambda>w. w \<noteq> []) (split_on is_ascii_whitespace s)"

definition trim_end_matches :: "char \<Rightarrow> string \<Rightarrow> string" where
  "trim_end_matches c s = rev (dropWhile (\<lambda>x. x = c) (rev s))"

definition trim_matches :: "char \<Rightarrow> string \<Rightarrow> string" where
  "trim_matches c s = trim_end_matches c (dropWhile (\<lambda>x. x = c) s)"

function links :: "string \<Rightarrow> (string \<times> string) list" where
  "links value =
    (case split_once (CHR ''<'') value of
       None \<Rightarrow> []
     | Some (_, after) \<Rightarrow>
       (case split_once (CHR ''>'') after of
          None \<Rightarrow> []
        | Some (target, tail) \<Rightarrow>
          let parameters = takeWhile (\<lambda>c. c \<noteq> CHR ''<'') tail;
              rest = dropWhile (\<lambda>c. c \<noteq> CHR ''<'') tail;
              target = trim target in
          if target = [] then links rest else (target, parameters) # links rest))"
  by pat_completeness auto
termination
proof (relation "measure length", goal_cases)
  case (2 v p before after q target tail)
  then show ?case
    using length_dropWhile_le [of "\<lambda>c. c \<noteq> CHR ''<''" tail] by (auto dest!: split_once_shorter)
next
  case (3 v p before after q target tail)
  then show ?case
    using length_dropWhile_le [of "\<lambda>c. c \<noteq> CHR ''<''" tail] by (auto dest!: split_once_shorter)
qed simp

declare links.simps [simp del]

definition has_rel :: "string \<Rightarrow> string \<Rightarrow> bool" where
  "has_rel parameters rel =
    list_ex (\<lambda>(name, value).
        list_ex (\<lambda>declared. eq_ignore_ascii_case declared rel)
          (split_ascii_whitespace (trim_matches (CHR 0x22) (trim (trim_end_matches (CHR '','') (trim value))))))
      (filter (\<lambda>(name, value). eq_ignore_ascii_case (trim name) ''rel'')
        (List.map_filter (split_once (CHR ''='')) (split_on (\<lambda>c. c = CHR '';'') parameters)))"

text \<open>\<open>get_all\<close> is what the header map holds for a name, first value first.\<close>

definition link :: "(string \<Rightarrow> string option list) \<Rightarrow> string \<Rightarrow> string option" where
  "link get_all rel =
    map_option fst (find (\<lambda>(target, parameters). has_rel parameters rel)
      (concat (map links (List.map_filter (\<lambda>v. v) (get_all ''link'')))))"

definition header :: "(string \<Rightarrow> string option list) \<Rightarrow> string \<Rightarrow> string option" where
  "header get_all name = (case get_all name of [] \<Rightarrow> None | v # _ \<Rightarrow> v)"

section \<open>Trimming plain text\<close>

definition visible :: "char \<Rightarrow> bool" where
  "visible c = ((of_char c :: nat) \<in> {33..126})"

lemma visible_not_space: "visible c \<Longrightarrow> \<not> is_ascii_whitespace c"
  by (auto simp: visible_def is_ascii_whitespace_def)

lemma whitespace_invisible:
  assumes "w \<in> set whitespace"
  shows "w \<noteq> []" "\<not> visible (hd w)" "\<not> visible (last w)"
proof -
  have "list_all (\<lambda>w. w \<noteq> [] \<and> \<not> visible (hd w) \<and> \<not> visible (last w)) whitespace"
    by code_simp
  with assms show "w \<noteq> []" "\<not> visible (hd w)" "\<not> visible (last w)"
    by (auto simp: list_all_iff)
qed

lemma trim_start_visible [string_simps]: "visible c \<Longrightarrow> trim_start (c # s) = c # s"
proof (subst trim_start.simps)
  assume "visible c"
  then have "find (\<lambda>w. prefix w (c # s)) whitespace = None"
    by (auto simp: find_None_iff prefix_Cons dest: whitespace_invisible)
  then show "(case find (\<lambda>w. prefix w (c # s)) whitespace of None \<Rightarrow> c # s
      | Some w \<Rightarrow> trim_start (drop (length w) (c # s))) = c # s"
    by simp
qed

lemma trim_start_space [string_simps]: "trim_start (CHR '' '' # s) = trim_start s"
  by (subst trim_start.simps) (simp add: whitespace_def)

lemma trim_end_visible [string_simps]: "visible c \<Longrightarrow> trim_end (s @ [c]) = s @ [c]"
proof (subst trim_end.simps)
  assume "visible c"
  then have "find (\<lambda>w. suffix w (s @ [c])) whitespace = None"
    by (auto simp: find_None_iff suffix_snoc dest: whitespace_invisible)
  then show "(case find (\<lambda>w. suffix w (s @ [c])) whitespace of None \<Rightarrow> s @ [c]
      | Some w \<Rightarrow> trim_end (take (length (s @ [c]) - length w) (s @ [c]))) = s @ [c]"
    by simp
qed

lemma trim_end_space [string_simps]: "trim_end (s @ [CHR '' '']) = trim_end s"
proof (subst trim_end.simps)
  have "find (\<lambda>w. suffix w (s @ [CHR '' ''])) whitespace = Some [CHR '' '']"
    by (simp add: whitespace_def suffix_def)
  then show "(case find (\<lambda>w. suffix w (s @ [CHR '' ''])) whitespace of None \<Rightarrow> s @ [CHR '' '']
      | Some w \<Rightarrow> trim_end (take (length (s @ [CHR '' '']) - length w) (s @ [CHR '' '']))) = trim_end s"
    by simp
qed

lemma trim_visible [string_simps]:
  assumes "s \<noteq> []" and "visible (hd s)" and "visible (last s)"
  shows "trim s = s"
  using assms trim_start_visible [of "hd s" "tl s"] trim_end_visible [of "last s" "butlast s"]
  by (simp add: trim_def)

section \<open>Links as a server writes them\<close>

definition quoted :: "string list \<Rightarrow> string" where
  "quoted rels = CHR 0x22 # join '' '' rels @ [CHR 0x22]"

definition render_link :: "string \<times> string list \<Rightarrow> string" where
  "render_link l = ''<'' @ fst l @ ''>; rel='' @ quoted (snd l)"

text \<open>A target of visible characters without angle brackets, and relation types that need no
  escape inside the quotes.\<close>

definition link_ok :: "string \<times> string list \<Rightarrow> bool" where
  "link_ok l =
    (fst l \<noteq> [] \<and> list_all (\<lambda>c. visible c \<and> c \<notin> {CHR ''<'', CHR ''>''}) (fst l)
     \<and> snd l \<noteq> []
     \<and> list_all (\<lambda>rel. rel \<noteq> [] \<and> list_all (\<lambda>c. visible c \<and> c \<notin> {CHR ''<'', CHR '';'', CHR 0x22}) rel)
         (snd l))"

lemma set_join: "c \<in> set (join sep ws) \<Longrightarrow> c \<in> set sep \<or> (\<exists>w \<in> set ws. c \<in> set w)"
  by (induction sep ws rule: join.induct) auto

lemma quoted_clean:
  assumes "link_ok l" and "c \<in> set (quoted (snd l))"
  shows "c = CHR 0x22 \<or> c = CHR '' '' \<or> visible c \<and> c \<notin> {CHR ''<'', CHR '';''}"
  using assms set_join [of c "'' ''" "snd l"]
  by (fastforce simp: link_ok_def quoted_def list_all_iff)

lemma split_on_missing: "c \<notin> set w \<Longrightarrow> split_on (\<lambda>x. x = c) w = [w]"
  by (rule split_on_clean_id) auto

lemma dropWhile_missing: "c \<notin> set s \<Longrightarrow> dropWhile (\<lambda>x. x = c) s = s"
  by (cases s) auto

lemma trim_matches_quoted: "c \<notin> set s \<Longrightarrow> trim_matches c (c # s @ [c]) = s"
  using dropWhile_missing [of c s] dropWhile_missing [of c "rev s"]
  by (cases s) (auto simp: trim_matches_def trim_end_matches_def)

text \<open>The value of the parameter, whatever separates it from the next link.\<close>

lemma quoted_value:
  assumes "link_ok l" and "sep \<in> {[], '', ''}"
  shows "split_ascii_whitespace (trim_matches (CHR 0x22)
      (trim (trim_end_matches (CHR '','') (trim (quoted (snd l) @ sep))))) = snd l"
proof -
  let ?rels = "join '' '' (snd l)"
  have plain: "\<forall>w \<in> set (snd l). \<forall>c \<in> set w. \<not> is_ascii_whitespace c \<and> c \<noteq> CHR 0x22"
    using assms(1) visible_not_space by (fastforce simp: link_ok_def list_all_iff)
  have rels: "snd l \<noteq> []" "[] \<notin> set (snd l)"
    using assms(1) by (auto simp: link_ok_def list_all_iff)
  have split: "split_on is_ascii_whitespace ?rels = snd l"
    using split_on_join [of "snd l" is_ascii_whitespace "CHR '' ''"] plain rels(1)
    by (simp add: is_ascii_whitespace_def)
  have no_quote: "CHR 0x22 \<notin> set ?rels"
    using set_join [of "CHR 0x22" "'' ''" "snd l"] plain by auto
  have visibles: "visible (CHR 0x22)" "visible (CHR '','')"
    by (simp_all add: visible_def)
  have trimmed: "trim (quoted (snd l)) = quoted (snd l)"
    using visibles by (intro trim_visible) (simp_all add: quoted_def)
  have "trim (quoted (snd l) @ sep) = quoted (snd l) \<or> trim (quoted (snd l) @ sep) = quoted (snd l) @ '',''"
  proof (cases "sep = []")
    case False
    with assms(2) have "trim (quoted (snd l) @ sep) = trim_end ((quoted (snd l) @ '','') @ '' '')"
      using visibles by (simp add: trim_def quoted_def trim_start_visible)
    also have "\<dots> = quoted (snd l) @ '',''"
      using visibles trim_end_visible [of "CHR '',''" "quoted (snd l)"] trim_end_space by metis
    finally show ?thesis ..
  qed (simp add: trimmed)
  then have "trim (trim_end_matches (CHR '','') (trim (quoted (snd l) @ sep))) = quoted (snd l)"
    by (auto simp: trimmed trim_end_matches_def) (simp_all add: quoted_def trimmed [unfolded quoted_def])
  moreover have "trim_matches (CHR 0x22) (quoted (snd l)) = ?rels"
    using no_quote trim_matches_quoted [where c = "CHR 0x22" and s = ?rels] by (simp add: quoted_def)
  ultimately show ?thesis
    using split rels(2) by (auto simp: split_ascii_whitespace_def filter_id_conv)
qed

lemma has_rel_rendered:
  assumes "link_ok l" and "sep \<in> {[], '', ''}"
  shows "has_rel (''; rel='' @ quoted (snd l) @ sep) rel
    = list_ex (\<lambda>declared. eq_ignore_ascii_case declared rel) (snd l)"
proof -
  let ?v = "quoted (snd l) @ sep"
  have "CHR '';'' \<notin> set (quoted (snd l))"
    using quoted_clean [OF assms(1), of "CHR '';''"] by auto
  then have clean: "CHR '';'' \<notin> set ('' rel='' @ ?v)"
    using assms(2) by auto
  have "split_on (\<lambda>c. c = CHR '';'') ([] @ CHR '';'' # '' rel='' @ ?v) = [[], '' rel='' @ ?v]"
    using clean by (subst split_on_append) (simp_all add: split_on_clean_id split_on_missing)
  moreover have "split_once (CHR ''='') ('' rel'' @ CHR ''='' # ?v) = Some ('' rel'', ?v)"
    by (rule split_once_found) simp
  moreover have "eq_ignore_ascii_case (trim '' rel'') ''rel''"
    by code_simp
  moreover have "split_once (CHR ''='') [] = None"
    by (simp add: split_once_missing)
  ultimately show ?thesis
    using quoted_value [OF assms] by (simp add: has_rel_def List.map_filter_def)
qed

lemma takeWhile_dropWhile_clean:
  assumes "\<forall>c \<in> set w. P c" and "rest = [] \<or> \<not> P (hd rest)"
  shows "takeWhile P (w @ rest) = w \<and> dropWhile P (w @ rest) = rest"
  using assms by (cases rest) simp_all

lemma links_rendered:
  assumes "link_ok l" and "CHR ''<'' \<notin> set sep" and "rest = [] \<or> hd rest = CHR ''<''"
  shows "links (render_link l @ sep @ rest) = (fst l, ''; rel='' @ quoted (snd l) @ sep) # links rest"
proof -
  let ?tail = "''; rel='' @ quoted (snd l) @ sep @ rest"
  have target: "CHR ''>'' \<notin> set (fst l)" "trim (fst l) = fst l" "fst l \<noteq> []"
    using assms(1) trim_visible [of "fst l"] by (auto simp: link_ok_def list_all_iff)
  have one: "split_once (CHR ''<'') ([] @ CHR ''<'' # fst l @ CHR ''>'' # ?tail)
      = Some ([], fst l @ CHR ''>'' # ?tail)"
    by (rule split_once_found) simp
  have two: "split_once (CHR ''>'') (fst l @ CHR ''>'' # ?tail) = Some (fst l, ?tail)"
    using target(1) by (rule split_once_found)
  have "CHR ''<'' \<notin> set (quoted (snd l))"
    using quoted_clean [OF assms(1), of "CHR ''<''"] by auto
  then have clean: "\<forall>c \<in> set (''; rel='' @ quoted (snd l) @ sep). c \<noteq> CHR ''<''"
    using assms(2) by auto
  have "takeWhile (\<lambda>c. c \<noteq> CHR ''<'') ((''; rel='' @ quoted (snd l) @ sep) @ rest)
      = ''; rel='' @ quoted (snd l) @ sep \<and>
    dropWhile (\<lambda>c. c \<noteq> CHR ''<'') ((''; rel='' @ quoted (snd l) @ sep) @ rest) = rest"
    using clean assms(3) by (intro takeWhile_dropWhile_clean) auto
  with one two target show ?thesis
    by (subst links.simps) (simp add: render_link_def)
qed

lemma links_of_rendered:
  assumes "list_all link_ok ls"
  shows "list_all2 (\<lambda>(target, parameters) l. target = fst l
      \<and> (\<forall>rel. has_rel parameters rel = list_ex (\<lambda>declared. eq_ignore_ascii_case declared rel) (snd l)))
    (links (join '', '' (map render_link ls))) ls"
  using assms
proof (induction ls rule: induct_list012)
  case 1
  then show ?case
    by (subst links.simps) (simp add: split_once_missing)
next
  case (2 l)
  then have "links (render_link l @ [] @ []) = (fst l, ''; rel='' @ quoted (snd l) @ []) # links []"
    by (intro links_rendered) simp_all
  moreover have "links [] = []"
    by (subst links.simps) (simp add: split_once_missing)
  ultimately show ?case
    using 2 has_rel_rendered [of l "[]"] by simp
next
  case (3 l l' ls)
  let ?rest = "join '', '' (map render_link (l' # ls))"
  have "hd ?rest = CHR ''<''"
    by (cases ls) (simp_all add: render_link_def)
  with 3 have "links (render_link l @ '', '' @ ?rest) = (fst l, ''; rel='' @ quoted (snd l) @ '', '') # links ?rest"
    by (intro links_rendered) simp_all
  with 3 has_rel_rendered [of l "'', ''"] show ?case
    by simp
qed

lemma find_list_all2:
  "list_all2 (\<lambda>x y. f x = g y \<and> P x = Q y) xs ys \<Longrightarrow> map_option f (find P xs) = map_option g (find Q ys)"
  by (induction rule: list_all2_induct) auto

text \<open>A client that follows a paginated API gets exactly the target the server meant: of the
  links rendered into one or several \<open>Link\<close> headers, the first that lists the relation type,
  compared without case, wherever a comma or an equals sign stands in a target.\<close>

theorem rendered_links_are_followed:
  assumes "list_all (list_all link_ok) values"
    and "get_all ''link'' = map (\<lambda>ls. Some (join '', '' (map render_link ls))) values"
  shows "link get_all rel
    = map_option fst (find (\<lambda>l. list_ex (\<lambda>declared. eq_ignore_ascii_case declared rel) (snd l)) (concat values))"
proof -
  let ?read = "concat (map (\<lambda>ls. links (join '', '' (map render_link ls))) values)"
  have "list_all2 (\<lambda>x l. fst x = fst l
      \<and> (case x of (target, parameters) \<Rightarrow> has_rel parameters rel)
          = list_ex (\<lambda>declared. eq_ignore_ascii_case declared rel) (snd l)) ?read (concat values)"
    using assms(1)
  proof (induction "values")
    case (Cons ls lss)
    then have "list_all2 (\<lambda>x l. fst x = fst l
      \<and> (case x of (target, parameters) \<Rightarrow> has_rel parameters rel)
          = list_ex (\<lambda>declared. eq_ignore_ascii_case declared rel) (snd l))
        (links (join '', '' (map render_link ls))) ls"
      by (auto intro: list_all2_mono [OF links_of_rendered])
    with Cons show ?case
      by (simp add: list_all2_appendI)
  qed simp
  from find_list_all2 [OF this] show ?thesis
    by (simp add: link_def assms(2) List.map_filter_def comp_def)
qed

lemma rendered_links_are_followed_witness:
  "link (\<lambda>name. if name = ''link''
      then map (\<lambda>ls. Some (join '', '' (map render_link ls))) [[(''/1'', [''prev''])], [(''/t?c=a,b'', [''Next'', ''last''])]]
      else []) ''next'' = Some ''/t?c=a,b''"
proof -
  have "list_all (list_all link_ok) [[(''/1'', [''prev''])], [(''/t?c=a,b'', [''Next'', ''last''])]]"
    by code_simp
  from rendered_links_are_followed [OF this, of "\<lambda>name. if name = ''link''
      then map (\<lambda>ls. Some (join '', '' (map render_link ls))) [[(''/1'', [''prev''])], [(''/t?c=a,b'', [''Next'', ''last''])]]
      else []" "''next''"]
  moreover have "find (\<lambda>l. list_ex (\<lambda>declared. eq_ignore_ascii_case declared ''next'') (snd l))
      (concat [[(''/1'', [''prev''])], [(''/t?c=a,b'', [''Next'', ''last''])]])
    = Some (''/t?c=a,b'', [''Next'', ''last''])"
    by code_simp
  ultimately show ?thesis
    by simp
qed

end
