(* ===== verification/Cache_Store.thy ===== *)
theory Cache_Store
  imports Prelude
begin

text \<open>
  \<open>memo/store.rs\<close>, \<open>memo/error.rs\<close> and \<open>memo/cache_opts.rs\<close>: what a store of a cache is, and
  what it owes its clients, as a contract that each tier of the cache is shown to keep. A client
  is a history of operations; the contract says which values a read may give.
\<close>

section \<open>Clocks\<close>

text \<open>Each operation reads the clocks as often as its code does: reading \<open>i\<close> is the \<open>i\<close>-th.
  Instants and durations are nanoseconds; the wall clock counts from the Unix epoch, and may be
  set before it.\<close>

record clocks =
  monotonic :: nat
  wall :: int

type_synonym readings = "nat \<Rightarrow> clocks"

definition later :: "nat \<Rightarrow> readings \<Rightarrow> readings" where
  "later n c i = c (n + i)"

definition max_instant :: nat where
  "max_instant = 2 ^ 63 * 10 ^ 9 - 1"

definition millisecond :: nat where
  "millisecond = 10 ^ 6"

text \<open>\<open>Instant::checked_add\<close>; \<open>SystemTime::checked_add\<close> has the same range after the epoch.\<close>

definition instant_add :: "nat \<Rightarrow> nat \<Rightarrow> nat option" where
  "instant_add now d = (if now + d \<le> max_instant then Some (now + d) else None)"

definition system_add :: "int \<Rightarrow> nat \<Rightarrow> int option" where
  "system_add now d = (if now + int d \<le> int max_instant then Some (now + int d) else None)"

section \<open>Entries, errors and options\<close>

record entry =
  en_value :: bytes
  en_remaining :: "nat option"

type_synonym storage_error = string

text \<open>The errors of \<open>compute\<close> and of the encoder are opaque.\<close>

datatype memo_error = Compute string | Compute_Abandoned | Encode string | Memo_Io io_error
  | Not_Admitted | Storage storage_error

record cache_opts =
  co_max_entries :: nat
  co_max_capacity :: nat
  co_flush_every :: nat
  co_flush_interval :: nat

definition default_max_entries :: nat where
  "default_max_entries = 10000"

definition default_max_capacity :: nat where
  "default_max_capacity = 2 ^ 30"

definition default_flush_every :: nat where
  "default_flush_every = 1"

definition default_cache_opts :: cache_opts where
  "default_cache_opts =
    \<lparr> co_max_entries = default_max_entries, co_max_capacity = default_max_capacity,
      co_flush_every = default_flush_every, co_flush_interval = 0 \<rparr>"

definition set_max_entries :: "nat \<Rightarrow> cache_opts \<Rightarrow> cache_opts" where
  "set_max_entries n opts =
    opts\<lparr>co_max_entries := if n = 0 then default_max_entries else n\<rparr>"

definition set_max_capacity :: "nat \<Rightarrow> cache_opts \<Rightarrow> cache_opts" where
  "set_max_capacity n opts =
    opts\<lparr>co_max_capacity := if n = 0 then default_max_capacity else n\<rparr>"

definition set_flush_every :: "nat \<Rightarrow> cache_opts \<Rightarrow> cache_opts" where
  "set_flush_every n opts =
    opts\<lparr>co_flush_every := if n = 0 then default_flush_every else n\<rparr>"

definition set_flush_interval :: "nat \<Rightarrow> cache_opts \<Rightarrow> cache_opts" where
  "set_flush_interval d opts = opts\<lparr>co_flush_interval := d\<rparr>"

text \<open>Options built by these setters are never zero where the stores rely on it.\<close>

definition opts_ok :: "cache_opts \<Rightarrow> bool" where
  "opts_ok opts = (0 < co_max_entries opts \<and> 0 < co_max_capacity opts
     \<and> 0 < co_flush_every opts \<and> co_flush_every opts \<le> u32_max)"

lemma opts_ok_default: "opts_ok default_cache_opts"
  by (simp add: opts_ok_def default_cache_opts_def default_max_entries_def
      default_max_capacity_def default_flush_every_def u32_max_def)

lemma opts_ok_set:
  "opts_ok opts \<Longrightarrow> opts_ok (set_max_entries n opts)"
  "opts_ok opts \<Longrightarrow> opts_ok (set_max_capacity n opts)"
  "opts_ok opts \<Longrightarrow> n \<le> u32_max \<Longrightarrow> opts_ok (set_flush_every n opts)"
  "opts_ok opts \<Longrightarrow> opts_ok (set_flush_interval n opts)"
  by (simp_all add: opts_ok_def set_max_entries_def set_max_capacity_def set_flush_every_def
      set_flush_interval_def default_max_entries_def default_max_capacity_def
      default_flush_every_def u32_max_def)

section \<open>Histories of a cache\<close>

text \<open>What a client asks, and what it is told. \<open>retain\<close> is given a predicate here; the
  operation itself takes a closure with a state of its own.\<close>

datatype cache_call = Get string | Set string bytes nat | Remove string | Retain "string \<Rightarrow> bool"
  | Cleanup | Flush

datatype cache_answer = Failed memo_error | Got "bytes option" | Done | Removed bool | Refused nat

text \<open>A history: each call with the readings of its clocks, and the answers a store gives.\<close>

fun history ::
    "(readings \<Rightarrow> cache_call \<Rightarrow> 's \<Rightarrow> 's \<times> cache_answer) \<Rightarrow> 's \<Rightarrow> (readings \<times> cache_call) list
      \<Rightarrow> (cache_call \<times> cache_answer) list" where
  "history step s [] = []"
| "history step s ((c, call) # rest) =
    (case step c call s of (s', answer) \<Rightarrow> (call, answer) # history step s' rest)"

text \<open>The values that may be served under each key, before and after a call. A read says one of
  them or nothing. A write adds its value, even when it fails, since it may have got through to
  a tier; a removal that succeeds leaves none.\<close>

type_synonym served = "string \<Rightarrow> bytes set"

fun serves_call :: "served \<Rightarrow> cache_call \<Rightarrow> cache_answer \<Rightarrow> bool" where
  "serves_call H (Get k) (Got (Some v)) = (v \<in> H k)"
| "serves_call H _ _ = True"

fun loosely :: "served \<Rightarrow> cache_call \<Rightarrow> cache_answer \<Rightarrow> served" where
  "loosely H (Set k v ttl) _ = H(k := insert v (H k))"
| "loosely H (Remove k) (Removed b) = H(k := {})"
| "loosely H (Retain keep) (Refused n) = (\<lambda>k. if keep k then H k else {})"
| "loosely H _ _ = H"

text \<open>The same, but a write that succeeds replaces what was there.\<close>

fun exactly :: "served \<Rightarrow> cache_call \<Rightarrow> cache_answer \<Rightarrow> served" where
  "exactly H (Set k v ttl) Done = H(k := {v})"
| "exactly H call answer = loosely H call answer"

fun conforms ::
    "(served \<Rightarrow> cache_call \<Rightarrow> cache_answer \<Rightarrow> served) \<Rightarrow> served \<Rightarrow> (cache_call \<times> cache_answer) list \<Rightarrow> bool"
where
  "conforms after H [] = True"
| "conforms after H ((call, answer) # rest) =
    (serves_call H call answer \<and> conforms after (after H call answer) rest)"

lemma loosely_mono: "G \<le> H \<Longrightarrow> loosely G call answer \<le> loosely H call answer"
  by (cases "(H, call, answer)" rule: loosely.cases) (auto simp: le_fun_def)

lemma exactly_mono: "G \<le> H \<Longrightarrow> exactly G call answer \<le> exactly H call answer"
  by (cases "(H, call, answer)" rule: exactly.cases)
    (auto simp: le_fun_def loosely_mono [unfolded le_fun_def])

lemma exactly_loosely: "exactly H call answer \<le> loosely H call answer"
  by (cases "(H, call, answer)" rule: exactly.cases) (auto simp: le_fun_def)

lemma serves_call_mono: "G \<le> H \<Longrightarrow> serves_call G call answer \<Longrightarrow> serves_call H call answer"
  by (cases "(H, call, answer)" rule: serves_call.cases) (auto simp: le_fun_def)

section \<open>The contract of a store\<close>

text \<open>A step gives a client's call its answer. \<open>sound\<close> is the state invariant, \<open>held\<close> the values
  that may be served.\<close>

locale store =
  fixes step :: "readings \<Rightarrow> cache_call \<Rightarrow> 's \<Rightarrow> 's \<times> cache_answer"
    and sound :: "'s \<Rightarrow> bool"
    and held :: "'s \<Rightarrow> served"
    and after :: "served \<Rightarrow> cache_call \<Rightarrow> cache_answer \<Rightarrow> served"
  assumes after_mono: "G \<le> H \<Longrightarrow> after G call answer \<le> after H call answer"
    and step_sound: "sound s \<Longrightarrow> step c call s = (s', answer) \<Longrightarrow> sound s'"
    and step_serves: "sound s \<Longrightarrow> step c call s = (s', answer) \<Longrightarrow> serves_call (held s) call answer"
    and step_held: "sound s \<Longrightarrow> step c call s = (s', answer) \<Longrightarrow> held s' \<le> after (held s) call answer"
begin

lemma history_conforms:
  assumes "sound s" and "held s \<le> H"
  shows "conforms after H (history step s calls)"
  using assms
proof (induction calls arbitrary: s H)
  case (Cons x calls)
  obtain c call where x: "x = (c, call)"
    by fastforce
  obtain s' answer where step: "step c call s = (s', answer)"
    by fastforce
  have "serves_call H call answer"
    using step_serves [OF Cons.prems(1) step] Cons.prems(2) by (rule serves_call_mono [rotated])
  moreover have "held s' \<le> after H call answer"
    using step_held [OF Cons.prems(1) step] after_mono [OF Cons.prems(2)] by (rule order_trans)
  ultimately show ?case
    using Cons.IH [OF step_sound [OF Cons.prems(1) step]] by (simp add: x step)
qed simp

end

text \<open>What a client sees of a history, in terms of the calls alone: a value that is read was
  written under that key, and no removal of the key succeeded since.\<close>

fun forgets :: "string \<Rightarrow> cache_call \<times> cache_answer \<Rightarrow> bool" where
  "forgets k (Remove k', Removed b) = (k = k')"
| "forgets k (Retain keep, Refused n) = (\<not> keep k)"
| "forgets k _ = False"

lemma conforms_written:
  assumes "conforms loosely H (past @ (Get k, Got (Some v)) # rest)"
  shows "(v \<in> H k \<and> \<not> list_ex (forgets k) past)
    \<or> (\<exists>before ttl answer between. past = before @ (Set k v ttl, answer) # between
         \<and> \<not> list_ex (forgets k) between)"
  using assms
proof (induction past arbitrary: H)
  case Nil
  then show ?case by simp
next
  case (Cons x past)
  obtain call answer where x: "x = (call, answer)"
    by fastforce
  from Cons.prems x have "conforms loosely (loosely H call answer) (past @ (Get k, Got (Some v)) # rest)"
    by simp
  from Cons.IH [OF this] show ?case
  proof
    assume before: "v \<in> loosely H call answer k \<and> \<not> list_ex (forgets k) past"
    show ?thesis
    proof (cases "\<exists>ttl. call = Set k v ttl")
      case True
      with before x show ?thesis
        by (metis append_Nil)
    next
      case False
      with before have "v \<in> H k \<and> \<not> forgets k x"
        unfolding x by (cases "(H, call, answer)" rule: loosely.cases) (auto split: if_splits)
      with before show ?thesis
        by simp
    qed
  qed (metis append_Cons)
qed

end
