(* ===== verification/Memory_Store.thy ===== *)
theory Memory_Store
  imports Cache_Store
begin

text \<open>
  \<open>memo/memory_store.rs\<close>: the tier in memory. The \<open>moka\<close> cache is a parameter: a record of its
  operations. It may drop any entry at any time, and what it holds is what it would still return.
\<close>

section \<open>The cache it is built on\<close>

record memory_entry =
  me_value :: bytes
  me_expires_at :: "nat option"

text \<open>\<open>mk_holds\<close> is what the cache holds; no operation of the store reads it.\<close>

record 'c moka =
  mk_build :: "nat \<Rightarrow> nat \<Rightarrow> (memory_entry \<Rightarrow> nat) \<Rightarrow> 'c"
  mk_get :: "'c \<Rightarrow> string \<Rightarrow> 'c \<times> memory_entry option"
  mk_insert :: "'c \<Rightarrow> string \<Rightarrow> memory_entry \<Rightarrow> 'c"
  mk_remove :: "'c \<Rightarrow> string \<Rightarrow> 'c \<times> memory_entry option"
  mk_iter :: "'c \<Rightarrow> (string \<times> memory_entry) list"
  mk_invalidate :: "'c \<Rightarrow> string \<Rightarrow> 'c"
  mk_pending :: "'c \<Rightarrow> 'c"
  mk_holds :: "'c \<Rightarrow> string \<Rightarrow> memory_entry option"

definition moka_ok :: "'c moka \<Rightarrow> bool" where
  "moka_ok m =
    ((\<forall>n i w. mk_holds m (mk_build m n i w) = Map.empty)
     \<and> (\<forall>c k. mk_holds m (fst (mk_get m c k)) \<subseteq>\<^sub>m mk_holds m c
              \<and> snd (mk_get m c k) \<in> {None, mk_holds m c k})
     \<and> (\<forall>c k e. mk_holds m (mk_insert m c k e) \<subseteq>\<^sub>m (mk_holds m c)(k \<mapsto> e))
     \<and> (\<forall>c k. mk_holds m (fst (mk_remove m c k)) \<subseteq>\<^sub>m (mk_holds m c)(k := None))
     \<and> (\<forall>c k e. (k, e) \<in> set (mk_iter m c) \<longleftrightarrow> mk_holds m c k = Some e)
     \<and> (\<forall>c k. mk_holds m (mk_invalidate m c k) \<subseteq>\<^sub>m (mk_holds m c)(k := None))
     \<and> (\<forall>c. mk_holds m (mk_pending m c) \<subseteq>\<^sub>m mk_holds m c))"

lemma moka_okD:
  assumes "moka_ok m"
  shows "mk_holds m (mk_build m n i w) = Map.empty"
    "mk_get m c k = (c', r) \<Longrightarrow> mk_holds m c' \<subseteq>\<^sub>m mk_holds m c"
    "mk_get m c k = (c', Some e) \<Longrightarrow> mk_holds m c k = Some e"
    "mk_holds m (mk_insert m c k e) \<subseteq>\<^sub>m (mk_holds m c)(k \<mapsto> e)"
    "mk_remove m c k = (c', r) \<Longrightarrow> mk_holds m c' \<subseteq>\<^sub>m (mk_holds m c)(k := None)"
    "(k, e) \<in> set (mk_iter m c) \<longleftrightarrow> mk_holds m c k = Some e"
    "mk_holds m (mk_invalidate m c k) \<subseteq>\<^sub>m (mk_holds m c)(k := None)"
    "mk_holds m (mk_pending m c) \<subseteq>\<^sub>m mk_holds m c"
proof -
  note laws = assms [unfolded moka_ok_def]
  show "mk_get m c k = (c', r) \<Longrightarrow> mk_holds m c' \<subseteq>\<^sub>m mk_holds m c"
    using laws by (metis fst_conv)
  show "mk_get m c k = (c', Some e) \<Longrightarrow> mk_holds m c k = Some e"
    using laws by (metis snd_conv empty_iff insert_iff option.distinct(1))
  show "mk_remove m c k = (c', r) \<Longrightarrow> mk_holds m c' \<subseteq>\<^sub>m (mk_holds m c)(k := None)"
    using laws by (metis fst_conv)
qed (use assms in \<open>simp_all add: moka_ok_def\<close>)

section \<open>The store\<close>

record 'c memory_store =
  ms_calls :: "'c moka"
  ms_cache :: 'c
  ms_max_capacity :: nat

definition max_initial_capacity :: nat where
  "max_initial_capacity = 2 ^ 16"

definition entry_weight :: "memory_entry \<Rightarrow> nat" where
  "entry_weight e = min (length (me_value e)) u32_max"

definition memory_new :: "'c moka \<Rightarrow> cache_opts \<Rightarrow> 'c memory_store" where
  "memory_new m opts =
    \<lparr> ms_calls = m,
      ms_cache = mk_build m (co_max_capacity opts) (min (co_max_entries opts) max_initial_capacity)
        entry_weight,
      ms_max_capacity = co_max_capacity opts \<rparr>"

text \<open>\<open>DeadlineExpiry\<close>: how long from now an entry written with a deadline is kept.\<close>

definition expire_after_create :: "memory_entry \<Rightarrow> nat \<Rightarrow> nat option" where
  "expire_after_create e created_at = map_option (\<lambda>at. at - created_at) (me_expires_at e)"

definition expire_after_update :: "memory_entry \<Rightarrow> nat \<Rightarrow> nat option" where
  "expire_after_update e updated_at = map_option (\<lambda>at. at - updated_at) (me_expires_at e)"

text \<open>What is left of a deadline: \<open>None\<close> once it has passed.\<close>

definition memory_remaining :: "nat \<Rightarrow> memory_entry \<Rightarrow> nat option option" where
  "memory_remaining now e =
    (case me_expires_at e of
       None \<Rightarrow> Some None
     | Some at \<Rightarrow> if now < at then Some (Some (at - now)) else None)"

definition memory_get ::
    "readings \<Rightarrow> 'c memory_store \<Rightarrow> string \<Rightarrow> 'c memory_store \<times> (memo_error + entry option)" where
  "memory_get c s key =
    (case mk_get (ms_calls s) (ms_cache s) key of (cache, found) \<Rightarrow>
       (s\<lparr>ms_cache := cache\<rparr>,
        Inr (case found of
          None \<Rightarrow> None
        | Some e \<Rightarrow>
            (case memory_remaining (monotonic (c 0)) e of
               None \<Rightarrow> None
             | Some remaining \<Rightarrow> Some \<lparr> en_value = me_value e, en_remaining = remaining \<rparr>))))"

definition memory_set ::
    "readings \<Rightarrow> 'c memory_store \<Rightarrow> string \<Rightarrow> bytes \<Rightarrow> nat \<Rightarrow> 'c memory_store \<times> (memo_error + unit)" where
  "memory_set c s key v ttl =
    (if ttl = 0 \<or> ms_max_capacity s < length v then (s, Inl Not_Admitted)
     else (s\<lparr>ms_cache := mk_insert (ms_calls s) (ms_cache s) key
              \<lparr> me_value = v, me_expires_at = instant_add (monotonic (c 0)) ttl \<rparr>\<rparr>,
           Inr ()))"

definition memory_remove ::
    "readings \<Rightarrow> 'c memory_store \<Rightarrow> string \<Rightarrow> 'c memory_store \<times> (memo_error + bool)" where
  "memory_remove c s key =
    (case mk_remove (ms_calls s) (ms_cache s) key of (cache, removed) \<Rightarrow>
       (s\<lparr>ms_cache := cache\<rparr>,
        Inr (case removed of
          None \<Rightarrow> False
        | Some e \<Rightarrow> (case me_expires_at e of None \<Rightarrow> True | Some at \<Rightarrow> monotonic (c 0) < at))))"

text \<open>The closure is called on each key the iterator gives, with a state of its own; the keys it
  refuses are invalidated afterwards.\<close>

fun ask_each ::
    "('k \<Rightarrow> string \<Rightarrow> 'k \<times> bool) \<Rightarrow> 'k \<Rightarrow> string list \<Rightarrow> 'k \<times> string list" where
  "ask_each keep st [] = (st, [])"
| "ask_each keep st (key # keys) =
    (case keep st key of (st, verdict) \<Rightarrow>
     case ask_each keep st keys of (st, refused) \<Rightarrow>
       (st, if verdict then refused else key # refused))"

definition memory_retain ::
    "'c memory_store \<Rightarrow> ('k \<Rightarrow> string \<Rightarrow> 'k \<times> bool) \<Rightarrow> 'k \<Rightarrow> 'c memory_store \<times> 'k \<times> (memo_error + nat)" where
  "memory_retain s keep st =
    (let m = ms_calls s in
     case ask_each keep st (map fst (mk_iter m (ms_cache s))) of (st, refused) \<Rightarrow>
       (s\<lparr>ms_cache := mk_pending m (fold (\<lambda>key cache. mk_invalidate m cache key) refused (ms_cache s))\<rparr>,
        st, Inr (length refused)))"

definition memory_cleanup :: "'c memory_store \<Rightarrow> 'c memory_store \<times> (memo_error + unit)" where
  "memory_cleanup s = (s\<lparr>ms_cache := mk_pending (ms_calls s) (ms_cache s)\<rparr>, Inr ())"

text \<open>The trait's default: nothing is deferred.\<close>

definition memory_flush :: "'c memory_store \<Rightarrow> 'c memory_store \<times> (memo_error + unit)" where
  "memory_flush s = (s, Inr ())"

section \<open>The calls of a client\<close>

text \<open>The methods behind a client's call; the three stores share how their results are told.\<close>

fun got :: "memo_error + entry option \<Rightarrow> cache_answer" where
  "got (Inl e) = Failed e"
| "got (Inr found) = Got (map_option en_value found)"

fun told :: "('a \<Rightarrow> cache_answer) \<Rightarrow> memo_error + 'a \<Rightarrow> cache_answer" where
  "told f (Inl e) = Failed e"
| "told f (Inr a) = f a"

definition pure_keep :: "(string \<Rightarrow> bool) \<Rightarrow> unit \<Rightarrow> string \<Rightarrow> unit \<times> bool" where
  "pure_keep p st key = ((), p key)"

fun memory_step :: "readings \<Rightarrow> cache_call \<Rightarrow> 'c memory_store \<Rightarrow> 'c memory_store \<times> cache_answer" where
  "memory_step c (Get key) s = map_prod id got (memory_get c s key)"
| "memory_step c (Set key v ttl) s = map_prod id (told (\<lambda>_. Done)) (memory_set c s key v ttl)"
| "memory_step c (Remove key) s = map_prod id (told Removed) (memory_remove c s key)"
| "memory_step c (Retain p) s =
    (case memory_retain s (pure_keep p) () of (s, st, r) \<Rightarrow> (s, told Refused r))"
| "memory_step c Cleanup s = map_prod id (told (\<lambda>_. Done)) (memory_cleanup s)"
| "memory_step c Flush s = map_prod id (told (\<lambda>_. Done)) (memory_flush s)"

section \<open>The contract\<close>

definition memory_sound :: "'c memory_store \<Rightarrow> bool" where
  "memory_sound s = moka_ok (ms_calls s)"

definition memory_holds :: "'c memory_store \<Rightarrow> string \<Rightarrow> memory_entry option" where
  "memory_holds s = mk_holds (ms_calls s) (ms_cache s)"

definition memory_held :: "'c memory_store \<Rightarrow> served" where
  "memory_held s key = me_value ` set_option (memory_holds s key)"

lemma held_below:
  "memory_holds s \<subseteq>\<^sub>m memory_holds s' \<Longrightarrow> memory_held s \<le> memory_held s'"
  by (fastforce simp: memory_held_def le_fun_def map_le_def dom_def)

lemma held_restricted:
  assumes "memory_holds s' \<subseteq>\<^sub>m memory_holds s |` K"
  shows "memory_held s' k \<subseteq> (if k \<in> K then memory_held s k else {})"
proof (cases "memory_holds s' k")
  case (Some e)
  then have "(memory_holds s |` K) k = Some e"
    using assms by (metis map_le_def domI)
  with Some show ?thesis
    by (auto simp: memory_held_def restrict_map_def split: if_splits)
qed (simp add: memory_held_def)

lemma ask_each_pure: "ask_each (pure_keep p) st keys = ((), filter (\<lambda>k. \<not> p k) keys)"
  by (induction keys arbitrary: st) (auto simp: pure_keep_def)

lemma invalidate_all:
  assumes "moka_ok m"
  shows "mk_holds m (fold (\<lambda>key cache. mk_invalidate m cache key) refused c)
    \<subseteq>\<^sub>m mk_holds m c |` (- set refused)"
proof (induction refused arbitrary: c)
  case (Cons key refused)
  have "mk_holds m (mk_invalidate m c key) |` (- set refused) \<subseteq>\<^sub>m mk_holds m c |` (- set (key # refused))"
    using moka_okD(7) [OF assms, of c key]
    by (auto simp: map_le_def restrict_map_def dom_def fun_upd_def split: if_splits)
  with Cons.IH [of "mk_invalidate m c key"] show ?case
    by (auto intro: map_le_trans)
qed (simp add: restrict_map_def)

text \<open>The keys that stay after \<open>retain\<close> were accepted, and their entries were there before.\<close>

lemma memory_retain_holds:
  assumes "memory_sound s" and "memory_retain s keep st = (s', st', r)"
  shows "memory_sound s'"
    "memory_holds s' \<subseteq>\<^sub>m memory_holds s |`
      (- set (snd (ask_each keep st (map fst (mk_iter (ms_calls s) (ms_cache s))))))"
proof -
  obtain refused where asked:
    "ask_each keep st (map fst (mk_iter (ms_calls s) (ms_cache s))) = (st', refused)"
    and s': "s' = s\<lparr>ms_cache := mk_pending (ms_calls s)
        (fold (\<lambda>key cache. mk_invalidate (ms_calls s) cache key) refused (ms_cache s))\<rparr>"
    using assms(2) by (auto simp: memory_retain_def Let_def split: prod.splits)
  have "moka_ok (ms_calls s)"
    using assms(1) by (simp add: memory_sound_def)
  from map_le_trans [OF moka_okD(8) [OF this] invalidate_all [OF this]]
  show "memory_holds s' \<subseteq>\<^sub>m memory_holds s |`
      (- set (snd (ask_each keep st (map fst (mk_iter (ms_calls s) (ms_cache s))))))"
    by (simp add: asked s' memory_holds_def)
  show "memory_sound s'"
    using assms(1) by (simp add: s' memory_sound_def)
qed

lemma memory_get_spec:
  assumes "memory_sound s" and "memory_get c s key = (s', r)"
  shows "memory_sound s'" "memory_holds s' \<subseteq>\<^sub>m memory_holds s"
    "r = Inr (Some e) \<Longrightarrow> \<exists>m. memory_holds s key = Some m \<and> en_value e = me_value m
       \<and> memory_remaining (monotonic (c 0)) m = Some (en_remaining e)"
    "\<exists>found. r = Inr found"
  using assms moka_okD(2,3) [of "ms_calls s" "ms_cache s" key]
  by (auto simp: memory_get_def memory_sound_def memory_holds_def split: prod.splits option.splits)

lemma memory_set_spec:
  assumes "memory_sound s" and "memory_set c s key v ttl = (s', r)"
  shows "memory_sound s'"
    "r = Inr u \<Longrightarrow> memory_holds s' \<subseteq>\<^sub>m (memory_holds s)
       (key \<mapsto> \<lparr> me_value = v, me_expires_at = instant_add (monotonic (c 0)) ttl \<rparr>)"
    "r = Inl e \<Longrightarrow> s' = s \<and> e = Not_Admitted"
  using assms moka_okD(4) [of "ms_calls s"]
  by (auto simp: memory_set_def memory_sound_def memory_holds_def split: if_splits)

lemma memory_remove_spec:
  assumes "memory_sound s" and "memory_remove c s key = (s', r)"
  shows "memory_sound s'" "memory_holds s' \<subseteq>\<^sub>m (memory_holds s)(key := None)" "\<exists>b. r = Inr b"
  using assms moka_okD(5) [of "ms_calls s" "ms_cache s" key]
  by (auto simp: memory_remove_def memory_sound_def memory_holds_def split: prod.splits)

lemma memory_cleanup_spec:
  assumes "memory_sound s" and "memory_cleanup s = (s', r)"
  shows "memory_sound s'" "memory_holds s' \<subseteq>\<^sub>m memory_holds s" "r = Inr ()"
  using assms moka_okD(8) [of "ms_calls s"]
  by (auto simp: memory_cleanup_def memory_sound_def memory_holds_def)

lemma held_after_set:
  "memory_holds s' \<subseteq>\<^sub>m (memory_holds s)(key \<mapsto> e) \<Longrightarrow>
    memory_held s' \<le> (memory_held s)(key := {me_value e})"
  by (fastforce simp: memory_held_def le_fun_def map_le_def dom_def split: if_splits)

lemma held_after_remove:
  "memory_holds s' \<subseteq>\<^sub>m (memory_holds s)(key := None) \<Longrightarrow>
    memory_held s' \<le> (memory_held s)(key := {})"
  by (fastforce simp: memory_held_def le_fun_def map_le_def dom_def split: if_splits)

lemma memory_step_spec:
  assumes "memory_sound s" and "memory_step c call s = (s', answer)"
  shows "memory_sound s' \<and> serves_call (memory_held s) call answer
    \<and> memory_held s' \<le> exactly (memory_held s) call answer"
proof (cases call)
  case (Get key)
  obtain r where run: "memory_get c s key = (s', r)" "answer = got r"
    using assms(2) Get by (auto simp: map_prod_def split: prod.splits)
  note spec = memory_get_spec [OF assms(1) run(1)]
  show ?thesis
    using spec(1) held_below [OF spec(2)] spec(3,4) run(2) Get
    by (cases r; cases "projr r") (auto simp: memory_held_def)
next
  case (Set key v ttl)
  obtain r where run: "memory_set c s key v ttl = (s', r)" "answer = told (\<lambda>_. Done) r"
    using assms(2) Set by (auto simp: map_prod_def split: prod.splits)
  note spec = memory_set_spec [OF assms(1) run(1)]
  show ?thesis
    using spec(1) held_after_set [OF spec(2)] spec(3) run(2) Set
    by (cases r) (auto simp: le_fun_def)
next
  case (Remove key)
  obtain r where run: "memory_remove c s key = (s', r)" "answer = told Removed r"
    using assms(2) Remove by (auto simp: map_prod_def split: prod.splits)
  note spec = memory_remove_spec [OF assms(1) run(1)]
  show ?thesis
    using spec(1,3) held_after_remove [OF spec(2)] run(2) Remove by auto
next
  case (Retain p)
  obtain st r where run: "memory_retain s (pure_keep p) () = (s', st, r)" "answer = told Refused r"
    using assms(2) Retain by (auto split: prod.splits)
  have m: "moka_ok (ms_calls s)"
    using assms(1) by (simp add: memory_sound_def)
  have kept: "memory_held s' k \<subseteq> (if p k then memory_held s k else {})" for k
  proof (cases "memory_holds s k")
    case None
    with held_restricted [OF memory_retain_holds(2) [OF assms(1) run(1)], of k] show ?thesis
      by (simp add: memory_held_def split: if_splits)
  next
    case (Some e)
    then have "(k, e) \<in> set (mk_iter (ms_calls s) (ms_cache s))"
      by (simp add: moka_okD(6) [OF m] memory_holds_def)
    then have "k \<in> fst ` set (mk_iter (ms_calls s) (ms_cache s))"
      by force
    with held_restricted [OF memory_retain_holds(2) [OF assms(1) run(1)], of k] show ?thesis
      by (simp add: ask_each_pure split: if_splits)
  qed
  then have "memory_held s' \<le> (\<lambda>k. if p k then memory_held s k else {})"
    by (simp add: le_fun_def)
  moreover have "\<exists>n. r = Inr n"
    using run(1) by (auto simp: memory_retain_def Let_def split: prod.splits)
  ultimately show ?thesis
    using memory_retain_holds(1) [OF assms(1) run(1)] run(2) Retain by auto
next
  case Cleanup
  with assms memory_cleanup_spec [OF assms(1)] held_below show ?thesis
    by (force simp: map_prod_def split: prod.splits)
next
  case Flush
  with assms show ?thesis
    by (simp add: memory_flush_def)
qed

interpretation memory: store memory_step memory_sound memory_held exactly
  using memory_step_spec exactly_mono by unfold_locales blast+

end
