(* ===== verification/Disk_Store.thy ===== *)
theory Disk_Store
  imports Memory_Store
begin

text \<open>
  \<open>memo/disk_store.rs\<close>: the tier on disk. The \<open>redb\<close> database is a parameter: a record of its
  operations, any of which may fail; a commit that fails may or may not have taken place. The
  registry of open stores is in \<open>Disk_Registry\<close>.
\<close>

section \<open>The database it is built on\<close>

datatype table_error = Table_Does_Not_Exist | Table_Error storage_error

text \<open>\<open>rb_map\<close> and \<open>rb_tmap\<close> are what the database and a transaction hold; no operation of the
  store reads them. \<open>rb_visit\<close> is the order in which \<open>retain\<close> visits the records, and the error
  it stops with, if any.\<close>

record ('d, 't) redb =
  rb_begin_read :: "'d \<Rightarrow> storage_error + 't"
  rb_begin_write :: "'d \<Rightarrow> storage_error + 't"
  rb_open_table :: "'t \<Rightarrow> table_error + 't"
  rb_get :: "'t \<Rightarrow> string \<Rightarrow> storage_error + bytes option"
  rb_insert :: "'t \<Rightarrow> string \<Rightarrow> bytes \<Rightarrow> storage_error + 't"
  rb_remove :: "'t \<Rightarrow> string \<Rightarrow> storage_error + 't \<times> bytes option"
  rb_visit :: "'t \<Rightarrow> (string \<times> bytes) list \<times> storage_error option"
  rb_retain :: "'t \<Rightarrow> (string \<Rightarrow> bool) \<Rightarrow> 't"
  rb_no_durability :: "'t \<Rightarrow> storage_error + 't"
  rb_commit :: "'d \<Rightarrow> 't \<Rightarrow> 'd \<times> (storage_error + unit)"
  rb_abort :: "'t \<Rightarrow> storage_error + unit"
  rb_compact :: "'d \<Rightarrow> 'd \<times> (storage_error + unit)"
  rb_map :: "'d \<Rightarrow> string \<Rightarrow> bytes option"
  rb_tmap :: "'t \<Rightarrow> string \<Rightarrow> bytes option"

definition redb_ok :: "('d, 't) redb \<Rightarrow> bool" where
  "redb_ok rb =
    ((\<forall>d t. rb_begin_read rb d = Inr t \<longrightarrow> rb_tmap rb t = rb_map rb d)
     \<and> (\<forall>d t. rb_begin_write rb d = Inr t \<longrightarrow> rb_tmap rb t = rb_map rb d)
     \<and> (\<forall>t t'. rb_open_table rb t = Inr t' \<longrightarrow> rb_tmap rb t' = rb_tmap rb t)
     \<and> (\<forall>t. rb_open_table rb t = Inl Table_Does_Not_Exist \<longrightarrow> rb_tmap rb t = Map.empty)
     \<and> (\<forall>t k r. rb_get rb t k = Inr r \<longrightarrow> r = rb_tmap rb t k)
     \<and> (\<forall>t k b t'. rb_insert rb t k b = Inr t' \<longrightarrow> rb_tmap rb t' = (rb_tmap rb t)(k \<mapsto> b))
     \<and> (\<forall>t k t' r. rb_remove rb t k = Inr (t', r) \<longrightarrow>
          rb_tmap rb t' = (rb_tmap rb t)(k := None) \<and> r = rb_tmap rb t k)
     \<and> (\<forall>t records. rb_visit rb t = (records, None) \<longrightarrow>
          distinct (map fst records) \<and> map_of records = rb_tmap rb t)
     \<and> (\<forall>t p. rb_tmap rb (rb_retain rb t p) = rb_tmap rb t |` Collect p)
     \<and> (\<forall>t t'. rb_no_durability rb t = Inr t' \<longrightarrow> rb_tmap rb t' = rb_tmap rb t)
     \<and> (\<forall>d t d' u. rb_commit rb d t = (d', Inr u) \<longrightarrow> rb_map rb d' = rb_tmap rb t)
     \<and> (\<forall>d t d' e. rb_commit rb d t = (d', Inl e) \<longrightarrow> rb_map rb d' \<in> {rb_map rb d, rb_tmap rb t})
     \<and> (\<forall>d. rb_map rb (fst (rb_compact rb d)) = rb_map rb d))"

lemma redb_okD:
  assumes "redb_ok rb"
  shows "rb_begin_read rb d = Inr t \<Longrightarrow> rb_tmap rb t = rb_map rb d"
    "rb_begin_write rb d = Inr t \<Longrightarrow> rb_tmap rb t = rb_map rb d"
    "rb_open_table rb t = Inr t' \<Longrightarrow> rb_tmap rb t' = rb_tmap rb t"
    "rb_open_table rb t = Inl Table_Does_Not_Exist \<Longrightarrow> rb_tmap rb t = Map.empty"
    "rb_get rb t k = Inr r \<Longrightarrow> r = rb_tmap rb t k"
    "rb_insert rb t k b = Inr t' \<Longrightarrow> rb_tmap rb t' = (rb_tmap rb t)(k \<mapsto> b)"
    "rb_remove rb t k = Inr (t', r) \<Longrightarrow> rb_tmap rb t' = (rb_tmap rb t)(k := None)"
    "rb_remove rb t k = Inr (t', r) \<Longrightarrow> r = rb_tmap rb t k"
    "rb_visit rb t = (records, None) \<Longrightarrow> distinct (map fst records)"
    "rb_visit rb t = (records, None) \<Longrightarrow> map_of records = rb_tmap rb t"
    "rb_tmap rb (rb_retain rb t p) = rb_tmap rb t |` Collect p"
    "rb_no_durability rb t = Inr t' \<Longrightarrow> rb_tmap rb t' = rb_tmap rb t"
    "rb_commit rb d t = (d', Inr u) \<Longrightarrow> rb_map rb d' = rb_tmap rb t"
    "rb_commit rb d t = (d', Inl e) \<Longrightarrow> rb_map rb d' \<in> {rb_map rb d, rb_tmap rb t}"
    "rb_map rb (fst (rb_compact rb d)) = rb_map rb d"
proof -
  note laws = assms [unfolded redb_ok_def]
  show "rb_begin_read rb d = Inr t \<Longrightarrow> rb_tmap rb t = rb_map rb d"
    using laws by metis
  show "rb_begin_write rb d = Inr t \<Longrightarrow> rb_tmap rb t = rb_map rb d"
    using laws by metis
  show "rb_open_table rb t = Inr t' \<Longrightarrow> rb_tmap rb t' = rb_tmap rb t"
    using laws by metis
  show "rb_open_table rb t = Inl Table_Does_Not_Exist \<Longrightarrow> rb_tmap rb t = Map.empty"
    using laws by metis
  show "rb_get rb t k = Inr r \<Longrightarrow> r = rb_tmap rb t k"
    using laws by metis
  show "rb_insert rb t k b = Inr t' \<Longrightarrow> rb_tmap rb t' = (rb_tmap rb t)(k \<mapsto> b)"
    using laws by metis
  show "rb_remove rb t k = Inr (t', r) \<Longrightarrow> rb_tmap rb t' = (rb_tmap rb t)(k := None)"
    using laws by metis
  show "rb_remove rb t k = Inr (t', r) \<Longrightarrow> r = rb_tmap rb t k"
    using laws by metis
  show "rb_visit rb t = (records, None) \<Longrightarrow> distinct (map fst records)"
    using laws by metis
  show "rb_visit rb t = (records, None) \<Longrightarrow> map_of records = rb_tmap rb t"
    using laws by metis
  show "rb_tmap rb (rb_retain rb t p) = rb_tmap rb t |` Collect p"
    using laws by metis
  show "rb_no_durability rb t = Inr t' \<Longrightarrow> rb_tmap rb t' = rb_tmap rb t"
    using laws by metis
  show "rb_commit rb d t = (d', Inr u) \<Longrightarrow> rb_map rb d' = rb_tmap rb t"
    using laws by metis
  show "rb_commit rb d t = (d', Inl e) \<Longrightarrow> rb_map rb d' \<in> {rb_map rb d, rb_tmap rb t}"
    using laws by metis
  show "rb_map rb (fst (rb_compact rb d)) = rb_map rb d"
    using laws by metis
qed

section \<open>Records\<close>

definition deadline_len :: nat where
  "deadline_len = 8"

text \<open>The deadline of a record, in milliseconds since the epoch; zero is none.\<close>

definition disk_deadline :: "int \<Rightarrow> nat \<Rightarrow> nat" where
  "disk_deadline now ttl =
    (case system_add now ttl of
       None \<Rightarrow> 0
     | Some at \<Rightarrow> if at < 0 then 0 else min (nat at div millisecond) u64_max)"

definition disk_record :: "nat \<Rightarrow> bytes \<Rightarrow> bytes" where
  "disk_record millis v = to_be deadline_len millis @ v"

definition split_record :: "bytes \<Rightarrow> (nat option \<times> bytes) option" where
  "split_record record =
    (if length record < deadline_len then None
     else let millis = from_be (take deadline_len record) in
       Some (if millis \<noteq> 0 then Some (millis * millisecond) else None, drop deadline_len record))"

definition disk_remaining :: "int \<Rightarrow> nat option \<Rightarrow> nat option option" where
  "disk_remaining now expires_at =
    (case expires_at of
       None \<Rightarrow> Some None
     | Some at \<Rightarrow> if now < int at then Some (Some (nat (int at - now))) else None)"

definition is_live :: "int \<Rightarrow> bytes \<Rightarrow> bool" where
  "is_live now record =
    (case split_record record of
       None \<Rightarrow> False
     | Some (expires_at, v) \<Rightarrow> disk_remaining now expires_at \<noteq> None)"

lemma split_disk_record:
  "millis \<le> u64_max \<Longrightarrow> split_record (disk_record millis v)
    = Some (if millis \<noteq> 0 then Some (millis * millisecond) else None, v)"
  by (simp add: split_record_def disk_record_def deadline_len_def from_be_to_be u64_max_def)

lemma disk_deadline_le: "disk_deadline now ttl \<le> u64_max"
  by (auto simp: disk_deadline_def split: option.splits)

section \<open>The cadence of durable writes\<close>

record cadence =
  cd_every :: nat
  cd_interval :: nat
  cd_pending :: nat
  cd_last_durable :: nat

definition new_cadence :: "cache_opts \<Rightarrow> nat \<Rightarrow> cadence" where
  "new_cadence opts now =
    \<lparr> cd_every = co_flush_every opts, cd_interval = co_flush_interval opts, cd_pending = 0,
      cd_last_durable = now \<rparr>"

definition next_is_durable :: "cadence \<Rightarrow> nat \<Rightarrow> bool" where
  "next_is_durable cd now =
    (cd_every cd \<le> min (cd_pending cd + 1) u32_max
     \<or> (cd_interval cd \<noteq> 0 \<and> cd_interval cd \<le> now - cd_last_durable cd))"

definition committed :: "cadence \<Rightarrow> bool \<Rightarrow> nat \<Rightarrow> cadence" where
  "committed cd durable now =
    (if durable then cd\<lparr>cd_pending := 0, cd_last_durable := now\<rparr>
     else cd\<lparr>cd_pending := min (cd_pending cd + 1) u32_max\<rparr>)"

section \<open>The store\<close>

record ('d, 't) disk_store =
  ds_calls :: "('d, 't) redb"
  ds_db :: 'd
  ds_file :: string
  ds_generation :: nat
  ds_sweeping :: bool
  ds_cadence :: cadence

definition open_write :: "('d, 't) disk_store \<Rightarrow> storage_error + 't option" where
  "open_write s =
    (case rb_begin_write (ds_calls s) (ds_db s) of
       Inl e \<Rightarrow> Inl e
     | Inr txn \<Rightarrow>
         (case rb_open_table (ds_calls s) txn of
            Inr txn \<Rightarrow> Inr (Some txn)
          | Inl Table_Does_Not_Exist \<Rightarrow> Inr None
          | Inl (Table_Error e) \<Rightarrow> Inl e))"

definition disk_get ::
    "readings \<Rightarrow> ('d, 't) disk_store \<Rightarrow> string \<Rightarrow> ('d, 't) disk_store \<times> (memo_error + entry option)" where
  "disk_get c s key =
    (s, case rb_begin_read (ds_calls s) (ds_db s) of
          Inl e \<Rightarrow> Inl (Storage e)
        | Inr txn \<Rightarrow>
          (case rb_open_table (ds_calls s) txn of
             Inl Table_Does_Not_Exist \<Rightarrow> Inr None
           | Inl (Table_Error e) \<Rightarrow> Inl (Storage e)
           | Inr txn \<Rightarrow>
             (case rb_get (ds_calls s) txn key of
                Inl e \<Rightarrow> Inl (Storage e)
              | Inr None \<Rightarrow> Inr None
              | Inr (Some record) \<Rightarrow>
                (case split_record record of
                   None \<Rightarrow> Inr None
                 | Some (expires_at, v) \<Rightarrow>
                   (case disk_remaining (wall (c 0)) expires_at of
                      None \<Rightarrow> Inr None
                    | Some remaining \<Rightarrow> Inr (Some \<lparr> en_value = v, en_remaining = remaining \<rparr>))))))"

text \<open>A commit, and what the cadence records of it.\<close>

definition commit_as ::
    "bool \<Rightarrow> nat \<Rightarrow> 't \<Rightarrow> ('d, 't) disk_store \<Rightarrow> ('d, 't) disk_store \<times> (memo_error + unit)" where
  "commit_as durable now txn s =
    (case rb_commit (ds_calls s) (ds_db s) txn of
       (db, Inl e) \<Rightarrow> (s\<lparr>ds_db := db\<rparr>, Inl (Storage e))
     | (db, Inr _) \<Rightarrow> (s\<lparr>ds_db := db, ds_cadence := committed (ds_cadence s) durable now\<rparr>, Inr ()))"

definition disk_set ::
    "readings \<Rightarrow> ('d, 't) disk_store \<Rightarrow> string \<Rightarrow> bytes \<Rightarrow> nat \<Rightarrow> ('d, 't) disk_store \<times> (memo_error + unit)" where
  "disk_set c s key v ttl =
    (if ttl = 0 then (s, Inl Not_Admitted)
     else
       let record = disk_record (disk_deadline (wall (c 0)) ttl) v in
       case open_write s of
         Inl e \<Rightarrow> (s, Inl (Storage e))
       | Inr None \<Rightarrow> (s, Inl (Storage ''TableDoesNotExist''))
       | Inr (Some txn) \<Rightarrow>
         (case rb_insert (ds_calls s) txn key record of
            Inl e \<Rightarrow> (s, Inl (Storage e))
          | Inr txn \<Rightarrow>
            let durable = next_is_durable (ds_cadence s) (monotonic (c 1)) in
            case (if durable then Inr txn else rb_no_durability (ds_calls s) txn) of
              Inl e \<Rightarrow> (s, Inl (Storage e))
            | Inr txn \<Rightarrow> commit_as durable (monotonic (c 2)) txn s))"

definition disk_remove ::
    "readings \<Rightarrow> ('d, 't) disk_store \<Rightarrow> string \<Rightarrow> ('d, 't) disk_store \<times> (memo_error + bool)" where
  "disk_remove c s key =
    (case open_write s of
       Inl e \<Rightarrow> (s, Inl (Storage e))
     | Inr None \<Rightarrow> (s, Inr False)
     | Inr (Some txn) \<Rightarrow>
       (case rb_remove (ds_calls s) txn key of
          Inl e \<Rightarrow> (s, Inl (Storage e))
        | Inr (txn, record) \<Rightarrow>
          let removed = (case record of None \<Rightarrow> False | Some r \<Rightarrow> is_live (wall (c 0)) r) in
          sbind (commit_as True (monotonic (c 1)) txn s) (\<lambda>s _. (s, Inr removed))))"

text \<open>One pass over the records: the closure is asked about the live ones, and reading \<open>i\<close> of the
  clock is for the \<open>i\<close>-th. Gives its state, the keys it refused, and all that are dropped.\<close>

fun visit_records ::
    "readings \<Rightarrow> ('k \<Rightarrow> string \<Rightarrow> 'k \<times> bool) \<Rightarrow> 'k \<Rightarrow> (string \<times> bytes) list
      \<Rightarrow> 'k \<times> string list \<times> string list" where
  "visit_records c keep st [] = (st, [], [])"
| "visit_records c keep st ((key, record) # records) =
    (if is_live (wall (c 0)) record
     then case keep st key of (st, verdict) \<Rightarrow>
          case visit_records (later 1 c) keep st records of (st, refused, dropped) \<Rightarrow>
            if verdict then (st, refused, dropped) else (st, key # refused, key # dropped)
     else case visit_records (later 1 c) keep st records of (st, refused, dropped) \<Rightarrow>
            (st, refused, key # dropped))"

definition disk_retain ::
    "readings \<Rightarrow> ('d, 't) disk_store \<Rightarrow> ('k \<Rightarrow> string \<Rightarrow> 'k \<times> bool) \<Rightarrow> 'k
      \<Rightarrow> ('d, 't) disk_store \<times> 'k \<times> (memo_error + nat)" where
  "disk_retain c s keep st =
    (case open_write s of
       Inl e \<Rightarrow> (s, st, Inl (Storage e))
     | Inr None \<Rightarrow> (s, st, Inr 0)
     | Inr (Some txn) \<Rightarrow>
       (case rb_visit (ds_calls s) txn of (records, failure) \<Rightarrow>
        case visit_records c keep st records of (st, refused, dropped) \<Rightarrow>
          (case failure of
             Some e \<Rightarrow> (s, st, Inl (Storage e))
           | None \<Rightarrow>
             if dropped = []
             then (case rb_abort (ds_calls s) txn of
                Inl e \<Rightarrow> (s, st, Inl (Storage e)) | Inr _ \<Rightarrow> (s, st, Inr 0))
             else (case commit_as True (monotonic (c (length records)))
                 (rb_retain (ds_calls s) txn (\<lambda>key. key \<notin> set dropped)) s of
                (s, Inl e) \<Rightarrow> (s, st, Inl e) | (s, Inr _) \<Rightarrow> (s, st, Inr (length refused))))))"

definition flush_into :: "readings \<Rightarrow> ('d, 't) disk_store \<Rightarrow> ('d, 't) disk_store \<times> (memo_error + unit)" where
  "flush_into c s =
    (if cd_pending (ds_cadence s) = 0 then (s, Inr ())
     else case rb_begin_write (ds_calls s) (ds_db s) of
       Inl e \<Rightarrow> (s, Inl (Storage e))
     | Inr txn \<Rightarrow> commit_as True (monotonic (c 0)) txn s)"

definition disk_flush :: "readings \<Rightarrow> ('d, 't) disk_store \<Rightarrow> ('d, 't) disk_store \<times> (memo_error + unit)" where
  "disk_flush c s = flush_into c s"

text \<open>The sweep drops what is expired or corrupt, and compacts only if there was any. Its commit
  is not recorded by the cadence.\<close>

definition sweep :: "readings \<Rightarrow> ('d, 't) disk_store \<Rightarrow> ('d, 't) disk_store \<times> (memo_error + unit)" where
  "sweep c s =
    (case open_write s of
       Inl e \<Rightarrow> (s, Inl (Storage e))
     | Inr None \<Rightarrow> (s, Inr ())
     | Inr (Some txn) \<Rightarrow>
       (case rb_visit (ds_calls s) txn of (records, failure) \<Rightarrow>
        case visit_records c (\<lambda>st key. (st, True)) () records of (st, refused, dropped) \<Rightarrow>
          (case failure of
             Some e \<Rightarrow> (s, Inl (Storage e))
           | None \<Rightarrow>
             (case rb_commit (ds_calls s) (ds_db s)
                 (rb_retain (ds_calls s) txn (\<lambda>key. key \<notin> set dropped)) of
                (db, Inl e) \<Rightarrow> (s\<lparr>ds_db := db\<rparr>, Inl (Storage e))
              | (db, Inr _) \<Rightarrow>
                if dropped = [] then (s\<lparr>ds_db := db\<rparr>, Inr ())
                else (case rb_compact (ds_calls s) db of
                    (db, r) \<Rightarrow> (s\<lparr>ds_db := db\<rparr>, map_err Storage r))))))"

definition disk_cleanup :: "readings \<Rightarrow> ('d, 't) disk_store \<Rightarrow> ('d, 't) disk_store \<times> (memo_error + unit)" where
  "disk_cleanup c s =
    (if ds_sweeping s then (s, Inr ())
     else case sweep c (s\<lparr>ds_sweeping := True\<rparr>) of (s, r) \<Rightarrow> (s\<lparr>ds_sweeping := False\<rparr>, r))"

fun disk_step :: "readings \<Rightarrow> cache_call \<Rightarrow> ('d, 't) disk_store \<Rightarrow> ('d, 't) disk_store \<times> cache_answer" where
  "disk_step c (Get key) s = map_prod id got (disk_get c s key)"
| "disk_step c (Set key v ttl) s = map_prod id (told (\<lambda>_. Done)) (disk_set c s key v ttl)"
| "disk_step c (Remove key) s = map_prod id (told Removed) (disk_remove c s key)"
| "disk_step c (Retain p) s =
    (case disk_retain c s (pure_keep p) () of (s, st, r) \<Rightarrow> (s, told Refused r))"
| "disk_step c Cleanup s = map_prod id (told (\<lambda>_. Done)) (disk_cleanup c s)"
| "disk_step c Flush s = map_prod id (told (\<lambda>_. Done)) (disk_flush c s)"

end
