(* ===== verification/Disk_Props.thy ===== *)
theory Disk_Props
  imports Disk_Store
begin

text \<open>
  What the tier on disk guarantees: it keeps the contract of a store exactly, it gives back what
  was written until its deadline and never after, and it defers fewer writes than it was allowed.
\<close>

section \<open>What each operation leaves\<close>

definition disk_sound :: "('d, 't) disk_store \<Rightarrow> bool" where
  "disk_sound s = redb_ok (ds_calls s)"

definition disk_map :: "('d, 't) disk_store \<Rightarrow> string \<Rightarrow> bytes option" where
  "disk_map s = rb_map (ds_calls s) (ds_db s)"

text \<open>Same database, whatever else changed.\<close>

definition same_file :: "('d, 't) disk_store \<Rightarrow> ('d, 't) disk_store \<Rightarrow> bool" where
  "same_file s s' = (ds_calls s' = ds_calls s \<and> ds_file s' = ds_file s
     \<and> ds_generation s' = ds_generation s)"

lemma same_file_sound: "same_file s s' \<Longrightarrow> disk_sound s \<Longrightarrow> disk_sound s'"
  by (simp add: same_file_def disk_sound_def)

lemma open_write_spec:
  assumes "disk_sound s"
  shows "open_write s = Inr (Some txn) \<Longrightarrow> rb_tmap (ds_calls s) txn = disk_map s"
    "open_write s = Inr None \<Longrightarrow> disk_map s = Map.empty"
  using assms redb_okD(2,3,4) [of "ds_calls s"]
  by (fastforce simp: open_write_def disk_sound_def disk_map_def split: sum.splits table_error.splits)+

lemma commit_as_spec:
  assumes "disk_sound s" and "commit_as durable now txn s = (s', r)"
  shows "same_file s s'" "disk_sound s'"
    "r = Inr u \<Longrightarrow> disk_map s' = rb_tmap (ds_calls s) txn"
    "r = Inr u \<Longrightarrow> ds_cadence s' = committed (ds_cadence s) durable now"
    "r = Inl e \<Longrightarrow> disk_map s' = disk_map s \<or> disk_map s' = rb_tmap (ds_calls s) txn"
    "r = Inl e \<Longrightarrow> ds_cadence s' = ds_cadence s"
proof -
  have rb: "redb_ok (ds_calls s)"
    using assms(1) by (simp add: disk_sound_def)
  show "same_file s s'"
    using assms(2) by (auto simp: commit_as_def same_file_def split: prod.splits sum.splits)
  with assms(1) show "disk_sound s'"
    by (rule same_file_sound [rotated])
  show "r = Inr u \<Longrightarrow> disk_map s' = rb_tmap (ds_calls s) txn"
    "r = Inr u \<Longrightarrow> ds_cadence s' = committed (ds_cadence s) durable now"
    using assms(2) redb_okD(13) [OF rb]
    by (fastforce simp: commit_as_def disk_map_def split: prod.splits sum.splits)+
  show "r = Inl e \<Longrightarrow> disk_map s' = disk_map s \<or> disk_map s' = rb_tmap (ds_calls s) txn"
    "r = Inl e \<Longrightarrow> ds_cadence s' = ds_cadence s"
    using assms(2) redb_okD(14) [OF rb]
    by (fastforce simp: commit_as_def disk_map_def split: prod.splits sum.splits)+
qed

text \<open>A write, a removal and a pass each leave the old map or the new one, the new one when they
  succeed.\<close>

definition writes_map ::
    "(string \<Rightarrow> bytes option) \<Rightarrow> ('d, 't) disk_store \<Rightarrow> ('d, 't) disk_store \<Rightarrow> bool \<Rightarrow> bool" where
  "writes_map new s s' ok = (same_file s s' \<and> disk_sound s'
     \<and> (disk_map s' = new \<or> (\<not> ok \<and> disk_map s' = disk_map s)))"

lemma writes_map_refl: "disk_sound s \<Longrightarrow> writes_map new s s False"
  by (simp add: writes_map_def same_file_def)

lemma commit_writes:
  assumes "disk_sound s" and "commit_as durable now txn s = (s', r)"
    and "rb_tmap (ds_calls s) txn = new"
  shows "writes_map new s s' (is_ok r)"
  using commit_as_spec [OF assms(1,2)] assms(3) by (cases r) (auto simp: writes_map_def)

lemma disk_set_writes:
  assumes "disk_sound s" and "disk_set c s key v ttl = (s', r)"
  shows "writes_map ((disk_map s)(key \<mapsto> disk_record (disk_deadline (wall (c 0)) ttl) v)) s s' (is_ok r)"
    (is "writes_map ?new s s' _")
proof (cases "ttl = 0")
  case True
  with assms show ?thesis
    by (auto simp: disk_set_def writes_map_refl)
next
  case False
  note rb = assms(1) [unfolded disk_sound_def]
  note run = assms(2) [unfolded disk_set_def Let_def, simplified False, simplified]
  show ?thesis
  proof (cases "\<exists>txn. open_write s = Inr (Some txn)")
    case False
    with run assms(1) show ?thesis
      by (auto split: sum.splits option.splits simp: writes_map_refl)
  next
    case True
    then obtain txn where txn: "open_write s = Inr (Some txn)"
      by blast
    let ?stored = "disk_record (disk_deadline (wall (c 0)) ttl) v"
    let ?durable = "next_is_durable (ds_cadence s) (monotonic (c 1))"
    show ?thesis
    proof (cases "rb_insert (ds_calls s) txn key ?stored")
      case (Inl e)
      with run txn assms(1) show ?thesis
        by (auto simp: writes_map_refl)
    next
      case (Inr txn1)
      with txn open_write_spec(1) [OF assms(1)] redb_okD(6) [OF rb]
      have new: "rb_tmap (ds_calls s) txn1 = ?new"
        by simp
      show ?thesis
      proof (cases "if ?durable then Inr txn1 else rb_no_durability (ds_calls s) txn1")
        case (Inl e)
        with Inr run txn assms(1) show ?thesis
          by (auto simp: writes_map_refl)
      next
        case (Inr txn2)
        have "rb_tmap (ds_calls s) txn2 = ?new"
          using Inr new redb_okD(12) [OF rb] by (auto split: if_splits)
        moreover have "commit_as ?durable (monotonic (c 2)) txn2 s = (s', r)"
          using \<open>rb_insert (ds_calls s) txn key ?stored = Inr txn1\<close> Inr run txn by simp
        ultimately show ?thesis
          using commit_writes [OF assms(1)] by blast
      qed
    qed
  qed
qed

lemma disk_remove_writes:
  assumes "disk_sound s" and "disk_remove c s key = (s', r)"
  shows "writes_map ((disk_map s)(key := None)) s s' (is_ok r)"
proof -
  note rb = assms(1) [unfolded disk_sound_def]
  consider (refused) e where "open_write s = Inl e" | (missing) "open_write s = Inr None"
    | (opened) txn where "open_write s = Inr (Some txn)"
    by (metis obj_sumE option.exhaust)
  then show ?thesis
  proof cases
    case refused
    with assms show ?thesis
      by (auto simp: disk_remove_def writes_map_refl)
  next
    case missing
    with assms open_write_spec(2) [OF assms(1)] show ?thesis
      by (auto simp: disk_remove_def writes_map_def same_file_def fun_upd_idem)
  next
    case (opened txn)
    show ?thesis
    proof (cases "rb_remove (ds_calls s) txn key")
      case (Inl e)
      with opened assms show ?thesis
        by (auto simp: disk_remove_def writes_map_refl)
    next
      case (Inr x)
      obtain txn1 stored where x: "x = (txn1, stored)"
        by fastforce
      have "rb_tmap (ds_calls s) txn1 = (disk_map s)(key := None)"
        using opened Inr x open_write_spec(1) [OF assms(1)] redb_okD(7) [OF rb] by simp
      moreover obtain r1 where "commit_as True (monotonic (c 1)) txn1 s = (s', r1)"
        "is_ok r = is_ok r1"
        using assms(2) opened Inr x
        by (auto simp: disk_remove_def sbind_def Let_def split: prod.splits sum.splits)
      ultimately show ?thesis
        using commit_writes [OF assms(1)] by metis
    qed
  qed
qed

section \<open>Passes over the records\<close>

lemma asked_records_keep:
  assumes "\<And>st key. P st \<Longrightarrow> P (fst (keep st key))" and "P st"
  shows "P (fst (visit_records c keep st records))"
  using assms(2)
proof (induction records arbitrary: c st)
  case (Cons x records)
  then show ?case
    using assms(1) [of st "fst x"] by (cases x) (simp add: case_prod_beta)
qed simp

lemma visit_refused: "set (fst (snd (visit_records c keep st records)))
    \<subseteq> set (snd (snd (visit_records c keep st records)))"
proof (induction records arbitrary: c st)
  case (Cons x records)
  show ?case
    using Cons.IH [of "later 1 c" st] Cons.IH [of "later 1 c" "fst (keep st (fst x))"]
    by (cases x) (auto split: prod.split)
qed simp

text \<open>A record that is not dropped was live, and the closure accepted its key.\<close>

lemma visit_kept:
  assumes "\<And>st key. snd (keep st key) \<Longrightarrow> p key"
  shows "(key, stored) \<in> set records \<Longrightarrow> key \<notin> set (snd (snd (visit_records c keep st records)))
    \<Longrightarrow> p key \<and> (\<exists>i < length records. is_live (wall (c i)) stored)"
proof (induction records arbitrary: c st)
  case (Cons x records)
  obtain key' stored' where x: "x = (key', stored')"
    by fastforce
  obtain st1 verdict where asked: "keep st key' = (st1, verdict)"
    by fastforce
  let ?st = "if is_live (wall (c 0)) stored' then st1 else st"
  obtain st2 refused dropped where rest: "visit_records (later 1 c) keep ?st records = (st2, refused, dropped)"
    using prod_cases3 by blast
  show ?case
  proof (cases "(key, stored) \<in> set records \<and> key \<notin> set dropped")
    case True
    with Cons.IH [of "later 1 c" ?st] rest
    obtain i where "p key" "i < length records" "is_live (wall (later 1 c i)) stored"
      by auto
    then show ?thesis
      by (auto simp: later_def intro!: exI [of _ "Suc i"])
  next
    case False
    with Cons.prems x asked rest have "(key, stored) = (key', stored')" "verdict"
      "is_live (wall (c 0)) stored'"
      by (auto split: if_splits)
    with assms [of st key'] asked show ?thesis
      by auto
  qed
qed simp

text \<open>What a pass leaves: the records it did not drop.\<close>

lemma disk_retain_writes:
  assumes "disk_sound s" and "disk_retain c s keep st = (s', st', r)"
  shows "\<exists>dropped. writes_map (disk_map s |` (- set dropped)) s s' (is_ok r)
    \<and> (is_ok r \<longrightarrow> (\<forall>p. (\<forall>st key. snd (keep st key) \<longrightarrow> p key) \<longrightarrow>
         (\<forall>key stored. disk_map s key = Some stored \<longrightarrow> key \<notin> set dropped \<longrightarrow> p key)))"
proof -
  note rb = assms(1) [unfolded disk_sound_def]
  consider (refused) e where "open_write s = Inl e" | (missing) "open_write s = Inr None"
    | (opened) txn where "open_write s = Inr (Some txn)"
    by (metis obj_sumE option.exhaust)
  then show ?thesis
  proof cases
    case refused
    with assms show ?thesis
      by (auto simp: disk_retain_def intro!: exI [of _ "[]"] writes_map_refl)
  next
    case missing
    with assms open_write_spec(2) [OF assms(1)] show ?thesis
      by (auto simp: disk_retain_def writes_map_def same_file_def intro!: exI [of _ "[]"])
  next
    case (opened txn)
    have old: "rb_tmap (ds_calls s) txn = disk_map s"
      using open_write_spec(1) [OF assms(1) opened] .
    obtain records failure where visit: "rb_visit (ds_calls s) txn = (records, failure)"
      by fastforce
    obtain st1 refused dropped where pass: "visit_records c keep st records = (st1, refused, dropped)"
      using prod_cases3 by blast
    have kept: "p key" if "\<forall>st key. snd (keep st key) \<longrightarrow> p key" "disk_map s key = Some stored"
      "key \<notin> set dropped" "failure = None" for p key stored
    proof -
      have "map_of records key = Some stored"
        using visit that(2,4) old redb_okD(10) [OF rb] by simp
      then have "(key, stored) \<in> set records"
        by (rule map_of_SomeD)
      with visit_kept [of keep p key stored records c st] that(1,3) pass show ?thesis
        by simp
    qed
    show ?thesis
    proof (cases failure)
      case (Some e)
      with assms opened visit pass show ?thesis
        by (auto simp: disk_retain_def intro!: exI [of _ "[]"] writes_map_refl)
    next
      case None
      show ?thesis
      proof (cases "dropped = []")
        case True
        with assms opened visit pass None kept show ?thesis
          by (auto simp: disk_retain_def writes_map_def same_file_def split: sum.splits
              intro!: exI [of _ "[]"])
      next
        case False
        let ?txn = "rb_retain (ds_calls s) txn (\<lambda>key. key \<notin> set dropped)"
        obtain r1 where commit: "commit_as True (monotonic (c (length records))) ?txn s = (s', r1)"
          and ok: "is_ok r = is_ok r1"
          using assms(2) opened visit pass None False
          by (auto simp: disk_retain_def split: prod.splits sum.splits)
        have "rb_tmap (ds_calls s) ?txn = disk_map s |` (- set dropped)"
          using redb_okD(11) [OF rb] old by (simp add: Compl_eq)
        from commit_writes [OF assms(1) commit this] ok
        have "writes_map (disk_map s |` (- set dropped)) s s' (is_ok r)"
          by simp
        show ?thesis
        proof (intro exI [of _ dropped] conjI impI allI)
          fix p key stored
          assume a: "\<forall>st key. snd (keep st key) \<longrightarrow> p key" "disk_map s key = Some stored" "key \<notin> set dropped"
          show "p key"
            by (rule kept [OF a None])
        qed fact
      qed
    qed
  qed
qed

lemma sweep_writes:
  assumes "disk_sound s" and "sweep c s = (s', r)"
  shows "same_file s s' \<and> disk_sound s' \<and> disk_map s' \<subseteq>\<^sub>m disk_map s
    \<and> ds_cadence s' = ds_cadence s"
proof -
  note rb = assms(1) [unfolded disk_sound_def]
  show ?thesis
  proof (cases "\<exists>txn. open_write s = Inr (Some txn)")
    case False
    with assms show ?thesis
      by (auto simp: sweep_def same_file_def split: sum.splits option.splits)
  next
    case True
    then obtain txn where txn: "open_write s = Inr (Some txn)"
      by blast
    obtain records failure where visit: "rb_visit (ds_calls s) txn = (records, failure)"
      by fastforce
    obtain st1 refused dropped where pass:
      "visit_records c (\<lambda>st key. (st, True)) () records = (st1, refused, dropped)"
      using prod_cases3 by blast
    let ?txn = "rb_retain (ds_calls s) txn (\<lambda>key. key \<notin> set dropped)"
    obtain db r1 where commit: "rb_commit (ds_calls s) (ds_db s) ?txn = (db, r1)"
      by fastforce
    have "rb_tmap (ds_calls s) ?txn = disk_map s |` (- set dropped)"
      using redb_okD(11) [OF rb] open_write_spec(1) [OF assms(1) txn] by (simp add: Compl_eq)
    with redb_okD(13,14) [OF rb] commit
    have "rb_map (ds_calls s) db = disk_map s \<or> rb_map (ds_calls s) db = disk_map s |` (- set dropped)"
      by (cases r1) (fastforce simp: disk_map_def)+
    then have db: "rb_map (ds_calls s) db \<subseteq>\<^sub>m disk_map s"
      by (auto simp: map_le_def restrict_map_def split: if_splits)
    from assms txn visit pass commit db redb_okD(15) [OF rb, of db] show ?thesis
      by (cases failure; cases r1; cases "dropped = []"; cases "rb_compact (ds_calls s) db")
        (auto simp: sweep_def same_file_def disk_sound_def disk_map_def)
  qed
qed

lemma disk_cleanup_writes:
  assumes "disk_sound s" and "disk_cleanup c s = (s', r)"
  shows "same_file s s' \<and> disk_sound s' \<and> disk_map s' \<subseteq>\<^sub>m disk_map s
    \<and> ds_cadence s' = ds_cadence s"
proof (cases "ds_sweeping s")
  case True
  with assms show ?thesis
    by (simp add: disk_cleanup_def same_file_def)
next
  case False
  obtain s1 where run: "sweep c (s\<lparr>ds_sweeping := True\<rparr>) = (s1, r)"
    and s': "s' = s1\<lparr>ds_sweeping := False\<rparr>"
    using assms(2) False by (auto simp: disk_cleanup_def split: prod.splits)
  have "disk_sound (s\<lparr>ds_sweeping := True\<rparr>)"
    using assms(1) by (simp add: disk_sound_def)
  from sweep_writes [OF this run] show ?thesis
    by (auto simp: s' same_file_def disk_sound_def disk_map_def)
qed

lemma flush_into_writes:
  assumes "disk_sound s" and "flush_into c s = (s', r)"
  shows "same_file s s'" "disk_sound s'" "disk_map s' = disk_map s"
    "r = Inr u \<Longrightarrow> cd_pending (ds_cadence s') = 0"
    "ds_cadence s' = ds_cadence s \<or> ds_cadence s' = committed (ds_cadence s) True (monotonic (c 0))"
proof -
  have "same_file s s' \<and> disk_sound s' \<and> disk_map s' = disk_map s
    \<and> (\<forall>u. r = Inr u \<longrightarrow> cd_pending (ds_cadence s') = 0)
    \<and> (ds_cadence s' = ds_cadence s \<or> ds_cadence s' = committed (ds_cadence s) True (monotonic (c 0)))"
  proof (cases "cd_pending (ds_cadence s) = 0")
    case True
    with assms show ?thesis
      by (simp add: flush_into_def same_file_def)
  next
    case False
    show ?thesis
    proof (cases "rb_begin_write (ds_calls s) (ds_db s)")
      case (Inl e)
      with False assms show ?thesis
        by (auto simp: flush_into_def same_file_def)
    next
      case (Inr txn)
      with False assms(2) have commit: "commit_as True (monotonic (c 0)) txn s = (s', r)"
        by (simp add: flush_into_def)
      have "rb_tmap (ds_calls s) txn = disk_map s"
        using redb_okD(2) [OF assms(1) [unfolded disk_sound_def] Inr] by (simp add: disk_map_def)
      with commit_as_spec [OF assms(1) commit] show ?thesis
        by (cases r) (auto simp: committed_def)
    qed
  qed
  then show "same_file s s'" "disk_sound s'" "disk_map s' = disk_map s"
    "r = Inr u \<Longrightarrow> cd_pending (ds_cadence s') = 0"
    "ds_cadence s' = ds_cadence s \<or> ds_cadence s' = committed (ds_cadence s) True (monotonic (c 0))"
    by simp_all
qed

section \<open>The contract\<close>

definition stored_value :: "bytes \<Rightarrow> bytes set" where
  "stored_value stored = (case split_record stored of None \<Rightarrow> {} | Some (at, v) \<Rightarrow> {v})"

definition disk_held :: "('d, 't) disk_store \<Rightarrow> served" where
  "disk_held s key = (case disk_map s key of None \<Rightarrow> {} | Some stored \<Rightarrow> stored_value stored)"

lemma disk_held_below: "disk_map s' \<subseteq>\<^sub>m disk_map s \<Longrightarrow> disk_held s' \<le> disk_held s"
  by (auto simp: disk_held_def le_fun_def map_le_def dom_def split: option.splits)

lemma stored_value_record: "stored_value (disk_record (disk_deadline now ttl) v) = {v}"
  by (simp add: stored_value_def split_disk_record disk_deadline_le)

lemma disk_get_spec:
  assumes "disk_sound s" and "disk_get c s key = (s', r)"
  shows "s' = s"
    "r = Inr found \<Longrightarrow> found =
       (case disk_map s key of None \<Rightarrow> None | Some stored \<Rightarrow>
        case split_record stored of None \<Rightarrow> None | Some (at, v) \<Rightarrow>
        case disk_remaining (wall (c 0)) at of None \<Rightarrow> None
        | Some remaining \<Rightarrow> Some \<lparr> en_value = v, en_remaining = remaining \<rparr>)"
proof -
  note rb = assms(1) [unfolded disk_sound_def]
  show "s' = s"
    using assms(2) by (simp add: disk_get_def)
  assume r: "r = Inr found"
  obtain txn where read: "rb_begin_read (ds_calls s) (ds_db s) = Inr txn"
    using assms(2) r by (auto simp: disk_get_def split: sum.splits)
  have txn: "rb_tmap (ds_calls s) txn = disk_map s"
    using redb_okD(1) [OF rb read] by (simp add: disk_map_def)
  show "found = (case disk_map s key of None \<Rightarrow> None | Some stored \<Rightarrow>
        case split_record stored of None \<Rightarrow> None | Some (at, v) \<Rightarrow>
        case disk_remaining (wall (c 0)) at of None \<Rightarrow> None
        | Some remaining \<Rightarrow> Some \<lparr> en_value = v, en_remaining = remaining \<rparr>)"
  proof (cases "rb_open_table (ds_calls s) txn")
    case (Inl e)
    with assms(2) r read txn redb_okD(4) [OF rb, of txn] show ?thesis
      by (cases e) (auto simp: disk_get_def)
  next
    case (Inr txn1)
    obtain x where x: "rb_get (ds_calls s) txn1 key = Inr x"
      using assms(2) r read Inr by (auto simp: disk_get_def split: sum.splits)
    have "x = disk_map s key"
      using redb_okD(5) [OF rb x] redb_okD(3) [OF rb Inr] txn by simp
    with assms(2) r read Inr x show ?thesis
      by (auto simp: disk_get_def split: option.splits)
  qed
qed

lemma held_after_write:
  assumes "writes_map new s s' ok"
  shows "disk_held s' key \<subseteq> (case new key of None \<Rightarrow> {} | Some stored \<Rightarrow> stored_value stored)
    \<union> (if ok then {} else disk_held s key)"
  using assms by (auto simp: writes_map_def disk_held_def)

lemma disk_step_spec:
  assumes "disk_sound s" and "disk_step c call s = (s', answer)"
  shows "disk_sound s' \<and> serves_call (disk_held s) call answer
    \<and> disk_held s' \<le> exactly (disk_held s) call answer"
proof (cases call)
  case (Get key)
  obtain r where run: "disk_get c s key = (s', r)" "answer = got r"
    using assms(2) Get by (auto simp: map_prod_def split: prod.splits)
  show ?thesis
    using disk_get_spec [OF assms(1) run(1)] assms(1) run(2) Get
    by (cases r; cases "projr r")
      (auto simp: disk_held_def stored_value_def split: option.splits)
next
  case (Set key v ttl)
  obtain r where run: "disk_set c s key v ttl = (s', r)" "answer = told (\<lambda>_. Done) r"
    using assms(2) Set by (auto simp: map_prod_def split: prod.splits)
  note writes = disk_set_writes [OF assms(1) run(1)]
  show ?thesis
    using held_after_write [OF writes] writes run(2) Set
    by (cases r) (auto simp: writes_map_def le_fun_def stored_value_record disk_held_def)
next
  case (Remove key)
  obtain r where run: "disk_remove c s key = (s', r)" "answer = told Removed r"
    using assms(2) Remove by (auto simp: map_prod_def split: prod.splits)
  note writes = disk_remove_writes [OF assms(1) run(1)]
  show ?thesis
    using writes run(2) Remove
    by (cases r) (auto simp: writes_map_def le_fun_def disk_held_def split: if_splits)
next
  case (Retain p)
  obtain st r where run: "disk_retain c s (pure_keep p) () = (s', st, r)" "answer = told Refused r"
    using assms(2) Retain by (auto split: prod.splits)
  from disk_retain_writes [OF assms(1) run(1)] obtain dropped where
    writes: "writes_map (disk_map s |` (- set dropped)) s s' (is_ok r)"
    and kept: "is_ok r \<Longrightarrow> disk_map s key = Some stored \<Longrightarrow> key \<notin> set dropped \<Longrightarrow> p key" for key stored
    by (auto simp: pure_keep_def)
  show ?thesis
    using writes kept run(2) Retain
    by (cases r) (auto simp: writes_map_def le_fun_def disk_held_def restrict_map_def
        split: option.splits if_splits)
next
  case Cleanup
  obtain r where run: "disk_cleanup c s = (s', r)" "answer = told (\<lambda>_. Done) r"
    using assms(2) Cleanup by (auto simp: map_prod_def split: prod.splits)
  show ?thesis
    using disk_cleanup_writes [OF assms(1) run(1)] disk_held_below [of s' s] run(2) Cleanup
    by (cases r) auto
next
  case Flush
  obtain r where run: "flush_into c s = (s', r)" "answer = told (\<lambda>_. Done) r"
    using assms(2) Flush by (auto simp: disk_flush_def map_prod_def split: prod.splits)
  show ?thesis
    using flush_into_writes(2,3) [OF assms(1) run(1)] run(2) Flush
    by (cases r) (auto simp: disk_held_def le_fun_def)
qed

interpretation disk: store disk_step disk_sound disk_held exactly
  using disk_step_spec exactly_mono by unfold_locales blast+

section \<open>The cadence\<close>

text \<open>Fewer writes than \<open>flush_every\<close> are waiting for a durable commit.\<close>

definition cadence_ok :: "cadence \<Rightarrow> bool" where
  "cadence_ok cd = (cd_pending cd < cd_every cd \<and> cd_every cd \<le> u32_max)"

lemma new_cadence_ok: "opts_ok opts \<Longrightarrow> cadence_ok (new_cadence opts now)"
  by (simp add: cadence_ok_def new_cadence_def opts_ok_def)

lemma committed_ok:
  "cadence_ok cd \<Longrightarrow> \<not> next_is_durable cd now \<Longrightarrow> cadence_ok (committed cd False now')"
  "cadence_ok cd \<Longrightarrow> cadence_ok (committed cd True now')"
  by (auto simp: cadence_ok_def committed_def next_is_durable_def)

lemma commit_keeps_cadence:
  assumes "cadence_ok (ds_cadence s)" and "commit_as durable now txn s = (s', r)"
    and "durable \<or> \<not> next_is_durable (ds_cadence s) earlier"
  shows "cadence_ok (ds_cadence s')"
  using assms committed_ok [OF assms(1)]
  by (cases durable) (auto simp: commit_as_def split: prod.splits sum.splits)

lemma disk_set_cadence:
  "cadence_ok (ds_cadence s) \<Longrightarrow> cadence_ok (ds_cadence (fst (disk_set c s key v ttl)))"
  by (auto simp: disk_set_def Let_def split: sum.split option.split
      intro: commit_keeps_cadence [OF _ surjective_pairing, where earlier = "monotonic (c (Suc 0))"])

lemma disk_remove_cadence:
  "cadence_ok (ds_cadence s) \<Longrightarrow> cadence_ok (ds_cadence (fst (disk_remove c s key)))"
  by (auto simp: disk_remove_def Let_def sbind_def split: sum.split option.split prod.split
      dest: commit_keeps_cadence [where durable = True])

lemma disk_retain_cadence:
  "cadence_ok (ds_cadence s) \<Longrightarrow> cadence_ok (ds_cadence (fst (disk_retain c s keep st)))"
  by (auto simp: disk_retain_def split: sum.split option.split prod.split
      dest: commit_keeps_cadence [where durable = True])

lemma disk_step_cadence:
  assumes "disk_sound s" and "cadence_ok (ds_cadence s)"
  shows "cadence_ok (ds_cadence (fst (disk_step c call s)))"
proof (cases call)
  case (Get key)
  then show ?thesis
    using assms(2) by (simp add: disk_get_def)
next
  case (Set key v ttl)
  then show ?thesis
    using disk_set_cadence [OF assms(2)] by simp
next
  case (Remove key)
  then show ?thesis
    using disk_remove_cadence [OF assms(2)] by simp
next
  case (Retain p)
  then show ?thesis
    using disk_retain_cadence [OF assms(2), of c "pure_keep p" "()"] by (simp add: case_prod_beta)
next
  case Cleanup
  then show ?thesis
    using disk_cleanup_writes [OF assms(1) surjective_pairing] assms(2) by simp
next
  case Flush
  then show ?thesis
    using flush_into_writes(5) [OF assms(1) surjective_pairing, of c] assms(2)
    by (auto simp: disk_flush_def committed_ok)
qed

end
