(* ===== verification/Composite_Store.thy ===== *)
theory Composite_Store
  imports Disk_Props "HOL-Library.AList"
begin

text \<open>
  \<open>memo/composite_store.rs\<close>: memory in front of disk. It keeps the contract of a store, but not
  exactly: a write that only one tier takes is reported as done, and leaves the other tier's
  older value to be served.
\<close>

record ('c, 'd, 't) composite_store =
  cs_memory :: "'c memory_store"
  cs_disk :: "('d, 't) disk_store"
  cs_promote_ttl :: nat

definition with_disk ::
    "'c moka \<Rightarrow> ('d, 't) disk_store \<Rightarrow> cache_opts \<Rightarrow> nat \<Rightarrow> ('c, 'd, 't) composite_store" where
  "with_disk m disk opts promote_ttl =
    \<lparr> cs_memory = memory_new m opts, cs_disk = disk, cs_promote_ttl = promote_ttl \<rparr>"

text \<open>A disk hit is copied into memory, for no longer than it has left; whether that works is
  ignored.\<close>

definition promote_hit ::
    "readings \<Rightarrow> ('c, 'd, 't) composite_store \<Rightarrow> string \<Rightarrow> entry \<Rightarrow> ('c, 'd, 't) composite_store" where
  "promote_hit c s key e =
    (if cs_promote_ttl s = 0 then s
     else let ttl = (case en_remaining e of
            None \<Rightarrow> cs_promote_ttl s | Some remaining \<Rightarrow> min (cs_promote_ttl s) remaining) in
       s\<lparr>cs_memory := fst (memory_set c (cs_memory s) key (en_value e) ttl)\<rparr>)"

definition composite_get ::
    "readings \<Rightarrow> ('c, 'd, 't) composite_store \<Rightarrow> string
      \<Rightarrow> ('c, 'd, 't) composite_store \<times> (memo_error + entry option)" where
  "composite_get c s key =
    (case memory_get c (cs_memory s) key of (memory, r) \<Rightarrow>
       let s = s\<lparr>cs_memory := memory\<rparr> in
       case r of
         Inl e \<Rightarrow> (s, Inl e)
       | Inr (Some e) \<Rightarrow> (s, Inr (Some e))
       | Inr None \<Rightarrow>
         (case disk_get (later 1 c) (cs_disk s) key of (disk, r) \<Rightarrow>
            let s = s\<lparr>cs_disk := disk\<rparr> in
            case r of
              Inl e \<Rightarrow> (s, Inl e)
            | Inr None \<Rightarrow> (s, Inr None)
            | Inr (Some e) \<Rightarrow> (promote_hit (later 2 c) s key e, Inr (Some e))))"

text \<open>Both tiers are always written.\<close>

definition composite_set ::
    "readings \<Rightarrow> ('c, 'd, 't) composite_store \<Rightarrow> string \<Rightarrow> bytes \<Rightarrow> nat
      \<Rightarrow> ('c, 'd, 't) composite_store \<times> (memo_error + unit)" where
  "composite_set c s key v ttl =
    (case disk_set c (cs_disk s) key v ttl of (disk, disk_result) \<Rightarrow>
     case memory_set (later 3 c) (cs_memory s) key v ttl of (memory, memory_result) \<Rightarrow>
       (s\<lparr>cs_disk := disk, cs_memory := memory\<rparr>,
        if is_ok disk_result \<or> is_ok memory_result then Inr () else disk_result))"

definition composite_remove ::
    "readings \<Rightarrow> ('c, 'd, 't) composite_store \<Rightarrow> string
      \<Rightarrow> ('c, 'd, 't) composite_store \<times> (memo_error + bool)" where
  "composite_remove c s key =
    (case disk_remove c (cs_disk s) key of (disk, disk_result) \<Rightarrow>
     case memory_remove (later 2 c) (cs_memory s) key of (memory, memory_result) \<Rightarrow>
       (s\<lparr>cs_disk := disk, cs_memory := memory\<rparr>,
        rbind memory_result (\<lambda>in_memory. rbind disk_result (\<lambda>on_disk. Inr (on_disk \<or> in_memory)))))"

text \<open>The disk asks the closure, and what it keeps is collected; memory then keeps that.\<close>

definition collecting ::
    "('k \<Rightarrow> string \<Rightarrow> 'k \<times> bool) \<Rightarrow> 'k \<times> string list \<Rightarrow> string \<Rightarrow> ('k \<times> string list) \<times> bool" where
  "collecting keep st key =
    (case keep (fst st) key of (inner, verdict) \<Rightarrow>
       ((inner, if verdict then key # snd st else snd st), verdict))"

definition composite_retain ::
    "readings \<Rightarrow> ('c, 'd, 't) composite_store \<Rightarrow> ('k \<Rightarrow> string \<Rightarrow> 'k \<times> bool) \<Rightarrow> 'k
      \<Rightarrow> ('c, 'd, 't) composite_store \<times> 'k \<times> (memo_error + nat)" where
  "composite_retain c s keep st =
    (case disk_retain c (cs_disk s) (collecting keep) (st, []) of (disk, (st, kept), r) \<Rightarrow>
       let s = s\<lparr>cs_disk := disk\<rparr> in
       case r of
         Inl e \<Rightarrow> (s, st, Inl e)
       | Inr removed \<Rightarrow>
         (case memory_retain (cs_memory s) (pure_keep (\<lambda>key. key \<in> set kept)) () of
            (memory, _, r) \<Rightarrow>
              (s\<lparr>cs_memory := memory\<rparr>, st, rbind r (\<lambda>_. Inr removed))))"

definition composite_cleanup ::
    "readings \<Rightarrow> ('c, 'd, 't) composite_store \<Rightarrow> ('c, 'd, 't) composite_store \<times> (memo_error + unit)" where
  "composite_cleanup c s =
    (case memory_cleanup (cs_memory s) of (memory, r) \<Rightarrow>
       let s = s\<lparr>cs_memory := memory\<rparr> in
       case r of
         Inl e \<Rightarrow> (s, Inl e)
       | Inr _ \<Rightarrow> (case disk_cleanup c (cs_disk s) of (disk, r) \<Rightarrow> (s\<lparr>cs_disk := disk\<rparr>, r)))"

definition composite_flush ::
    "readings \<Rightarrow> ('c, 'd, 't) composite_store \<Rightarrow> ('c, 'd, 't) composite_store \<times> (memo_error + unit)" where
  "composite_flush c s =
    (case disk_flush c (cs_disk s) of (disk, r) \<Rightarrow> (s\<lparr>cs_disk := disk\<rparr>, r))"

fun composite_step ::
    "readings \<Rightarrow> cache_call \<Rightarrow> ('c, 'd, 't) composite_store \<Rightarrow> ('c, 'd, 't) composite_store \<times> cache_answer"
where
  "composite_step c (Get key) s = map_prod id got (composite_get c s key)"
| "composite_step c (Set key v ttl) s = map_prod id (told (\<lambda>_. Done)) (composite_set c s key v ttl)"
| "composite_step c (Remove key) s = map_prod id (told Removed) (composite_remove c s key)"
| "composite_step c (Retain p) s =
    (case composite_retain c s (pure_keep p) () of (s, st, r) \<Rightarrow> (s, told Refused r))"
| "composite_step c Cleanup s = map_prod id (told (\<lambda>_. Done)) (composite_cleanup c s)"
| "composite_step c Flush s = map_prod id (told (\<lambda>_. Done)) (composite_flush c s)"

section \<open>The contract\<close>

definition composite_sound :: "('c, 'd, 't) composite_store \<Rightarrow> bool" where
  "composite_sound s = (memory_sound (cs_memory s) \<and> disk_sound (cs_disk s))"

definition composite_held :: "('c, 'd, 't) composite_store \<Rightarrow> served" where
  "composite_held s key = memory_held (cs_memory s) key \<union> disk_held (cs_disk s) key"

text \<open>What a tier does through its own calls, read off its contract.\<close>

lemma memory_set_tier:
  assumes "memory_sound m" and "memory_set c m key v ttl = (m', r)"
  shows "memory_sound m'" "memory_held m' k \<subseteq> (if k = key then {v} else memory_held m k)
    \<union> (if is_ok r then {} else memory_held m k)"
proof -
  have "memory_step c (Set key v ttl) m = (m', told (\<lambda>_. Done) r)"
    by (simp add: assms(2))
  from memory_step_spec [OF assms(1) this] show "memory_sound m'"
    "memory_held m' k \<subseteq> (if k = key then {v} else memory_held m k)
      \<union> (if is_ok r then {} else memory_held m k)"
    by (cases r; auto simp: le_fun_def split: if_splits)+
qed

lemma disk_set_tier:
  assumes "disk_sound d" and "disk_set c d key v ttl = (d', r)"
  shows "disk_sound d'" "disk_held d' k \<subseteq> (if k = key then {v} else disk_held d k)
    \<union> (if is_ok r then {} else disk_held d k)"
proof -
  have "disk_step c (Set key v ttl) d = (d', told (\<lambda>_. Done) r)"
    by (simp add: assms(2))
  from disk_step_spec [OF assms(1) this] show "disk_sound d'"
    "disk_held d' k \<subseteq> (if k = key then {v} else disk_held d k)
      \<union> (if is_ok r then {} else disk_held d k)"
    by (cases r; auto simp: le_fun_def split: if_splits)+
qed

lemma composite_get_spec:
  assumes "composite_sound s" and "composite_get c s key = (s', r)"
  shows "composite_sound s'" "composite_held s' k \<subseteq> composite_held s k"
    "r = Inr (Some e) \<Longrightarrow> en_value e \<in> composite_held s key"
proof -
  obtain m r1 where get: "memory_get c (cs_memory s) key = (m, r1)"
    by fastforce
  have "memory_step c (Get key) (cs_memory s) = (m, got r1)"
    by (simp add: get)
  from memory_step_spec [OF _ this] assms(1)
  have m: "memory_sound m" "memory_held m k \<subseteq> memory_held (cs_memory s) k"
    "r1 = Inr (Some e) \<Longrightarrow> en_value e \<in> memory_held (cs_memory s) key" for k e
    by (cases r1; auto simp: composite_sound_def le_fun_def)+
  obtain d r2 where read: "disk_get (later 1 c) (cs_disk s) key = (d, r2)"
    by fastforce
  have "disk_step (later 1 c) (Get key) (cs_disk s) = (d, got r2)"
    using read by simp
  from disk_step_spec [OF _ this] disk_get_spec(1) [OF _ read] assms(1)
  have d: "d = cs_disk s" "r2 = Inr (Some e) \<Longrightarrow> en_value e \<in> disk_held (cs_disk s) key" for e
    by (cases r2; auto simp: composite_sound_def)+
  let ?s = "s\<lparr>cs_memory := m\<rparr>"
  have s: "composite_sound ?s" "composite_held ?s k \<subseteq> composite_held s k" for k
    using m assms(1) by (auto simp: composite_sound_def composite_held_def)
  have promoted: "composite_sound (promote_hit (later 2 c) ?s key e)"
    "composite_held (promote_hit (later 2 c) ?s key e) k \<subseteq> composite_held s k"
    if "r2 = Inr (Some e)" for e k
  proof -
    let ?ttl = "case en_remaining e of None \<Rightarrow> cs_promote_ttl s
      | Some remaining \<Rightarrow> min (cs_promote_ttl s) remaining"
    note tier = memory_set_tier [OF m(1) surjective_pairing, of "later 2 c" key "en_value e" ?ttl]
    have "memory_held (fst (memory_set (later 2 c) m key (en_value e) ?ttl)) k
        \<subseteq> composite_held s k"
      using tier(2) [of k] m(2) [of k] d(2) [OF that]
      by (auto simp: composite_held_def split: if_splits)
    then show "composite_sound (promote_hit (later 2 c) ?s key e)"
      "composite_held (promote_hit (later 2 c) ?s key e) k \<subseteq> composite_held s k"
      using s tier(1) assms(1)
      by (cases "en_remaining e"; auto simp: promote_hit_def Let_def composite_sound_def composite_held_def)+
  qed
  have d_upd: "s\<lparr>cs_memory := m, cs_disk := cs_disk s\<rparr> = ?s"
    by simp
  show "composite_sound s'"
    using assms(2) get read s(1) promoted(1) d(1)
    by (auto simp: composite_get_def Let_def d_upd split: sum.splits option.splits)
  show "composite_held s' k \<subseteq> composite_held s k"
    using assms(2) get read s(2) subsetD [OF promoted(2)] d(1)
    by (auto simp: composite_get_def Let_def d_upd split: sum.splits option.splits)
  show "r = Inr (Some e) \<Longrightarrow> en_value e \<in> composite_held s key"
    using assms(2) get read m(3) d(2)
    by (auto simp: composite_get_def composite_held_def Let_def split: sum.splits option.splits)
qed

lemma composite_set_spec:
  assumes "composite_sound s" and "composite_set c s key v ttl = (s', r)"
  shows "composite_sound s'"
    "composite_held s' k \<subseteq> (if k = key then insert v (composite_held s k) else composite_held s k)"
    "snd (disk_set c (cs_disk s) key v ttl) = Inr () \<Longrightarrow> length v \<le> ms_max_capacity (cs_memory s)
      \<Longrightarrow> composite_held s' key \<subseteq> {v}"
proof -
  obtain d r1 where disk: "disk_set c (cs_disk s) key v ttl = (d, r1)"
    by fastforce
  obtain m r2 where memory: "memory_set (later 3 c) (cs_memory s) key v ttl = (m, r2)"
    by fastforce
  have s': "s' = s\<lparr>cs_disk := d, cs_memory := m\<rparr>"
    using assms(2) disk memory by (simp add: composite_set_def)
  note tiers = disk_set_tier [OF _ disk] memory_set_tier [OF _ memory]
  show "composite_sound s'"
    "composite_held s' k \<subseteq> (if k = key then insert v (composite_held s k) else composite_held s k)"
    using tiers(1) tiers(2) [of k] tiers(3) tiers(4) [of k] assms(1)
    by (auto simp: s' composite_sound_def composite_held_def split: if_splits)
  assume fits: "snd (disk_set c (cs_disk s) key v ttl) = Inr ()" "length v \<le> ms_max_capacity (cs_memory s)"
  then have "r1 = Inr ()" "ttl \<noteq> 0"
    using disk by (auto simp: disk_set_def split: if_splits)
  with memory fits(2) have "is_ok r2"
    by (auto simp: memory_set_def)
  with tiers(2) [of key] tiers(4) [of key] \<open>r1 = Inr ()\<close> assms(1)
  show "composite_held s' key \<subseteq> {v}"
    by (auto simp: s' composite_sound_def composite_held_def)
qed

lemma composite_remove_spec:
  assumes "composite_sound s" and "composite_remove c s key = (s', r)"
  shows "composite_sound s'" "composite_held s' k \<subseteq> composite_held s k"
    "is_ok r \<Longrightarrow> composite_held s' key = {}"
proof -
  obtain d r1 where disk: "disk_remove c (cs_disk s) key = (d, r1)"
    by fastforce
  obtain m r2 where memory: "memory_remove (later 2 c) (cs_memory s) key = (m, r2)"
    by fastforce
  have "disk_step c (Remove key) (cs_disk s) = (d, told Removed r1)"
    "memory_step (later 2 c) (Remove key) (cs_memory s) = (m, told Removed r2)"
    by (simp_all add: disk memory)
  note tiers = disk_step_spec [OF _ this(1)] memory_step_spec [OF _ this(2)]
  have s': "s' = s\<lparr>cs_disk := d, cs_memory := m\<rparr>" "is_ok r \<longleftrightarrow> is_ok r1 \<and> is_ok r2"
    using assms(2) disk memory by (cases r1; cases r2; auto simp: composite_remove_def)+
  show "composite_sound s'" "composite_held s' k \<subseteq> composite_held s k"
    "is_ok r \<Longrightarrow> composite_held s' key = {}"
    using tiers assms(1) s'(2)
    by (cases r1; cases r2; auto simp: s'(1) composite_sound_def composite_held_def le_fun_def
        split: if_splits)+
qed

lemma composite_retain_spec:
  assumes "composite_sound s" and "composite_retain c s (pure_keep p) () = (s', st, r)"
  shows "composite_sound s'" "composite_held s' k \<subseteq> composite_held s k"
    "is_ok r \<Longrightarrow> \<not> p k \<Longrightarrow> composite_held s' k = {}"
proof -
  have sound: "disk_sound (cs_disk s)" "memory_sound (cs_memory s)"
    using assms(1) by (simp_all add: composite_sound_def)
  obtain d st1 kept r1 where disk:
    "disk_retain c (cs_disk s) (collecting (pure_keep p)) ((), []) = (d, (st1, kept), r1)"
    by (metis prod_cases3 surj_pair)
  obtain m st2 r2 where memory:
    "memory_retain (cs_memory s) (pure_keep (\<lambda>key. key \<in> set kept)) () = (m, st2, r2)"
    using prod_cases3 by blast
  have r2: "\<exists>n. r2 = Inr n"
    using memory by (auto simp: memory_retain_def Let_def split: prod.splits)
  let ?P = "\<lambda>st. set (snd st) \<subseteq> Collect p"
  have "?P (fst (visit_records c (collecting (pure_keep p)) ((), []) records))" for records
    by (rule asked_records_keep) (auto simp: collecting_def pure_keep_def)
  then have kept: "set kept \<subseteq> Collect p"
    using disk by (auto simp: disk_retain_def split: sum.splits option.splits prod.splits if_splits)
      (metis fst_conv snd_conv subsetD mem_Collect_eq)+
  obtain dropped where d: "disk_sound d"
    "disk_map d \<subseteq>\<^sub>m disk_map (cs_disk s)"
    "is_ok r1 \<Longrightarrow> disk_map d key = Some stored \<Longrightarrow> p key" for key stored
  proof -
    from disk_retain_writes [OF sound(1) disk] obtain dropped where
      writes: "writes_map (disk_map (cs_disk s) |` (- set dropped)) (cs_disk s) d (is_ok r1)"
      and kept: "is_ok r1 \<Longrightarrow> disk_map (cs_disk s) key = Some stored \<Longrightarrow> key \<notin> set dropped \<Longrightarrow> p key"
      for key stored
      by (auto simp: collecting_def pure_keep_def)
    show ?thesis
      by (rule that) (use writes kept in \<open>auto simp: writes_map_def map_le_def restrict_map_def
          split: if_splits\<close>)
  qed
  have "memory_step c (Retain (\<lambda>key. key \<in> set kept)) (cs_memory s) = (m, told Refused r2)"
    by (simp add: memory)
  from memory_step_spec [OF sound(2) this] r2 have "memory_sound m"
    and le: "memory_held m \<le> (\<lambda>k. if k \<in> set kept then memory_held (cs_memory s) k else {})"
    by auto
  have "memory_held m k \<subseteq> (if k \<in> set kept then memory_held (cs_memory s) k else {})" for k
    using le_funD [OF le, of k] .
  note m = \<open>memory_sound m\<close> this
  have s': "s' = s\<lparr>cs_disk := d, cs_memory := (if is_ok r1 then m else cs_memory s)\<rparr>"
    "is_ok r = is_ok r1"
    using assms(2) disk memory r2 by (cases r1; auto simp: composite_retain_def Let_def)+
  have held: "disk_held d k \<subseteq> disk_held (cs_disk s) k"
    using disk_held_below [OF d(2)] by (simp add: le_fun_def)
  show "composite_sound s'"
    using d(1) m(1) sound by (simp add: s' composite_sound_def)
  show "composite_held s' k \<subseteq> composite_held s k"
    using held m(2) [of k] by (auto simp: s' composite_held_def split: if_splits)
  show "is_ok r \<Longrightarrow> \<not> p k \<Longrightarrow> composite_held s' k = {}"
    using d(3) m(2) [of k] kept
    by (auto simp: s' composite_held_def disk_held_def split: if_splits option.splits)
qed

lemma composite_step_spec:
  assumes "composite_sound s" and "composite_step c call s = (s', answer)"
  shows "composite_sound s' \<and> serves_call (composite_held s) call answer
    \<and> composite_held s' \<le> loosely (composite_held s) call answer"
proof (cases call)
  case (Get key)
  obtain r where run: "composite_get c s key = (s', r)" "answer = got r"
    using assms(2) Get by (auto simp: map_prod_def split: prod.splits)
  show ?thesis
    using composite_get_spec [OF assms(1) run(1)] run(2) Get
    by (cases r; cases "projr r") (auto simp: le_fun_def)
next
  case (Set key v ttl)
  obtain r where run: "composite_set c s key v ttl = (s', r)" "answer = told (\<lambda>_. Done) r"
    using assms(2) Set by (auto simp: map_prod_def split: prod.splits)
  show ?thesis
    using composite_set_spec(1,2) [OF assms(1) run(1)] run(2) Set
    by (cases r) (fastforce simp: le_fun_def split: if_splits)+
next
  case (Remove key)
  obtain r where run: "composite_remove c s key = (s', r)" "answer = told Removed r"
    using assms(2) Remove by (auto simp: map_prod_def split: prod.splits)
  show ?thesis
    using composite_remove_spec [OF assms(1) run(1)] run(2) Remove
    by (cases r) (auto simp: le_fun_def)
next
  case (Retain p)
  obtain st r where run: "composite_retain c s (pure_keep p) () = (s', st, r)" "answer = told Refused r"
    using assms(2) Retain by (auto split: prod.splits)
  show ?thesis
    using composite_retain_spec [OF assms(1) run(1)] run(2) Retain
    by (cases r) (auto simp: le_fun_def)
next
  case Cleanup
  obtain m r1 where memory: "memory_cleanup (cs_memory s) = (m, r1)"
    by fastforce
  obtain d r2 where disk: "disk_cleanup c (cs_disk s) = (d, r2)"
    by fastforce
  have sound: "disk_sound (cs_disk s)" "memory_sound (cs_memory s)"
    using assms(1) by (simp_all add: composite_sound_def)
  note m = memory_cleanup_spec [OF sound(2) memory]
  note d = disk_cleanup_writes [OF sound(1) disk]
  have "s' = s\<lparr>cs_memory := m, cs_disk := d\<rparr>" "answer = told (\<lambda>_. Done) r2"
    using assms(2) memory disk m(3) Cleanup by (auto simp: composite_cleanup_def)
  with m(1) held_below [OF m(2)] d disk_held_below [of d "cs_disk s"] Cleanup show ?thesis
    by (cases r2) (auto simp: composite_sound_def composite_held_def le_fun_def)
next
  case Flush
  obtain d r where disk: "flush_into c (cs_disk s) = (d, r)"
    by fastforce
  have sound: "disk_sound (cs_disk s)" "memory_sound (cs_memory s)"
    using assms(1) by (simp_all add: composite_sound_def)
  have "s' = s\<lparr>cs_disk := d\<rparr>" "answer = told (\<lambda>_. Done) r"
    using assms(2) disk Flush by (auto simp: composite_flush_def disk_flush_def)
  with flush_into_writes(2,3) [OF sound(1) disk] sound(2) Flush show ?thesis
    by (cases r) (auto simp: composite_sound_def composite_held_def disk_held_def le_fun_def)
qed

interpretation composite: store composite_step composite_sound composite_held loosely
  using composite_step_spec loosely_mono by unfold_locales blast+

end
