(* ===== verification/Cache_Props.thy ===== *)
theory Cache_Props
  imports Composite_Store
begin

text \<open>
  The properties of the tiers of the cache, with a memory and a database that never fail as the
  concrete instances they are tried on.
\<close>

section \<open>A memory and a database that never fail\<close>

definition plain_moka :: "(string \<times> memory_entry) list moka" where
  "plain_moka =
    \<lparr> mk_build = \<lambda>n i w. [], mk_get = \<lambda>c k. (c, map_of c k),
      mk_insert = \<lambda>c k e. AList.update k e c,
      mk_remove = \<lambda>c k. (AList.delete k c, map_of c k), mk_iter = AList.clearjunk,
      mk_invalidate = \<lambda>c k. AList.delete k c, mk_pending = \<lambda>c. c, mk_holds = map_of \<rparr>"

lemma clearjunk_mem: "(k, v) \<in> set (AList.clearjunk xs) \<longleftrightarrow> map_of xs k = Some v"
  by (metis distinct_clearjunk map_of_clearjunk map_of_eq_Some_iff)

lemma plain_moka_ok: "moka_ok plain_moka"
  by (simp add: moka_ok_def plain_moka_def clearjunk_mem update_conv' delete_conv')

definition plain_redb :: "((string \<times> bytes) list, (string \<times> bytes) list) redb" where
  "plain_redb =
    \<lparr> rb_begin_read = Inr, rb_begin_write = Inr, rb_open_table = Inr,
      rb_get = \<lambda>t k. Inr (map_of t k), rb_insert = \<lambda>t k b. Inr (AList.update k b t),
      rb_remove = \<lambda>t k. Inr (AList.delete k t, map_of t k),
      rb_visit = \<lambda>t. (AList.clearjunk t, None), rb_retain = \<lambda>t p. filter (\<lambda>(k, b). p k) (AList.clearjunk t),
      rb_no_durability = Inr, rb_commit = \<lambda>d t. (t, Inr ()), rb_abort = \<lambda>t. Inr (),
      rb_compact = \<lambda>d. (d, Inr ()), rb_map = map_of, rb_tmap = map_of \<rparr>"

lemma map_of_kept:
  "map_of (filter (\<lambda>(k, b). p k) (AList.clearjunk xs)) = map_of xs |` Collect p"
proof -
  have "map_of (filter (\<lambda>(k, b). p k) ys) = map_of ys |` Collect p" if "distinct (map fst ys)" for ys
    using that by (induction ys) (auto simp: fun_eq_iff restrict_map_def)
  then show ?thesis
    by (metis distinct_clearjunk map_of_clearjunk)
qed

lemma plain_redb_ok: "redb_ok plain_redb"
  by (auto simp: redb_ok_def plain_redb_def update_conv' delete_conv' distinct_clearjunk
      map_of_clearjunk map_of_kept)

definition plain_disk :: "nat \<Rightarrow> ((string \<times> bytes) list, (string \<times> bytes) list) disk_store" where
  "plain_disk every =
    \<lparr> ds_calls = plain_redb, ds_db = [], ds_file = ''cache/memo.redb'', ds_generation = 0,
      ds_sweeping = False,
      ds_cadence = new_cadence (set_flush_every every default_cache_opts) 0 \<rparr>"

lemma plain_disk_ok: "redb_ok (ds_calls (plain_disk every))" "disk_map (plain_disk every) = Map.empty"
  by (simp_all add: plain_disk_def disk_map_def plain_redb_ok) (simp add: plain_redb_def)

text \<open>A memory tier with room for four bytes.\<close>

definition plain_composite ::
    "nat \<Rightarrow> ((string \<times> memory_entry) list, (string \<times> bytes) list, (string \<times> bytes) list) composite_store"
where
  "plain_composite promote_ttl =
    with_disk plain_moka (plain_disk 1) (set_max_capacity 4 default_cache_opts) promote_ttl"

lemma plain_composite_ok:
  "composite_sound (plain_composite promote_ttl)" "composite_held (plain_composite promote_ttl) = (\<lambda>k. {})"
  by (simp_all add: composite_sound_def composite_held_def plain_composite_def with_disk_def
      memory_new_def memory_sound_def disk_sound_def plain_moka_ok plain_disk_ok
      memory_held_def memory_holds_def disk_held_def fun_eq_iff)
    (simp add: plain_moka_def)

text \<open>The clocks at a given number of seconds.\<close>

definition at_second :: "nat \<Rightarrow> readings" where
  "at_second n i = \<lparr> monotonic = n * 10 ^ 9, wall = int (1000 + n) * 10 ^ 9 \<rparr>"

section \<open>Properties\<close>

text \<open>C9. Whatever the history of a two-tier cache, however its database fails and whatever its
  memory drops, a value it reads back under a key was written under that key, and no removal of
  the key has succeeded since.\<close>

theorem composite_serves_what_was_written:
  assumes "moka_ok (ms_calls (cs_memory s))" and "redb_ok (ds_calls (cs_disk s))"
    and "composite_held s = (\<lambda>k. {})"
    and "history composite_step s calls = past @ (Get k, Got (Some v)) # rest"
  shows "\<exists>before ttl answer between. past = before @ (Set k v ttl, answer) # between
    \<and> \<not> list_ex (forgets k) between"
proof -
  have "conforms loosely (\<lambda>k. {}) (history composite_step s calls)"
    using assms(1-3)
    by (intro composite.history_conforms) (simp_all add: composite_sound_def memory_sound_def disk_sound_def)
  from conforms_written [OF this [unfolded assms(4)]] show ?thesis
    by simp
qed

theorem composite_serves_what_was_written_witness:
  "\<exists>before ttl answer between.
     [(Set ''k'' [1] (10 ^ 9), Done)] = before @ (Set ''k'' [1] ttl, answer) # between
     \<and> \<not> list_ex (forgets ''k'') between"
proof (rule composite_serves_what_was_written
    [where s = "plain_composite 0" and calls = "[(at_second 0, Set ''k'' [1] (10 ^ 9)), (at_second 0, Get ''k'')]"])
  show "moka_ok (ms_calls (cs_memory (plain_composite 0)))"
    "redb_ok (ds_calls (cs_disk (plain_composite 0)))"
    using plain_composite_ok(1) [of 0] by (simp_all add: composite_sound_def memory_sound_def disk_sound_def)
  show "composite_held (plain_composite 0) = (\<lambda>k. {})"
    by (rule plain_composite_ok)
  show "history composite_step (plain_composite 0)
      [(at_second 0, Set ''k'' [1] (10 ^ 9)), (at_second 0, Get ''k'')]
    = [(Set ''k'' [1] (10 ^ 9), Done)] @ (Get ''k'', Got (Some [1])) # []"
  proof -
    have "snd (composite_step (at_second 0) (Set ''k'' [1] (10 ^ 9)) (plain_composite 0)) = Done"
      "snd (composite_step (at_second 0) (Get ''k'')
        (fst (composite_step (at_second 0) (Set ''k'' [1] (10 ^ 9)) (plain_composite 0)))) = Got (Some [1])"
      by code_simp+
    then show ?thesis
      by (simp add: case_prod_beta del: composite_step.simps)
  qed
qed

text \<open>A write that fits the memory tier, and that the database takes, leaves nothing older to be
  served.\<close>

text \<open>A write to a two-tier cache that fits the memory budget and that the database takes
  replaces the value under its key in both tiers: nothing older can be served.\<close>

theorem composite_write_replaces:
  assumes "moka_ok (ms_calls (cs_memory s))" and "redb_ok (ds_calls (cs_disk s))"
    and "composite_set c s key v ttl = (s1, r)" and "length v \<le> ms_max_capacity (cs_memory s)"
    and "snd (disk_set c (cs_disk s) key v ttl) = Inr ()"
    and "composite_get c1 s1 key = (s2, Inr (Some e))"
  shows "en_value e = v"
proof -
  have "composite_sound s"
    using assms(1,2) by (simp add: composite_sound_def memory_sound_def disk_sound_def)
  note set_spec = composite_set_spec [OF this assms(3)]
  from composite_get_spec(3) [OF set_spec(1) assms(6)] set_spec(3) [OF assms(5,4)] show ?thesis
    by auto
qed

theorem composite_write_replaces_witness:
  "map_option en_value (case snd (composite_get (at_second 2)
      (fst (composite_set (at_second 1)
        (fst (composite_set (at_second 0) (plain_composite 0) ''k'' [1] (10 ^ 10))) ''k'' [2, 3] (10 ^ 10)))
      ''k'') of Inr found \<Rightarrow> found | Inl e \<Rightarrow> None) = Some [2, 3]"
proof -
  let ?s = "fst (composite_set (at_second 0) (plain_composite 0) ''k'' [1] (10 ^ 10))"
  let ?s1 = "fst (composite_set (at_second 1) ?s ''k'' [2, 3] (10 ^ 10))"
  have sound: "composite_sound ?s"
    using composite_set_spec(1) [OF plain_composite_ok(1) surjective_pairing] .
  have "\<exists>e. snd (composite_get (at_second 2) ?s1 ''k'') = Inr (Some e)"
    by (rule exI [of _ "\<lparr> en_value = [2, 3], en_remaining = Some (9 * 10 ^ 9) \<rparr>"]) code_simp
  then obtain e where e: "snd (composite_get (at_second 2) ?s1 ''k'') = Inr (Some e)"
    by blast
  have get: "composite_get (at_second 2) ?s1 ''k''
      = (fst (composite_get (at_second 2) ?s1 ''k''), Inr (Some e))"
    using e by (simp add: prod_eq_iff)
  have taken: "snd (disk_set (at_second 1) (cs_disk ?s) ''k'' [2, 3] (10 ^ 10)) = Inr ()"
    and fits: "length [2, 3 :: byte] \<le> ms_max_capacity (cs_memory ?s)"
    by code_simp+
  have "moka_ok (ms_calls (cs_memory ?s))" "redb_ok (ds_calls (cs_disk ?s))"
    using sound by (simp_all add: composite_sound_def memory_sound_def disk_sound_def)
  from composite_write_replaces [OF this surjective_pairing fits taken get] have "en_value e = [2, 3]" .
  with e show ?thesis
    by simp
qed

text \<open>A write larger than the memory budget is reported as done, and the older value under its
  key goes on being served from memory.\<close>

lemma large_write_is_shadowed:
  "map snd (history composite_step (plain_composite 0)
     [(at_second 0, Set ''k'' [1] (10 ^ 10)), (at_second 1, Set ''k'' [2, 3, 4, 5, 6] (10 ^ 10)),
      (at_second 2, Get ''k'')])
   = [Done, Done, Got (Some [1])]"
  by code_simp

text \<open>A disk hit copied into memory is not kept there for longer than the entry had left when
  it was read from disk.\<close>

theorem promotion_within_deadline:
  assumes "moka_ok (ms_calls (cs_memory s))" and "redb_ok (ds_calls (cs_disk s))"
    and "snd (memory_get c (cs_memory s) key) = Inr None"
    and "snd (disk_get (later 1 c) (cs_disk s) key) = Inr (Some e)"
    and "en_remaining e = Some left" and "0 < left" and "monotonic (c 2) + left \<le> max_instant"
    and "cs_promote_ttl s \<noteq> 0" and "length (en_value e) \<le> ms_max_capacity (cs_memory s)"
    and "composite_get c s key = (s', r)"
  shows "r = Inr (Some e) \<and> memory_holds (cs_memory s') key \<in> {None,
    Some \<lparr> me_value = en_value e,
      me_expires_at = Some (monotonic (c 2) + min (cs_promote_ttl s) left) \<rparr>}"
proof -
  obtain m where m: "memory_get c (cs_memory s) key = (m, Inr None)"
    using assms(3) by (metis prod.collapse)
  have sound: "memory_sound m" "ms_max_capacity m = ms_max_capacity (cs_memory s)"
    using memory_get_spec(1) [OF _ m] m assms(1)
    by (auto simp: memory_sound_def memory_get_def split: prod.splits)
  let ?ttl = "min (cs_promote_ttl s) left"
  obtain d where d: "disk_get (later 1 c) (cs_disk s) key = (d, Inr (Some e))"
    using assms(4) by (metis prod.collapse)
  obtain m' r' where set_run: "memory_set (later 2 c) m key (en_value e) ?ttl = (m', r')"
    by fastforce
  have "r' = Inr ()"
    using set_run sound(2) assms(6,8,9) by (auto simp: memory_set_def split: if_splits)
  moreover have "monotonic (c 2) + ?ttl \<le> max_instant"
    using assms(7) by linarith
  ultimately have "memory_holds m' \<subseteq>\<^sub>m (memory_holds m)(key \<mapsto> \<lparr> me_value = en_value e,
      me_expires_at = Some (monotonic (c 2) + ?ttl) \<rparr>)"
    using memory_set_spec(2) [OF sound(1) set_run] by (simp add: instant_add_def later_def)
  then have "memory_holds m' key \<in> {None,
    Some \<lparr> me_value = en_value e, me_expires_at = Some (monotonic (c 2) + ?ttl) \<rparr>}"
    by (cases "memory_holds m' key") (auto simp: map_le_def dom_def dest: spec [of _ key])
  moreover have "r = Inr (Some e)" "cs_memory s' = m'"
    using assms(5,8,10) m d set_run by (auto simp: composite_get_def promote_hit_def Let_def)
  ultimately show ?thesis
    by simp
qed

theorem promotion_within_deadline_witness:
  "snd (composite_get (at_second 2) (fst (composite_set (at_second 0) (plain_composite (10 ^ 10))
      ''k'' [7] (3 * 10 ^ 9))\<lparr>cs_memory := memory_new plain_moka default_cache_opts\<rparr>) ''k'')
    = Inr (Some \<lparr> en_value = [7], en_remaining = Some (10 ^ 9) \<rparr>)"
proof -
  let ?s = "fst (composite_set (at_second 0) (plain_composite (10 ^ 10)) ''k'' [7] (3 * 10 ^ 9))
      \<lparr>cs_memory := memory_new plain_moka default_cache_opts\<rparr>"
  let ?e = "\<lparr> en_value = [7], en_remaining = Some (10 ^ 9) \<rparr> :: entry"
  have "composite_sound (fst (composite_set (at_second 0) (plain_composite (10 ^ 10)) ''k'' [7] (3 * 10 ^ 9)))"
    using composite_set_spec(1) [OF plain_composite_ok(1) surjective_pairing] .
  then have sound: "moka_ok (ms_calls (cs_memory ?s))" "redb_ok (ds_calls (cs_disk ?s))"
    by (simp_all add: composite_sound_def disk_sound_def memory_new_def plain_moka_ok)
  have "snd (memory_get (at_second 2) (cs_memory ?s) ''k'') = Inr None"
    "snd (disk_get (later 1 (at_second 2)) (cs_disk ?s) ''k'') = Inr (Some ?e)"
    "en_remaining ?e = Some (10 ^ 9)" "(0 :: nat) < 10 ^ 9"
    "monotonic (at_second 2 2) + 10 ^ 9 \<le> max_instant" "cs_promote_ttl ?s \<noteq> 0"
    "length (en_value ?e) \<le> ms_max_capacity (cs_memory ?s)"
    by code_simp+
  from promotion_within_deadline [OF sound this surjective_pairing] show ?thesis
    by blast
qed

text \<open>Whatever calls a store on disk answers, and however its database fails, every value it
  reads back was the last one written under that key, or one of a later write that failed, with
  no successful removal since.\<close>

lemma disk_history_conforms:
  assumes "redb_ok (ds_calls s)" and "disk_map s = Map.empty"
  shows "conforms exactly (\<lambda>k. {}) (history disk_step s calls)"
  using assms by (intro disk.history_conforms) (simp_all add: disk_sound_def disk_held_def le_fun_def)

lemma disk_written_get:
  assumes "redb_ok (ds_calls s)" and "disk_set c s key v ttl = (s1, Inr ())"
    and "disk_get c1 s1 key = (s2, Inr found)"
    and "int millisecond \<le> wall (c 0)" and "wall (c 0) + int ttl < 2 ^ 64 * int millisecond"
  shows "case found of
      Some e \<Rightarrow> en_value e = v \<and> wall (c1 0) < wall (c 0) + int ttl
        \<and> (\<exists>left. en_remaining e = Some left \<and> wall (c1 0) + int left \<le> wall (c 0) + int ttl)
    | None \<Rightarrow> wall (c 0) + int ttl < wall (c1 0) + int millisecond"
proof -
  have sound: "disk_sound s"
    using assms(1) by (simp add: disk_sound_def)
  let ?at = "wall (c 0) + int ttl"
  let ?ms = "disk_deadline (wall (c 0)) ttl"
  have "?at \<le> int max_instant"
    using assms(5) by (simp add: max_instant_def millisecond_def)
  moreover have "nat ?at < 2 ^ 64 * millisecond"
    using assms(4,5) by (simp add: millisecond_def nat_less_iff)
  then have "nat ?at div millisecond \<le> u64_max"
    using less_mult_imp_div_less [of "nat ?at" "2 ^ 64" millisecond] by (simp add: u64_max_def)
  ultimately have ms: "?ms = nat ?at div millisecond"
    using assms(4) by (simp add: disk_deadline_def system_add_def)
  have "0 < ?ms"
    using assms(4) unfolding ms by (simp add: millisecond_def div_greater_zero_iff)
  have "disk_map s1 key = Some (disk_record ?ms v)" "disk_sound s1"
    using disk_set_writes [OF sound assms(2)] by (auto simp: writes_map_def)
  with disk_get_spec(2) [OF _ assms(3) refl] \<open>0 < ?ms\<close>
  have found: "found = (if wall (c1 0) < int (?ms * millisecond)
      then Some \<lparr> en_value = v, en_remaining = Some (nat (int (?ms * millisecond) - wall (c1 0))) \<rparr>
      else None)"
    by (simp add: split_disk_record disk_deadline_le disk_remaining_def)
  have "?ms * millisecond \<le> nat ?at" "nat ?at < ?ms * millisecond + millisecond"
    using div_mult_mod_eq [of "nat ?at" millisecond] mod_less_divisor [of millisecond "nat ?at"]
    unfolding ms by (simp_all add: millisecond_def)
  with assms(4) have "int (?ms * millisecond) \<le> ?at" "?at < int (?ms * millisecond) + int millisecond"
    by linarith+
  with found show ?thesis
    by auto
qed

text \<open>A value written to disk is read back whole until its time to live has passed, and never
  after it; at most a millisecond may be lost to the resolution of the stored deadline.\<close>

theorem disk_serves_until_deadline:
  assumes "redb_ok (ds_calls s)" and "disk_set c s key v ttl = (s1, Inr ())"
    and "disk_get c1 s1 key = (s2, Inr found)"
    and "int millisecond \<le> wall (c 0)" and "wall (c 0) + int ttl < 2 ^ 64 * int millisecond"
  shows "case found of
      Some e \<Rightarrow> en_value e = v \<and> wall (c1 0) < wall (c 0) + int ttl
        \<and> (\<exists>left. en_remaining e = Some left \<and> wall (c1 0) + int left \<le> wall (c 0) + int ttl)
    | None \<Rightarrow> wall (c 0) + int ttl < wall (c1 0) + int millisecond"
  using assms by (rule disk_written_get)

theorem disk_serves_until_deadline_witness:
  "snd (disk_get (at_second 2) (fst (disk_set (at_second 0) (plain_disk 1) ''k'' [7] (3 * 10 ^ 9))) ''k'')
     = Inr (Some \<lparr> en_value = [7], en_remaining = Some (10 ^ 9) \<rparr>)
   \<and> wall (at_second 2 0) < wall (at_second 0 0) + int (3 * 10 ^ 9)"
proof -
  let ?s1 = "fst (disk_set (at_second 0) (plain_disk 1) ''k'' [7] (3 * 10 ^ 9))"
  let ?e = "\<lparr> en_value = [7], en_remaining = Some (10 ^ 9) \<rparr> :: entry"
  have written: "disk_set (at_second 0) (plain_disk 1) ''k'' [7] (3 * 10 ^ 9) = (?s1, Inr ())"
    by (simp add: prod_eq_iff) code_simp
  have get: "snd (disk_get (at_second 2) ?s1 ''k'') = Inr (Some ?e)"
    by code_simp
  then have "disk_get (at_second 2) ?s1 ''k'' = (fst (disk_get (at_second 2) ?s1 ''k''), Inr (Some ?e))"
    by (simp add: prod_eq_iff)
  from disk_serves_until_deadline [OF plain_disk_ok(1) written this] get show ?thesis
    by (simp add: at_second_def millisecond_def)
qed

text \<open>However the calls of a client come and the database fails, a store on disk never has as
  many writes waiting for a durable commit as \<open>flush_every\<close> allows between two of them.\<close>

theorem deferred_writes_bounded:
  assumes "redb_ok (ds_calls s)" and "cadence_ok (ds_cadence s)"
  shows "cadence_ok (ds_cadence (fold (\<lambda>(c, call) s. fst (disk_step c call s)) calls s))"
proof -
  have "disk_sound s"
    using assms(1) by (simp add: disk_sound_def)
  with assms(2) show ?thesis
  proof (induction calls arbitrary: s)
    case (Cons x calls)
    obtain c call where x: "x = (c, call)"
      by fastforce
    have "disk_sound (fst (disk_step c call s))"
      using disk_step_spec [OF Cons.prems(2) surjective_pairing] by simp
    with Cons.IH disk_step_cadence [OF Cons.prems(2,1)] show ?case
      by (simp add: x)
  qed simp
qed

theorem deferred_writes_bounded_witness:
  "cadence_ok (ds_cadence (fold (\<lambda>(c, call) s. fst (disk_step c call s))
     [(at_second 0, Set ''a'' [1] 100), (at_second 1, Set ''b'' [2] 100), (at_second 2, Set ''c'' [3] 100)]
     (plain_disk 2)))"
  by (rule deferred_writes_bounded [OF plain_disk_ok(1)])
    (simp add: plain_disk_def new_cadence_ok opts_ok_set opts_ok_default u32_max_def)

end
