(* ===== verification/Disk_Refinement.thy ===== *)
theory Disk_Refinement
  imports Cache_Props
begin

text \<open>
  The tier on disk as a cache with deadlines: what its database holds, read as a map from keys to values with the
  instant they are served until, is changed by every operation as that map's own operation changes it, and what is
  answered is what the map says.
\<close>

section \<open>A map with deadlines\<close>







section \<open>The records of a database as such a map\<close>









section \<open>Passes\<close>




section \<open>One operation\<close>










section \<open>When an operation may fail\<close>





section \<open>Properties\<close>



end
