(* ===== verification/Disk_Registry.thy ===== *)
theory Disk_Registry
  imports Cache_Store
begin

text \<open>
  The registry of \<open>memo/disk_store.rs\<close>: which disk stores this process has open. A store is
  known by its generation. Between the steps of one opening, others open and drop theirs, so the
  reachable states are those of a step relation; \<open>open_attempts\<close> is one opening, with what the
  others do while it sleeps.
\<close>

section \<open>The registry and its operations\<close>

text \<open>\<open>rg_pending\<close> are the databases created but not registered yet, \<open>rg_dying\<close> the stores whose
  last handle is gone but whose \<open>Drop\<close> has not ended: both hold the lock of their file.
  \<open>rg_foreign\<close> are the files that another process has locked.\<close>

record registry =
  rg_open :: "string \<Rightarrow> nat option"
  rg_generation :: nat
  rg_file :: "nat \<Rightarrow> string"
  rg_live :: "nat set"
  rg_dying :: "nat set"
  rg_pending :: "string set"
  rg_foreign :: "string set"

definition file_locked :: "registry \<Rightarrow> string \<Rightarrow> bool" where
  "file_locked rg path =
    (path \<in> rg_pending rg \<or> path \<in> rg_foreign rg \<or> path \<in> rg_file rg ` (rg_live rg \<union> rg_dying rg))"

definition registered :: "string \<Rightarrow> registry \<Rightarrow> registry \<times> nat option" where
  "registered path rg =
    (case rg_open rg path of
       Some g \<Rightarrow> if g \<in> rg_live rg then (rg, Some g) else (rg\<lparr>rg_open := (rg_open rg)(path := None)\<rparr>, None)
     | None \<Rightarrow> (rg, None))"

text \<open>redb's exclusive lock: a second open of a file fails.\<close>

definition create_database :: "string \<Rightarrow> registry \<Rightarrow> registry option" where
  "create_database path rg =
    (if file_locked rg path then None else Some (rg\<lparr>rg_pending := insert path (rg_pending rg)\<rparr>))"

definition register :: "string \<Rightarrow> registry \<Rightarrow> registry \<times> nat" where
  "register path rg =
    (case rg_open rg path of
       Some g \<Rightarrow>
         if g \<in> rg_live rg then (rg\<lparr>rg_pending := rg_pending rg - {path}\<rparr>, g)
         else let h = rg_generation rg in
           (rg\<lparr>rg_generation := h + 1, rg_file := (rg_file rg)(h := path),
              rg_live := insert h (rg_live rg), rg_pending := rg_pending rg - {path},
              rg_open := (rg_open rg)(path \<mapsto> h)\<rparr>, h)
     | None \<Rightarrow>
         let h = rg_generation rg in
           (rg\<lparr>rg_generation := h + 1, rg_file := (rg_file rg)(h := path),
              rg_live := insert h (rg_live rg), rg_pending := rg_pending rg - {path},
              rg_open := (rg_open rg)(path \<mapsto> h)\<rparr>, h))"

text \<open>The last handle goes; later \<open>Drop\<close> takes the registry, removes its own entry, and closes
  the database before it lets go.\<close>

definition last_handle_gone :: "nat \<Rightarrow> registry \<Rightarrow> registry" where
  "last_handle_gone g rg =
    rg\<lparr>rg_live := rg_live rg - {g}, rg_dying := insert g (rg_dying rg)\<rparr>"

definition drop_store :: "nat \<Rightarrow> registry \<Rightarrow> registry" where
  "drop_store g rg =
    (let path = rg_file rg g;
         rg = (if rg_open rg path = Some g then rg\<lparr>rg_open := (rg_open rg)(path := None)\<rparr> else rg) in
     rg\<lparr>rg_dying := rg_dying rg - {g}\<rparr>)"

definition open_limit :: nat where
  "open_limit = 25"

definition already_open :: memo_error where
  "already_open = Storage ''DatabaseAlreadyOpen''"

text \<open>One opening, from its attempt \<open>i\<close> on. \<open>others i\<close> is what happens while attempt \<open>i\<close> sleeps,
  and \<open>broken i\<close> another error of attempt \<open>i\<close>.\<close>

function open_attempts ::
    "(nat \<Rightarrow> registry \<Rightarrow> registry) \<Rightarrow> (nat \<Rightarrow> storage_error option) \<Rightarrow> string \<Rightarrow> nat \<Rightarrow> registry
      \<Rightarrow> registry \<times> (memo_error + nat)" where
  "open_attempts others broken path i rg =
    (if open_limit \<le> i then (rg, Inl already_open)
     else case registered path rg of
       (rg, Some g) \<Rightarrow> (rg, Inr g)
     | (rg, None) \<Rightarrow>
         (case broken i of
            Some e \<Rightarrow> (rg, Inl (Storage e))
          | None \<Rightarrow>
            (case create_database path rg of
               Some rg \<Rightarrow> (case register path rg of (rg, g) \<Rightarrow> (rg, Inr g))
             | None \<Rightarrow> if i + 1 < open_limit then open_attempts others broken path (i + 1) (others i rg)
                       else (rg, Inl already_open))))"
  by pat_completeness auto
termination
  by (relation "measure (\<lambda>(others, broken, path, i, rg). open_limit - i)") auto

declare open_attempts.simps [simp del]

definition open_file ::
    "(nat \<Rightarrow> registry \<Rightarrow> registry) \<Rightarrow> (nat \<Rightarrow> storage_error option) \<Rightarrow> string \<Rightarrow> registry
      \<Rightarrow> registry \<times> (memo_error + nat)" where
  "open_file others broken path rg = open_attempts others broken path 0 rg"

section \<open>The reachable states\<close>

definition no_stores :: "string set \<Rightarrow> registry" where
  "no_stores foreign =
    \<lparr> rg_open = Map.empty, rg_generation = 0, rg_file = \<lambda>g. '''', rg_live = {}, rg_dying = {},
      rg_pending = {}, rg_foreign = foreign \<rparr>"

inductive registry_step :: "registry \<Rightarrow> registry \<Rightarrow> bool" where
  looks: "registry_step rg (fst (registered path rg))"
| creates: "create_database path rg = Some rg' \<Longrightarrow> registry_step rg rg'"
| registers: "path \<in> rg_pending rg \<Longrightarrow> registry_step rg (fst (register path rg))"
| releases: "g \<in> rg_live rg \<Longrightarrow> registry_step rg (last_handle_gone g rg)"
| drops: "g \<in> rg_dying rg \<Longrightarrow> registry_step rg (drop_store g rg)"
| elsewhere: "\<forall>path \<in> foreign - rg_foreign rg. \<not> file_locked rg path \<Longrightarrow>
    registry_step rg (rg\<lparr>rg_foreign := foreign\<rparr>)"

inductive registry_reachable :: "registry \<Rightarrow> bool" where
  fresh: "registry_reachable (no_stores foreign)"
| onwards: "registry_reachable rg \<Longrightarrow> registry_step rg rg' \<Longrightarrow> registry_reachable rg'"

text \<open>A locked file has one owner in the process, a live store is the one registered, and the
  registry has no entry for a store that is gone.\<close>

definition registry_ok :: "registry \<Rightarrow> bool" where
  "registry_ok rg =
    (inj_on (rg_file rg) (rg_live rg \<union> rg_dying rg)
     \<and> rg_file rg ` (rg_live rg \<union> rg_dying rg) \<inter> rg_pending rg = {}
     \<and> rg_live rg \<inter> rg_dying rg = {}
     \<and> (\<forall>g \<in> rg_live rg \<union> rg_dying rg. g < rg_generation rg)
     \<and> (\<forall>g \<in> rg_live rg. rg_open rg (rg_file rg g) = Some g)
     \<and> (\<forall>path g. rg_open rg path = Some g \<longrightarrow> g \<in> rg_live rg \<union> rg_dying rg \<and> rg_file rg g = path))"

lemma registry_okD:
  assumes "registry_ok rg"
  shows "\<lbrakk>g \<in> rg_live rg \<union> rg_dying rg; h \<in> rg_live rg \<union> rg_dying rg; rg_file rg g = rg_file rg h\<rbrakk>
      \<Longrightarrow> g = h"
    "g \<in> rg_live rg \<union> rg_dying rg \<Longrightarrow> rg_file rg g \<notin> rg_pending rg"
    "g \<in> rg_live rg \<Longrightarrow> g \<notin> rg_dying rg"
    "g \<in> rg_live rg \<union> rg_dying rg \<Longrightarrow> g < rg_generation rg"
    "g \<in> rg_live rg \<Longrightarrow> rg_open rg (rg_file rg g) = Some g"
    "rg_open rg path = Some g \<Longrightarrow> g \<in> rg_live rg \<union> rg_dying rg"
    "rg_open rg path = Some g \<Longrightarrow> rg_file rg g = path"
  using assms by (auto simp: registry_ok_def inj_on_def)

lemma registry_okI:
  assumes "\<And>g h. \<lbrakk>g \<in> rg_live rg \<union> rg_dying rg; h \<in> rg_live rg \<union> rg_dying rg;
      rg_file rg g = rg_file rg h\<rbrakk> \<Longrightarrow> g = h"
    and "\<And>g. g \<in> rg_live rg \<union> rg_dying rg \<Longrightarrow> rg_file rg g \<notin> rg_pending rg"
    and "\<And>g. g \<in> rg_live rg \<Longrightarrow> g \<notin> rg_dying rg"
    and "\<And>g. g \<in> rg_live rg \<union> rg_dying rg \<Longrightarrow> g < rg_generation rg"
    and "\<And>g. g \<in> rg_live rg \<Longrightarrow> rg_open rg (rg_file rg g) = Some g"
    and "\<And>path g. rg_open rg path = Some g \<Longrightarrow> g \<in> rg_live rg \<union> rg_dying rg \<and> rg_file rg g = path"
  shows "registry_ok rg"
proof -
  have "rg_live rg \<inter> rg_dying rg = {}" "rg_file rg ` (rg_live rg \<union> rg_dying rg) \<inter> rg_pending rg = {}"
    using assms(2,3) by blast+
  moreover have "inj_on (rg_file rg) (rg_live rg \<union> rg_dying rg)"
    using assms(1) by (rule inj_onI)
  ultimately show ?thesis
    using assms(4-6) unfolding registry_ok_def by blast
qed

text \<open>A file with a pending database is registered for no live store, so \<open>register\<close> never has to
  discard the database it was given.\<close>

lemma register_pending:
  assumes "registry_ok rg" and "path \<in> rg_pending rg"
  shows "register path rg = (let h = rg_generation rg in
      (rg\<lparr>rg_generation := h + 1, rg_file := (rg_file rg)(h := path),
         rg_live := insert h (rg_live rg), rg_pending := rg_pending rg - {path},
         rg_open := (rg_open rg)(path \<mapsto> h)\<rparr>, h))"
proof (cases "rg_open rg path")
  case None
  then show ?thesis
    by (simp add: register_def)
next
  case (Some g)
  with registry_okD(6,7) [OF assms(1)] registry_okD(2) [OF assms(1), of g] assms(2)
  have "g \<notin> rg_live rg"
    by auto
  with Some show ?thesis
    by (simp add: register_def)
qed

lemma registry_step_ok:
  assumes "registry_step rg rg'" and "registry_ok rg"
  shows "registry_ok rg'"
proof -
  note was = registry_okD [OF assms(2)]
  show ?thesis
    using assms(1)
  proof cases
    case (looks path)
    show ?thesis
    proof (cases "\<exists>g. rg_open rg path = Some g \<and> g \<notin> rg_live rg")
      case False
      with assms(2) looks show ?thesis
        by (auto simp: registered_def split: option.split)
    next
      case True
      then obtain g where g: "rg_open rg path = Some g" "g \<notin> rg_live rg"
        by blast
      have "rg_file rg h \<noteq> path" if "h \<in> rg_live rg" for h
        using was(5) [OF that] g that by auto
      with assms(2) g show ?thesis
        unfolding registry_ok_def looks by (simp add: registered_def)
    qed
  next
    case (creates path)
    then have rg': "rg' = rg\<lparr>rg_pending := insert path (rg_pending rg)\<rparr>"
      and free: "path \<notin> rg_file rg ` (rg_live rg \<union> rg_dying rg)"
      by (auto simp: create_database_def file_locked_def split: if_splits)
    show ?thesis
      unfolding rg'
    proof (rule registry_okI, goal_cases)
      case (1 g h)
      then show ?case
        using was(1) [of g h] by auto
    next
      case (2 h)
      then show ?case
        using was(2) [of h] free by auto
    next
      case (3 h)
      then show ?case
        using was(3) [of h] by auto
    next
      case (4 h)
      then show ?case
        using was(4) [of h] by auto
    next
      case (5 h)
      then show ?case
        using was(5) [of h] by auto
    next
      case (6 p h)
      then show ?case
        using was(6) [of p h] was(7) [of p h] by (auto split: if_splits)
    qed
  next
    case (registers path)
    let ?h = "rg_generation rg"
    have new: "?h \<notin> rg_live rg \<union> rg_dying rg"
      using was(4) by blast
    have other: "rg_file rg g \<noteq> path" if "g \<in> rg_live rg \<union> rg_dying rg" for g
      using was(2) [OF that] registers(2) by auto
    have rg': "rg' = rg\<lparr>rg_generation := ?h + 1, rg_file := (rg_file rg)(?h := path),
         rg_live := insert ?h (rg_live rg), rg_pending := rg_pending rg - {path},
         rg_open := (rg_open rg)(path \<mapsto> ?h)\<rparr>"
      using registers(1) register_pending [OF assms(2) registers(2)] by (simp add: Let_def)
    show ?thesis
      unfolding rg'
    proof (rule registry_okI, goal_cases)
      case (1 g h)
      then show ?case
        using was(1) [of g h] other [of g] other [of h]
        by (cases "g = ?h"; cases "h = ?h") simp_all
    next
      case (2 g)
      then show ?case
        using was(2) [of g] by (auto split: if_splits)
    next
      case (3 g)
      then show ?case
        using was(3) new by auto
    next
      case (4 g)
      then show ?case
        using was(4) [of g] by auto
    next
      case (5 g)
      then show ?case
        using was(5) [of g] other [of g] new by auto
    next
      case (6 p g)
      then show ?case
        using was(6,7) [of p g] new by (auto split: if_splits)
    qed
  next
    case (releases g0)
    show ?thesis
      unfolding releases last_handle_gone_def
    proof (rule registry_okI, goal_cases)
      case (1 g h)
      then show ?case
        using was(1) [of g h] releases(2) by auto
    next
      case (2 h)
      then show ?case
        using was(2) [of h] releases(2) by auto
    next
      case (3 h)
      then show ?case
        using was(3) [of h] by auto
    next
      case (4 h)
      then show ?case
        using was(4) [of h] releases(2) by auto
    next
      case (5 h)
      then show ?case
        using was(5) [of h] by auto
    next
      case (6 p h)
      then show ?case
        using was(6) [of p h] was(7) [of p h] by (auto split: if_splits)
    qed
  next
    case (drops g0)
    have gone: "rg_file rg h \<noteq> rg_file rg g0" if "h \<in> rg_live rg \<union> rg_dying rg" "h \<noteq> g0" for h
      using was(1) [OF that(1)] drops(2) that(2) by blast
    have rg': "rg' = rg\<lparr>rg_open := (if rg_open rg (rg_file rg g0) = Some g0
        then (rg_open rg)(rg_file rg g0 := None) else rg_open rg), rg_dying := rg_dying rg - {g0}\<rparr>"
      unfolding drops drop_store_def by simp
    show ?thesis
      unfolding rg'
    proof (rule registry_okI, goal_cases)
      case (1 g h)
      then show ?case
        using was(1) [of g h] by auto
    next
      case (2 h)
      then show ?case
        using was(2) [of h] by auto
    next
      case (3 h)
      then show ?case
        using was(3) [of h] drops(2) by auto
    next
      case (4 h)
      then show ?case
        using was(4) [of h] by auto
    next
      case (5 h)
      then show ?case
        using was(5) [of h] gone [of h] was(3) [of h] drops(2) by auto
    next
      case (6 p h)
      then show ?case
        using was(6) [of p h] was(7) [of p h] gone [of h] by (auto split: if_splits)
    qed
  next
    case (elsewhere foreign)
    with assms(2) show ?thesis
      by (simp add: registry_ok_def)
  qed
qed

lemma registry_reachable_ok: "registry_reachable rg \<Longrightarrow> registry_ok rg"
proof (induction rule: registry_reachable.induct)
  case (fresh foreign)
  then show ?case
    by (simp add: registry_ok_def no_stores_def)
next
  case (onwards rg rg')
  then show ?case
    by (blast intro: registry_step_ok)
qed

text \<open>The state an attempt of an opening finds.\<close>

fun attempt_state :: "(nat \<Rightarrow> registry \<Rightarrow> registry) \<Rightarrow> string \<Rightarrow> registry \<Rightarrow> nat \<Rightarrow> registry" where
  "attempt_state others path rg 0 = rg"
| "attempt_state others path rg (Suc i) = others i (fst (registered path (attempt_state others path rg i)))"

lemma registered_locks: "file_locked (fst (registered path rg)) p = file_locked rg p"
  by (auto simp: registered_def file_locked_def split: option.split)

lemma open_attempts_free:
  assumes "i + k < open_limit"
    and "\<not> file_locked (attempt_state others path rg (i + k)) path"
  shows "\<exists>rg' g. open_attempts others (\<lambda>i. None) path i (attempt_state others path rg i) = (rg', Inr g)"
  using assms
proof (induction k arbitrary: i)
  case 0
  let ?rg = "attempt_state others path rg i"
  obtain rg1 found where look: "registered path ?rg = (rg1, found)"
    by fastforce
  with registered_locks [of path ?rg path] 0 have "\<not> file_locked rg1 path"
    by simp
  with look 0 show ?case
    by (cases found) (auto simp: open_attempts.simps [of _ _ _ i] create_database_def split: prod.split)
next
  case (Suc k)
  let ?rg = "attempt_state others path rg i"
  obtain rg1 found where look: "registered path ?rg = (rg1, found)"
    by fastforce
  have "\<exists>rg' g. open_attempts others (\<lambda>i. None) path (Suc i) (others i rg1) = (rg', Inr g)"
    using Suc.IH [of "Suc i"] Suc.prems look by simp
  with look Suc.prems show ?case
    by (cases found; cases "create_database path rg1")
      (auto simp: open_attempts.simps [of _ _ _ i] split: prod.split)
qed

text \<open>For the witnesses: one file that was opened, and the same after a second one was.\<close>

definition demo_registry :: registry where
  "demo_registry = fst (register ''a.redb'' ((no_stores {})\<lparr>rg_pending := {''a.redb''}\<rparr>))"

lemma demo_registry_reachable: "registry_reachable demo_registry"
proof -
  have "create_database ''a.redb'' (no_stores {}) = Some ((no_stores {})\<lparr>rg_pending := {''a.redb''}\<rparr>)"
    by (simp add: create_database_def file_locked_def no_stores_def)
  from onwards [OF fresh creates [OF this]] show ?thesis
    unfolding demo_registry_def by (rule onwards) (simp add: registers)
qed

lemma demo_registry_is: "rg_live demo_registry = {0}" "rg_file demo_registry 0 = ''a.redb''"
    "rg_dying demo_registry = {}"
  by (simp_all add: demo_registry_def register_def no_stores_def Let_def)

section \<open>Properties\<close>

text \<open>The exclusive lock that the database takes on its file means that this process never has one file
  open twice; what the registry adds is that the one store is found again.\<close>

lemma one_holder_per_file:
  assumes "registry_reachable rg" and "g \<in> rg_live rg \<union> rg_dying rg" and "h \<in> rg_live rg \<union> rg_dying rg"
    and "rg_file rg g = rg_file rg h"
  shows "g = h \<and> rg_file rg g \<notin> rg_pending rg"
  using registry_okD(1,2) [OF registry_reachable_ok [OF assms(1)]] assms(2-4) by blast

text \<open>C13. However the openings and the drops of stores interleave, a live store can be found: a lookup of its file and
  an opening both hand back that very store, without asking the database, and a store that is dropped late, on the
  same file or another, never takes the entry of a newer one with it.\<close>

theorem live_store_is_reused:
  assumes "registry_reachable rg" and "g \<in> rg_live rg"
  shows "snd (registered (rg_file rg g) rg) = Some g
    \<and> snd (open_file others broken (rg_file rg g) rg) = Inr g
    \<and> rg_open (drop_store h rg) (rg_file rg g) = (if h = g then None else Some g)"
proof -
  note ok = registry_okD [OF registry_reachable_ok [OF assms(1)]]
  have reused: "registered (rg_file rg g) rg = (rg, Some g)"
    using ok(5) [OF assms(2)] assms(2) by (simp add: registered_def)
  then have "open_file others broken (rg_file rg g) rg = (rg, Inr g)"
    by (simp add: open_file_def open_attempts.simps [of _ _ _ 0] open_limit_def)
  moreover have "rg_open (drop_store h rg) (rg_file rg g) = (if h = g then None else Some g)"
    using ok(5) [OF assms(2)]
    by (cases "rg_open rg (rg_file rg h) = Some h"; cases "h = g"; cases "rg_file rg h = rg_file rg g")
      (simp_all add: drop_store_def)
  ultimately show ?thesis
    by (simp add: reused)
qed

lemma live_store_is_reused_witness:
  "snd (registered ''a.redb'' demo_registry) = Some 0
    \<and> snd (open_file (\<lambda>i rg. rg) (\<lambda>i. None) ''a.redb'' demo_registry) = Inr 0
    \<and> rg_open (drop_store 1 demo_registry) ''a.redb'' = Some 0"
  using live_store_is_reused [OF demo_registry_reachable, of 0 "\<lambda>i rg. rg" "\<lambda>i. None" 1]
  by (simp add: demo_registry_is)

text \<open>An opening waits out a teardown: if the lock of the file is free at any one of its
  attempts, and the database reports nothing else, it hands out a store, whatever others do in
  between.\<close>

theorem open_waits_out_teardown:
  assumes "i < open_limit" and "\<not> file_locked (attempt_state others path rg i) path"
  shows "\<exists>rg' g. open_file others (\<lambda>i. None) path rg = (rg', Inr g)"
  using open_attempts_free [of 0 i others path rg] assms by (simp add: open_file_def)

lemma open_waits_out_teardown_witness:
  "snd (open_file (\<lambda>i. drop_store 0) (\<lambda>i. None) ''a.redb'' (last_handle_gone 0 demo_registry))
    = Inr (1::nat)
   \<and> (\<exists>rg' g. open_file (\<lambda>i. drop_store 0) (\<lambda>i. None) ''a.redb'' (last_handle_gone 0 demo_registry)
        = (rg', Inr g))"
proof
  have "\<not> file_locked (attempt_state (\<lambda>i. drop_store 0) ''a.redb'' (last_handle_gone 0 demo_registry) 1)
      ''a.redb''"
    by (simp add: demo_registry_def register_def no_stores_def registered_def file_locked_def
      last_handle_gone_def drop_store_def Let_def)
  from open_waits_out_teardown [OF _ this]
  show "\<exists>rg' g. open_file (\<lambda>i. drop_store 0) (\<lambda>i. None) ''a.redb'' (last_handle_gone 0 demo_registry)
      = (rg', Inr g)"
    by (simp add: open_limit_def)
  show "snd (open_file (\<lambda>i. drop_store 0) (\<lambda>i. None) ''a.redb'' (last_handle_gone 0 demo_registry))
      = Inr (1::nat)"
    by (simp add: open_file_def open_attempts.simps demo_registry_def register_def no_stores_def
      registered_def file_locked_def last_handle_gone_def drop_store_def create_database_def
      open_limit_def Let_def)
qed

end
