(* ===== verification/Memo_Keys.thy ===== *)
theory Memo_Keys
  imports Prelude
begin

text \<open>
  \<open>memo/header.rs\<close>, \<open>memo/key_builder.rs\<close>, \<open>memo/key_from.rs\<close>, and the key of a computation
  in flight: how typed values are framed, and how keys are built so that different values do not
  share one. \<open>postcard\<close>, \<open>serde_json\<close>, SHA-256 and \<open>hex\<close> are parameters.
\<close>

section \<open>The header of a typed value\<close>

text \<open>\<open>postcard\<close> on one type: encoding may fail, and decoding gives what is left over.\<close>

record 'a postcard =
  pc_encode :: "'a \<Rightarrow> string + bytes"
  pc_take :: "bytes \<Rightarrow> ('a \<times> bytes) option"

definition postcard_ok :: "'a postcard \<Rightarrow> bool" where
  "postcard_ok pc =
    (\<forall>v b rest. pc_encode pc v = Inr b \<longrightarrow> pc_take pc (b @ rest) = Some (v, rest))"

definition header_version :: byte where
  "header_version = 1"

definition header_len :: nat where
  "header_len = 1 + 8"

definition type_fingerprint :: "(bytes \<Rightarrow> bytes) \<Rightarrow> string \<Rightarrow> nat" where
  "type_fingerprint sha type_name = from_be (take 8 (sha (of_text type_name)))"

definition header_encode :: "'a postcard \<Rightarrow> nat \<Rightarrow> 'a \<Rightarrow> string + bytes" where
  "header_encode pc fingerprint v =
    rbind (pc_encode pc v) (\<lambda>payload. Inr (header_version # to_be 8 fingerprint @ payload))"

definition header_decode :: "'a postcard \<Rightarrow> nat \<Rightarrow> bytes \<Rightarrow> 'a option" where
  "header_decode pc fingerprint b =
    (if length b < header_len then None
     else let header = take header_len b; payload = drop header_len b in
       if hd header \<noteq> header_version \<or> tl header \<noteq> to_be 8 fingerprint then None
       else case pc_take pc payload of
         None \<Rightarrow> None
       | Some (v, rest) \<Rightarrow> if rest = [] then Some v else None)"

lemma type_fingerprint_bound:
  "type_fingerprint sha type_name < 2 ^ 64"
proof -
  have "(256 :: nat) ^ length (take 8 (sha (of_text type_name))) \<le> 256 ^ 8"
    by (rule power_increasing) simp_all
  with from_be_bound [of "take 8 (sha (of_text type_name))"] show ?thesis
    by (simp add: type_fingerprint_def)
qed

lemma header_decode_encode:
  assumes "postcard_ok pc" and "header_encode pc fp v = Inr b"
  shows "header_decode pc fp' b = (if to_be 8 fp = to_be 8 fp' then Some v else None)"
proof -
  obtain payload where payload: "pc_encode pc v = Inr payload"
    and b: "b = header_version # to_be 8 fp @ payload"
    using assms(2) by (auto simp: header_encode_def result_simps)
  have "pc_take pc payload = Some (v, [])"
    using assms(1) payload unfolding postcard_ok_def by (metis append_Nil2)
  then show ?thesis
    by (simp add: header_decode_def b header_len_def Let_def)
qed

section \<open>Keys\<close>

text \<open>A value as \<open>serde\<close> sees it: its JSON, unless it cannot be serialized, and the name of its
  type.\<close>

record serializable =
  sr_json :: "bytes option"
  sr_type :: string

definition kb_new :: bytes where
  "kb_new = []"

text \<open>The builder holds what was fed to the hash.\<close>

definition kb_part :: "serializable \<Rightarrow> bytes \<Rightarrow> bytes" where
  "kb_part p fed =
    (fed @ (case sr_json p of
       Some json \<Rightarrow> json
     | None \<Rightarrow> of_text (''!unserializable:'' @ sr_type p))) @ [0]"

definition kb_finish :: "(bytes \<Rightarrow> string) \<Rightarrow> (bytes \<Rightarrow> bytes) \<Rightarrow> bytes \<Rightarrow> string" where
  "kb_finish hex sha fed = hex (sha fed)"

definition key_from :: "(bytes \<Rightarrow> string) \<Rightarrow> (bytes \<Rightarrow> bytes) \<Rightarrow> serializable list \<Rightarrow> string" where
  "key_from hex sha ps = kb_finish hex sha (fold kb_part ps kb_new)"

text \<open>What is known of \<open>serde_json\<close> and of type names: JSON never holds a zero byte and never
  starts with an exclamation mark, and the name of a type has no zero byte.\<close>

definition serializable_ok :: "serializable \<Rightarrow> bool" where
  "serializable_ok p = ((\<forall>json. sr_json p = Some json \<longrightarrow> 0 \<notin> set json \<and> json \<noteq> []
       \<and> hd json \<noteq> of_nat (of_char CHR ''!''))
     \<and> CHR 0x00 \<notin> set (sr_type p))"

text \<open>What tells two parts apart: the JSON, or the type of a value without.\<close>

definition part_identity :: "serializable \<Rightarrow> bytes + string" where
  "part_identity p = (case sr_json p of Some json \<Rightarrow> Inl json | None \<Rightarrow> Inr (sr_type p))"

definition part_text :: "bytes + string \<Rightarrow> bytes" where
  "part_text i = (case i of Inl json \<Rightarrow> json | Inr t \<Rightarrow> of_text (''!unserializable:'' @ t))"

lemma kb_part_text: "kb_part p fed = fed @ part_text (part_identity p) @ [0]"
  by (simp add: kb_part_def part_text_def part_identity_def split: option.split)

lemma of_text_inject: "of_text s = of_text t \<longleftrightarrow> s = t"
  by (metis to_text_of_text)

lemma of_text_zero: "0 \<in> set (of_text s) \<longleftrightarrow> CHR 0x00 \<in> set s"
proof -
  have "(of_nat (of_char c) :: byte) = 0 \<longleftrightarrow> c = CHR 0x00" for c
    using to_text_of_text [of "[c]"] by (auto simp: to_text_def of_text_def char_of_def)
  then show ?thesis
    by (auto simp: of_text_def image_iff)
qed

lemma terminated_inject:
  "\<lbrakk>\<forall>x \<in> set xs. 0 \<notin> set x; \<forall>y \<in> set ys. 0 \<notin> set y;
    concat (map (\<lambda>x. x @ [0 :: byte]) xs) = concat (map (\<lambda>x. x @ [0]) ys)\<rbrakk> \<Longrightarrow> xs = ys"
proof (induction xs arbitrary: ys)
  case Nil
  then show ?case
    by (cases ys) auto
next
  case (Cons x xs)
  then obtain y ys' where ys: "ys = y # ys'"
    by (cases ys) auto
  with Cons.prems have split: "x @ 0 # concat (map (\<lambda>x. x @ [0]) xs) = y @ 0 # concat (map (\<lambda>x. x @ [0]) ys')"
    and zero: "0 \<notin> set x" "0 \<notin> set y"
    by auto
  have before: "takeWhile (\<lambda>c. c \<noteq> 0) (z @ 0 # r) = z" if "0 \<notin> set z" for z r :: bytes
    using that by (induction z) auto
  from arg_cong [OF split, of "takeWhile (\<lambda>c. c \<noteq> 0)"] have "x = y"
    by (simp only: before [OF zero(1)] before [OF zero(2)])
  with split have tails: "concat (map (\<lambda>x. x @ [0]) xs) = concat (map (\<lambda>x. x @ [0]) ys')"
    by (simp only: append_same_eq list.inject same_append_eq)
  have "xs = ys'"
    by (rule Cons.IH [OF _ _ tails]) (use Cons.prems(1,2) ys in auto)
  with \<open>x = y\<close> ys show ?case
    by (simp only:)
qed

lemma fold_kb_part:
  "fold kb_part ps fed = fed @ concat (map (\<lambda>x. x @ [0]) (map (part_text \<circ> part_identity) ps))"
  by (induction ps arbitrary: fed) (simp_all add: kb_part_text)

lemma part_text_zero: "serializable_ok p \<Longrightarrow> 0 \<notin> set (part_text (part_identity p))"
  by (auto simp: part_identity_def part_text_def serializable_ok_def of_text_zero split: option.split)

lemma part_text_inject:
  assumes "serializable_ok p" and "serializable_ok q"
    and "part_text (part_identity p) = part_text (part_identity q)"
  shows "part_identity p = part_identity q"
proof -
  have "hd (of_text (CHR ''!'' # s)) = of_nat (of_char CHR ''!'')" for s
    by (simp add: of_text_def)
  with assms show ?thesis
    by (fastforce simp: part_identity_def part_text_def serializable_ok_def of_text_inject
        split: option.splits)
qed

lemma part_texts_inject:
  "\<lbrakk>list_all serializable_ok ps; list_all serializable_ok qs;
    map (part_text \<circ> part_identity) ps = map (part_text \<circ> part_identity) qs\<rbrakk>
   \<Longrightarrow> map part_identity ps = map part_identity qs"
proof (induction ps arbitrary: qs)
  case (Cons p ps)
  then obtain q qs' where qs: "qs = q # qs'"
    by (cases qs) auto
  with Cons.prems have "part_identity p = part_identity q"
    by (intro part_text_inject) simp_all
  moreover have "map part_identity ps = map part_identity qs'"
    by (rule Cons.IH) (use Cons.prems qs in simp_all)
  ultimately show ?case
    by (simp add: qs)
qed simp

section \<open>The key of a computation in flight\<close>

text \<open>\<open>{fingerprint:016x}\<close>, a zero byte, and the key.\<close>

definition flight_key :: "nat \<Rightarrow> string \<Rightarrow> string" where
  "flight_key fingerprint key = hex_encode (to_be 8 fingerprint) @ CHR 0x00 # key"

section \<open>Properties\<close>

text \<open>A typed value is read back as it was written, and under the fingerprint of another type
  it is a miss; what follows the header must be consumed exactly.\<close>

theorem typed_value_roundtrip:
  assumes "postcard_ok pc" and "header_encode pc fp v = Inr b" and "fp < 2 ^ 64" and "fp' < 2 ^ 64"
  shows "header_decode pc fp' b = (if fp' = fp then Some v else None)
    \<and> (rest \<noteq> [] \<longrightarrow> header_decode pc fp' (b @ rest) = None)"
proof
  show "header_decode pc fp' b = (if fp' = fp then Some v else None)"
    using header_decode_encode [OF assms(1,2)] to_be_inject [of fp 8 fp'] assms(3,4) by auto
  obtain payload where payload: "pc_encode pc v = Inr payload"
    and b: "b = header_version # to_be 8 fp @ payload"
    using assms(2) by (auto simp: header_encode_def result_simps)
  have "pc_take pc (payload @ rest) = Some (v, rest)"
    using assms(1) payload unfolding postcard_ok_def by metis
  then show "rest \<noteq> [] \<longrightarrow> header_decode pc fp' (b @ rest) = None"
    by (simp add: header_decode_def b header_len_def Let_def)
qed

text \<open>A type of one byte.\<close>

definition byte_postcard :: "byte postcard" where
  "byte_postcard = \<lparr> pc_encode = \<lambda>b. Inr [b],
     pc_take = \<lambda>b. case b of [] \<Rightarrow> None | x # rest \<Rightarrow> Some (x, rest) \<rparr>"

theorem typed_value_roundtrip_witness:
  "header_decode byte_postcard 5 (header_version # to_be 8 5 @ [9]) = Some 9
   \<and> header_decode byte_postcard 6 (header_version # to_be 8 5 @ [9]) = None
   \<and> header_decode byte_postcard 5 ((header_version # to_be 8 5 @ [9]) @ [0]) = None"
proof -
  have "postcard_ok byte_postcard"
    by (simp add: postcard_ok_def byte_postcard_def)
  moreover have "header_encode byte_postcard 5 9 = Inr (header_version # to_be 8 5 @ [9])"
    by (simp add: header_encode_def byte_postcard_def)
  ultimately show ?thesis
    using typed_value_roundtrip [of byte_postcard 5 9 "header_version # to_be 8 5 @ [9]" 5 "[0]"]
      typed_value_roundtrip [of byte_postcard 5 9 "header_version # to_be 8 5 @ [9]" 6 "[0]"]
    by simp
qed

text \<open>Two lists of parts give the same key only if they are the same, part for part in order,
  or SHA-256 collides on them: a part that cannot be serialized still counts, by its type.\<close>

theorem keys_collide_only_with_sha:
  assumes "list_all serializable_ok ps" and "list_all serializable_ok qs"
    and "inj hex" and "key_from hex sha ps = key_from hex sha qs"
  shows "map part_identity ps = map part_identity qs
    \<or> (fold kb_part ps kb_new \<noteq> fold kb_part qs kb_new
       \<and> sha (fold kb_part ps kb_new) = sha (fold kb_part qs kb_new))"
proof (cases "fold kb_part ps kb_new = fold kb_part qs kb_new")
  case True
  have "map (part_text \<circ> part_identity) ps = map (part_text \<circ> part_identity) qs"
    using assms(1,2) True part_text_zero
    by (intro terminated_inject) (auto simp: fold_kb_part kb_new_def list_all_iff)
  from part_texts_inject [OF assms(1,2) this] have "map part_identity ps = map part_identity qs" .
  then show ?thesis ..
next
  case False
  with assms(3,4) show ?thesis
    by (simp add: key_from_def kb_finish_def inj_eq)
qed

theorem keys_collide_only_with_sha_witness:
  "map part_identity [\<lparr> sr_json = Some [1], sr_type = ''t'' \<rparr>]
     = map part_identity [\<lparr> sr_json = Some [1], sr_type = ''t'' \<rparr>]"
  using keys_collide_only_with_sha [of "[\<lparr> sr_json = Some [1], sr_type = ''t'' \<rparr>]"
      "[\<lparr> sr_json = Some [1], sr_type = ''t'' \<rparr>]" hex_encode "\<lambda>b. b"]
  by (simp add: serializable_ok_def inj_on_def hex_encode_inject)

text \<open>Computations in flight are told apart by type and key: two of them share an entry only if
  both agree.\<close>

lemma flight_key_injective:
  assumes "fp < 2 ^ 64" and "fp' < 2 ^ 64"
  shows "flight_key fp key = flight_key fp' key' \<longleftrightarrow> fp = fp' \<and> key = key'"
  using to_be_inject [of fp 8 fp'] assms
  by (auto simp: flight_key_def append_eq_append_conv hex_encode_inject)

theorem flight_key_injective_witness:
  "flight_key 255 ''k'' \<noteq> flight_key 254 ''k''"
  using flight_key_injective [of 255 254 "''k''" "''k''"] by simp

end
