(* ===== verification/Flight.thy ===== *)
theory Flight
  imports Prelude
begin

text \<open>
  \<open>memo/flight.rs\<close>: the computations in flight. The operations act on the table and on the calls
  it shares with its callers; each step runs under a lock, so a run of the program is a sequence of
  them, in any order, and the reachable states are those of a step relation. The drop of a guard
  takes two locks, one after the other, and is two steps.
\<close>

section \<open>Calls and their operations\<close>

datatype outcome = Ready bytes | Compute_Failed string | Encode_Failed string | Abandoned

text \<open>Wakers are told apart by a number: two that would wake the same task are the same.\<close>

record call =
  cl_outcome :: "outcome option"
  cl_wakers :: "nat list"

definition call_new :: call where
  "call_new = \<lparr> cl_outcome = None, cl_wakers = [] \<rparr>"

text \<open>A published outcome is final. Gives the wakers to wake.\<close>

definition call_publish :: "outcome \<Rightarrow> call \<Rightarrow> call \<times> nat list" where
  "call_publish out c =
    (if cl_outcome c \<noteq> None then (c, [])
     else (c\<lparr>cl_outcome := Some out, cl_wakers := []\<rparr>, cl_wakers c))"

text \<open>\<open>wait\<close> blocks on \<open>None\<close>.\<close>

definition call_wait :: "call \<Rightarrow> outcome option" where
  "call_wait c = cl_outcome c"

definition call_poll :: "nat \<Rightarrow> call \<Rightarrow> call \<times> outcome option" where
  "call_poll waker c =
    (case cl_outcome c of
       Some out \<Rightarrow> (c, Some out)
     | None \<Rightarrow> (if waker \<in> set (cl_wakers c) then c else c\<lparr>cl_wakers := cl_wakers c @ [waker]\<rparr>, None))"

section \<open>The table\<close>

text \<open>The calls are shared: the table, a leader and its followers hold the same one, here by its
  address in a heap of calls.\<close>

record flight =
  fl_calls :: "string \<Rightarrow> nat option"
  fl_heap :: "nat \<Rightarrow> call"
  fl_next :: nat

record leader =
  ld_key :: string
  ld_call :: nat
  ld_published :: bool

datatype flight_entry = Leader leader | Follower nat

definition flight_new :: flight where
  "flight_new = \<lparr> fl_calls = Map.empty, fl_heap = \<lambda>i. call_new, fl_next = 0 \<rparr>"

definition flight_enter :: "string \<Rightarrow> flight \<Rightarrow> flight \<times> flight_entry" where
  "flight_enter key fl =
    (case fl_calls fl key of
       Some i \<Rightarrow> (fl, Follower i)
     | None \<Rightarrow>
         (let i = fl_next fl in
          (fl\<lparr>fl_calls := (fl_calls fl)(key \<mapsto> i), fl_heap := (fl_heap fl)(i := call_new), fl_next := i + 1\<rparr>,
           Leader \<lparr> ld_key = key, ld_call = i, ld_published = False \<rparr>)))"

definition heap_publish :: "nat \<Rightarrow> outcome \<Rightarrow> flight \<Rightarrow> flight \<times> nat list" where
  "heap_publish i out fl =
    (case call_publish out (fl_heap fl i) of (c, wakers) \<Rightarrow>
       (fl\<lparr>fl_heap := (fl_heap fl)(i := c)\<rparr>, wakers))"

definition leader_publish :: "leader \<Rightarrow> outcome \<Rightarrow> flight \<Rightarrow> flight \<times> leader \<times> nat list" where
  "leader_publish ld out fl =
    (case heap_publish (ld_call ld) out fl of (fl, wakers) \<Rightarrow>
       (fl, ld\<lparr>ld_published := True\<rparr>, wakers))"

text \<open>A dropped guard first leaves the table, and then releases whoever waits.\<close>

definition leader_leave :: "leader \<Rightarrow> flight \<Rightarrow> flight" where
  "leader_leave ld fl = fl\<lparr>fl_calls := (fl_calls fl)(ld_key ld := None)\<rparr>"

definition leader_release :: "leader \<Rightarrow> flight \<Rightarrow> flight \<times> nat list" where
  "leader_release ld fl = (if ld_published ld then (fl, []) else heap_publish (ld_call ld) Abandoned fl)"

definition leader_drop :: "leader \<Rightarrow> flight \<Rightarrow> flight \<times> nat list" where
  "leader_drop ld fl = leader_release ld (leader_leave ld fl)"

section \<open>The reachable states\<close>

text \<open>The live guards, those in the middle of their drop, the callers that joined, the tasks parked on a call and
  those woken.\<close>

record system =
  sy_flight :: flight
  sy_leaders :: "leader set"
  sy_leaving :: "leader set"
  sy_followers :: "nat set"
  sy_parked :: "(nat \<times> nat) set"
  sy_woken :: "(nat \<times> nat) set"

definition start :: system where
  "start = \<lparr> sy_flight = flight_new, sy_leaders = {}, sy_leaving = {}, sy_followers = {}, sy_parked = {}, sy_woken = {} \<rparr>"

inductive flight_step :: "system \<Rightarrow> system \<Rightarrow> bool" where
  lead: "flight_enter key (sy_flight s) = (fl, Leader ld) \<Longrightarrow>
    flight_step s (s\<lparr>sy_flight := fl, sy_leaders := insert ld (sy_leaders s)\<rparr>)"
| join: "flight_enter key (sy_flight s) = (fl, Follower i) \<Longrightarrow>
    flight_step s (s\<lparr>sy_flight := fl, sy_followers := insert i (sy_followers s)\<rparr>)"
| publish: "ld \<in> sy_leaders s \<Longrightarrow> leader_publish ld out (sy_flight s) = (fl, ld', wakers) \<Longrightarrow>
    flight_step s (s\<lparr>sy_flight := fl, sy_leaders := insert ld' (sy_leaders s - {ld}),
      sy_woken := sy_woken s \<union> {ld_call ld} \<times> set wakers\<rparr>)"
| leave: "ld \<in> sy_leaders s \<Longrightarrow>
    flight_step s (s\<lparr>sy_flight := leader_leave ld (sy_flight s), sy_leaders := sy_leaders s - {ld},
      sy_leaving := insert ld (sy_leaving s)\<rparr>)"
| release: "ld \<in> sy_leaving s \<Longrightarrow> leader_release ld (sy_flight s) = (fl, wakers) \<Longrightarrow>
    flight_step s (s\<lparr>sy_flight := fl, sy_leaving := sy_leaving s - {ld},
      sy_woken := sy_woken s \<union> {ld_call ld} \<times> set wakers\<rparr>)"
| park: "i \<in> sy_followers s \<Longrightarrow> call_poll waker (fl_heap (sy_flight s) i) = (c, None) \<Longrightarrow>
    flight_step s (s\<lparr>sy_flight := (sy_flight s)\<lparr>fl_heap := (fl_heap (sy_flight s))(i := c)\<rparr>,
      sy_parked := insert (i, waker) (sy_parked s)\<rparr>)"

inductive reachable :: "system \<Rightarrow> bool" where
  initially: "reachable start"
| afterwards: "reachable s \<Longrightarrow> flight_step s s' \<Longrightarrow> reachable s'"

inductive_cases flight_stepE: "flight_step s s'"

section \<open>The invariant\<close>

abbreviation slot :: "system \<Rightarrow> nat \<Rightarrow> outcome option" where
  "slot s i \<equiv> cl_outcome (fl_heap (sy_flight s) i)"

abbreviation guards :: "system \<Rightarrow> leader set" where
  "guards s \<equiv> sy_leaders s \<union> sy_leaving s"

text \<open>Each live guard has its call in the table, and the table holds nothing else; a guard, leaving or not, knows
  whether its call is published, and shares it with no other; and a call not published has a guard.\<close>

definition guards_ok :: "system \<Rightarrow> bool" where
  "guards_ok s =
    ((\<forall>ld \<in> sy_leaders s. fl_calls (sy_flight s) (ld_key ld) = Some (ld_call ld))
     \<and> (\<forall>ld \<in> guards s. ld_call ld < fl_next (sy_flight s) \<and> (ld_published ld \<longleftrightarrow> slot s (ld_call ld) \<noteq> None))
     \<and> (\<forall>ld \<in> guards s. \<forall>ld' \<in> guards s. ld_call ld = ld_call ld' \<longrightarrow> ld = ld')
     \<and> (\<forall>key i. fl_calls (sy_flight s) key = Some i \<longrightarrow> (\<exists>ld \<in> sy_leaders s. ld_key ld = key \<and> ld_call ld = i))
     \<and> (\<forall>i < fl_next (sy_flight s). slot s i = None \<longrightarrow> (\<exists>ld \<in> guards s. ld_call ld = i))
     \<and> sy_leaders s \<inter> sy_leaving s = {}
     \<and> sy_followers s \<subseteq> {i. i < fl_next (sy_flight s)})"

text \<open>Whoever parked on a call is on its list until it is published, and woken from then on.\<close>

definition wakers_ok :: "system \<Rightarrow> bool" where
  "wakers_ok s = (\<forall>(i, waker) \<in> sy_parked s. i < fl_next (sy_flight s) \<and>
     (if slot s i = None then waker \<in> set (cl_wakers (fl_heap (sy_flight s) i))
      else (i, waker) \<in> sy_woken s))"

lemma start_ok: "guards_ok start" "wakers_ok start"
  by (simp_all add: start_def flight_new_def guards_ok_def wakers_ok_def)

lemma guards_okD:
  assumes "guards_ok s"
  shows "ld \<in> sy_leaders s \<Longrightarrow> fl_calls (sy_flight s) (ld_key ld) = Some (ld_call ld)"
    "ld \<in> guards s \<Longrightarrow> ld_published ld \<longleftrightarrow> slot s (ld_call ld) \<noteq> None"
    "\<lbrakk>ld \<in> guards s; ld' \<in> guards s; ld_call ld = ld_call ld'\<rbrakk> \<Longrightarrow> ld = ld'"
    "ld \<in> guards s \<Longrightarrow> ld_call ld < fl_next (sy_flight s)"
    "fl_calls (sy_flight s) key = Some i \<Longrightarrow> \<exists>ld \<in> sy_leaders s. ld_key ld = key \<and> ld_call ld = i"
    "\<lbrakk>i < fl_next (sy_flight s); slot s i = None\<rbrakk> \<Longrightarrow> \<exists>ld \<in> guards s. ld_call ld = i"
    "i \<in> sy_followers s \<Longrightarrow> i < fl_next (sy_flight s)"
    "ld \<in> sy_leaders s \<Longrightarrow> ld \<notin> sy_leaving s"
  using assms unfolding guards_ok_def by blast+

lemma guards_okI:
  assumes "\<And>ld. ld \<in> sy_leaders s \<Longrightarrow> fl_calls (sy_flight s) (ld_key ld) = Some (ld_call ld)"
    and "\<And>ld. ld \<in> guards s \<Longrightarrow> ld_published ld \<longleftrightarrow> slot s (ld_call ld) \<noteq> None"
    and "\<And>ld ld'. \<lbrakk>ld \<in> guards s; ld' \<in> guards s; ld_call ld = ld_call ld'\<rbrakk> \<Longrightarrow> ld = ld'"
    and "\<And>ld. ld \<in> guards s \<Longrightarrow> ld_call ld < fl_next (sy_flight s)"
    and "\<And>key i. fl_calls (sy_flight s) key = Some i \<Longrightarrow>
      \<exists>ld \<in> sy_leaders s. ld_key ld = key \<and> ld_call ld = i"
    and "\<And>i. \<lbrakk>i < fl_next (sy_flight s); slot s i = None\<rbrakk> \<Longrightarrow> \<exists>ld \<in> guards s. ld_call ld = i"
    and "\<And>i. i \<in> sy_followers s \<Longrightarrow> i < fl_next (sy_flight s)"
    and "\<And>ld. ld \<in> sy_leaders s \<Longrightarrow> ld \<notin> sy_leaving s"
  shows "guards_ok s"
  unfolding guards_ok_def using assms by blast

lemma step_guards_ok:
  assumes "flight_step s s'" and "guards_ok s"
  shows "guards_ok s'"
  using assms(1)
proof cases
  case (lead key fl ld)
  let ?i = "fl_next (sy_flight s)"
  from lead(2) have absent: "fl_calls (sy_flight s) key = None"
    and ld: "ld = \<lparr> ld_key = key, ld_call = ?i, ld_published = False \<rparr>"
    and fl: "fl = (sy_flight s)\<lparr>fl_calls := (fl_calls (sy_flight s))(key \<mapsto> ?i),
        fl_heap := (fl_heap (sy_flight s))(?i := call_new), fl_next := ?i + 1\<rparr>"
    by (auto simp: flight_enter_def Let_def split: option.splits)
  note was = guards_okD [OF assms(2)]
  have old: "ld_call l < ?i" "ld_call l \<noteq> ?i" "l \<noteq> ld" if "l \<in> guards s" for l
    using was(4) [OF that] by (auto simp: ld)
  have key: "ld_key l \<noteq> key" if "l \<in> sy_leaders s" for l
    using was(1) [OF that] absent by auto
  show ?thesis
    unfolding lead(1)
  proof (rule guards_okI, goal_cases)
    case (1 l)
    then show ?case
      using was(1) key by (auto simp: ld fl)
  next
    case (2 l)
    then consider "l = ld" | "l \<in> guards s"
      by auto
    then show ?case
      using was(2) old by cases (auto simp: ld fl call_new_def)
  next
    case (3 l l')
    then have "l = ld \<or> l \<in> guards s" "l' = ld \<or> l' \<in> guards s"
      by auto
    with 3(3) show ?case
      using was(3) old(2) [of l] old(2) [of l'] by (auto simp: ld)
  next
    case (4 l)
    then have "l = ld \<or> l \<in> guards s"
      by auto
    then show ?case
      using old(1) [of l] by (auto simp: ld fl)
  next
    case (5 k i)
    then show ?case
      using was(5) by (auto simp: fl ld split: if_splits)
  next
    case (6 i)
    then show ?case
      using was(6) [of i] by (cases "i = ?i") (auto simp: fl ld less_Suc_eq)
  next
    case (7 i)
    then show ?case
      using was(7) by (auto simp: fl less_Suc_eq)
  next
    case (8 l)
    then show ?case
      using was(8) old(3) by auto
  qed
next
  case (join key fl i)
  then have "fl = sy_flight s" "fl_calls (sy_flight s) key = Some i"
    by (auto simp: flight_enter_def Let_def split: option.splits)
  moreover from guards_okD(5) [OF assms(2) this(2)] guards_okD(4) [OF assms(2)] have "i < fl_next (sy_flight s)"
    by auto
  ultimately show ?thesis
    using assms(2) join(1) by (simp add: guards_ok_def)
next
  case (publish ld out fl ld' wakers)
  from publish(3) have ld': "ld' = ld\<lparr>ld_published := True\<rparr>"
    and fl: "fl_calls fl = fl_calls (sy_flight s)" "fl_next fl = fl_next (sy_flight s)"
      "cl_outcome (fl_heap fl i) = (if i = ld_call ld
         then Some (case slot s i of None \<Rightarrow> out | Some o' \<Rightarrow> o') else slot s i)" for i
    by (auto simp: leader_publish_def heap_publish_def call_publish_def split: prod.splits if_splits)
  note was = guards_okD [OF assms(2)]
  have other: "ld_call l \<noteq> ld_call ld" if "l \<in> guards s" "l \<noteq> ld" for l
    using was(3) [OF that(1)] publish(2) that(2) by auto
  have member: "l = ld' \<or> l \<in> guards s \<and> l \<noteq> ld" if "l \<in> insert ld' (sy_leaders s - {ld}) \<union> sy_leaving s" for l
    using that was(8) [OF publish(2)] by auto
  show ?thesis
    unfolding publish(1)
  proof (rule guards_okI, goal_cases)
    case (1 l)
    then show ?case
      using was(1) publish(2) by (auto simp: ld' fl)
  next
    case (2 l)
    then have "l = ld' \<or> l \<in> guards s \<and> l \<noteq> ld"
      using member by simp
    then show ?case
    proof (elim disjE conjE)
      assume l: "l \<in> guards s" "l \<noteq> ld"
      from was(2) [OF l(1)] other [OF l] show ?thesis
        by (simp add: fl)
    qed (simp add: ld' fl)
  next
    case (3 l l')
    then show ?case
      using was(3) other [of l] other [of l'] member [of l] member [of l'] by (auto simp: ld')
  next
    case (4 l)
    then show ?case
      using was(4) publish(2) member [of l] by (auto simp: ld' fl)
  next
    case (5 k i)
    then show ?case
      using was(5) publish(2) by (auto simp: fl ld')
  next
    case (6 i)
    then show ?case
      using was(6) by (auto simp: fl ld' split: if_splits)
  next
    case (8 l)
    have "ld' \<notin> sy_leaving s"
    proof
      assume "ld' \<in> sy_leaving s"
      with was(3) [of ld' ld] publish(2) have "ld' = ld"
        by (simp add: ld')
      with \<open>ld' \<in> sy_leaving s\<close> was(8) [OF publish(2)] show False
        by simp
    qed
    with 8 show ?case
      using was(8) by auto
  qed (use was(7) in \<open>auto simp: fl\<close>)
next
  case (leave ld)
  note was = guards_okD [OF assms(2)]
  have other: "ld_key l \<noteq> ld_key ld" if "l \<in> sy_leaders s - {ld}" for l
    using was(3) [of l ld] was(1) [OF leave(2)] was(1) [of l] leave(2) that by auto
  have same: "guards (s\<lparr>sy_flight := leader_leave ld (sy_flight s), sy_leaders := sy_leaders s - {ld},
      sy_leaving := insert ld (sy_leaving s)\<rparr>) = guards s"
    using leave(2) by auto
  show ?thesis
    unfolding leave(1)
  proof (rule guards_okI, goal_cases)
    case (1 l)
    then show ?case
      using was(1) other by (auto simp: leader_leave_def)
  next
    case (5 k i)
    then show ?case
      using was(5) by (auto simp: leader_leave_def split: if_splits)
  next
    case (8 l)
    then show ?case
      using was(8) by auto
  qed (unfold same, use was(2-4,6,7) in \<open>simp_all add: leader_leave_def\<close>)
next
  case (release ld fl wakers)
  from release(3) have fl: "fl_calls fl = fl_calls (sy_flight s)" "fl_next fl = fl_next (sy_flight s)"
    "cl_outcome (fl_heap fl i) = (if i = ld_call ld \<and> slot s i = None \<and> \<not> ld_published ld
       then Some Abandoned else slot s i)" for i
    by (auto simp: leader_release_def heap_publish_def call_publish_def split: prod.splits if_splits)
  note was = guards_okD [OF assms(2)]
  have other: "ld_call l \<noteq> ld_call ld" if "l \<in> guards s" "l \<noteq> ld" for l
    using was(3) [OF that(1)] release(2) that(2) by auto
  have member: "l \<in> guards s \<and> l \<noteq> ld" if "l \<in> sy_leaders s \<union> (sy_leaving s - {ld})" for l
    using that was(8) release(2) by auto
  show ?thesis
    unfolding release(1)
  proof (rule guards_okI, goal_cases)
    case (2 l)
    then show ?case
      using was(2) other member [of l] by (auto simp: fl)
  next
    case (6 i)
    then have "i < fl_next (sy_flight s)" "slot s i = None" "i \<noteq> ld_call ld"
      using was(2) [of ld] release(2) by (auto simp: fl split: if_splits)
    with was(6) [of i] was(8) release(2) show ?case
      by auto
  qed (use was(1,3,4,5,7,8) in \<open>auto simp: fl\<close>)
next
  case (park i waker c)
  then have "cl_outcome c = slot s i"
    by (auto simp: call_poll_def split: option.splits if_splits)
  with assms(2) show ?thesis
    unfolding guards_ok_def park(1) by auto
qed

lemma step_wakers_ok:
  assumes "flight_step s s'" and "guards_ok s" and "wakers_ok s"
  shows "wakers_ok s'"
  using assms(1)
proof cases
  case (lead key fl ld)
  then have "fl_heap fl = (fl_heap (sy_flight s))(fl_next (sy_flight s) := call_new)"
    "fl_next fl = fl_next (sy_flight s) + 1"
    by (auto simp: flight_enter_def Let_def split: option.splits)
  with assms(3) lead(1) show ?thesis
    by (fastforce simp: wakers_ok_def)
next
  case (join key fl i)
  then have "fl = sy_flight s"
    by (auto simp: flight_enter_def Let_def split: option.splits)
  with assms(3) join(1) show ?thesis
    by (fastforce simp: wakers_ok_def)
next
  case (publish ld out fl ld' wakers)
  from publish(3) have fl: "fl_next fl = fl_next (sy_flight s)"
    and heap: "fl_heap fl = (fl_heap (sy_flight s))
      (ld_call ld := fst (call_publish out (fl_heap (sy_flight s) (ld_call ld))))"
    and woken: "wakers = snd (call_publish out (fl_heap (sy_flight s) (ld_call ld)))"
    by (auto simp: leader_publish_def heap_publish_def split: prod.splits)
  from assms(3) show ?thesis
    by (fastforce simp: wakers_ok_def publish(1) fl heap woken call_publish_def split: if_splits)
next
  case (leave ld)
  with assms(3) show ?thesis
    by (fastforce simp: wakers_ok_def leader_leave_def split: if_splits)
next
  case (release ld fl wakers)
  show ?thesis
  proof (cases "ld_published ld")
    case True
    with release(3) have "fl = sy_flight s"
      by (simp add: leader_release_def)
    with assms(3) show ?thesis
      by (fastforce simp: wakers_ok_def release(1) split: if_splits)
  next
    case False
    with release(3) have fl: "fl_next fl = fl_next (sy_flight s)"
      and heap: "fl_heap fl = (fl_heap (sy_flight s))
        (ld_call ld := fst (call_publish Abandoned (fl_heap (sy_flight s) (ld_call ld))))"
      and woken: "wakers = snd (call_publish Abandoned (fl_heap (sy_flight s) (ld_call ld)))"
      by (auto simp: leader_release_def heap_publish_def split: prod.splits)
    from assms(3) show ?thesis
      by (fastforce simp: wakers_ok_def release(1) fl heap woken call_publish_def split: if_splits)
  qed
next
  case (park i waker c)
  then have "slot s i = None" "cl_outcome c = None"
    "set (cl_wakers c) = insert waker (set (cl_wakers (fl_heap (sy_flight s) i)))"
    by (auto simp: call_poll_def split: option.splits if_splits)
  with assms(3) guards_okD(7) [OF assms(2) park(2)] show ?thesis
    by (fastforce simp: wakers_ok_def park(1) split: if_splits)
qed

lemma reachable_ok: "reachable s \<Longrightarrow> guards_ok s \<and> wakers_ok s"
  by (induction rule: reachable.induct) (auto intro: start_ok step_guards_ok step_wakers_ok)

lemma slot_final:
  assumes "flight_step s s'" and "guards_ok s" and "i < fl_next (sy_flight s)" and "slot s i = Some out"
  shows "slot s' i = Some out"
  using assms(1)
proof cases
  case (publish ld out' fl ld' wakers)
  with assms(4) show ?thesis
    by (auto simp: leader_publish_def heap_publish_def call_publish_def split: prod.splits if_splits)
next
  case (release ld fl wakers)
  with assms(4) show ?thesis
    by (auto simp: leader_release_def heap_publish_def call_publish_def split: prod.splits if_splits)
next
  case (park i' waker c)
  with assms(4) show ?thesis
    by (auto simp: call_poll_def split: option.splits if_splits)
qed (use assms(3,4) in \<open>auto simp: flight_enter_def leader_leave_def Let_def split: option.splits\<close>)

section \<open>Properties\<close>

text \<open>C11. However the callers of a cache interleave, at most one of them computes a key at a
  time.\<close>

theorem one_leader_per_key:
  assumes "reachable s" and "ld \<in> sy_leaders s" and "ld' \<in> sy_leaders s" and "ld_key ld = ld_key ld'"
  shows "ld = ld'"
proof -
  have ok: "guards_ok s"
    using reachable_ok [OF assms(1)] by simp
  from guards_okD(1) [OF ok assms(2)] guards_okD(1) [OF ok assms(3)] assms(4)
  have "ld_call ld = ld_call ld'"
    by simp
  with guards_okD(3) [OF ok, of ld ld'] assms(2,3) show ?thesis
    by blast
qed

text \<open>C10. A caller that waits is never stranded: while a call that some caller joined has no outcome, its guard is
  there, alive or in the middle of its drop; and when that guard releases its waiters, as the drop of a guard that
  published nothing does after leaving the table, the call has an outcome, and every task parked on it, if not more,
  is on the list of those to wake.\<close>

theorem no_waiter_stranded:
  assumes "reachable s" and "i \<in> sy_followers s"
    and "call_wait (fl_heap (sy_flight s) i) = None"
  shows "\<exists>ld \<in> sy_leaders s \<union> sy_leaving s. ld_call ld = i
    \<and> (\<forall>fl \<in> {sy_flight s, leader_leave ld (sy_flight s)}.
        call_wait (fl_heap (fst (leader_release ld fl)) i) = Some Abandoned
        \<and> {waker. (i, waker) \<in> sy_parked s} \<subseteq> set (snd (leader_release ld fl)))"
proof -
  have ok: "guards_ok s" "wakers_ok s"
    using reachable_ok [OF assms(1)] by simp_all
  have none: "slot s i = None"
    using assms(3) by (simp add: call_wait_def)
  from guards_okD(6) [OF ok(1) guards_okD(7) [OF ok(1) assms(2)] none]
  obtain ld where ld: "ld \<in> guards s" "ld_call ld = i"
    by blast
  with guards_okD(2) [OF ok(1) ld(1)] none have "\<not> ld_published ld"
    by simp
  with ld none ok(2) show ?thesis
    by (intro bexI [of _ ld])
      (auto simp: leader_release_def leader_leave_def heap_publish_def call_publish_def call_wait_def wakers_ok_def)
qed

text \<open>An outcome is published once: every caller that joined a computation, at any time, reads
  the same one, and whoever parked before is woken by it.\<close>

theorem outcome_is_final:
  assumes "reachable s" and "flight_step s s'" and "i \<in> sy_followers s"
    and "call_wait (fl_heap (sy_flight s) i) = Some out"
  shows "call_wait (fl_heap (sy_flight s') i) = Some out
    \<and> {i} \<times> {waker. (i, waker) \<in> sy_parked s} \<subseteq> sy_woken s"
proof -
  have ok: "guards_ok s" "wakers_ok s"
    using reachable_ok [OF assms(1)] by simp_all
  with assms(4) slot_final [OF assms(2) ok(1) guards_okD(7) [OF ok(1) assms(3)]]
  show ?thesis
    by (auto simp: call_wait_def wakers_ok_def)
qed

section \<open>A concrete run\<close>

text \<open>One caller leads and one joins and parks.\<close>

definition one_led :: system where
  "one_led = start\<lparr>sy_flight := fst (flight_enter ''k'' flight_new),
     sy_leaders := {\<lparr> ld_key = ''k'', ld_call = 0, ld_published = False \<rparr>}\<rparr>"

definition one_joined :: system where
  "one_joined = one_led\<lparr>sy_followers := {0}\<rparr>"

definition one_parked :: system where
  "one_parked = one_joined\<lparr>sy_flight := (sy_flight one_joined)\<lparr>fl_heap :=
      (fl_heap (sy_flight one_joined))(0 := call_new\<lparr>cl_wakers := [7]\<rparr>)\<rparr>, sy_parked := {(0, 7)}\<rparr>"

definition one_published :: system where
  "one_published = one_parked\<lparr>sy_flight := fst (leader_publish
        \<lparr> ld_key = ''k'', ld_call = 0, ld_published = False \<rparr> (Ready [1]) (sy_flight one_parked)),
      sy_leaders := {\<lparr> ld_key = ''k'', ld_call = 0, ld_published = True \<rparr>}, sy_woken := {(0, 7)}\<rparr>"

lemmas demo_defs = one_led_def one_joined_def one_parked_def one_published_def start_def flight_new_def
  flight_enter_def leader_publish_def leader_leave_def leader_release_def heap_publish_def call_publish_def call_poll_def
  call_new_def call_wait_def

lemma one_led_reachable: "reachable one_led"
  using afterwards [OF initially flight_step.lead [of "''k''" start]] by (simp add: demo_defs)

lemma one_joined_reachable: "reachable one_joined"
  using afterwards [OF one_led_reachable flight_step.join [of "''k''" one_led]]
  by (simp add: demo_defs)

lemma one_parked_reachable: "reachable one_parked"
  using afterwards [OF one_joined_reachable flight_step.park [of 0 one_joined 7]]
  by (simp add: demo_defs)

lemma one_published_reachable: "reachable one_published"
  using afterwards [OF one_parked_reachable flight_step.publish
      [of "\<lparr> ld_key = ''k'', ld_call = 0, ld_published = False \<rparr>" one_parked "Ready [1]"]]
  by (simp add: demo_defs)

theorem one_leader_per_key_witness:
  "{ld \<in> sy_leaders one_published. ld_key ld = ''k''}
    = {\<lparr> ld_key = ''k'', ld_call = 0, ld_published = True \<rparr>}"
proof -
  let ?ld = "\<lparr> ld_key = ''k'', ld_call = 0, ld_published = True \<rparr>"
  have leads: "?ld \<in> sy_leaders one_published"
    by (simp add: one_published_def)
  show ?thesis
  proof (intro equalityI subsetI)
    fix ld
    assume "ld \<in> {ld \<in> sy_leaders one_published. ld_key ld = ''k''}"
    then have "ld \<in> sy_leaders one_published" "ld_key ld = ld_key ?ld"
      by simp_all
    from one_leader_per_key [OF one_published_reachable this(1) leads this(2)]
    show "ld \<in> {?ld}" by simp
  qed (use leads in simp)
qed

theorem no_waiter_stranded_witness:
  "\<exists>ld. ld \<in> sy_leaders one_parked
    \<and> call_wait (fl_heap (fst (leader_release ld (sy_flight one_parked))) 0) = Some Abandoned
    \<and> {waker. (0, waker) \<in> {(0 :: nat, 7 :: nat)}} \<subseteq> set (snd (leader_release ld (sy_flight one_parked)))"
  using no_waiter_stranded [OF one_parked_reachable, of 0] by (auto simp: demo_defs)

theorem outcome_is_final_witness:
  "call_wait (fl_heap (sy_flight one_published) 0) = Some (Ready [1])
    \<and> {0} \<times> {7} \<subseteq> sy_woken one_published"
proof -
  let ?ld = "\<lparr> ld_key = ''k'', ld_call = 0, ld_published = True \<rparr>"
  have "flight_step one_published (one_published\<lparr>sy_flight := leader_leave ?ld (sy_flight one_published),
      sy_leaders := sy_leaders one_published - {?ld}, sy_leaving := insert ?ld (sy_leaving one_published)\<rparr>)"
    by (rule flight_step.leave) (simp add: one_published_def)
  note final = outcome_is_final [OF one_published_reachable this, of 0 "Ready [1]"]
  have now: "0 \<in> sy_followers one_published" "sy_parked one_published = {(0, 7)}"
    "call_wait (fl_heap (sy_flight one_published) 0) = Some (Ready [1])"
    by (simp_all add: demo_defs)
  from final [OF now(1,3)] have "{0} \<times> {7} \<subseteq> sy_woken one_published"
    by (simp add: now(2))
  with now(3) show ?thesis ..
qed

end
