(* ===== verification/Memo.thy ===== *)
theory Memo
  imports Cache_Props Memo_Keys Flight
begin

text \<open>
  \<open>memo/mod.rs\<close> and \<open>memo/get_or_compute_async.rs\<close>: reading a typed value through a store, or
  computing it once for everybody who asks. The store is any of the tiers, through its step; the
  computation acts on a world of its own, may fail, and may panic. The asynchronous path does
  the same through the same functions, polling the call where the other blocks on it.
\<close>

section \<open>Reading and computing\<close>

definition decode_entry :: "'a postcard \<Rightarrow> nat \<Rightarrow> bytes \<Rightarrow> (bytes \<times> 'a) option" where
  "decode_entry pc fingerprint b = map_option (\<lambda>v. (b, v)) (header_decode pc fingerprint b)"

text \<open>A store that fails is a miss.\<close>

definition load_raw ::
    "'a postcard \<Rightarrow> (readings \<Rightarrow> cache_call \<Rightarrow> 's \<Rightarrow> 's \<times> cache_answer) \<Rightarrow> nat \<Rightarrow> readings \<Rightarrow> string \<Rightarrow> 's
      \<Rightarrow> 's \<times> (bytes \<times> 'a) option" where
  "load_raw pc step fingerprint c key s =
    (case step c (Get key) s of (s, answer) \<Rightarrow>
       (s, case answer of Got (Some b) \<Rightarrow> decode_entry pc fingerprint b | _ \<Rightarrow> None))"

fun into_error :: "outcome \<Rightarrow> memo_error option" where
  "into_error (Ready b) = None"
| "into_error (Compute_Failed e) = Some (Compute e)"
| "into_error (Encode_Failed e) = Some (Encode e)"
| "into_error Abandoned = Some Compute_Abandoned"

definition resolve :: "'a postcard \<Rightarrow> nat \<Rightarrow> outcome \<Rightarrow> memo_error + 'a" where
  "resolve pc fingerprint out =
    (case out of
       Ready b \<Rightarrow> ok_or (header_decode pc fingerprint b) Compute_Abandoned
     | _ \<Rightarrow> Inl (case into_error out of Some e \<Rightarrow> e | None \<Rightarrow> Compute_Abandoned))"

text \<open>What the callers share, and the world of the computation.\<close>

record ('s, 'w) memo =
  mm_store :: 's
  mm_flight :: flight
  mm_world :: 'w

definition publish_compute_error :: "leader \<Rightarrow> string \<Rightarrow> flight \<Rightarrow> flight \<times> leader \<times> memo_error" where
  "publish_compute_error ld e fl =
    (case leader_publish ld (Compute_Failed e) fl of (fl, ld, wakers) \<Rightarrow> (fl, ld, Compute e))"

definition encode_or_publish ::
    "'a postcard \<Rightarrow> leader \<Rightarrow> nat \<Rightarrow> 'a \<Rightarrow> flight \<Rightarrow> flight \<times> leader \<times> (memo_error + bytes)" where
  "encode_or_publish pc ld fingerprint v fl =
    (case header_encode pc fingerprint v of
       Inr b \<Rightarrow> (fl, ld, Inr b)
     | Inl e \<Rightarrow> (case leader_publish ld (Encode_Failed e) fl of (fl, ld, wakers) \<Rightarrow> (fl, ld, Inl (Encode e))))"

text \<open>What the leader does before its guard is dropped: look again, compute, store, publish.
  \<open>None\<close> is a panic of the computation. Call \<open>i\<close> of the store has its own readings \<open>cs i\<close>.\<close>

definition lead_unguarded ::
    "'a postcard \<Rightarrow> (readings \<Rightarrow> cache_call \<Rightarrow> 's \<Rightarrow> 's \<times> cache_answer) \<Rightarrow> ('w \<Rightarrow> 'w \<times> (string + 'a) option)
      \<Rightarrow> nat \<Rightarrow> (nat \<Rightarrow> readings) \<Rightarrow> string \<Rightarrow> nat \<Rightarrow> leader \<Rightarrow> ('s, 'w) memo
      \<Rightarrow> ('s, 'w) memo \<times> leader \<times> (memo_error + 'a) option" where
  "lead_unguarded pc step compute fingerprint cs key ttl ld m =
    (case load_raw pc step fingerprint (cs 1) key (mm_store m) of (s, found) \<Rightarrow>
       let m = m\<lparr>mm_store := s\<rparr> in
       case found of
         Some (b, v) \<Rightarrow>
           (case leader_publish ld (Ready b) (mm_flight m) of (fl, ld, wakers) \<Rightarrow>
              (m\<lparr>mm_flight := fl\<rparr>, ld, Some (Inr v)))
       | None \<Rightarrow>
           (case compute (mm_world m) of (w, computed) \<Rightarrow>
              let m = m\<lparr>mm_world := w\<rparr> in
              case computed of
                None \<Rightarrow> (m, ld, None)
              | Some (Inl e) \<Rightarrow>
                  (case publish_compute_error ld e (mm_flight m) of (fl, ld, err) \<Rightarrow>
                     (m\<lparr>mm_flight := fl\<rparr>, ld, Some (Inl err)))
              | Some (Inr v) \<Rightarrow>
                  (case encode_or_publish pc ld fingerprint v (mm_flight m) of (fl, ld, encoded) \<Rightarrow>
                     (case encoded of
                        Inl err \<Rightarrow> (m\<lparr>mm_flight := fl\<rparr>, ld, Some (Inl err))
                      | Inr b \<Rightarrow>
                          (case step (cs 2) (Set key b ttl) (mm_store m) of (s, answer) \<Rightarrow>
                           case leader_publish ld (Ready b) fl of (fl, ld, wakers) \<Rightarrow>
                             (m\<lparr>mm_store := s, mm_flight := fl\<rparr>, ld, Some (Inr v)))))))"

definition lead_computation ::
    "'a postcard \<Rightarrow> (readings \<Rightarrow> cache_call \<Rightarrow> 's \<Rightarrow> 's \<times> cache_answer) \<Rightarrow> ('w \<Rightarrow> 'w \<times> (string + 'a) option)
      \<Rightarrow> nat \<Rightarrow> (nat \<Rightarrow> readings) \<Rightarrow> string \<Rightarrow> nat \<Rightarrow> leader \<Rightarrow> ('s, 'w) memo
      \<Rightarrow> ('s, 'w) memo \<times> (memo_error + 'a) option" where
  "lead_computation pc step compute fingerprint cs key ttl ld m =
    (case lead_unguarded pc step compute fingerprint cs key ttl ld m of (m, ld, result) \<Rightarrow>
       (m\<lparr>mm_flight := fst (leader_drop ld (mm_flight m))\<rparr>, result))"

text \<open>A caller either ends, or waits for the call it joined, whose outcome it then resolves.\<close>

datatype 'a asked = Waits nat | Ends "(memo_error + 'a) option"

definition get_or_compute ::
    "'a postcard \<Rightarrow> (readings \<Rightarrow> cache_call \<Rightarrow> 's \<Rightarrow> 's \<times> cache_answer) \<Rightarrow> ('w \<Rightarrow> 'w \<times> (string + 'a) option)
      \<Rightarrow> nat \<Rightarrow> (nat \<Rightarrow> readings) \<Rightarrow> string \<Rightarrow> nat \<Rightarrow> ('s, 'w) memo \<Rightarrow> ('s, 'w) memo \<times> 'a asked" where
  "get_or_compute pc step compute fingerprint cs key ttl m =
    (case load_raw pc step fingerprint (cs 0) key (mm_store m) of (s, found) \<Rightarrow>
       let m = m\<lparr>mm_store := s\<rparr> in
       case found of
         Some (b, v) \<Rightarrow> (m, Ends (Some (Inr v)))
       | None \<Rightarrow>
           (case flight_enter (flight_key fingerprint key) (mm_flight m) of
              (fl, Follower i) \<Rightarrow> (m\<lparr>mm_flight := fl\<rparr>, Waits i)
            | (fl, Leader ld) \<Rightarrow>
                (case lead_computation pc step compute fingerprint cs key ttl ld (m\<lparr>mm_flight := fl\<rparr>) of
                   (m, result) \<Rightarrow> (m, Ends result))))"

section \<open>Outcomes\<close>

lemma leader_publish_spec:
  assumes "leader_publish ld out fl = (fl', ld', wakers)" and "cl_outcome (fl_heap fl (ld_call ld)) = None"
  shows "ld' = ld\<lparr>ld_published := True\<rparr>" "fl_calls fl' = fl_calls fl" "fl_next fl' = fl_next fl"
    "cl_outcome (fl_heap fl' (ld_call ld)) = Some out"
  using assms by (auto simp: leader_publish_def heap_publish_def call_publish_def split: prod.splits)

text \<open>Where the leader published before its guard went, its outcome stays; where it did not, it is
  abandoned.\<close>

lemma leader_drop_outcome:
  "cl_outcome (fl_heap (fst (leader_drop ld fl)) (ld_call ld)) =
    (if ld_published ld then cl_outcome (fl_heap fl (ld_call ld))
     else Some (case cl_outcome (fl_heap fl (ld_call ld)) of Some out \<Rightarrow> out | None \<Rightarrow> Abandoned))"
  "fl_calls (fst (leader_drop ld fl)) = (fl_calls fl)(ld_key ld := None)"
  by (auto simp: leader_drop_def leader_leave_def leader_release_def heap_publish_def call_publish_def)

lemma lead_unguarded_spec:
  assumes "postcard_ok pc" and "fp < 2 ^ 64"
    and "cl_outcome (fl_heap (mm_flight m) (ld_call ld)) = None" and "\<not> ld_published ld"
    and "lead_unguarded pc step compute fp cs key ttl ld m = (m', ld', result)"
  shows "ld_call ld' = ld_call ld" "ld_key ld' = ld_key ld"
    "fl_calls (mm_flight m') = fl_calls (mm_flight m)"
    "case result of
       None \<Rightarrow> \<not> ld_published ld' \<and> cl_outcome (fl_heap (mm_flight m') (ld_call ld)) = None
     | Some r \<Rightarrow> ld_published ld' \<and> (\<exists>out. cl_outcome (fl_heap (mm_flight m') (ld_call ld)) = Some out
         \<and> resolve pc fp out = r)"
proof -
  have "ld_call ld' = ld_call ld \<and> ld_key ld' = ld_key ld
    \<and> fl_calls (mm_flight m') = fl_calls (mm_flight m)
    \<and> (case result of
       None \<Rightarrow> \<not> ld_published ld' \<and> cl_outcome (fl_heap (mm_flight m') (ld_call ld)) = None
     | Some r \<Rightarrow> ld_published ld' \<and> (\<exists>out. cl_outcome (fl_heap (mm_flight m') (ld_call ld)) = Some out
         \<and> resolve pc fp out = r))" (is ?goal)
  proof -
    obtain s found where load: "load_raw pc step fp (cs 1) key (mm_store m) = (s, found)"
      by fastforce
    have publishes: "(ld_call ld' = ld_call ld \<and> ld_key ld' = ld_key ld
      \<and> fl_calls fl' = fl_calls (mm_flight m)) \<and> ld_published ld'
      \<and> cl_outcome (fl_heap fl' (ld_call ld)) = Some out"
      if "leader_publish ld out (mm_flight m) = (fl', ld', wakers)" for out fl' ld' wakers
      using leader_publish_spec [OF that assms(3)] by simp
    show ?goal
    proof (cases found)
      case (Some x)
      obtain b v where x: "x = (b, v)"
        by fastforce
      have "header_decode pc fp b = Some v"
        using load Some x
        by (auto simp: load_raw_def decode_entry_def split: prod.splits cache_answer.splits option.splits)
      with assms(5) load Some x show ?thesis
        by (auto simp: lead_unguarded_def resolve_def ok_or_def split: prod.splits
            dest: publishes)
    next
      case None
      obtain w computed where compute: "compute (mm_world m) = (w, computed)"
        by fastforce
      show ?thesis
      proof (cases computed)
        case None
        with assms(3-5) load \<open>found = None\<close> compute show ?thesis
          by (auto simp: lead_unguarded_def)
      next
        case (Some y)
        show ?thesis
        proof (cases y)
          case (Inl e)
          with assms(5) load \<open>found = None\<close> compute Some show ?thesis
            by (auto simp: lead_unguarded_def publish_compute_error_def resolve_def split: prod.splits
                dest: publishes)
        next
          case (Inr v)
          show ?thesis
          proof (cases "header_encode pc fp v")
            case (Inl e)
            with assms(5) load \<open>found = None\<close> compute Some Inr show ?thesis
              by (auto simp: lead_unguarded_def encode_or_publish_def resolve_def split: prod.splits
                  dest: publishes)
          next
            case (Inr b)
            have "header_decode pc fp b = Some v"
              using header_decode_encode [OF assms(1) Inr, of fp] by simp
            with assms(5) load \<open>found = None\<close> compute Some \<open>y = Inr v\<close> Inr show ?thesis
              by (auto simp: lead_unguarded_def encode_or_publish_def resolve_def ok_or_def
                  split: prod.splits dest: publishes)
          qed
        qed
      qed
    qed
  qed
  then show "ld_call ld' = ld_call ld" "ld_key ld' = ld_key ld"
    "fl_calls (mm_flight m') = fl_calls (mm_flight m)"
    "case result of
       None \<Rightarrow> \<not> ld_published ld' \<and> cl_outcome (fl_heap (mm_flight m') (ld_call ld)) = None
     | Some r \<Rightarrow> ld_published ld' \<and> (\<exists>out. cl_outcome (fl_heap (mm_flight m') (ld_call ld)) = Some out
         \<and> resolve pc fp out = r)"
    by blast+
qed

section \<open>A concrete run\<close>

text \<open>A byte is computed over a store on disk; the world counts the computations.\<close>

definition counting :: "nat \<Rightarrow> nat \<times> (string + byte) option" where
  "counting n = (n + 1, Some (Inr 9))"

definition demo_memo ::
    "(((string \<times> bytes) list, (string \<times> bytes) list) disk_store, nat) memo" where
  "demo_memo = \<lparr> mm_store = plain_disk 1, mm_flight = fst (flight_enter ''k'' flight_new), mm_world = 0 \<rparr>"

definition demo_leader :: leader where
  "demo_leader = \<lparr> ld_key = ''k'', ld_call = 0, ld_published = False \<rparr>"

lemma byte_postcard_ok: "postcard_ok byte_postcard"
  by (simp add: postcard_ok_def byte_postcard_def)

section \<open>Properties\<close>

text \<open>C8. Whoever joins a computation is told what its leader was told: the same value, or the same
  error; when the computation panics, that it was abandoned. Its key is free again afterwards.\<close>

theorem followers_get_the_leaders_result:
  assumes "postcard_ok pc" and "fp < 2 ^ 64"
    and "call_wait (fl_heap (mm_flight m) (ld_call ld)) = None" and "\<not> ld_published ld"
    and "lead_computation pc step compute fp cs key ttl ld m = (m', result)"
  shows "fl_calls (mm_flight m') (ld_key ld) = None
    \<and> (\<exists>out. call_wait (fl_heap (mm_flight m') (ld_call ld)) = Some out
         \<and> resolve pc fp out = (case result of Some r \<Rightarrow> r | None \<Rightarrow> Inl Compute_Abandoned))"
proof -
  obtain m1 ld1 where run: "lead_unguarded pc step compute fp cs key ttl ld m = (m1, ld1, result)"
    and m': "m' = m1\<lparr>mm_flight := fst (leader_drop ld1 (mm_flight m1))\<rparr>"
    using assms(5) by (auto simp: lead_computation_def split: prod.splits)
  note spec = lead_unguarded_spec [OF assms(1,2) assms(3) [unfolded call_wait_def] assms(4) run]
  show ?thesis
    using spec leader_drop_outcome [of ld1 "mm_flight m1"]
    by (cases result) (auto simp: m' call_wait_def resolve_def)
qed

theorem followers_get_the_leaders_result_witness:
  "fl_calls (mm_flight (fst (lead_computation byte_postcard disk_step counting 5 (\<lambda>i. at_second i) ''k''
      (10 ^ 10) demo_leader demo_memo))) ''k'' = None
   \<and> map_option (resolve byte_postcard 5) (call_wait (fl_heap (mm_flight (fst (lead_computation byte_postcard
      disk_step counting 5 (\<lambda>i. at_second i) ''k'' (10 ^ 10) demo_leader demo_memo))) 0)) = Some (Inr 9)"
proof -
  let ?run = "lead_computation byte_postcard disk_step counting 5 (\<lambda>i. at_second i) ''k''
      (10 ^ 10) demo_leader demo_memo"
  have "snd ?run = Some (Inr 9)"
    by code_simp
  then have run: "?run = (fst ?run, Some (Inr 9))"
    by (simp add: prod_eq_iff)
  have "call_wait (fl_heap (mm_flight demo_memo) (ld_call demo_leader)) = None" "\<not> ld_published demo_leader"
    by (simp_all add: demo_memo_def demo_leader_def demo_defs)
  from followers_get_the_leaders_result [OF byte_postcard_ok _ this run]
  show ?thesis
    by (auto simp: demo_leader_def)
qed

text \<open>A hit is answered from the cache: nothing is computed, and no computation in flight is
  joined or started.\<close>

lemma hit_computes_nothing:
  assumes "load_raw pc step fp (cs 0) key (mm_store m) = (s, Some (b, v))"
  shows "get_or_compute pc step compute fp cs key ttl m = (m\<lparr>mm_store := s\<rparr>, Ends (Some (Inr v)))"
  using assms by (simp add: get_or_compute_def)

theorem hit_computes_nothing_witness:
  "mm_world (fst (get_or_compute byte_postcard disk_step counting 5 (\<lambda>i. at_second 1) ''k'' 7
     (demo_memo\<lparr>mm_store := fst (disk_set (at_second 0) (plain_disk 1) ''k''
        (header_version # to_be 8 5 @ [9]) (10 ^ 10))\<rparr>))) = 0"
proof -
  let ?m = "demo_memo\<lparr>mm_store := fst (disk_set (at_second 0) (plain_disk 1) ''k''
        (header_version # to_be 8 5 @ [9]) (10 ^ 10))\<rparr>"
  let ?load = "load_raw byte_postcard disk_step 5 (at_second 1) ''k'' (mm_store ?m)"
  have "snd ?load = Some (header_version # to_be 8 5 @ [9], 9)"
    by code_simp
  then have "?load = (fst ?load, Some (header_version # to_be 8 5 @ [9], 9))"
    by (simp add: prod_eq_iff)
  from hit_computes_nothing [where cs = "\<lambda>i. at_second 1", OF this] show ?thesis
    by (simp add: demo_memo_def)
qed

text \<open>A value computed over a store on disk that took it is served from then on, until its time
  to live has passed: whoever asks again under the same type and key before that gets the value
  and computes nothing.\<close>

theorem computed_value_is_served:
  assumes "redb_ok (ds_calls (mm_store m))" and "postcard_ok pc"
    and "header_encode pc fp v = Inr b" and "disk_set c (mm_store m) key b ttl = (s1, Inr ())"
    and "int millisecond \<le> wall (c 0)" and "wall (c 0) + int ttl < 2 ^ 64 * int millisecond"
    and "snd (disk_get (cs 0) s1 key) = Inr found"
    and "wall (cs 0 0) + int millisecond \<le> wall (c 0) + int ttl"
  shows "get_or_compute pc disk_step compute fp cs key ttl' (m\<lparr>mm_store := s1\<rparr>)
    = (m\<lparr>mm_store := s1\<rparr>, Ends (Some (Inr v)))"
proof -
  have get: "disk_get (cs 0) s1 key = (s1, Inr found)"
    using assms(7) by (simp add: disk_get_def)
  from disk_written_get [OF assms(1,4) get assms(5,6)] assms(8)
  obtain e where "found = Some e" "en_value e = b"
    by (auto split: option.splits)
  with get header_decode_encode [OF assms(2,3), of fp]
  have "load_raw pc disk_step fp (cs 0) key s1 = (s1, Some (b, v))"
    by (simp add: load_raw_def decode_entry_def)
  then show ?thesis
    by (simp add: get_or_compute_def)
qed

theorem computed_value_is_served_witness:
  "snd (get_or_compute byte_postcard disk_step counting 5 (\<lambda>i. at_second 1) ''k'' 7
     (demo_memo\<lparr>mm_store := fst (disk_set (at_second 0) (plain_disk 1) ''k''
        (header_version # to_be 8 5 @ [9]) (10 ^ 10))\<rparr>)) = Ends (Some (Inr 9))"
proof -
  let ?b = "header_version # to_be 8 5 @ [9 :: byte]"
  let ?run = "disk_set (at_second 0) (mm_store demo_memo) ''k'' ?b (10 ^ 10)"
  have "snd ?run = Inr ()"
    by code_simp
  then have run: "?run = (fst ?run, Inr ())"
    by (simp add: prod_eq_iff)
  have "snd (disk_get (at_second 1) (fst ?run) ''k'')
      = Inr (Some \<lparr> en_value = ?b, en_remaining = Some (9 * 10 ^ 9) \<rparr>)"
    by code_simp
  moreover have "header_encode byte_postcard 5 9 = Inr ?b"
    by (simp add: header_encode_def byte_postcard_def)
  moreover have "redb_ok (ds_calls (mm_store demo_memo))"
    by (simp add: demo_memo_def plain_disk_ok)
  ultimately have "get_or_compute byte_postcard disk_step counting 5 (\<lambda>i. at_second 1) ''k'' 7
      (demo_memo\<lparr>mm_store := fst ?run\<rparr>) = (demo_memo\<lparr>mm_store := fst ?run\<rparr>, Ends (Some (Inr 9)))"
    using computed_value_is_served [OF _ byte_postcard_ok _ run, of 5 9 "\<lambda>i. at_second 1"]
    by (simp add: at_second_def millisecond_def)
  then show ?thesis
    by (simp add: demo_memo_def)
qed

end
