(* ===== verification/Export_Worker.thy ===== *)
theory Export_Worker
  imports Prelude
begin

text \<open>
  \<open>o11y/buffer.rs\<close>, \<open>o11y/worker.rs\<close>, \<open>o11y/gate.rs\<close> and the control of \<open>o11y/pipeline.rs\<close>: the
  bounded queues records wait in, the export thread that drains them, and the calls that ask it to.
  The threads interleave at the points where a lock is taken, so the whole is a step relation; the
  collector is a parameter. Durations are in nanoseconds.
\<close>

section \<open>The bounded queue\<close>

record 'a buffer =
  bf_queue :: "'a list"
  bf_dropped :: nat
  bf_capacity :: nat

definition buffer_new :: "nat \<Rightarrow> 'a buffer" where
  "buffer_new capacity = \<lparr> bf_queue = [], bf_dropped = 0, bf_capacity = max capacity 1 \<rparr>"

definition buffer_push :: "'a \<Rightarrow> 'a buffer \<Rightarrow> 'a buffer \<times> nat" where
  "buffer_push item b =
    (let b = (if bf_capacity b \<le> length (bf_queue b)
              then b\<lparr>bf_queue := tl (bf_queue b), bf_dropped := wrap_add (bf_dropped b) 1\<rparr> else b);
         b = b\<lparr>bf_queue := bf_queue b @ [item]\<rparr> in
     (b, length (bf_queue b)))"

definition buffer_take :: "'a buffer \<Rightarrow> 'a buffer \<times> 'a list \<times> nat" where
  "buffer_take b = (b\<lparr>bf_queue := [], bf_dropped := 0\<rparr>, bf_queue b, bf_dropped b)"

section \<open>Levels and gates\<close>

datatype level = Debug | Info | Warn | Error

fun severity_number :: "level \<Rightarrow> nat" where
  "severity_number Debug = 5" | "severity_number Info = 9" | "severity_number Warn = 13"
| "severity_number Error = 17"

fun severity_text :: "level \<Rightarrow> string" where
  "severity_text Debug = ''DEBUG''" | "severity_text Info = ''INFO''" | "severity_text Warn = ''WARN''"
| "severity_text Error = ''ERROR''"

record gates =
  gt_threshold :: nat
  gt_tracing :: bool

definition gates_closed :: gates where
  "gates_closed = \<lparr> gt_threshold = 255, gt_tracing = False \<rparr>"

definition enabled :: "level \<Rightarrow> gates \<Rightarrow> bool" where
  "enabled l g = (gt_threshold g \<le> severity_number l)"

definition gates_open :: "level \<Rightarrow> gates \<Rightarrow> gates" where
  "gates_open min_level g = g\<lparr>gt_threshold := severity_number min_level, gt_tracing := True\<rparr>"

definition gates_close :: "gates \<Rightarrow> gates" where
  "gates_close g = g\<lparr>gt_threshold := 255, gt_tracing := False\<rparr>"

section \<open>Waiting, and what an export does\<close>

record control =
  ct_shutdown :: bool
  ct_flush_requested :: bool
  ct_batch_ready :: bool
  ct_started :: nat
  ct_generation :: nat

definition control_new :: control where
  "control_new = \<lparr> ct_shutdown = False, ct_flush_requested = False, ct_batch_ready = False,
     ct_started = 0, ct_generation = 0 \<rparr>"

text \<open>One look of \<open>wait\<close> at the control: whether it ends, and then with which answer. \<open>late\<close> is
  whether the deadline has passed.\<close>

definition wait_ends :: "control \<Rightarrow> nat \<Rightarrow> bool \<Rightarrow> bool option" where
  "wait_ends c backoff late =
    (if ct_shutdown c then Some True
     else if ct_flush_requested c \<or> (ct_batch_ready c \<and> backoff = 0) then Some False
     else if late then Some False
     else None)"

definition claim_cycle :: "control \<Rightarrow> control" where
  "claim_cycle c = c\<lparr>ct_flush_requested := False, ct_batch_ready := False, ct_started := ct_started c + 1\<rparr>"

definition finish_cycle :: "control \<Rightarrow> control" where
  "finish_cycle c = c\<lparr>ct_generation := ct_generation c + 1\<rparr>"

definition max_backoff :: nat where
  "max_backoff = 60 * 10 ^ 9"

definition min_backoff :: nat where
  "min_backoff = 10 ^ 9"

definition next_backoff :: "nat \<Rightarrow> nat \<Rightarrow> nat" where
  "next_backoff current flush_interval =
    (if current = 0 then max min_backoff (min max_backoff flush_interval)
     else min (current * 2) max_backoff)"

datatype signal = Logs | Metrics | Traces

fun signal_path :: "signal \<Rightarrow> string" where
  "signal_path Logs = ''/v1/logs''" | "signal_path Metrics = ''/v1/metrics''"
| "signal_path Traces = ''/v1/traces''"

fun signal_display :: "signal \<Rightarrow> string" where
  "signal_display Logs = ''logs''" | "signal_display Metrics = ''metrics''" | "signal_display Traces = ''traces''"

datatype o11y_error = Already_Initialized | Invalid_Endpoint string string | Invalid_Header string
  | Export_Rejected signal nat string | Dropped signal nat | Http_Failed string | Io_Failed io_error
  | Json_Failed string

text \<open>What the collector answers to a payload: a status with a body, or no response.\<close>

datatype answer = Answered nat string | Unreachable string

definition post_payload :: "(signal \<Rightarrow> 'p \<Rightarrow> answer) \<Rightarrow> signal \<Rightarrow> 'p \<Rightarrow> o11y_error list \<times> bool" where
  "post_payload collector signal payload =
    (case collector signal payload of
       Answered status body \<Rightarrow>
         if 200 \<le> status \<and> status < 300 then ([], True)
         else ([Export_Rejected signal status (take_chars 512 body)], False)
     | Unreachable e \<Rightarrow> ([Http_Failed e], False))"

definition report_drops :: "signal \<Rightarrow> nat \<Rightarrow> o11y_error list" where
  "report_drops signal count = (if 0 < count then [Dropped signal count] else [])"

text \<open>\<open>of_logs\<close>, \<open>of_spans\<close> and \<open>of_metrics\<close> build the payloads; the errors come in the order they
  are reported.\<close>

definition export_records ::
    "(signal \<Rightarrow> 'p \<Rightarrow> answer) \<Rightarrow> ('l list \<Rightarrow> 'p) \<Rightarrow> ('s list \<Rightarrow> 'p) \<Rightarrow> ('m list \<Rightarrow> 'p)
      \<Rightarrow> 'l list \<times> nat \<Rightarrow> 's list \<times> nat \<Rightarrow> 'm list \<Rightarrow> o11y_error list \<times> bool" where
  "export_records collector of_logs of_spans of_metrics logs spans metrics =
    (let one = (\<lambda>signal empty payload (errors, ok).
           if empty then (errors, ok)
           else (case post_payload collector signal payload of (e, accepted) \<Rightarrow> (errors @ e, ok \<and> accepted))) in
     one Metrics (metrics = []) (of_metrics metrics)
       (one Traces (fst spans = []) (of_spans (fst spans))
         (one Logs (fst logs = []) (of_logs (fst logs))
           (report_drops Logs (snd logs) @ report_drops Traces (snd spans), True))))"

section \<open>The threads\<close>

text \<open>A stream is the buffer of one signal; \<open>sr_pushed\<close> counts what was ever pushed into it, and
  \<open>sr_posted\<close> is how many of these had left the buffer when the last finished cycle took it.\<close>

record 'a stream =
  sr_buffer :: "'a buffer"
  sr_pushed :: nat
  sr_posted :: nat

definition stream_new :: "nat \<Rightarrow> 'a stream" where
  "stream_new capacity = \<lparr> sr_buffer = buffer_new capacity, sr_pushed = 0, sr_posted = 0 \<rparr>"

definition left_buffer :: "'a stream \<Rightarrow> nat" where
  "left_buffer sr = sr_pushed sr - length (bf_queue (sr_buffer sr))"

definition stream_push :: "'a \<Rightarrow> 'a stream \<Rightarrow> 'a stream \<times> nat" where
  "stream_push r sr =
    (case buffer_push r (sr_buffer sr) of
       (b, queued) \<Rightarrow> (sr\<lparr>sr_buffer := b, sr_pushed := sr_pushed sr + 1\<rparr>, queued))"

definition stream_take :: "'a stream \<Rightarrow> 'a stream \<times> 'a list \<times> nat" where
  "stream_take sr = (case buffer_take (sr_buffer sr) of (b, taken) \<Rightarrow> (sr\<lparr>sr_buffer := b\<rparr>, taken))"

text \<open>Where the worker is. The numbers are how many records of each stream had left its buffer when
  this cycle took it.\<close>

datatype phase = Waiting | Claimed bool | Took_Logs bool nat | Exporting bool nat nat | Returned | Died

record ('l, 's) exporter =
  ex_logs :: "'l stream"
  ex_spans :: "'s stream"
  ex_control :: control
  ex_gates :: gates
  ex_phase :: phase
  ex_backoff :: nat
  ex_waiters :: "(nat \<times> nat \<times> nat) set"
  ex_last_call :: "(nat \<times> nat) option"

definition wake_if_batched :: "nat \<Rightarrow> nat \<Rightarrow> control \<Rightarrow> control" where
  "wake_if_batched max_batch_size queued c =
    (if queued = max_batch_size then c\<lparr>ct_batch_ready := True\<rparr> else c)"

definition record_log :: "nat \<Rightarrow> 'l \<Rightarrow> ('l, 's) exporter \<Rightarrow> ('l, 's) exporter" where
  "record_log batch r ex =
    (case stream_push r (ex_logs ex) of
       (sr, queued) \<Rightarrow> ex\<lparr>ex_logs := sr, ex_control := wake_if_batched batch queued (ex_control ex)\<rparr>)"

definition record_span :: "nat \<Rightarrow> 's \<Rightarrow> ('l, 's) exporter \<Rightarrow> ('l, 's) exporter" where
  "record_span batch r ex =
    (case stream_push r (ex_spans ex) of
       (sr, queued) \<Rightarrow> ex\<lparr>ex_spans := sr, ex_control := wake_if_batched batch queued (ex_control ex)\<rparr>)"

text \<open>A caller of \<open>flush\<close> waits for a generation; nothing is asked of a worker that was shut down.
  The waiter is remembered with what had been pushed by then.\<close>

definition flush_call :: "('l, 's) exporter \<Rightarrow> ('l, 's) exporter" where
  "flush_call ex =
    (if ct_shutdown (ex_control ex) then ex
     else ex\<lparr>ex_control := (ex_control ex)\<lparr>ct_flush_requested := True\<rparr>,
       ex_waiters := insert (ct_started (ex_control ex) + 1, sr_pushed (ex_logs ex), sr_pushed (ex_spans ex))
         (ex_waiters ex)\<rparr>)"

definition flush_served :: "control \<Rightarrow> nat \<Rightarrow> bool" where
  "flush_served c target = (\<not> (ct_generation c < target))"

text \<open>\<open>shutdown\<close> closes the gates first, then tells the worker.\<close>

definition shutdown_call :: "('l, 's) exporter \<Rightarrow> ('l, 's) exporter" where
  "shutdown_call ex =
    ex\<lparr>ex_gates := gates_close (ex_gates ex), ex_control := (ex_control ex)\<lparr>ct_shutdown := True\<rparr>,
       ex_last_call := (if ct_shutdown (ex_control ex) then ex_last_call ex
         else Some (sr_pushed (ex_logs ex), sr_pushed (ex_spans ex)))\<rparr>"

definition exporter_new :: "nat \<Rightarrow> level \<Rightarrow> ('l, 's) exporter" where
  "exporter_new capacity min_level =
    \<lparr> ex_logs = stream_new capacity, ex_spans = stream_new capacity, ex_control = control_new,
      ex_gates = gates_open min_level gates_closed, ex_phase = Waiting, ex_backoff = 0, ex_waiters = {},
      ex_last_call = None \<rparr>"

text \<open>The end of an export: the backoff is set, the generation counted, and the worker returns if
  it was woken to shut down; its guard closes the gates.\<close>

definition end_export :: "nat \<Rightarrow> bool \<Rightarrow> bool \<Rightarrow> nat \<Rightarrow> nat \<Rightarrow> ('l, 's) exporter \<Rightarrow> ('l, 's) exporter" where
  "end_export flush_interval ok shutting_down logs spans ex =
    ex\<lparr>ex_backoff := (if ok then 0 else next_backoff (ex_backoff ex) flush_interval),
       ex_control := finish_cycle (ex_control ex),
       ex_logs := (ex_logs ex)\<lparr>sr_posted := logs\<rparr>, ex_spans := (ex_spans ex)\<lparr>sr_posted := spans\<rparr>,
       ex_phase := (if shutting_down then Returned else Waiting),
       ex_gates := (if shutting_down then gates_close (ex_gates ex) else ex_gates ex)\<rparr>"

inductive export_step :: "nat \<Rightarrow> nat \<Rightarrow> ('l, 's) exporter \<Rightarrow> ('l, 's) exporter \<Rightarrow> bool"
  for batch flush_interval :: nat where
  logs: "export_step batch flush_interval ex (record_log batch r ex)"
| spans: "export_step batch flush_interval ex (record_span batch s ex)"
| asks: "export_step batch flush_interval ex (flush_call ex)"
| stops: "export_step batch flush_interval ex (shutdown_call ex)"
| claims: "\<lbrakk>ex_phase ex = Waiting; wait_ends (ex_control ex) (ex_backoff ex) late = Some sd\<rbrakk> \<Longrightarrow>
    export_step batch flush_interval ex
      (ex\<lparr>ex_control := claim_cycle (ex_control ex), ex_phase := Claimed sd\<rparr>)"
| takes_logs: "\<lbrakk>ex_phase ex = Claimed sd; stream_take (ex_logs ex) = (sr, taken)\<rbrakk> \<Longrightarrow>
    export_step batch flush_interval ex (ex\<lparr>ex_logs := sr, ex_phase := Took_Logs sd (left_buffer sr)\<rparr>)"
| takes_spans: "\<lbrakk>ex_phase ex = Took_Logs sd l; stream_take (ex_spans ex) = (sr, taken)\<rbrakk> \<Longrightarrow>
    export_step batch flush_interval ex (ex\<lparr>ex_spans := sr, ex_phase := Exporting sd l (left_buffer sr)\<rparr>)"
| ends: "ex_phase ex = Exporting sd l n \<Longrightarrow>
    export_step batch flush_interval ex (end_export flush_interval ok sd l n ex)"
| dies: "ex_phase ex \<noteq> Returned \<Longrightarrow>
    export_step batch flush_interval ex (ex\<lparr>ex_phase := Died, ex_gates := gates_close (ex_gates ex)\<rparr>)"

inductive export_reachable :: "nat \<Rightarrow> nat \<Rightarrow> ('l, 's) exporter \<Rightarrow> bool"
  for batch flush_interval :: nat where
  starts: "export_reachable batch flush_interval (exporter_new capacity min_level)"
| proceeds: "\<lbrakk>export_reachable batch flush_interval ex; export_step batch flush_interval ex ex'\<rbrakk> \<Longrightarrow>
    export_reachable batch flush_interval ex'"

inductive_cases export_stepE: "export_step batch flush_interval ex ex'"

section \<open>The invariant\<close>

definition stream_ok :: "'a stream \<Rightarrow> bool" where
  "stream_ok sr \<longleftrightarrow> length (bf_queue (sr_buffer sr)) \<le> sr_pushed sr \<and> sr_posted sr \<le> left_buffer sr"

lemma stream_push_spec:
  assumes "stream_ok sr" and "stream_push r sr = (sr', queued)"
  shows "stream_ok sr'" "sr_pushed sr' = Suc (sr_pushed sr)" "sr_posted sr' = sr_posted sr"
    "left_buffer sr \<le> left_buffer sr'"
  using assms
  by (auto simp: stream_push_def stream_ok_def left_buffer_def buffer_push_def Let_def split: if_splits)

lemma stream_take_spec:
  assumes "stream_ok sr" and "stream_take sr = (sr', taken)"
  shows "stream_ok sr'" "sr_pushed sr' = sr_pushed sr" "sr_posted sr' = sr_posted sr"
    "left_buffer sr' = sr_pushed sr"
  using assms by (auto simp: stream_take_def stream_ok_def left_buffer_def buffer_take_def)

text \<open>Whether a cycle under way has taken everything up to the given counts.\<close>

fun has_taken :: "phase \<Rightarrow> nat \<Rightarrow> nat \<Rightarrow> bool" where
  "has_taken (Took_Logs sd l) logs spans = (logs \<le> l)"
| "has_taken (Exporting sd l n) logs spans = (logs \<le> l \<and> spans \<le> n)"
| "has_taken p logs spans = True"

fun shutting_down :: "phase \<Rightarrow> bool" where
  "shutting_down (Claimed sd) = sd"
| "shutting_down (Took_Logs sd l) = sd"
| "shutting_down (Exporting sd l n) = sd"
| "shutting_down Returned = True"
| "shutting_down p = False"

definition in_cycle :: "phase \<Rightarrow> bool" where
  "in_cycle p = (case p of Waiting \<Rightarrow> False | Returned \<Rightarrow> False | Died \<Rightarrow> False | _ \<Rightarrow> True)"

text \<open>The counts a cycle carries are between what is posted and what has left the buffers.\<close>

fun phase_ok :: "phase \<Rightarrow> 'l stream \<Rightarrow> 's stream \<Rightarrow> bool" where
  "phase_ok (Took_Logs sd l) logs spans = (sr_posted logs \<le> l \<and> l \<le> left_buffer logs)"
| "phase_ok (Exporting sd l n) logs spans = (sr_posted logs \<le> l \<and> l \<le> left_buffer logs
     \<and> sr_posted spans \<le> n \<and> n \<le> left_buffer spans)"
| "phase_ok p logs spans = True"

definition waiter_ok :: "('l, 's) exporter \<Rightarrow> nat \<times> nat \<times> nat \<Rightarrow> bool" where
  "waiter_ok ex = (\<lambda>(target, logs, spans).
    logs \<le> sr_pushed (ex_logs ex) \<and> spans \<le> sr_pushed (ex_spans ex)
    \<and> target \<le> ct_started (ex_control ex) + 1
    \<and> (target \<le> ct_generation (ex_control ex) \<longrightarrow>
        logs \<le> sr_posted (ex_logs ex) \<and> spans \<le> sr_posted (ex_spans ex))
    \<and> (target \<le> ct_started (ex_control ex) \<longrightarrow> has_taken (ex_phase ex) logs spans)
    \<and> (ct_started (ex_control ex) < target \<longrightarrow> ct_flush_requested (ex_control ex)))"

definition last_call_ok :: "('l, 's) exporter \<Rightarrow> bool" where
  "last_call_ok ex =
    (case ex_last_call ex of
       None \<Rightarrow> \<not> ct_shutdown (ex_control ex) \<and> \<not> shutting_down (ex_phase ex)
     | Some (logs, spans) \<Rightarrow> ct_shutdown (ex_control ex)
         \<and> logs \<le> sr_pushed (ex_logs ex) \<and> spans \<le> sr_pushed (ex_spans ex)
         \<and> (shutting_down (ex_phase ex) \<longrightarrow> has_taken (ex_phase ex) logs spans)
         \<and> (ex_phase ex = Returned \<longrightarrow> logs \<le> sr_posted (ex_logs ex) \<and> spans \<le> sr_posted (ex_spans ex))
         \<and> gt_threshold (ex_gates ex) = 255 \<and> \<not> gt_tracing (ex_gates ex))"

definition exporter_ok :: "('l, 's) exporter \<Rightarrow> bool" where
  "exporter_ok ex \<longleftrightarrow>
    stream_ok (ex_logs ex) \<and> stream_ok (ex_spans ex)
    \<and> phase_ok (ex_phase ex) (ex_logs ex) (ex_spans ex)
    \<and> ct_generation (ex_control ex) \<le> ct_started (ex_control ex)
    \<and> (ex_phase ex \<noteq> Died \<longrightarrow>
        ct_started (ex_control ex) = ct_generation (ex_control ex) + (if in_cycle (ex_phase ex) then 1 else 0))
    \<and> (\<forall>w \<in> ex_waiters ex. waiter_ok ex w)
    \<and> last_call_ok ex"

lemma exporter_okD:
  assumes "exporter_ok ex"
  shows "stream_ok (ex_logs ex)" "stream_ok (ex_spans ex)"
    "phase_ok (ex_phase ex) (ex_logs ex) (ex_spans ex)"
    "ct_generation (ex_control ex) \<le> ct_started (ex_control ex)"
    "ex_phase ex \<noteq> Died \<Longrightarrow>
      ct_started (ex_control ex) = ct_generation (ex_control ex) + (if in_cycle (ex_phase ex) then 1 else 0)"
    "w \<in> ex_waiters ex \<Longrightarrow> waiter_ok ex w"
    "last_call_ok ex"
  using assms by (simp_all add: exporter_ok_def)

text \<open>A record pushed, and a cycle's reading of one stream, change nothing else.\<close>

lemma phase_ok_mono:
  assumes "phase_ok p logs spans"
    and "sr_posted logs' = sr_posted logs" and "left_buffer logs \<le> left_buffer logs'"
    and "sr_posted spans' = sr_posted spans" and "left_buffer spans \<le> left_buffer spans'"
  shows "phase_ok p logs' spans'"
  using assms by (cases p) auto

lemma wake_if_batched_same [simp]:
  "ct_shutdown (wake_if_batched b q c) = ct_shutdown c"
  "ct_flush_requested (wake_if_batched b q c) = ct_flush_requested c"
  "ct_started (wake_if_batched b q c) = ct_started c"
  "ct_generation (wake_if_batched b q c) = ct_generation c"
  by (simp_all add: wake_if_batched_def)

lemma record_log_ok:
  assumes "exporter_ok ex"
  shows "exporter_ok (record_log batch r ex)"
proof -
  obtain sr queued where push: "stream_push r (ex_logs ex) = (sr, queued)"
    by fastforce
  note ok = exporter_okD [OF assms] and new = stream_push_spec [OF ok(1) push]
  have "phase_ok (ex_phase ex) sr (ex_spans ex)"
    using new by (intro phase_ok_mono [OF ok(3)]) simp_all
  moreover have "waiter_ok (record_log batch r ex) w" if "w \<in> ex_waiters ex" for w
    using ok(6) [OF that] new(2,3) by (auto simp: waiter_ok_def record_log_def push split: prod.splits)
  moreover have "last_call_ok (record_log batch r ex)"
    using ok(7) new(2,3) by (auto simp: last_call_ok_def record_log_def push split: option.splits)
  ultimately show ?thesis
    using ok(2,4,5) new(1) by (simp add: exporter_ok_def record_log_def push)
qed

lemma record_span_ok:
  assumes "exporter_ok ex"
  shows "exporter_ok (record_span batch r ex)"
proof -
  obtain sr queued where push: "stream_push r (ex_spans ex) = (sr, queued)"
    by fastforce
  note ok = exporter_okD [OF assms] and new = stream_push_spec [OF ok(2) push]
  have "phase_ok (ex_phase ex) (ex_logs ex) sr"
    using new by (intro phase_ok_mono [OF ok(3)]) simp_all
  moreover have "waiter_ok (record_span batch r ex) w" if "w \<in> ex_waiters ex" for w
    using ok(6) [OF that] new(2,3) by (auto simp: waiter_ok_def record_span_def push split: prod.splits)
  moreover have "last_call_ok (record_span batch r ex)"
    using ok(7) new(2,3) by (auto simp: last_call_ok_def record_span_def push split: option.splits)
  ultimately show ?thesis
    using ok(1,4,5) new(1) by (simp add: exporter_ok_def record_span_def push)
qed

lemma flush_call_ok:
  assumes "exporter_ok ex"
  shows "exporter_ok (flush_call ex)"
proof (cases "ct_shutdown (ex_control ex)")
  case False
  note ok = exporter_okD [OF assms]
  have "waiter_ok (flush_call ex) w" if "w \<in> ex_waiters (flush_call ex)" for w
    using that False ok(4) ok(6) [of w]
    by (auto simp: waiter_ok_def flush_call_def split: prod.splits if_splits)
  moreover have "last_call_ok (flush_call ex)"
    using ok(7) False by (auto simp: last_call_ok_def flush_call_def split: option.splits)
  ultimately show ?thesis
    using ok(1-5) False by (simp add: exporter_ok_def flush_call_def)
qed (use assms in \<open>simp add: flush_call_def\<close>)

lemma shutdown_call_ok:
  assumes "exporter_ok ex"
  shows "exporter_ok (shutdown_call ex)"
proof -
  note ok = exporter_okD [OF assms]
  have "waiter_ok (shutdown_call ex) w" if "w \<in> ex_waiters ex" for w
    using ok(6) [OF that] by (auto simp: waiter_ok_def shutdown_call_def split: prod.splits)
  moreover have "last_call_ok (shutdown_call ex)"
    using ok(7)
    by (cases "ex_phase ex") (auto simp: last_call_ok_def shutdown_call_def gates_close_def split: option.splits)
  ultimately show ?thesis
    using ok(1-5) by (simp add: exporter_ok_def shutdown_call_def)
qed

lemma claim_ok:
  assumes "exporter_ok ex" and "ex_phase ex = Waiting" and "wait_ends (ex_control ex) (ex_backoff ex) late = Some sd"
  shows "exporter_ok (ex\<lparr>ex_control := claim_cycle (ex_control ex), ex_phase := Claimed sd\<rparr>)"
proof -
  note ok = exporter_okD [OF assms(1)]
  let ?ex = "ex\<lparr>ex_control := claim_cycle (ex_control ex), ex_phase := Claimed sd\<rparr>"
  have "waiter_ok ?ex w" if "w \<in> ex_waiters ex" for w
    using ok(6) [OF that] by (auto simp: waiter_ok_def claim_cycle_def split: prod.splits)
  moreover have "last_call_ok ?ex"
    using ok(7) assms(2,3)
    by (auto simp: last_call_ok_def claim_cycle_def wait_ends_def split: option.splits if_splits)
  ultimately show ?thesis
    using ok(1,2,5) assms(2) by (simp add: exporter_ok_def claim_cycle_def in_cycle_def)
qed

lemma takes_logs_ok:
  assumes "exporter_ok ex" and "ex_phase ex = Claimed sd" and "stream_take (ex_logs ex) = (sr, taken)"
  shows "exporter_ok (ex\<lparr>ex_logs := sr, ex_phase := Took_Logs sd (left_buffer sr)\<rparr>)"
proof -
  note ok = exporter_okD [OF assms(1)] and new = stream_take_spec [OF exporter_okD(1) [OF assms(1)] assms(3)]
  let ?ex = "ex\<lparr>ex_logs := sr, ex_phase := Took_Logs sd (left_buffer sr)\<rparr>"
  have "waiter_ok ?ex w" if "w \<in> ex_waiters ex" for w
    using ok(6) [OF that] new by (auto simp: waiter_ok_def split: prod.splits)
  moreover have "last_call_ok ?ex"
    using ok(7) assms(2) new by (auto simp: last_call_ok_def split: option.splits)
  moreover have "sr_posted sr \<le> left_buffer sr"
    using new(1) by (simp add: stream_ok_def)
  ultimately show ?thesis
    using ok(2,5) assms(2) new(1) by (simp add: exporter_ok_def in_cycle_def)
qed

lemma takes_spans_ok:
  assumes "exporter_ok ex" and "ex_phase ex = Took_Logs sd l" and "stream_take (ex_spans ex) = (sr, taken)"
  shows "exporter_ok (ex\<lparr>ex_spans := sr, ex_phase := Exporting sd l (left_buffer sr)\<rparr>)"
proof -
  note ok = exporter_okD [OF assms(1)] and new = stream_take_spec [OF exporter_okD(2) [OF assms(1)] assms(3)]
  let ?ex = "ex\<lparr>ex_spans := sr, ex_phase := Exporting sd l (left_buffer sr)\<rparr>"
  have "waiter_ok ?ex w" if "w \<in> ex_waiters ex" for w
    using ok(6) [OF that] new assms(2) by (auto simp: waiter_ok_def split: prod.splits)
  moreover have "last_call_ok ?ex"
    using ok(7) assms(2) new by (auto simp: last_call_ok_def split: option.splits)
  moreover have "sr_posted sr \<le> left_buffer sr"
    using new(1) by (simp add: stream_ok_def)
  ultimately show ?thesis
    using ok(1,3,5) assms(2) new(1) by (simp add: exporter_ok_def in_cycle_def)
qed

lemma end_export_ok:
  assumes "exporter_ok ex" and "ex_phase ex = Exporting sd l n"
  shows "exporter_ok (end_export flush_interval ok sd l n ex)"
proof -
  note was = exporter_okD [OF assms(1)]
  let ?ex = "end_export flush_interval ok sd l n ex"
  have over: "ct_started (ex_control ex) = ct_generation (ex_control ex) + 1"
    using was(5) assms(2) by (simp add: in_cycle_def)
  have bounds: "sr_posted (ex_logs ex) \<le> l" "sr_posted (ex_spans ex) \<le> n"
    "l \<le> left_buffer (ex_logs ex)" "n \<le> left_buffer (ex_spans ex)"
    using was(3) assms(2) by simp_all
  have "waiter_ok ?ex w" if "w \<in> ex_waiters ex" for w
    using was(6) [OF that] assms(2) over bounds
    by (auto simp: waiter_ok_def end_export_def finish_cycle_def split: prod.splits)
  moreover have "last_call_ok ?ex"
    using was(7) assms(2)
    by (auto simp: last_call_ok_def end_export_def finish_cycle_def gates_close_def split: option.splits)
  moreover have "stream_ok ((ex_logs ex)\<lparr>sr_posted := l\<rparr>)" "stream_ok ((ex_spans ex)\<lparr>sr_posted := n\<rparr>)"
    using was(1,2) bounds by (simp_all add: stream_ok_def left_buffer_def)
  ultimately show ?thesis
    using over by (simp add: exporter_ok_def end_export_def finish_cycle_def in_cycle_def)
qed

lemma die_ok:
  assumes "exporter_ok ex" and "ex_phase ex \<noteq> Returned"
  shows "exporter_ok (ex\<lparr>ex_phase := Died, ex_gates := gates_close (ex_gates ex)\<rparr>)"
proof -
  note ok = exporter_okD [OF assms(1)]
  let ?ex = "ex\<lparr>ex_phase := Died, ex_gates := gates_close (ex_gates ex)\<rparr>"
  have "waiter_ok ?ex w" if "w \<in> ex_waiters ex" for w
    using ok(6) [OF that] by (auto simp: waiter_ok_def split: prod.splits)
  moreover have "last_call_ok ?ex"
    using ok(7) by (auto simp: last_call_ok_def gates_close_def split: option.splits)
  ultimately show ?thesis
    using ok(1,2,4) by (simp add: exporter_ok_def)
qed

lemma export_step_ok:
  assumes "export_step batch flush_interval ex ex'" and "exporter_ok ex"
  shows "exporter_ok ex'"
  using assms(1)
  by cases (use assms(2) in \<open>auto intro: record_log_ok record_span_ok flush_call_ok shutdown_call_ok claim_ok
    takes_logs_ok takes_spans_ok end_export_ok die_ok\<close>)

lemma exporter_new_ok: "exporter_ok (exporter_new capacity min_level)"
  by (simp add: exporter_ok_def exporter_new_def stream_new_def stream_ok_def left_buffer_def buffer_new_def
    control_new_def in_cycle_def last_call_ok_def)

lemma export_reachable_ok: "export_reachable batch flush_interval ex \<Longrightarrow> exporter_ok ex"
  by (induction rule: export_reachable.induct) (auto intro: exporter_new_ok export_step_ok)

section \<open>The queue and the backoff\<close>

text \<open>What a buffer holds after a sequence of pushes on an empty one.\<close>

definition newest :: "nat \<Rightarrow> 'a list \<Rightarrow> 'a list" where
  "newest n xs = drop (length xs - n) xs"

lemma newest_snoc:
  assumes "0 < n"
  shows "newest n (xs @ [x]) = (if n \<le> length (newest n xs) then tl (newest n xs) else newest n xs) @ [x]"
proof (cases "n \<le> length xs")
  case True
  then have "drop (Suc (length xs) - n) xs = tl (drop (length xs - n) xs)"
    by (simp add: Suc_diff_le drop_Suc tl_drop)
  with True assms show ?thesis
    by (simp add: newest_def)
qed (simp add: newest_def)

lemma pushed_buffer:
  assumes "length xs \<le> u64_max" and "0 < n"
  shows "fold (\<lambda>x b. fst (buffer_push x b)) xs \<lparr> bf_queue = [], bf_dropped = 0, bf_capacity = n \<rparr>
    = \<lparr> bf_queue = newest n xs, bf_dropped = length xs - n, bf_capacity = n \<rparr>"
  using assms(1)
proof (induction xs rule: rev_induct)
  case Nil
  then show ?case
    by (simp add: newest_def)
next
  case (snoc x xs)
  have "wrap_add (length xs - n) 1 = length xs - n + 1"
    using snoc.prems by (intro wrap_add_exact) simp
  moreover have "n \<le> length (newest n xs) \<longleftrightarrow> n \<le> length xs"
    by (auto simp: newest_def)
  ultimately show ?case
    using snoc newest_snoc [OF assms(2), of xs x] by (auto simp: buffer_push_def Let_def Suc_diff_le)
qed

lemma next_backoff_min:
  "0 < x \<Longrightarrow> next_backoff (min x max_backoff) flush_interval = min (x * 2) max_backoff"
  by (simp add: next_backoff_def max_backoff_def min_def)

lemma backoff_after_failures:
  "((\<lambda>b. next_backoff b flush_interval) ^^ Suc k) 0
    = min (max min_backoff (min max_backoff flush_interval) * 2 ^ k) max_backoff"
proof (induction k)
  case 0
  show ?case
    by (simp add: next_backoff_def min_backoff_def max_backoff_def)
next
  case (Suc k)
  let ?first = "max min_backoff (min max_backoff flush_interval)"
  have "((\<lambda>b. next_backoff b flush_interval) ^^ Suc (Suc k)) 0
      = next_backoff (min (?first * 2 ^ k) max_backoff) flush_interval"
    using Suc by simp
  also have "\<dots> = min (?first * 2 ^ k * 2) max_backoff"
    by (intro next_backoff_min) (simp add: min_backoff_def less_max_iff_disj)
  finally show ?case
    by (simp add: mult.assoc mult.commute)
qed

section \<open>Properties\<close>

text \<open>C15. A caller of \<open>flush\<close> that is told its request was served can rely on it, however producers,
  other callers, a failing collector and the worker interleave: every log and every span pushed
  before its call has left the buffers, and was handed to an export that has ended or was counted
  as dropped.\<close>

theorem flush_covers_earlier_records:
  assumes "export_reachable batch flush_interval ex" and "(target, logs, spans) \<in> ex_waiters ex"
    and "flush_served (ex_control ex) target"
  shows "logs \<le> sr_posted (ex_logs ex) \<and> spans \<le> sr_posted (ex_spans ex)
    \<and> sr_posted (ex_logs ex) \<le> left_buffer (ex_logs ex) \<and> sr_posted (ex_spans ex) \<le> left_buffer (ex_spans ex)"
proof -
  note ok = exporter_okD [OF export_reachable_ok [OF assms(1)]]
  have "target \<le> ct_generation (ex_control ex)"
    using assms(3) by (simp add: flush_served_def)
  with ok(6) [OF assms(2)] ok(1,2) show ?thesis
    by (simp add: waiter_ok_def stream_ok_def)
qed

text \<open>No request to flush is lost: while its caller waits and the worker lives, the worker is in
  a cycle or finds a reason to start one the next time it looks, whatever its backoff, and at most
  two more cycles have to end.\<close>

theorem flush_request_not_lost:
  assumes "export_reachable batch flush_interval ex" and "(target, logs, spans) \<in> ex_waiters ex"
    and "\<not> flush_served (ex_control ex) target" and "ex_phase ex \<notin> {Returned, Died}"
  shows "(in_cycle (ex_phase ex) \<or> wait_ends (ex_control ex) (ex_backoff ex) False \<noteq> None)
    \<and> target \<le> ct_generation (ex_control ex) + 2"
proof -
  note ok = exporter_okD [OF export_reachable_ok [OF assms(1)]]
  have late: "ct_generation (ex_control ex) < target"
    using assms(3) by (simp add: flush_served_def)
  have target: "target \<le> ct_started (ex_control ex) + 1"
    "ct_started (ex_control ex) < target \<Longrightarrow> ct_flush_requested (ex_control ex)"
    using ok(6) [OF assms(2)] by (simp_all add: waiter_ok_def)
  show ?thesis
  proof (cases "in_cycle (ex_phase ex)")
    case True
    with ok(5) target(1) assms(4) show ?thesis
      by simp
  next
    case False
    with ok(5) assms(4) late target show ?thesis
      by (auto simp: wait_ends_def)
  qed
qed

text \<open>C16. When the worker has returned after a shutdown, everything pushed before the first call of
  \<open>shutdown\<close> has left the buffers in an export that ended or as counted drops, and the gates are
  shut for logs of every level and for spans.\<close>

theorem shutdown_drains_and_shuts_gates:
  assumes "export_reachable batch flush_interval ex" and "ex_phase ex = Returned"
  shows "case ex_last_call ex of
      None \<Rightarrow> False
    | Some (logs, spans) \<Rightarrow> logs \<le> sr_posted (ex_logs ex) \<and> spans \<le> sr_posted (ex_spans ex)
        \<and> \<not> enabled level (ex_gates ex) \<and> \<not> gt_tracing (ex_gates ex)"
  using exporter_okD(7) [OF export_reachable_ok [OF assms(1)]] assms(2)
  by (cases level) (auto simp: last_call_ok_def enabled_def split: option.splits)

text \<open>A buffer refines the plain list of everything pushed since it was last taken: it holds its
  newest records, at most as many as its capacity, in order, and counts all others as dropped.\<close>

theorem buffer_keeps_newest:
  assumes "length xs \<le> u64_max" and "buffer_take (fold (\<lambda>x b. fst (buffer_push x b)) xs (buffer_new capacity))
      = (b, taken, dropped)"
  shows "taken = newest (max capacity 1) xs \<and> dropped = length xs - length taken
    \<and> b = buffer_new capacity"
  using assms(2) pushed_buffer [OF assms(1), of "max capacity 1"]
  by (simp add: buffer_take_def buffer_new_def newest_def min_def) auto

text \<open>After the k-th failure in a row the worker waits, beyond the flush interval, that interval
  brought between a second and a minute and doubled k - 1 times, but never more than a minute.\<close>

theorem backoff_doubles_to_a_minute:
  "((\<lambda>b. next_backoff b flush_interval) ^^ k) 0
    = (if k = 0 then 0 else min (max (10 ^ 9) (min (60 * 10 ^ 9) flush_interval) * 2 ^ (k - 1)) (60 * 10 ^ 9))
   \<and> ((\<lambda>b. next_backoff b flush_interval) ^^ k) 0 \<le> 60 * 10 ^ 9"
  using backoff_after_failures [where flush_interval = flush_interval and k = "k - 1"]
  by (cases k) (simp_all add: min_backoff_def max_backoff_def del: funpow.simps)

section \<open>A concrete run\<close>

text \<open>A record, a flush, and the cycle it asked for; then a shutdown and the last cycle.\<close>

definition flushed :: "(nat, nat) exporter" where
  "flushed = flush_call (record_log 512 7 (exporter_new 4 Info))"

definition served :: "(nat, nat) exporter" where
  "served = end_export 5 True False 1 0 (flushed\<lparr>ex_control := claim_cycle (ex_control flushed),
     ex_logs := fst (stream_take (ex_logs flushed)), ex_spans := fst (stream_take (ex_spans flushed)),
     ex_phase := Exporting False 1 0\<rparr>)"

definition stopped :: "(nat, nat) exporter" where
  "stopped = (let ex = shutdown_call served in
     end_export 5 True True 1 0 (ex\<lparr>ex_control := claim_cycle (ex_control ex),
       ex_logs := fst (stream_take (ex_logs ex)), ex_spans := fst (stream_take (ex_spans ex)),
       ex_phase := Exporting True 1 0\<rparr>))"

text \<open>One whole cycle of the worker.\<close>

lemma cycle_reachable:
  assumes "export_reachable batch flush_interval ex" and "ex_phase ex = Waiting"
    and "wait_ends (ex_control ex) (ex_backoff ex) late = Some sd"
    and "stream_take (ex_logs ex) = (sl, taken)" and "stream_take (ex_spans ex) = (ss, taken_spans)"
  shows "export_reachable batch flush_interval (end_export flush_interval ok sd (left_buffer sl) (left_buffer ss)
    (ex\<lparr>ex_control := claim_cycle (ex_control ex), ex_logs := sl, ex_spans := ss,
        ex_phase := Exporting sd (left_buffer sl) (left_buffer ss)\<rparr>))"
proof -
  let ?c = "ex\<lparr>ex_control := claim_cycle (ex_control ex), ex_phase := Claimed sd\<rparr>"
  let ?l = "?c\<lparr>ex_logs := sl, ex_phase := Took_Logs sd (left_buffer sl)\<rparr>"
  let ?s = "?l\<lparr>ex_spans := ss, ex_phase := Exporting sd (left_buffer sl) (left_buffer ss)\<rparr>"
  have "export_step batch flush_interval ex ?c"
    using assms(2,3) by (rule export_step.claims)
  moreover have "export_step batch flush_interval ?c ?l"
    using assms(4) by (intro export_step.takes_logs) simp_all
  moreover have "export_step batch flush_interval ?l ?s"
    using assms(5) by (intro export_step.takes_spans) simp_all
  moreover have "export_step batch flush_interval ?s (end_export flush_interval ok sd (left_buffer sl) (left_buffer ss) ?s)"
    by (intro export_step.ends) simp
  moreover have "?s = ex\<lparr>ex_control := claim_cycle (ex_control ex), ex_logs := sl, ex_spans := ss,
        ex_phase := Exporting sd (left_buffer sl) (left_buffer ss)\<rparr>"
    by simp
  ultimately show ?thesis
    using assms(1) by (metis export_reachable.proceeds)
qed

lemma flushed_reachable: "export_reachable 512 5 flushed"
  unfolding flushed_def
  by (intro export_reachable.proceeds [OF _ export_step.asks] export_reachable.proceeds [OF _ export_step.logs]
    export_reachable.starts)

lemma flushed_state: "ex_phase flushed = Waiting"
    "wait_ends (ex_control flushed) (ex_backoff flushed) False = Some False"
    "ex_waiters flushed = {(1, 1, 0)}" "\<not> flush_served (ex_control flushed) 1"
    "left_buffer (fst (stream_take (ex_logs flushed))) = 1" "left_buffer (fst (stream_take (ex_spans flushed))) = 0"
  by (simp_all add: flushed_def flush_call_def record_log_def exporter_new_def stream_new_def buffer_new_def
    stream_push_def buffer_push_def control_new_def wake_if_batched_def wait_ends_def flush_served_def
    stream_take_def buffer_take_def left_buffer_def)

lemma served_reachable: "export_reachable 512 5 served"
  using cycle_reachable [OF flushed_reachable flushed_state(1,2) surjective_pairing surjective_pairing, of True]
  by (simp add: flushed_state served_def)

lemmas exporter_run_defs = flushed_def served_def flush_call_def record_log_def exporter_new_def stream_new_def
  buffer_new_def stream_push_def buffer_push_def control_new_def wake_if_batched_def wait_ends_def
  flush_served_def stream_take_def buffer_take_def left_buffer_def end_export_def claim_cycle_def
  finish_cycle_def shutdown_call_def

lemma served_state: "ex_waiters served = {(1, 1, 0)}" "flush_served (ex_control served) 1"
    "ex_phase (shutdown_call served) = Waiting"
    "wait_ends (ex_control (shutdown_call served)) (ex_backoff (shutdown_call served)) False = Some True"
    "ex_last_call (shutdown_call served) = Some (1, 0)"
    "left_buffer (fst (stream_take (ex_logs (shutdown_call served)))) = 1"
    "left_buffer (fst (stream_take (ex_spans (shutdown_call served)))) = 0"
  by (simp_all add: exporter_run_defs)

lemma stopped_reachable: "export_reachable 512 5 stopped"
proof -
  have "export_reachable 512 5 (shutdown_call served)"
    using served_reachable export_step.stops by (rule export_reachable.proceeds)
  from cycle_reachable [OF this served_state(3,4) surjective_pairing surjective_pairing, of True]
  show ?thesis
    by (simp add: served_state stopped_def Let_def)
qed

lemma flush_covers_earlier_records_witness: "1 \<le> sr_posted (ex_logs served)"
  using flush_covers_earlier_records [OF served_reachable, of 1 1 0] served_state(1,2) by simp

lemma flush_request_not_lost_witness:
  "wait_ends (ex_control flushed) (ex_backoff flushed) False \<noteq> None"
proof -
  have "ex_phase flushed \<notin> {Returned, Died}" "(1, 1, 0) \<in> ex_waiters flushed"
    by (simp_all add: flushed_state)
  from flush_request_not_lost [OF flushed_reachable this(2) flushed_state(4) this(1)]
  show ?thesis
    by (simp add: flushed_state in_cycle_def)
qed

lemma shutdown_drains_and_shuts_gates_witness:
  "1 \<le> sr_posted (ex_logs stopped) \<and> \<not> enabled Error (ex_gates stopped)"
proof -
  have "ex_phase stopped = Returned" "ex_last_call stopped = Some (1, 0)"
    using served_state(5) by (simp_all add: stopped_def end_export_def Let_def)
  with shutdown_drains_and_shuts_gates [OF stopped_reachable, of Error] show ?thesis
    by simp
qed

lemma buffer_keeps_newest_witness:
  "fst (snd (buffer_take (fold (\<lambda>x b. fst (buffer_push x b)) [1, 2, 3 :: nat] (buffer_new 2)))) = [2, 3]"
proof -
  let ?taken = "buffer_take (fold (\<lambda>x b. fst (buffer_push x b)) [1, 2, 3 :: nat] (buffer_new 2))"
  have "?taken = (fst ?taken, fst (snd ?taken), snd (snd ?taken))"
    by simp
  from buffer_keeps_newest [OF _ this] show ?thesis
    by (simp add: newest_def u64_max_def)
qed

end
