(* ===== verification/Metric_Series.thy ===== *)
theory Metric_Series
  imports Prelude "HOL-Library.AList" "HOL-Library.Multiset"
begin

text \<open>
  \<open>o11y/metric/tags.rs\<close> and \<open>o11y/metric/counter.rs\<close>: the series of an instrument, found by a tag
  set in any order and capped in number, and counters over them. A thread that records runs to its
  end before the next: two that race for the last free series may both get one, which the code
  accepts. The hash of one pair is a parameter, and the order in which the map is walked is that of
  its first insertions.
\<close>

section \<open>Tag sets\<close>

type_synonym tags = "(string \<times> string) list"
definition max_series :: nat where
  "max_series = 1024"

definition mask_bits :: nat where
  "mask_bits = 64"

definition no_tags :: tags where
  "no_tags = []"

definition overflow_tags :: tags where
  "overflow_tags = [(''o11y.series_overflow'', ''true'')]"

definition hash_tags :: "(string \<times> string \<Rightarrow> u64) \<Rightarrow> tags \<Rightarrow> u64" where
  "hash_tags pair_hash tags = fold (\<lambda>p combined. combined XOR pair_hash p) tags 0"

text \<open>The loop over the stored pairs, each claiming a pair of the probe that is still free.\<close>

fun claim_pairs :: "tags \<Rightarrow> tags \<Rightarrow> u64 \<Rightarrow> bool" where
  "claim_pairs probe [] claimed = True"
| "claim_pairs probe (p # stored) claimed =
    (case find (\<lambda>i. \<not> bit claimed i \<and> probe ! i = p) [0..<length probe] of
       Some i \<Rightarrow> claim_pairs probe stored (claimed OR push_bit i 1)
     | None \<Rightarrow> False)"

definition same_tags :: "tags \<Rightarrow> tags \<Rightarrow> bool" where
  "same_tags stored probe =
    (if length stored \<noteq> length probe \<or> mask_bits < length probe then False
     else claim_pairs probe stored 0)"

section \<open>The series of an instrument\<close>

record 'a tag_map =
  tm_entries :: "(u64 \<times> (tags \<times> 'a) list) list"
  tm_series :: nat

definition tag_map_new :: "'a tag_map" where
  "tag_map_new = \<lparr> tm_entries = [], tm_series = 0 \<rparr>"

definition tag_bucket :: "u64 \<Rightarrow> 'a tag_map \<Rightarrow> (tags \<times> 'a) list" where
  "tag_bucket h m = (case map_of (tm_entries m) h of Some b \<Rightarrow> b | None \<Rightarrow> [])"

text \<open>\<open>use_series\<close> on the first series whose tags match.\<close>

fun use_first :: "('k \<Rightarrow> bool) \<Rightarrow> ('a \<Rightarrow> 'a \<times> 'r) \<Rightarrow> ('k \<times> 'a) list \<Rightarrow> (('k \<times> 'a) list \<times> 'r) option" where
  "use_first P f [] = None"
| "use_first P f ((k, v) # xs) =
    (if P k then (case f v of (v', r) \<Rightarrow> Some ((k, v') # xs, r))
     else map_option (\<lambda>(ys, r). ((k, v) # ys, r)) (use_first P f xs))"

definition tag_with ::
    "(string \<times> string \<Rightarrow> u64) \<Rightarrow> tags \<Rightarrow> 'a \<Rightarrow> ('a \<Rightarrow> 'a \<times> 'r) \<Rightarrow> 'a tag_map \<Rightarrow> 'a tag_map \<times> 'r option" where
  "tag_with pair_hash tags fresh use_series m =
    (if mask_bits < length tags then (m, None)
     else
       let h = hash_tags pair_hash tags;
           at_capacity = (max_series \<le> tm_series m);
           bucket = tag_bucket h m in
       case use_first (\<lambda>stored. same_tags stored tags) use_series bucket of
         Some (bucket, r) \<Rightarrow> (m\<lparr>tm_entries := AList.update h bucket (tm_entries m)\<rparr>, Some r)
       | None \<Rightarrow>
           if at_capacity then (m, None)
           else (case use_series fresh of (v, r) \<Rightarrow>
             (m\<lparr>tm_entries := AList.update h (bucket @ [(tags, v)]) (tm_entries m),
                tm_series := tm_series m + 1\<rparr>, Some r)))"

definition tag_get :: "(string \<times> string \<Rightarrow> u64) \<Rightarrow> tags \<Rightarrow> 'a tag_map \<Rightarrow> 'a option" where
  "tag_get pair_hash tags m =
    map_option snd (find (\<lambda>(stored, series). same_tags stored tags) (tag_bucket (hash_tags pair_hash tags) m))"

definition tag_each :: "'a tag_map \<Rightarrow> (tags \<times> 'a) list" where
  "tag_each m = concat (map snd (tm_entries m))"

section \<open>Counters\<close>

record counter =
  cn_name :: string
  cn_untagged :: u64
  cn_untagged_set :: bool
  cn_tagged :: "u64 tag_map"
  cn_overflow :: u64

definition counter_new :: "string \<Rightarrow> counter" where
  "counter_new name = \<lparr> cn_name = name, cn_untagged = 0, cn_untagged_set = False,
     cn_tagged = tag_map_new, cn_overflow = 0 \<rparr>"

definition increment :: "u64 \<Rightarrow> counter \<Rightarrow> counter" where
  "increment amount c = c\<lparr>cn_untagged := cn_untagged c + amount, cn_untagged_set := True\<rparr>"

definition add_with_tags :: "(string \<times> string \<Rightarrow> u64) \<Rightarrow> u64 \<Rightarrow> tags \<Rightarrow> counter \<Rightarrow> counter" where
  "add_with_tags pair_hash amount tags c =
    (case tag_with pair_hash tags 0 (\<lambda>series. (series + amount, ())) (cn_tagged c) of
       (m, recorded) \<Rightarrow>
         let c = c\<lparr>cn_tagged := m\<rparr> in
         if recorded = None then c\<lparr>cn_overflow := cn_overflow c + amount\<rparr> else c)"

definition counter_value :: "(string \<times> string \<Rightarrow> u64) \<Rightarrow> tags \<Rightarrow> counter \<Rightarrow> u64" where
  "counter_value pair_hash tags c =
    (if tags = [] then cn_untagged c
     else (case tag_get pair_hash tags (cn_tagged c) of Some v \<Rightarrow> v | None \<Rightarrow> 0))"

definition counter_snapshot :: "counter \<Rightarrow> (tags \<times> u64) list" where
  "counter_snapshot c =
    (if cn_untagged_set c then [(no_tags, cn_untagged c)] else []) @ tag_each (cn_tagged c)
    @ (if 0 < cn_overflow c then [(overflow_tags, cn_overflow c)] else [])"

section \<open>Gauges\<close>

text \<open>\<open>o11y/metric/gauge.rs\<close>: values are the bit patterns the atomics hold.\<close>

record gauge =
  gg_name :: string
  gg_untagged :: u64
  gg_untagged_set :: bool
  gg_tagged :: "u64 tag_map"
  gg_overflow :: u64
  gg_overflow_set :: bool

definition gauge_new :: "string \<Rightarrow> gauge" where
  "gauge_new name = \<lparr> gg_name = name, gg_untagged = 0, gg_untagged_set = False,
     gg_tagged = tag_map_new, gg_overflow = 0, gg_overflow_set = False \<rparr>"

definition gauge_set :: "u64 \<Rightarrow> gauge \<Rightarrow> gauge" where
  "gauge_set bits g = g\<lparr>gg_untagged := bits, gg_untagged_set := True\<rparr>"

definition set_with_tags :: "(string \<times> string \<Rightarrow> u64) \<Rightarrow> u64 \<Rightarrow> tags \<Rightarrow> gauge \<Rightarrow> gauge" where
  "set_with_tags pair_hash bits tags g =
    (case tag_with pair_hash tags bits (\<lambda>series. (bits, ())) (gg_tagged g) of
       (m, recorded) \<Rightarrow>
         let g = g\<lparr>gg_tagged := m\<rparr> in
         if recorded = None then g\<lparr>gg_overflow := bits, gg_overflow_set := True\<rparr> else g)"

definition gauge_value :: "(string \<times> string \<Rightarrow> u64) \<Rightarrow> tags \<Rightarrow> gauge \<Rightarrow> u64 option" where
  "gauge_value pair_hash tags g =
    (if tags = [] then (if gg_untagged_set g then Some (gg_untagged g) else None)
     else tag_get pair_hash tags (gg_tagged g))"

definition gauge_snapshot :: "gauge \<Rightarrow> (tags \<times> u64) list" where
  "gauge_snapshot g =
    (if gg_untagged_set g then [(no_tags, gg_untagged g)] else []) @ tag_each (gg_tagged g)
    @ (if gg_overflow_set g then [(overflow_tags, gg_overflow g)] else [])"

section \<open>Matching tag sets\<close>

text \<open>The pairs of the probe that are not claimed.\<close>

definition unclaimed :: "tags \<Rightarrow> u64 \<Rightarrow> (string \<times> string) multiset" where
  "unclaimed probe claimed = mset (map ((!) probe) (filter (\<lambda>i. \<not> bit claimed i) [0..<length probe]))"

lemma claim_bit:
  "i < 64 \<Longrightarrow> bit (claimed OR push_bit i 1 :: u64) j \<longleftrightarrow> bit claimed j \<or> j = i"
  by (auto simp: bit_or_iff bit_exp_iff)

lemma mset_filter_remove:
  assumes "distinct xs" and "x \<in> set xs" and "P x"
  shows "mset (filter P xs) = add_mset x (mset (filter (\<lambda>y. P y \<and> y \<noteq> x) xs))"
  using assms
proof (induction xs)
  case (Cons y xs)
  have "filter (\<lambda>z. P z \<and> z \<noteq> y) xs = filter P xs" if "y \<notin> set xs"
    using that by (intro filter_cong) auto
  with Cons show ?case
    by (cases "x = y") (auto simp: mset_filter [symmetric] simp del: mset_filter)
qed simp

lemma unclaimed_claim:
  assumes "i < length probe" and "length probe \<le> 64" and "\<not> bit claimed i"
  shows "unclaimed probe claimed = add_mset (probe ! i) (unclaimed probe (claimed OR push_bit i 1))"
proof -
  have "mset (filter (\<lambda>j. \<not> bit claimed j) [0..<length probe])
      = add_mset i (mset (filter (\<lambda>j. \<not> bit claimed j \<and> j \<noteq> i) [0..<length probe]))"
    using assms by (intro mset_filter_remove) simp_all
  moreover have "(\<lambda>j. \<not> bit (claimed OR push_bit i 1) j) = (\<lambda>j. \<not> bit claimed j \<and> j \<noteq> i)"
    using claim_bit [of i claimed] assms(1,2) by auto
  ultimately show ?thesis
    unfolding unclaimed_def mset_map by simp
qed

lemma claim_pairs_iff:
  "length probe \<le> 64 \<Longrightarrow> claim_pairs probe stored claimed \<longleftrightarrow> mset stored \<subseteq># unclaimed probe claimed"
proof (induction stored arbitrary: claimed)
  case (Cons p stored)
  show ?case
  proof (cases "find (\<lambda>i. \<not> bit claimed i \<and> probe ! i = p) [0..<length probe]")
    case None
    then have "p \<notin># unclaimed probe claimed"
      by (auto simp: unclaimed_def find_None_iff)
    with None show ?thesis
      by (auto dest: mset_subset_eqD)
  next
    case (Some i)
    then have "i < length probe" "\<not> bit claimed i" "probe ! i = p"
      by (auto simp: find_Some_iff)
    with Cons Some unclaimed_claim [of i probe claimed] show ?thesis
      by simp
  qed
qed simp

lemma same_tags_iff: "same_tags stored probe \<longleftrightarrow> mset stored = mset probe \<and> length probe \<le> mask_bits"
proof (cases "length stored = length probe \<and> length probe \<le> mask_bits")
  case True
  have "unclaimed probe 0 = mset probe"
    by (simp add: unclaimed_def map_nth)
  with True claim_pairs_iff [of probe stored 0] have "same_tags stored probe \<longleftrightarrow> mset stored \<subseteq># mset probe"
    by (simp add: same_tags_def mask_bits_def)
  also have "\<dots> \<longleftrightarrow> mset stored = mset probe"
    using True mset_subset_size [of "mset stored" "mset probe"] by (auto simp: subset_mset.le_less)
  finally show ?thesis
    using True by simp
next
  case False
  then show ?thesis
    using mset_eq_length [of stored probe] by (auto simp: same_tags_def)
qed

lemma hash_tags_mset: "mset s = mset t \<Longrightarrow> hash_tags pair_hash s = hash_tags pair_hash t"
  unfolding hash_tags_def
  by (rule fold_multiset_equiv [THEN fun_cong]) (auto simp: fun_eq_iff xor.assoc xor.commute xor.left_commute)

section \<open>The map as a function of tag multisets\<close>

lemma find_append: "find P (xs @ ys) = (case find P xs of None \<Rightarrow> find P ys | Some x \<Rightarrow> Some x)"
  by (induction xs) auto

lemma use_first_None: "use_first P f b = None \<longleftrightarrow> find (\<lambda>(k, v). P k) b = None"
  by (induction P f b rule: use_first.induct) (auto split: prod.splits)

lemma use_first_Some:
  assumes "use_first P f b = Some (b', r)"
  obtains k v where "find (\<lambda>(k, v). P k) b = Some (k, v)" "snd (f v) = r"
    "find (\<lambda>(k, v). P k) b' = Some (k, fst (f v))"
    "\<And>Q. (\<And>k. P k \<Longrightarrow> \<not> Q k) \<Longrightarrow> find (\<lambda>(k, v). Q k) b' = find (\<lambda>(k, v). Q k) b"
proof -
  have "\<exists>k v. find (\<lambda>(k, v). P k) b = Some (k, v) \<and> snd (f v) = r \<and> find (\<lambda>(k, v). P k) b' = Some (k, fst (f v))
    \<and> (\<forall>Q. (\<forall>k. P k \<longrightarrow> \<not> Q k) \<longrightarrow> find (\<lambda>(k, v). Q k) b' = find (\<lambda>(k, v). Q k) b)"
    using assms
  proof (induction b arbitrary: b')
    case (Cons x xs)
    obtain k v where x: "x = (k, v)"
      by fastforce
    show ?case
    proof (cases "P k")
      case True
      with Cons.prems show ?thesis
        by (auto simp: x split: prod.splits)
    next
      case False
      with Cons.prems obtain ys where "use_first P f xs = Some (ys, r)" "b' = (k, v) # ys"
        by (auto simp: x)
      with Cons.IH [of ys] False show ?thesis
        by (auto simp: x)
    qed
  qed simp
  then show thesis
    using that by blast
qed

lemma use_first_sum:
  fixes \<mu> :: "'a \<Rightarrow> 'n::comm_monoid_add"
  assumes "use_first P f b = Some (b', r)" and "\<And>v. \<mu> (fst (f v)) = \<mu> v + d"
  shows "sum_list (map (\<lambda>x. \<mu> (snd x)) b') = sum_list (map (\<lambda>x. \<mu> (snd x)) b) + d"
  using assms(1)
proof (induction b arbitrary: b')
  case (Cons x xs)
  obtain k v where x: "x = (k, v)"
    by fastforce
  show ?case
  proof (cases "P k")
    case True
    with Cons.prems assms(2) [of v] show ?thesis
      by (auto simp: x add.assoc add.commute add.left_commute split: prod.splits)
  next
    case False
    with Cons.prems obtain ys where "use_first P f xs = Some (ys, r)" "b' = (k, v) # ys"
      by (auto simp: x)
    with Cons.IH [of ys] show ?thesis
      by (simp add: x add.assoc)
  qed
qed simp

lemma update_sum:
  fixes \<mu> :: "'a \<Rightarrow> 'n::comm_monoid_add"
  assumes "sum_list (map (\<lambda>x. \<mu> (snd x)) b)
      = sum_list (map (\<lambda>x. \<mu> (snd x)) (case map_of es h of Some b \<Rightarrow> b | None \<Rightarrow> [])) + d"
  shows "sum_list (map (\<lambda>x. \<mu> (snd x)) (concat (map snd (AList.update h b es))))
      = sum_list (map (\<lambda>x. \<mu> (snd x)) (concat (map snd es))) + d"
  using assms by (induction es) (auto simp: add.assoc add.commute add.left_commute split: if_splits)

lemma bucket_update:
  "tag_bucket h (m\<lparr>tm_entries := AList.update h' b (tm_entries m)\<rparr>) = (if h = h' then b else tag_bucket h m)"
  "tag_bucket h (m\<lparr>tm_series := n\<rparr>) = tag_bucket h m"
  by (simp_all add: tag_bucket_def update_conv')

text \<open>Everything \<open>tag_with\<close> does to the series, read off its answer.\<close>

lemma tag_get_find:
  "tag_get pair_hash t m = map_option snd (find (\<lambda>(stored, series). same_tags stored t)
    (tag_bucket (hash_tags pair_hash t) m))"
  by (simp add: tag_get_def)

lemma tag_with_refused:
  assumes "tag_with pair_hash t fresh f m = (m', None)"
  shows "m' = m" "tag_get pair_hash t m = None" "mask_bits < length t \<or> max_series \<le> tm_series m"
proof -
  have "find (\<lambda>(stored, series). same_tags stored t) b = None" if "mask_bits < length t" for b :: "(tags \<times> 'a) list"
    using that by (auto simp: find_None_iff same_tags_iff)
  moreover have "find (\<lambda>(stored, series). same_tags stored t) (tag_bucket (hash_tags pair_hash t) m) = None"
    if "\<not> mask_bits < length t"
    using that assms use_first_None [of "\<lambda>stored. same_tags stored t" f "tag_bucket (hash_tags pair_hash t) m"]
    by (auto simp: tag_with_def Let_def split: option.splits if_splits prod.splits)
  ultimately show "tag_get pair_hash t m = None"
    by (auto simp: tag_get_def)
  show "m' = m" "mask_bits < length t \<or> max_series \<le> tm_series m"
    using assms by (auto simp: tag_with_def Let_def split: option.splits if_splits prod.splits)
qed

lemma get_other:
  assumes "mset t' \<noteq> mset t"
    and "hash_tags pair_hash t' = hash_tags pair_hash t \<Longrightarrow>
      find (\<lambda>(stored, series). same_tags stored t') b
        = find (\<lambda>(stored, series). same_tags stored t') (tag_bucket (hash_tags pair_hash t) m)"
  shows "tag_get pair_hash t' (m\<lparr>tm_entries := AList.update (hash_tags pair_hash t) b (tm_entries m)\<rparr>)
    = tag_get pair_hash t' m"
  using assms by (auto simp: tag_get_def bucket_update)

lemma get_same:
  assumes "mset t' = mset t" and "length t \<le> mask_bits"
  shows "tag_get pair_hash t' m = tag_get pair_hash t m"
proof -
  have "length t' = length t"
    using assms(1) by (rule mset_eq_length)
  with assms have "same_tags stored t' = same_tags stored t" for stored
    by (simp add: same_tags_iff)
  with hash_tags_mset [OF assms(1)] show ?thesis
    by (simp add: tag_get_def)
qed

lemma tag_with_done:
  assumes "tag_with pair_hash t fresh f m = (m', Some r)"
  shows "length t \<le> mask_bits"
    "tm_series m' = tm_series m + (if tag_get pair_hash t m = None then 1 else 0)"
    "tag_get pair_hash t m = None \<Longrightarrow> tm_series m < max_series"
    "tag_get pair_hash t' m' = (if mset t' = mset t
      then Some (fst (f (case tag_get pair_hash t m of Some v \<Rightarrow> v | None \<Rightarrow> fresh))) else tag_get pair_hash t' m)"
proof -
  let ?h = "hash_tags pair_hash t" and ?P = "\<lambda>stored. same_tags stored t"
  show short: "length t \<le> mask_bits"
    using assms by (auto simp: tag_with_def split: if_splits)
  have apart: "\<not> same_tags stored t'" if "mset t' \<noteq> mset t" "?P stored" for stored t'
    using that by (auto simp: same_tags_iff)
  show "tm_series m' = tm_series m + (if tag_get pair_hash t m = None then 1 else 0)"
    "tag_get pair_hash t m = None \<Longrightarrow> tm_series m < max_series"
    "tag_get pair_hash t' m' = (if mset t' = mset t
      then Some (fst (f (case tag_get pair_hash t m of Some v \<Rightarrow> v | None \<Rightarrow> fresh))) else tag_get pair_hash t' m)"
  proof (atomize (full), cases "use_first ?P f (tag_bucket ?h m)")
    case None
    then have old: "find (\<lambda>(stored, series). ?P stored) (tag_bucket ?h m) = None"
      by (simp add: use_first_None)
    then have absent: "tag_get pair_hash t m = None"
      by (simp add: tag_get_def)
    have m': "m' = m\<lparr>tm_entries := AList.update ?h (tag_bucket ?h m @ [(t, fst (f fresh))]) (tm_entries m),
        tm_series := tm_series m + 1\<rparr>" and room: "tm_series m < max_series"
      using assms None short by (auto simp: tag_with_def Let_def split: if_splits prod.splits)
    have new: "tag_get pair_hash t m' = Some (fst (f fresh))"
      using old short by (simp add: m' tag_get_def bucket_update find_append same_tags_iff case_prod_beta)
    have "tag_get pair_hash t' m' = tag_get pair_hash t' m" if "mset t' \<noteq> mset t"
      using that [symmetric] by (simp add: m' tag_get_def bucket_update find_append same_tags_iff split: option.split)
    moreover have "tag_get pair_hash t' m' = tag_get pair_hash t m'" if "mset t' = mset t"
      using get_same [OF that short] .
    ultimately show "(tm_series m' = tm_series m + (if tag_get pair_hash t m = None then 1 else 0))
      \<and> (tag_get pair_hash t m = None \<longrightarrow> tm_series m < max_series)
      \<and> tag_get pair_hash t' m' = (if mset t' = mset t
        then Some (fst (f (case tag_get pair_hash t m of Some v \<Rightarrow> v | None \<Rightarrow> fresh))) else tag_get pair_hash t' m)"
      using new absent room by (cases "mset t' = mset t") (simp_all add: m')
  next
    case (Some found)
    obtain b where used: "use_first ?P f (tag_bucket ?h m) = Some (b, r)"
      and m': "m' = m\<lparr>tm_entries := AList.update ?h b (tm_entries m)\<rparr>"
      using assms Some short by (auto simp: tag_with_def Let_def split: if_splits prod.splits)
    from use_first_Some [OF used] obtain k v where spec:
      "find (\<lambda>(k, v). ?P k) (tag_bucket ?h m) = Some (k, v)" "find (\<lambda>(k, v). ?P k) b = Some (k, fst (f v))"
      "\<And>Q. (\<And>k. ?P k \<Longrightarrow> \<not> Q k) \<Longrightarrow> find (\<lambda>(k, v). Q k) b = find (\<lambda>(k, v). Q k) (tag_bucket ?h m)"
      by metis
    have there: "tag_get pair_hash t m = Some v" and new: "tag_get pair_hash t m' = Some (fst (f v))"
      using spec(1,2) by (simp_all add: tag_get_def m' bucket_update)
    have "tag_get pair_hash t' m' = tag_get pair_hash t' m" if "mset t' \<noteq> mset t"
      unfolding m' by (rule get_other [OF that]) (rule spec(3), erule apart [OF that])
    moreover have "tag_get pair_hash t' m' = tag_get pair_hash t m'" if "mset t' = mset t"
      using get_same [OF that short] .
    ultimately show "(tm_series m' = tm_series m + (if tag_get pair_hash t m = None then 1 else 0))
      \<and> (tag_get pair_hash t m = None \<longrightarrow> tm_series m < max_series)
      \<and> tag_get pair_hash t' m' = (if mset t' = mset t
        then Some (fst (f (case tag_get pair_hash t m of Some v \<Rightarrow> v | None \<Rightarrow> fresh))) else tag_get pair_hash t' m)"
      using new there by (cases "mset t' = mset t") (simp_all add: m')
  qed
qed

lemma tag_with_sum:
  fixes \<mu> :: "'a \<Rightarrow> 'n::comm_monoid_add"
  assumes "tag_with pair_hash t fresh f m = (m', Some r)" and "\<And>v. \<mu> (fst (f v)) = \<mu> v + d" and "\<mu> fresh = 0"
  shows "sum_list (map (\<lambda>x. \<mu> (snd x)) (tag_each m')) = sum_list (map (\<lambda>x. \<mu> (snd x)) (tag_each m)) + d"
proof (cases "use_first (\<lambda>stored. same_tags stored t) f (tag_bucket (hash_tags pair_hash t) m)")
  case None
  then have m': "m' = m\<lparr>tm_entries := AList.update (hash_tags pair_hash t)
      (tag_bucket (hash_tags pair_hash t) m @ [(t, fst (f fresh))]) (tm_entries m), tm_series := tm_series m + 1\<rparr>"
    using assms(1) by (auto simp: tag_with_def Let_def split: if_splits prod.splits)
  show ?thesis
    unfolding m' tag_each_def using assms(2) [of fresh] assms(3)
    by (simp, intro update_sum) (simp add: tag_bucket_def)
next
  case (Some found)
  then obtain b where used: "use_first (\<lambda>stored. same_tags stored t) f (tag_bucket (hash_tags pair_hash t) m) = Some (b, r)"
    and m': "m' = m\<lparr>tm_entries := AList.update (hash_tags pair_hash t) b (tm_entries m)\<rparr>"
    using assms(1) by (auto simp: tag_with_def Let_def split: if_splits prod.splits)
  show ?thesis
    unfolding m' tag_each_def using use_first_sum [where \<mu> = \<mu>, OF used assms(2)]
    by (simp, intro update_sum) (simp add: tag_bucket_def)
qed

lemma tag_with_length:
  assumes "tag_with pair_hash t fresh f m = (m', Some r)"
  shows "length (tag_each m') + tm_series m = length (tag_each m) + tm_series m'"
proof (cases "use_first (\<lambda>stored. same_tags stored t) f (tag_bucket (hash_tags pair_hash t) m)")
  case None
  then have m': "m' = m\<lparr>tm_entries := AList.update (hash_tags pair_hash t)
      (tag_bucket (hash_tags pair_hash t) m @ [(t, fst (f fresh))]) (tm_entries m), tm_series := tm_series m + 1\<rparr>"
    using assms by (auto simp: tag_with_def Let_def split: if_splits prod.splits)
  show ?thesis
    using update_sum [where \<mu> = "\<lambda>v. 1 :: nat" and d = 1
        and b = "tag_bucket (hash_tags pair_hash t) m @ [(t, fst (f fresh))]" and es = "tm_entries m"
        and h = "hash_tags pair_hash t"]
    by (simp add: m' tag_each_def tag_bucket_def sum_list_triv)
next
  case (Some found)
  then obtain b where used: "use_first (\<lambda>stored. same_tags stored t) f (tag_bucket (hash_tags pair_hash t) m) = Some (b, r)"
    and m': "m' = m\<lparr>tm_entries := AList.update (hash_tags pair_hash t) b (tm_entries m)\<rparr>"
    using assms by (auto simp: tag_with_def Let_def split: if_splits prod.splits)
  from use_first_sum [where \<mu> = "\<lambda>v. 1 :: nat" and d = 0, OF used] show ?thesis
    using update_sum [where \<mu> = "\<lambda>v. 1 :: nat" and d = 0 and b = b and es = "tm_entries m"
        and h = "hash_tags pair_hash t"]
    by (simp add: m' tag_each_def tag_bucket_def sum_list_triv)
qed

section \<open>A history of samples\<close>

text \<open>The tag sets that got a series: the first ones, of those that fit the mask.\<close>

definition admitted :: "(tags \<times> 'b) list \<Rightarrow> (string \<times> string) multiset list" where
  "admitted samples = take max_series (firsts (map mset (filter (\<lambda>t. length t \<le> mask_bits) (map fst samples))))"

text \<open>A history of changes to the series of one instrument.\<close>

definition series_run ::
    "(string \<times> string \<Rightarrow> u64) \<Rightarrow> 'a \<Rightarrow> (tags \<times> ('a \<Rightarrow> 'a)) list \<Rightarrow> 'a tag_map" where
  "series_run pair_hash fresh samples =
    fold (\<lambda>(t, f) m. fst (tag_with pair_hash t fresh (\<lambda>v. (f v, ())) m)) samples tag_map_new"

definition series_value :: "'a \<Rightarrow> tags \<Rightarrow> (tags \<times> ('a \<Rightarrow> 'a)) list \<Rightarrow> 'a" where
  "series_value fresh t samples = fold (\<lambda>(s, f). f) (filter (\<lambda>(s, f). mset s = mset t) samples) fresh"

lemma take_firsts_snoc:
  "take n (firsts (xs @ [x])) =
    (if x \<notin> set (take n (firsts xs)) \<and> length (take n (firsts xs)) < n
     then take n (firsts xs) @ [x] else take n (firsts xs))"
proof (cases "length (firsts xs) < n")
  case True
  then show ?thesis
    by (simp add: firsts_snoc)
next
  case False
  then show ?thesis
    by (simp add: firsts_snoc)
qed

lemma admitted_snoc:
  "admitted (samples @ [(t, f)]) =
    (if length t \<le> mask_bits \<and> mset t \<notin> set (admitted samples) \<and> length (admitted samples) < max_series
     then admitted samples @ [mset t] else admitted samples)"
proof (cases "length t \<le> mask_bits")
  case True
  then show ?thesis
    using take_firsts_snoc [of max_series "map mset (filter (\<lambda>t. length t \<le> mask_bits) (map fst samples))" "mset t"]
    unfolding admitted_def by simp
qed (simp add: admitted_def)

lemma series_run_snoc:
  "series_run pair_hash fresh (samples @ [(t, f)])
    = fst (tag_with pair_hash t fresh (\<lambda>v. (f v, ())) (series_run pair_hash fresh samples))"
  by (simp add: series_run_def)

lemma short_mset: "mset s = mset t \<Longrightarrow> length s = length t"
  by (rule mset_eq_length)

lemma series_run_spec:
  "tm_series (series_run pair_hash fresh samples) = length (admitted samples)
   \<and> (\<forall>t. tag_get pair_hash t (series_run pair_hash fresh samples)
        = (if mset t \<in> set (admitted samples) then Some (series_value fresh t samples) else None))"
proof (induction samples rule: rev_induct)
  case Nil
  show ?case
    by (simp add: series_run_def admitted_def firsts_def tag_map_new_def tag_get_def tag_bucket_def)
next
  case (snoc sample samples)
  obtain s f where sample: "sample = (s, f)"
    by fastforce
  let ?m = "series_run pair_hash fresh samples"
  obtain m' r where step: "tag_with pair_hash s fresh (\<lambda>v. (f v, ())) ?m = (m', r)"
    by fastforce
  have other: "series_value fresh t (samples @ [(s, f)]) =
      (if mset s = mset t then f (series_value fresh t samples) else series_value fresh t samples)" for t
    by (simp add: series_value_def)
  have same: "series_value fresh s samples = series_value fresh t samples" if "mset s = mset t" for t
    using that by (simp add: series_value_def)
  show ?case
  proof (cases r)
    case None
    note refused = tag_with_refused [OF step [unfolded None]]
    have absent: "mset s \<notin> set (admitted samples)"
      using refused(2) snoc by auto
    have "mask_bits < length s \<or> max_series \<le> length (admitted samples)"
      using refused(3) snoc by simp
    then have "admitted (samples @ [(s, f)]) = admitted samples"
      by (auto simp: admitted_snoc)
    with snoc absent refused(1) step other show ?thesis
      by (auto simp: sample series_run_snoc)
  next
    case (Some u)
    note recorded = tag_with_done [OF step [unfolded Some]]
    have known: "tag_get pair_hash s ?m = None \<longleftrightarrow> mset s \<notin> set (admitted samples)"
      using snoc by simp
    have admitted: "admitted (samples @ [(s, f)]) =
        (if mset s \<in> set (admitted samples) then admitted samples else admitted samples @ [mset s])"
      using recorded(1,3) known snoc by (auto simp: admitted_snoc)
    have first: "series_value fresh s samples = fresh" if "mset s \<notin> set (admitted samples)"
    proof -
      have "length (admitted samples) < max_series"
        using recorded(3) known that snoc by simp
      then have "admitted samples = firsts (map mset (filter (\<lambda>t. length t \<le> mask_bits) (map fst samples)))"
        by (simp add: admitted_def)
      then have "mset t \<in> set (admitted samples)" if "(t, g) \<in> set samples" "length t \<le> mask_bits" for t g
        using that by force
      with that recorded(1) have "mset t \<noteq> mset s" if "(t, g) \<in> set samples" for t g
        using that short_mset [of t s] by fastforce
      then have "filter (\<lambda>(t, f). mset t = mset s) samples = []"
        by (auto simp: filter_empty_conv)
      then show ?thesis
        by (simp add: series_value_def)
    qed
    have "tag_get pair_hash t m' = (if mset t \<in> set (admitted (samples @ [(s, f)]))
        then Some (series_value fresh t (samples @ [(s, f)])) else None)" for t
    proof (cases "mset t = mset s")
      case True
      with recorded(4) [of t] snoc known first same [of t] other [of t] show ?thesis
        by (auto simp: admitted split: option.splits)
    next
      case False
      with recorded(4) [of t] snoc other [of t] show ?thesis
        by (auto simp: admitted)
    qed
    moreover have "tm_series m' = length (admitted (samples @ [(s, f)]))"
      using recorded(2) known snoc by (simp add: admitted)
    ultimately show ?thesis
      using step by (simp add: sample series_run_snoc)
  qed
qed

section \<open>Counters and gauges over a history\<close>

datatype counter_call = Increment u64 | Add u64 tags

fun counter_step :: "(string \<times> string \<Rightarrow> u64) \<Rightarrow> counter_call \<Rightarrow> counter \<Rightarrow> counter" where
  "counter_step pair_hash (Increment amount) c = increment amount c"
| "counter_step pair_hash (Add amount tags) c = add_with_tags pair_hash amount tags c"

text \<open>What the calls add: to the untagged series, to tag sets, and altogether.\<close>

fun tagged_adds :: "counter_call list \<Rightarrow> (tags \<times> u64) list" where
  "tagged_adds [] = []"
| "tagged_adds (Increment amount # calls) = tagged_adds calls"
| "tagged_adds (Add amount tags # calls) = (tags, amount) # tagged_adds calls"

fun increments :: "counter_call list \<Rightarrow> u64 list" where
  "increments [] = []"
| "increments (Increment amount # calls) = amount # increments calls"
| "increments (Add amount tags # calls) = increments calls"

fun amount_of :: "counter_call \<Rightarrow> u64" where
  "amount_of (Increment amount) = amount"
| "amount_of (Add amount tags) = amount"

definition adding :: "tags \<times> u64 \<Rightarrow> tags \<times> (u64 \<Rightarrow> u64)" where
  "adding = (\<lambda>(tags, amount). (tags, \<lambda>v. v + amount))"

lemma counter_parts_append:
  "tagged_adds (calls @ calls') = tagged_adds calls @ tagged_adds calls'"
  "increments (calls @ calls') = increments calls @ increments calls'"
  by (induction calls rule: tagged_adds.induct) simp_all

lemma add_with_tags_parts:
  "cn_tagged (add_with_tags pair_hash amount tags c)
    = fst (tag_with pair_hash tags 0 (\<lambda>v. (v + amount, ())) (cn_tagged c))"
  "cn_untagged (add_with_tags pair_hash amount tags c) = cn_untagged c"
  "cn_untagged_set (add_with_tags pair_hash amount tags c) = cn_untagged_set c"
  by (simp_all add: add_with_tags_def Let_def split: prod.splits)

lemma counter_parts:
  "cn_tagged (fold (counter_step pair_hash) calls (counter_new name))
      = series_run pair_hash 0 (map adding (tagged_adds calls))
    \<and> cn_untagged (fold (counter_step pair_hash) calls (counter_new name)) = sum_list (increments calls)"
proof (induction calls rule: rev_induct)
  case Nil
  show ?case
    by (simp add: counter_new_def series_run_def)
next
  case (snoc call calls)
  then show ?case
    by (cases call) (simp_all add: counter_parts_append series_run_snoc add_with_tags_parts increment_def adding_def)
qed

lemma series_value_sum:
  "series_value 0 t (map adding samples) = sum_list (map snd (filter (\<lambda>(s, amount). mset s = mset t) samples))"
proof (induction samples rule: rev_induct)
  case (snoc x xs)
  then show ?case
    by (cases x) (simp add: series_value_def adding_def)
qed (simp add: series_value_def)

definition exported :: "(tags \<times> u64) list \<Rightarrow> u64" where
  "exported points = sum_list (map snd points)"

lemma exported_parts:
  "exported (counter_snapshot c) = (if cn_untagged_set c then cn_untagged c else 0)
    + exported (tag_each (cn_tagged c)) + cn_overflow c"
  by (auto simp: exported_def counter_snapshot_def word_gt_0)

lemma exported_step:
  assumes "cn_untagged_set c \<or> cn_untagged c = 0"
  shows "exported (counter_snapshot (counter_step pair_hash call c)) = exported (counter_snapshot c) + amount_of call
    \<and> (cn_untagged_set (counter_step pair_hash call c) \<or> cn_untagged (counter_step pair_hash call c) = 0)"
proof (cases call)
  case (Increment amount)
  with assms show ?thesis
    by (auto simp: exported_parts increment_def)
next
  case (Add amount tags)
  obtain m r where step: "tag_with pair_hash tags 0 (\<lambda>v. (v + amount, ())) (cn_tagged c) = (m, r)"
    by fastforce
  have "exported (tag_each m) = exported (tag_each (cn_tagged c)) + amount" if "r = Some u" for u
    using tag_with_sum [where \<mu> = "\<lambda>v. v" and d = amount, OF step [unfolded that]] by (simp add: exported_def)
  moreover have "m = cn_tagged c" if "r = None"
    using tag_with_refused(1) [OF step [unfolded that]] .
  ultimately show ?thesis
    using assms step by (cases r) (auto simp: exported_parts Add add_with_tags_def Let_def)
qed

section \<open>Properties\<close>

text \<open>C17. The hash buckets and the claiming masks refine a plain map from multisets of tags: over any
  history of samples a tag set has a series exactly when it is among the first 1024 that fit the
  mask, in whatever order its tags are written, and the series holds what its own samples made of
  it and nothing else, whatever hashes collide.\<close>

theorem series_refine_tag_multisets:
  "tag_get pair_hash t (series_run pair_hash fresh samples)
     = (if mset t \<in> set (admitted samples) then Some (series_value fresh t samples) else None)
   \<and> tm_series (series_run pair_hash fresh samples) = length (admitted samples)
   \<and> length (admitted samples) \<le> 1024"
  using series_run_spec [of pair_hash fresh samples] by (auto simp: admitted_def max_series_def)

text \<open>A counter loses nothing: after any calls, the points it exports add up to all that was ever
  added to it, modulo 2 to the 64, the samples past the cap included; and a series reads as the sum
  of what was added under its tags, in any order of the tags.\<close>

theorem counter_conserves_totals:
  "exported (counter_snapshot (fold (counter_step pair_hash) calls (counter_new name)))
     = sum_list (map amount_of calls)
   \<and> counter_value pair_hash t (fold (counter_step pair_hash) calls (counter_new name))
     = (if t = [] then sum_list (increments calls)
        else if mset t \<in> set (admitted (tagged_adds calls))
        then sum_list (map snd (filter (\<lambda>(s, amount). mset s = mset t) (tagged_adds calls))) else 0)"
proof
  have "exported (counter_snapshot (fold (counter_step pair_hash) calls (counter_new name)))
      = sum_list (map amount_of calls)
    \<and> (cn_untagged_set (fold (counter_step pair_hash) calls (counter_new name))
       \<or> cn_untagged (fold (counter_step pair_hash) calls (counter_new name)) = 0)"
  proof (induction calls rule: rev_induct)
    case Nil
    show ?case
      by (simp add: counter_new_def exported_def counter_snapshot_def tag_each_def tag_map_new_def)
  next
    case (snoc call calls)
    with exported_step [of "fold (counter_step pair_hash) calls (counter_new name)" pair_hash call] show ?case
      by simp
  qed
  then show "exported (counter_snapshot (fold (counter_step pair_hash) calls (counter_new name)))
      = sum_list (map amount_of calls)" ..
  have "admitted (map adding (tagged_adds calls)) = admitted (tagged_adds calls)"
    by (simp add: admitted_def adding_def comp_def case_prod_beta)
  with counter_parts [of pair_hash calls name] series_run_spec [of pair_hash 0 "map adding (tagged_adds calls)"]
  show "counter_value pair_hash t (fold (counter_step pair_hash) calls (counter_new name))
     = (if t = [] then sum_list (increments calls)
        else if mset t \<in> set (admitted (tagged_adds calls))
        then sum_list (map snd (filter (\<lambda>(s, amount). mset s = mset t) (tagged_adds calls))) else 0)"
    by (simp add: counter_value_def series_value_sum)
qed

text \<open>A sample with an empty tag set gets a series of its own beside the untagged one: reading with
  no tags does not see it, and both are exported under the same tags.\<close>

lemma empty_tags_are_a_second_series:
  "counter_value pair_hash [] (add_with_tags pair_hash 5 [] (increment 1 (counter_new name))) = 1"
  "counter_snapshot (add_with_tags pair_hash 5 [] (increment 1 (counter_new name))) = [([], 1), ([], 5)]"
  by (simp_all add: add_with_tags_def increment_def counter_new_def tag_with_def tag_map_new_def tag_bucket_def
    counter_value_def counter_snapshot_def tag_each_def hash_tags_def mask_bits_def max_series_def no_tags_def Let_def)

text \<open>A gauge reads as the last value set.\<close>

lemma gauge_reads_last:
  "gauge_value pair_hash [] (gauge_set bits g) = Some bits"
  "tag_get pair_hash t (gg_tagged (set_with_tags pair_hash bits t g)) \<in> {None, Some bits}"
proof -
  show "gauge_value pair_hash [] (gauge_set bits g) = Some bits"
    by (simp add: gauge_value_def gauge_set_def)
  obtain m r where step: "tag_with pair_hash t bits (\<lambda>v. (bits, ())) (gg_tagged g) = (m, r)"
    by fastforce
  show "tag_get pair_hash t (gg_tagged (set_with_tags pair_hash bits t g)) \<in> {None, Some bits}"
  proof (cases r)
    case None
    with step tag_with_refused [OF step [unfolded None]] show ?thesis
      by (simp add: set_with_tags_def Let_def)
  next
    case (Some u)
    with step tag_with_done(4) [OF step [unfolded Some], of t] show ?thesis
      by (simp add: set_with_tags_def Let_def)
  qed
qed

end
