(* ===== verification/Metric_Histogram.thy ===== *)
theory Metric_Histogram
  imports Complex_Main Metric_Series
begin

text \<open>
  \<open>o11y/metric/histogram.rs\<close> and \<open>o11y/metric/registry.rs\<close>: counts per bucket, and the list of the
  instruments a program has. An \<open>f64\<close> is not a number, infinite or a real number, both zeros being
  one; its rounded addition is a parameter.
\<close>

section \<open>Buckets\<close>

datatype f64 = NaN | Infinite bool | Finite real

definition is_finite :: "f64 \<Rightarrow> bool" where
  "is_finite x = (case x of Finite r \<Rightarrow> True | _ \<Rightarrow> False)"

definition default_bounds :: "real list" where
  "default_bounds = [0, 5, 10, 25, 50, 75, 100, 250, 500, 750, 1000, 2500, 5000, 7500, 10000]"

record buckets =
  bk_counts :: "u64 list"
  bk_count :: u64
  bk_sum :: f64

definition buckets_new :: "nat \<Rightarrow> buckets" where
  "buckets_new bound_count = \<lparr> bk_counts = replicate (bound_count + 1) 0, bk_count = 0, bk_sum = Finite 0 \<rparr>"

text \<open>\<open>position\<close>, or the length of the list.\<close>

fun first_position :: "('a \<Rightarrow> bool) \<Rightarrow> 'a list \<Rightarrow> nat" where
  "first_position P [] = 0"
| "first_position P (x # xs) = (if P x then 0 else Suc (first_position P xs))"

definition record_value :: "(f64 \<Rightarrow> f64 \<Rightarrow> f64) \<Rightarrow> real list \<Rightarrow> real \<Rightarrow> buckets \<Rightarrow> buckets" where
  "record_value plus_f64 bounds v b =
    (let index = first_position (\<lambda>bound. v \<le> bound) bounds in
     b\<lparr>bk_counts := (bk_counts b)[index := bk_counts b ! index + 1], bk_count := bk_count b + 1,
       bk_sum := plus_f64 (bk_sum b) (Finite v)\<rparr>)"

record histogram_point =
  hp_tags :: tags
  hp_count :: u64
  hp_sum :: f64
  hp_counts :: "u64 list"

definition buckets_snapshot :: "tags \<Rightarrow> buckets \<Rightarrow> histogram_point" where
  "buckets_snapshot tags b = \<lparr> hp_tags = tags, hp_count = sum_list (bk_counts b), hp_sum = bk_sum b,
     hp_counts = bk_counts b \<rparr>"

section \<open>Histograms\<close>

record histogram =
  hs_name :: string
  hs_layout :: "(real list \<times> buckets) option"
  hs_tagged :: "buckets tag_map"
  hs_overflow :: "buckets option"

definition histogram_new :: "string \<Rightarrow> histogram" where
  "histogram_new name = \<lparr> hs_name = name, hs_layout = None, hs_tagged = tag_map_new, hs_overflow = None \<rparr>"

definition new_layout :: "real list \<Rightarrow> real list \<times> buckets" where
  "new_layout bounds = (bounds, buckets_new (length bounds))"

text \<open>On finite values \<open>total_cmp\<close> is the order of the reals, and \<open>dedup\<close> removes what is equal to
  the element before it.\<close>

definition usable_bounds :: "f64 list \<Rightarrow> real list" where
  "usable_bounds bounds =
    remdups_adj (sort (List.map_filter (\<lambda>b. case b of Finite r \<Rightarrow> Some r | _ \<Rightarrow> None) bounds))"

definition with_buckets :: "f64 list \<Rightarrow> histogram \<Rightarrow> histogram" where
  "with_buckets bounds h =
    (case hs_layout h of Some l \<Rightarrow> h | None \<Rightarrow> h\<lparr>hs_layout := Some (new_layout (usable_bounds bounds))\<rparr>)"

definition layout_of :: "histogram \<Rightarrow> real list \<times> buckets" where
  "layout_of h = (case hs_layout h of Some l \<Rightarrow> l | None \<Rightarrow> new_layout default_bounds)"

definition hist_record :: "(f64 \<Rightarrow> f64 \<Rightarrow> f64) \<Rightarrow> f64 \<Rightarrow> histogram \<Rightarrow> histogram" where
  "hist_record plus_f64 x h =
    (case x of
       Finite v \<Rightarrow> (case layout_of h of (bounds, untagged) \<Rightarrow>
         h\<lparr>hs_layout := Some (bounds, record_value plus_f64 bounds v untagged)\<rparr>)
     | _ \<Rightarrow> h)"

definition record_with_tags ::
    "(f64 \<Rightarrow> f64 \<Rightarrow> f64) \<Rightarrow> (string \<times> string \<Rightarrow> u64) \<Rightarrow> f64 \<Rightarrow> tags \<Rightarrow> histogram \<Rightarrow> histogram" where
  "record_with_tags plus_f64 pair_hash x tags h =
    (case x of
       Finite v \<Rightarrow> (case layout_of h of (bounds, untagged) \<Rightarrow>
         let h = h\<lparr>hs_layout := Some (bounds, untagged)\<rparr> in
         case tag_with pair_hash tags (buckets_new (length bounds))
             (\<lambda>series. (record_value plus_f64 bounds v series, ())) (hs_tagged h) of
           (m, recorded) \<Rightarrow>
             let h = h\<lparr>hs_tagged := m\<rparr> in
             if recorded = None
             then h\<lparr>hs_overflow := Some (record_value plus_f64 bounds v
               (case hs_overflow h of Some b \<Rightarrow> b | None \<Rightarrow> buckets_new (length bounds)))\<rparr>
             else h)
     | _ \<Rightarrow> h)"

definition hist_read ::
    "(string \<times> string \<Rightarrow> u64) \<Rightarrow> tags \<Rightarrow> histogram \<Rightarrow> buckets option" where
  "hist_read pair_hash tags h =
    (if tags = [] then map_option snd (hs_layout h) else tag_get pair_hash tags (hs_tagged h))"

definition hist_count :: "(string \<times> string \<Rightarrow> u64) \<Rightarrow> tags \<Rightarrow> histogram \<Rightarrow> u64" where
  "hist_count pair_hash tags h = (case hist_read pair_hash tags h of Some b \<Rightarrow> bk_count b | None \<Rightarrow> 0)"

definition hist_sum :: "(string \<times> string \<Rightarrow> u64) \<Rightarrow> tags \<Rightarrow> histogram \<Rightarrow> f64" where
  "hist_sum pair_hash tags h = (case hist_read pair_hash tags h of Some b \<Rightarrow> bk_sum b | None \<Rightarrow> Finite 0)"

definition hist_snapshot :: "histogram \<Rightarrow> real list \<times> histogram_point list" where
  "hist_snapshot h =
    (case hs_layout h of
       None \<Rightarrow> ([], [])
     | Some (bounds, untagged) \<Rightarrow>
         (bounds,
          (if 0 < bk_count untagged then [buckets_snapshot no_tags untagged] else [])
          @ map (\<lambda>(tags, series). buckets_snapshot tags series) (tag_each (hs_tagged h))
          @ (case hs_overflow h of Some b \<Rightarrow> [buckets_snapshot overflow_tags b] | None \<Rightarrow> [])))"

section \<open>The registry\<close>

text \<open>An instrument is a number, and \<open>alive\<close> says whether a handle to it is left.\<close>

record instruments =
  in_list :: "nat list"
  in_prune_at :: nat

definition min_prune_at :: nat where
  "min_prune_at = 64"

definition instruments_new :: instruments where
  "instruments_new = \<lparr> in_list = [], in_prune_at = min_prune_at \<rparr>"

definition register_instrument :: "(nat \<Rightarrow> bool) \<Rightarrow> nat \<Rightarrow> instruments \<Rightarrow> instruments" where
  "register_instrument alive i s =
    (let s = s\<lparr>in_list := in_list s @ [i]\<rparr> in
     if in_prune_at s \<le> length (in_list s)
     then let kept = filter alive (in_list s) in
       s\<lparr>in_list := kept, in_prune_at := max (length kept * 2) min_prune_at\<rparr>
     else s)"

definition snapshot_instruments :: "(nat \<Rightarrow> bool) \<Rightarrow> instruments \<Rightarrow> instruments \<times> nat list" where
  "snapshot_instruments alive s = (s\<lparr>in_list := filter alive (in_list s)\<rparr>, filter alive (in_list s))"

section \<open>Counting\<close>

text \<open>The half-open interval of values a bucket is for.\<close>

definition in_bucket :: "real list \<Rightarrow> nat \<Rightarrow> real \<Rightarrow> bool" where
  "in_bucket bounds i v =
    ((i = 0 \<or> bounds ! (i - 1) < v) \<and> (length bounds \<le> i \<or> v \<le> bounds ! i))"

lemma first_position_le: "first_position P xs \<le> length xs"
  by (induction xs) auto

lemma first_position_iff:
  assumes "sorted_wrt (<) bounds" and "i \<le> length bounds"
  shows "first_position (\<lambda>bound. v \<le> bound) bounds = i \<longleftrightarrow> in_bucket bounds i v"
  using assms
proof (induction bounds arbitrary: i)
  case Nil
  then show ?case
    by (simp add: in_bucket_def)
next
  case (Cons b bounds)
  show ?case
  proof (cases i)
    case 0
    then show ?thesis
      by (simp add: in_bucket_def)
  next
    case (Suc j)
    show ?thesis
    proof (cases "v \<le> b")
      case True
      have "j < length bounds \<Longrightarrow> b < bounds ! j" for j
        using Cons.prems(1) by simp
      with True Suc Cons.prems(2) have "\<not> in_bucket (b # bounds) i v"
        by (cases j) (fastforce simp: in_bucket_def not_less less_Suc_eq_le Suc_le_eq)+
      with True Suc show ?thesis
        by simp
    next
      case False
      have "in_bucket (b # bounds) i v \<longleftrightarrow> in_bucket bounds j v"
        using False Suc by (cases j) (auto simp: in_bucket_def)
      with False Suc Cons.IH [of j] Cons.prems show ?thesis
        by simp
    qed
  qed
qed

lemma remdups_adj_strict: "sorted xs \<Longrightarrow> sorted_wrt (<) (remdups_adj (xs :: 'a::linorder list))"
proof (induction xs rule: remdups_adj.induct)
  case (3 x y xs)
  show ?case
  proof (cases "x = y")
    case False
    then have eq: "remdups_adj (x # y # xs) = x # remdups_adj (y # xs)"
      by simp
    from False "3.prems" have "x < z" if "z \<in> set (y # xs)" for z
      using that by (auto simp: less_le dest: order.antisym)
    moreover from False "3.prems" "3.IH"(2) have "sorted_wrt (<) (remdups_adj (y # xs))"
      by simp
    ultimately show ?thesis
      unfolding eq by (simp only: sorted_wrt.simps remdups_adj_set) blast
  qed (use 3 in simp)
qed simp_all

lemma usable_bounds_ascending: "sorted_wrt (<) (usable_bounds bounds)"
  by (simp add: usable_bounds_def remdups_adj_strict)

lemma set_finite_filter:
  "set (List.map_filter (\<lambda>b. case b of Finite r \<Rightarrow> Some r | _ \<Rightarrow> None) bounds) = {r. Finite r \<in> set bounds}"
proof (induction bounds)
  case (Cons b bounds)
  then show ?case
    by (cases b) (auto simp: List.map_filter_simps)
qed (simp add: List.map_filter_simps)

lemma set_usable_bounds: "set (usable_bounds bounds) = {r. Finite r \<in> set bounds}"
  by (simp add: usable_bounds_def set_finite_filter)

fun finite_values :: "f64 list \<Rightarrow> real list" where
  "finite_values [] = []"
| "finite_values (Finite r # xs) = r # finite_values xs"
| "finite_values (NaN # xs) = finite_values xs"
| "finite_values (Infinite s # xs) = finite_values xs"

definition bucket_counts :: "real list \<Rightarrow> real list \<Rightarrow> u64 list" where
  "bucket_counts bounds vs =
    map (\<lambda>i. of_nat (length (filter (\<lambda>v. first_position (\<lambda>bound. v \<le> bound) bounds = i) vs)))
      [0..<length bounds + 1]"

definition buckets_of :: "(f64 \<Rightarrow> f64 \<Rightarrow> f64) \<Rightarrow> real list \<Rightarrow> real list \<Rightarrow> buckets" where
  "buckets_of plus_f64 bounds vs =
    \<lparr> bk_counts = bucket_counts bounds vs, bk_count = of_nat (length vs),
      bk_sum = foldl plus_f64 (Finite 0) (map Finite vs) \<rparr>"

lemma buckets_of_Nil: "buckets_of plus_f64 bounds [] = buckets_new (length bounds)"
  by (simp add: buckets_of_def bucket_counts_def buckets_new_def map_replicate_const)

lemma record_value_buckets_of:
  "record_value plus_f64 bounds v (buckets_of plus_f64 bounds vs) = buckets_of plus_f64 bounds (vs @ [v])"
proof -
  let ?k = "first_position (\<lambda>bound. v \<le> bound) bounds"
  have "?k < length bounds + 1"
    using first_position_le [of _ bounds] by (simp add: less_Suc_eq_le)
  then have "(bucket_counts bounds vs)[?k := bucket_counts bounds vs ! ?k + 1] = bucket_counts bounds (vs @ [v])"
    by (intro nth_equalityI) (auto simp: bucket_counts_def nth_list_update simp del: upt_Suc)
  then show ?thesis
    by (simp add: record_value_def buckets_of_def Let_def add.commute)
qed

lemma hist_records:
  assumes "hs_layout h = Some (bounds, buckets_of plus_f64 bounds vs)"
  shows "hs_layout (fold (hist_record plus_f64) xs h)
    = Some (bounds, buckets_of plus_f64 bounds (vs @ finite_values xs))"
  using assms
proof (induction xs arbitrary: h vs rule: finite_values.induct)
  case (2 r xs)
  then show ?case
    by (simp add: hist_record_def layout_of_def record_value_buckets_of)
qed (simp_all add: hist_record_def)

lemma sum_bucket_counts:
  "sum_list (bucket_counts bounds vs) = of_nat (length vs)"
proof -
  let ?at = "\<lambda>v. first_position (\<lambda>bound. v \<le> bound) bounds"
  have "(\<Sum>i\<leftarrow>[0..<n]. length (filter (\<lambda>v. f v = i) vs)) = length (filter (\<lambda>v. f v < n) vs)"
    for n and f :: "real \<Rightarrow> nat"
  proof (induction n)
    case (Suc n)
    have "length (filter (\<lambda>v. f v < Suc n) vs) = length (filter (\<lambda>v. f v < n) vs) + length (filter (\<lambda>v. f v = n) vs)"
      by (induction vs) (auto simp: less_Suc_eq)
    with Suc show ?case
      by simp
  qed simp
  moreover have "filter (\<lambda>v. ?at v < length bounds + 1) vs = vs"
    using first_position_le [of _ bounds] by (simp add: filter_id_conv less_Suc_eq_le)
  ultimately have "(\<Sum>i\<leftarrow>[0..<length bounds + 1]. length (filter (\<lambda>v. ?at v = i) vs)) = length vs"
    by metis
  moreover have "sum_list (map (\<lambda>i. of_nat (g i)) is) = (of_nat (sum_list (map g is)) :: u64)" for g :: "nat \<Rightarrow> nat" and "is"
    by (induction "is") simp_all
  ultimately show ?thesis
    by (simp only: bucket_counts_def)
qed

text \<open>A histogram counts every finite value in exactly the bucket it belongs to, and ignores the
  others: whatever bounds it is given, in any order, with duplicates, infinities or NaNs among them, it
  keeps the finite ones strictly ascending, every value belongs to exactly one of its buckets, and after
  any sequence of recordings each counter is the number of finite values of that bucket, modulo 2^64,
  and the counters add up to the count.\<close>

theorem histogram_counts_exactly:
  "let bs = usable_bounds bounds; h = fold (hist_record plus_f64) xs (with_buckets bounds (histogram_new name));
       vs = finite_values xs
   in sorted_wrt (<) bs \<and> set bs = {r. Finite r \<in> set bounds}
    \<and> (\<forall>v. \<exists>!i. i \<le> length bs \<and> in_bucket bs i v)
    \<and> hs_layout h = Some (bs,
        \<lparr> bk_counts = map (\<lambda>i. of_nat (length (filter (in_bucket bs i) vs))) [0..<length bs + 1],
          bk_count = of_nat (length vs), bk_sum = foldl plus_f64 (Finite 0) (map Finite vs) \<rparr>)
    \<and> sum_list (map (\<lambda>i. of_nat (length (filter (in_bucket bs i) vs))) [0..<length bs + 1])
        = (of_nat (length vs) :: u64)"
proof -
  define bs where "bs = usable_bounds bounds"
  define vs where "vs = finite_values xs"
  let ?h = "with_buckets bounds (histogram_new name)"
  have asc: "sorted_wrt (<) bs"
    by (simp add: bs_def usable_bounds_ascending)
  have "hs_layout ?h = Some (bs, buckets_of plus_f64 bs [])"
    by (simp add: with_buckets_def histogram_new_def new_layout_def buckets_of_Nil bs_def)
  then have "hs_layout (fold (hist_record plus_f64) xs ?h) = Some (bs, buckets_of plus_f64 bs vs)"
    using hist_records [of ?h bs plus_f64 "[]" xs] by (simp add: vs_def)
  moreover have counts: "bucket_counts bs vs = map (\<lambda>i. of_nat (length (filter (in_bucket bs i) vs))) [0..<length bs + 1]"
    unfolding bucket_counts_def by (intro map_cong refl) (auto simp: first_position_iff [OF asc] less_Suc_eq_le cong: filter_cong)
  moreover have "\<exists>!i. i \<le> length bs \<and> in_bucket bs i v" for v
    using first_position_iff [OF asc] first_position_le [of _ bs] by metis
  moreover note sum_bucket_counts [of bs vs] asc set_usable_bounds [of bounds]
  ultimately show ?thesis
    unfolding bs_def [symmetric] vs_def [symmetric] Let_def
    by (simp add: buckets_of_def bs_def del: upt_Suc)
qed

section \<open>Live instruments\<close>

datatype registry_op = Register_Op nat | Snapshot_Op

text \<open>Each step comes with the handles alive at that time.\<close>

definition registry_step :: "(nat \<Rightarrow> bool) \<times> registry_op \<Rightarrow> instruments \<Rightarrow> instruments" where
  "registry_step e s =
    (case e of
       (alive, Register_Op i) \<Rightarrow> register_instrument alive i s
     | (alive, Snapshot_Op) \<Rightarrow> fst (snapshot_instruments alive s))"

fun recorded_instruments :: "((nat \<Rightarrow> bool) \<times> registry_op) list \<Rightarrow> nat list" where
  "recorded_instruments [] = []"
| "recorded_instruments ((alive, Register_Op i) # es) = i # recorded_instruments es"
| "recorded_instruments ((alive, Snapshot_Op) # es) = recorded_instruments es"

lemma registry_step_filter:
  assumes "\<And>i. alive_now i \<Longrightarrow> fst e i"
  shows "filter alive_now (in_list (registry_step e s)) = filter alive_now (in_list s @ recorded_instruments [e])"
proof -
  have "filter alive_now (filter (fst e) xs) = filter alive_now xs" for xs
    using assms by (induction xs) auto
  with assms show ?thesis
    by (cases e; cases "snd e")
      (auto simp: registry_step_def register_instrument_def snapshot_instruments_def Let_def)
qed

lemma recorded_instruments_Cons: "recorded_instruments (e # es) = recorded_instruments [e] @ recorded_instruments es"
  by (cases e; cases "snd e") auto

lemma registry_run_filter:
  assumes "\<And>e i. e \<in> set es \<Longrightarrow> alive_now i \<Longrightarrow> fst e i"
  shows "filter alive_now (in_list (fold registry_step es s)) = filter alive_now (in_list s @ recorded_instruments es)"
  using assms
proof (induction es arbitrary: s)
  case (Cons e es)
  then have "filter alive_now (in_list (registry_step e s)) = filter alive_now (in_list s @ recorded_instruments [e])"
    by (intro registry_step_filter) auto
  with Cons show ?case
    by (simp add: recorded_instruments_Cons [of e es])
qed simp

lemma registry_below_watermark:
  assumes "length (in_list s) < in_prune_at s"
  shows "length (in_list (registry_step e s)) < in_prune_at (registry_step e s)"
  using assms le_less_trans [OF length_filter_le]
  by (cases e; cases "snd e")
    (auto simp: registry_step_def register_instrument_def snapshot_instruments_def Let_def min_prune_at_def)

text \<open>The exporter reads every instrument that is still held and none other: after any sequence of
  registrations and snapshots, pruning included, a snapshot lists the registered instruments that are
  alive, each once per registration and in the order of registration, and the list never reaches the
  length at which it is pruned. A handle that is dropped does not come back: what is alive now was
  alive at every earlier step.\<close>

theorem snapshot_reads_live_instruments:
  assumes "\<And>e i. e \<in> set es \<Longrightarrow> alive_now i \<Longrightarrow> fst e i"
  shows "snd (snapshot_instruments alive_now (fold registry_step es instruments_new))
      = filter alive_now (recorded_instruments es)
    \<and> length (in_list (fold registry_step es instruments_new)) < in_prune_at (fold registry_step es instruments_new)"
proof
  show "snd (snapshot_instruments alive_now (fold registry_step es instruments_new))
      = filter alive_now (recorded_instruments es)"
    using registry_run_filter [of es alive_now instruments_new] assms
    by (simp add: snapshot_instruments_def instruments_new_def)
  have "length (in_list s) < in_prune_at s
      \<Longrightarrow> length (in_list (fold registry_step es s)) < in_prune_at (fold registry_step es s)" for s
    by (induction es arbitrary: s) (auto intro: registry_below_watermark)
  then show "length (in_list (fold registry_step es instruments_new)) < in_prune_at (fold registry_step es instruments_new)"
    by (simp add: instruments_new_def min_prune_at_def)
qed

theorem snapshot_reads_live_instruments_witness:
  "snd (snapshot_instruments (\<lambda>i. i = 2)
     (fold registry_step [(\<lambda>i. True, Register_Op 1), (\<lambda>i. i \<noteq> 1, Register_Op 2), (\<lambda>i. i = 2, Snapshot_Op)]
       instruments_new)) = [2]"
  using snapshot_reads_live_instruments [of
      "[(\<lambda>i. True, Register_Op 1), (\<lambda>i. i \<noteq> 1, Register_Op 2), (\<lambda>i. i = 2, Snapshot_Op)]" "\<lambda>i. i = 2"]
  by fastforce

section \<open>Well-formed points\<close>

definition all_series :: "('a \<Rightarrow> bool) \<Rightarrow> (tags \<times> 'a) list \<Rightarrow> bool" where
  "all_series Q b = list_all Q (map snd b)"

lemma all_series_simps [simp]:
  "all_series Q []" "all_series Q (x # b) \<longleftrightarrow> Q (snd x) \<and> all_series Q b"
  "all_series Q (b @ b') \<longleftrightarrow> all_series Q b \<and> all_series Q b'"
  by (simp_all add: all_series_def)

lemma use_first_all:
  assumes "use_first P f b = Some (b', r)" and keeps: "\<And>v. Q v \<Longrightarrow> Q (fst (f v))" and "all_series Q b"
  shows "all_series Q b'"
  using assms(1,3)
proof (induction b arbitrary: b')
  case (Cons x b)
  obtain k v where x: "x = (k, v)"
    by fastforce
  show ?case
  proof (cases "P k")
    case True
    with Cons.prems x keeps [of v] show ?thesis
      by (auto split: prod.splits)
  next
    case False
    with Cons.prems x obtain b1 where "use_first P f b = Some (b1, r)" "b' = (k, v) # b1"
      by auto
    with Cons.IH Cons.prems x show ?thesis
      by simp
  qed
qed simp

lemma all_update:
  assumes "all_series Q (concat (map snd es))" and "all_series Q b"
  shows "all_series Q (concat (map snd (AList.update h b es)))"
  using assms by (induction es) auto

lemma all_bucket:
  assumes "all_series Q (tag_each m)"
  shows "all_series Q (tag_bucket h m)"
proof -
  have "all_series Q (concat (map snd es)) \<Longrightarrow> all_series Q (case map_of es h of Some b \<Rightarrow> b | None \<Rightarrow> [])" for es
    by (induction es) auto
  with assms show ?thesis
    by (simp add: tag_each_def tag_bucket_def)
qed

lemma tag_with_all:
  assumes "tag_with pair_hash t fresh f m = (m', r)"
    and "Q fresh" and keeps: "\<And>v. Q v \<Longrightarrow> Q (fst (f v))" and all: "all_series Q (tag_each m)"
  shows "all_series Q (tag_each m')"
proof -
  let ?h = "hash_tags pair_hash t"
  note bucket = all_bucket [OF all, of ?h]
  show ?thesis
  proof (cases "mask_bits < length t")
    case False
    show ?thesis
    proof (cases "use_first (\<lambda>stored. same_tags stored t) f (tag_bucket ?h m)")
      case None
      obtain v q where fv: "f fresh = (v, q)"
        by fastforce
      with keeps [OF assms(2)] have "all_series Q (tag_bucket ?h m @ [(t, v)])"
        using bucket by simp
      from all_update [OF all [unfolded tag_each_def] this] show ?thesis
        using assms(1) all False None fv
        by (cases "max_series \<le> tm_series m") (auto simp: tag_with_def Let_def tag_each_def)
    next
      case (Some p)
      then obtain b q where used: "use_first (\<lambda>stored. same_tags stored t) f (tag_bucket ?h m) = Some (b, q)"
        by (cases p) auto
      from all_update [OF all [unfolded tag_each_def] use_first_all [OF used keeps bucket]] used assms(1) False
      show ?thesis
        by (auto simp: tag_with_def Let_def tag_each_def)
    qed
  qed (use assms in \<open>auto simp: tag_with_def\<close>)
qed

definition buckets_ok :: "real list \<Rightarrow> buckets \<Rightarrow> bool" where
  "buckets_ok bounds b \<longleftrightarrow> length (bk_counts b) = length bounds + 1"

definition histogram_ok :: "histogram \<Rightarrow> bool" where
  "histogram_ok h \<longleftrightarrow>
    (case hs_layout h of
       None \<Rightarrow> tag_each (hs_tagged h) = [] \<and> hs_overflow h = None
     | Some (bounds, untagged) \<Rightarrow> sorted_wrt (<) bounds \<and> buckets_ok bounds untagged
         \<and> all_series (buckets_ok bounds) (tag_each (hs_tagged h))
         \<and> (case hs_overflow h of Some b \<Rightarrow> buckets_ok bounds b | None \<Rightarrow> True))"

lemma buckets_new_ok: "buckets_ok bounds (buckets_new (length bounds))"
  by (simp add: buckets_ok_def buckets_new_def)

lemma record_value_ok: "buckets_ok bounds b \<Longrightarrow> buckets_ok bounds (record_value plus_f64 bounds v b)"
  by (simp add: buckets_ok_def record_value_def Let_def)

lemma default_bounds_ascending: "sorted_wrt (<) default_bounds"
  by (simp add: default_bounds_def)

lemma layout_of_ok:
  assumes "histogram_ok h" and "layout_of h = (bounds, untagged)"
  shows "histogram_ok (h\<lparr>hs_layout := Some (bounds, untagged)\<rparr>)"
  using assms default_bounds_ascending buckets_new_ok [of default_bounds]
  by (auto simp: histogram_ok_def layout_of_def new_layout_def split: option.splits)

datatype histogram_call = With_Buckets "f64 list" | Record_Value f64 | Record_Tagged f64 tags

fun histogram_step ::
    "(f64 \<Rightarrow> f64 \<Rightarrow> f64) \<Rightarrow> (string \<times> string \<Rightarrow> u64) \<Rightarrow> histogram_call \<Rightarrow> histogram \<Rightarrow> histogram" where
  "histogram_step plus_f64 pair_hash (With_Buckets bounds) = with_buckets bounds"
| "histogram_step plus_f64 pair_hash (Record_Value x) = hist_record plus_f64 x"
| "histogram_step plus_f64 pair_hash (Record_Tagged x tags) = record_with_tags plus_f64 pair_hash x tags"

lemma record_with_tags_ok:
  assumes "histogram_ok h"
  shows "histogram_ok (record_with_tags plus_f64 pair_hash x tags h)"
proof (cases x)
  case (Finite v)
  obtain bounds untagged where layout: "layout_of h = (bounds, untagged)"
    by fastforce
  let ?h = "h\<lparr>hs_layout := Some (bounds, untagged)\<rparr>"
  have ok: "histogram_ok ?h"
    using layout_of_ok [OF assms layout] .
  obtain m recorded where tagged: "tag_with pair_hash tags (buckets_new (length bounds))
      (\<lambda>series. (record_value plus_f64 bounds v series, ())) (hs_tagged h) = (m, recorded)"
    by fastforce
  have "all_series (buckets_ok bounds) (tag_each m)"
    using ok by (intro tag_with_all [OF tagged]) (auto simp: buckets_new_ok record_value_ok histogram_ok_def)
  then show ?thesis
    using ok buckets_new_ok [of bounds]
    by (auto simp: record_with_tags_def Finite layout tagged Let_def histogram_ok_def intro!: record_value_ok
        split: option.splits)
qed (use assms in \<open>simp_all add: record_with_tags_def\<close>)

lemma histogram_step_ok: "histogram_ok h \<Longrightarrow> histogram_ok (histogram_step plus_f64 pair_hash call h)"
proof (cases call)
  case (With_Buckets bounds)
  assume "histogram_ok h"
  then show ?thesis
    using buckets_new_ok [of "usable_bounds bounds"] usable_bounds_ascending [of bounds]
    by (auto simp: With_Buckets with_buckets_def new_layout_def histogram_ok_def split: option.splits)
next
  case (Record_Value x)
  assume ok: "histogram_ok h"
  show ?thesis
  proof (cases x)
    case (Finite v)
    obtain bounds untagged where layout: "layout_of h = (bounds, untagged)"
      by fastforce
    from layout_of_ok [OF ok layout] show ?thesis
      by (auto simp: Record_Value Finite hist_record_def layout histogram_ok_def intro: record_value_ok)
  qed (use ok in \<open>simp_all add: Record_Value hist_record_def\<close>)
qed (simp add: record_with_tags_ok)

lemma histogram_run_ok: "histogram_ok (fold (histogram_step plus_f64 pair_hash) calls (histogram_new name))"
proof -
  have "histogram_ok (histogram_new name)"
    by (simp add: histogram_ok_def histogram_new_def tag_map_new_def tag_each_def)
  moreover have "histogram_ok h \<Longrightarrow> histogram_ok (fold (histogram_step plus_f64 pair_hash) calls h)" for h
    by (induction calls arbitrary: h) (auto intro: histogram_step_ok)
  ultimately show ?thesis
    by blast
qed

text \<open>C21. Every point a histogram exports is one a collector takes: whatever calls it has seen, its
  bounds are strictly ascending, each point has one count more than there are bounds, and its total is
  the sum of its counts.\<close>

theorem exported_points_well_formed:
  "case hist_snapshot (fold (histogram_step plus_f64 pair_hash) calls (histogram_new name)) of
     (bounds, points) \<Rightarrow> sorted_wrt (<) bounds
       \<and> list_all (\<lambda>p. length (hp_counts p) = length bounds + 1 \<and> hp_count p = sum_list (hp_counts p)) points"
  using histogram_run_ok [of plus_f64 pair_hash calls name]
  by (auto simp: histogram_ok_def hist_snapshot_def buckets_snapshot_def buckets_ok_def list_all_iff all_series_def
      split: option.splits)

end
