(* ===== verification/Trace_Ids.thy ===== *)
theory Trace_Ids
  imports Link "HOL-Library.While_Combinator"
begin

text \<open>
  \<open>o11y/ids.rs\<close>: the generator of trace and span ids, an xorshift that is seeded once per thread. A UUID and
  the byte order of the machine are parameters.
\<close>

section \<open>The generator\<close>

text \<open>\<open>to_ne_bytes\<close> and \<open>from_ne_bytes\<close> on a little-endian or a big-endian machine.\<close>

definition ne_bytes :: "bool \<Rightarrow> u64 \<Rightarrow> bytes" where
  "ne_bytes little v = (if little then rev (to_be 8 (unat v)) else to_be 8 (unat v))"

definition from_ne_bytes :: "bool \<Rightarrow> bytes \<Rightarrow> u64" where
  "from_ne_bytes little b = of_nat (from_be (if little then rev b else b))"

definition seed :: "bool \<Rightarrow> bytes \<Rightarrow> u64" where
  "seed little uuid =
    (let s = from_ne_bytes little (take 8 uuid) in if s = 0 then 0x9e3779b97f4a7c15 else s)"

text \<open>The new state, and the number drawn.\<close>

definition next_id :: "u64 \<Rightarrow> u64 \<times> u64" where
  "next_id state =
    (let v = state XOR drop_bit 12 state;
         v = v XOR push_bit 25 v;
         v = v XOR drop_bit 27 v
     in (v, v * 0x2545F4914F6CDD1D))"

text \<open>The loops draw until the id is not all zeroes; not returning is \<open>None\<close>.\<close>

definition draw_trace :: "bool \<Rightarrow> u64 \<Rightarrow> u64 \<times> bytes" where
  "draw_trace little state =
    (case next_id state of (s1, v1) \<Rightarrow> case next_id s1 of (s2, v2) \<Rightarrow>
       (s2, ne_bytes little v1 @ ne_bytes little v2))"

definition new_trace_id :: "bool \<Rightarrow> u64 \<Rightarrow> (u64 \<times> bytes) option" where
  "new_trace_id little state =
    while_option (\<lambda>(s, b). b = replicate 16 0) (\<lambda>(s, b). draw_trace little s) (draw_trace little state)"

definition new_span_id :: "bool \<Rightarrow> u64 \<Rightarrow> (u64 \<times> bytes) option" where
  "new_span_id little state =
    map_option (\<lambda>(s, v). (s, ne_bytes little v))
      (while_option (\<lambda>(s, v). v = 0) (\<lambda>(s, v). next_id s) (next_id state))"

lemma xor_zero: "x XOR y = 0 \<longleftrightarrow> x = (y :: u64)"
proof
  assume "x XOR y = 0"
  then have "(x XOR y) XOR y = y"
    by simp
  then show "x = y"
    by (simp only: xor.assoc xor_self_eq xor.right_neutral)
qed simp

text \<open>A shift folded into a number never gives zero, unless the number is.\<close>

lemma xor_drop_bit_zero:
  fixes x :: u64
  assumes "0 < n"
  shows "x XOR drop_bit n x = 0 \<longleftrightarrow> x = 0"
proof
  assume "x XOR drop_bit n x = 0"
  then have "x = drop_bit n x"
    by (simp only: xor_zero)
  from arg_cong [OF this, of bit] have shift: "bit x k = bit x (k + n)" for k
    by (metis bit_drop_bit_eq comp_apply add.commute)
  have "\<not> bit x k" for k
  proof (induction "64 - k" arbitrary: k rule: less_induct)
    case less
    show ?case
    proof (cases "k < 64")
      case True
      with assms have "64 - (k + n) < 64 - k"
        by simp
      from less [OF this] shift show ?thesis
        by simp
    next
      case False
      then show ?thesis
        using bit_imp_le_length [of x k] by auto
    qed
  qed
  then show "x = 0"
    by (intro bit_eqI) simp
qed simp

lemma xor_push_bit_zero:
  fixes x :: u64
  assumes "0 < n"
  shows "x XOR push_bit n x = 0 \<longleftrightarrow> x = 0"
proof
  assume "x XOR push_bit n x = 0"
  then have eq: "x = push_bit n x"
    by (simp only: xor_zero)
  have shift: "bit x k = (n \<le> k \<and> bit x (k - n))" if "k < 64" for k
  proof -
    have "bit x k = bit (push_bit n x) k"
      by (rule arg_cong [OF eq])
    also have "\<dots> = (n \<le> k \<and> bit x (k - n))"
      using that by (simp add: bit_push_bit_iff)
    finally show ?thesis .
  qed
  have "\<not> bit x k" for k
  proof (induction k rule: less_induct)
    case (less k)
    show ?case
    proof (cases "k < 64")
      case True
      with less [of "k - n"] assms shift [of k] show ?thesis
        by auto
    next
      case False
      then show ?thesis
        using bit_imp_le_length [of x k] by auto
    qed
  qed
  then show "x = 0"
    by (intro bit_eqI) simp
qed simp

text \<open>The multiplier is odd, so multiplying by it can be undone.\<close>

lemma odd_multiplier: "(v :: u64) * 0x2545F4914F6CDD1D = 0 \<longleftrightarrow> v = 0"
proof
  assume "v * 0x2545F4914F6CDD1D = 0"
  then have "v * (0x2545F4914F6CDD1D * 0x59071d96d81ecd35) = 0"
    by (simp only: mult.assoc [symmetric] mult_zero_left)
  moreover have "(0x2545F4914F6CDD1D * 0x59071d96d81ecd35 :: u64) = 1"
    by simp
  ultimately show "v = 0"
    by (simp only: mult_1_right)
qed simp

lemma next_id_nonzero:
  assumes "state \<noteq> 0" and "next_id state = (s, v)"
  shows "s \<noteq> 0" and "v \<noteq> 0"
proof -
  have "s \<noteq> 0 \<and> v = s * 0x2545F4914F6CDD1D"
    using assms by (simp only: next_id_def Let_def prod.inject) (metis xor_drop_bit_zero xor_push_bit_zero zero_less_numeral)
  then show "s \<noteq> 0" and "v \<noteq> 0"
    by (simp_all add: odd_multiplier)
qed

lemma length_ne_bytes [simp]: "length (ne_bytes little v) = 8"
  by (simp add: ne_bytes_def)

lemma ne_bytes_zero: "ne_bytes little v = replicate 8 0 \<longleftrightarrow> v = 0"
proof -
  have zero: "to_be n 0 = replicate n (0 :: byte)" for n
    by (induction n) (simp_all add: replicate_append_same)
  have bound: "unat v < 256 ^ 8"
    using unsigned_less [of v] by simp
  have "rev bs = replicate 8 0 \<longleftrightarrow> bs = replicate 8 (0 :: byte)" for bs
    by (metis rev_replicate rev_rev_ident)
  moreover have "to_be 8 (unat v) = replicate 8 0 \<longleftrightarrow> v = 0"
    unfolding zero [of 8, symmetric] using to_be_inject [OF bound, of 0] by (simp add: unsigned_eq_0_iff)
  ultimately show ?thesis
    by (simp add: ne_bytes_def)
qed

text \<open>Drawing an id always returns, at the first draw, and never an id of all zeroes, which the
  specification of trace contexts reserves: the seed is never zero, whatever UUID it is made of, and a
  state that is not zero stays so through every draw.\<close>

theorem drawn_ids_are_valid:
  "seed little uuid \<noteq> 0
   \<and> (state \<noteq> 0 \<longrightarrow>
       (\<exists>s id. new_span_id little state = Some (s, id) \<and> s \<noteq> 0 \<and> length id = 8 \<and> id \<noteq> replicate 8 0)
     \<and> (\<exists>s id. new_trace_id little state = Some (s, id) \<and> s \<noteq> 0 \<and> length id = 16 \<and> id \<noteq> replicate 16 0))"
proof (intro conjI impI)
  show "seed little uuid \<noteq> 0"
    by (simp add: seed_def Let_def)
next
  assume state: "state \<noteq> 0"
  obtain s v where drawn: "next_id state = (s, v)"
    by fastforce
  note nz = next_id_nonzero [OF state drawn]
  then show "\<exists>s id. new_span_id little state = Some (s, id) \<and> s \<noteq> 0 \<and> length id = 8 \<and> id \<noteq> replicate 8 0"
    by (simp add: new_span_id_def drawn while_option_unfold ne_bytes_zero)
  obtain s' v' where drawn': "next_id s = (s', v')"
    by fastforce
  have "ne_bytes little v @ ne_bytes little v' \<noteq> replicate 16 0"
  proof
    assume "ne_bytes little v @ ne_bytes little v' = replicate 16 0"
    from arg_cong [OF this, of "take 8"] have "ne_bytes little v = replicate 8 0"
      by simp
    with nz(2) show False
      by (simp add: ne_bytes_zero)
  qed
  with next_id_nonzero [OF nz(1) drawn']
  show "\<exists>s id. new_trace_id little state = Some (s, id) \<and> s \<noteq> 0 \<and> length id = 16 \<and> id \<noteq> replicate 16 0"
    by (simp add: new_trace_id_def draw_trace_def drawn drawn' while_option_unfold)
qed

theorem drawn_ids_are_valid_witness:
  "seed True (replicate 16 0) \<noteq> 0 \<and> (\<exists>s id. new_span_id True 1 = Some (s, id) \<and> s \<noteq> 0 \<and> id \<noteq> replicate 8 0)"
  using drawn_ids_are_valid [of True "replicate 16 0" 1] by auto

end
