(* ===== verification/Trace_Context.thy ===== *)
theory Trace_Context
  imports Trace_Ids
begin

text \<open>
  \<open>o11y/trace/span_context.rs\<close>: the identity of a span and its W3C \<open>traceparent\<close> header. The
  \<open>hex\<close> crate is a parameter.
\<close>

section \<open>Contexts and headers\<close>

record span_context =
  sc_trace :: bytes
  sc_span :: bytes

text \<open>\<open>hex::encode\<close> and \<open>hex::decode_to_slice\<close>, and what is relied on: encoding gives two lower-case
  digits for a byte, and text of that many such digits decodes to the bytes that encode to it.\<close>

record hex_calls =
  hx_encode :: "bytes \<Rightarrow> string"
  hx_decode :: "string \<Rightarrow> bytes option"

definition is_lower_hex :: "string \<Rightarrow> nat \<Rightarrow> bool" where
  "is_lower_hex text len = (length text = len \<and> list_all (\<lambda>c. c \<in> set hex_digits) text)"

definition hex_calls_ok :: "hex_calls \<Rightarrow> bool" where
  "hex_calls_ok hx =
    ((\<forall>b. is_lower_hex (hx_encode hx b) (2 * length b))
     \<and> (\<forall>text n. is_lower_hex text (2 * n) \<longrightarrow>
          (\<exists>b. hx_decode hx text = Some b \<and> length b = n \<and> hx_encode hx b = text))
     \<and> (\<forall>b. hx_decode hx (hx_encode hx b) = Some b))"

definition decode_id :: "hex_calls \<Rightarrow> nat \<Rightarrow> string \<Rightarrow> bytes option" where
  "decode_id hx n text = (if \<not> is_lower_hex text (n * 2) then None else hx_decode hx text)"

definition to_traceparent :: "hex_calls \<Rightarrow> span_context \<Rightarrow> string" where
  "to_traceparent hx c = ''00-'' @ hx_encode hx (sc_trace c) @ ''-'' @ hx_encode hx (sc_span c) @ ''-01''"

definition from_traceparent :: "hex_calls \<Rightarrow> string \<Rightarrow> span_context option" where
  "from_traceparent hx line =
    (case split_on (\<lambda>c. c = CHR ''-'') (trim line) of
       version # trace_id # span_id # flags # rest \<Rightarrow>
         if \<not> is_lower_hex version 2 \<or> version = ''ff'' \<or> \<not> is_lower_hex flags 2 then None
         else if version = ''00'' \<and> rest \<noteq> [] then None
         else Option.bind (decode_id hx 16 trace_id) (\<lambda>trace_id.
           Option.bind (decode_id hx 8 span_id) (\<lambda>span_id.
             if trace_id = replicate 16 0 \<or> span_id = replicate 8 0 then None
             else Some \<lparr> sc_trace = trace_id, sc_span = span_id \<rparr>))
     | _ \<Rightarrow> None)"

section \<open>What the specification says of a header\<close>

definition valid_context :: "span_context \<Rightarrow> bool" where
  "valid_context c = (length (sc_trace c) = 16 \<and> sc_trace c \<noteq> replicate 16 0
     \<and> length (sc_span c) = 8 \<and> sc_span c \<noteq> replicate 8 0)"

definition w3c_header :: "hex_calls \<Rightarrow> string \<Rightarrow> string \<Rightarrow> string list \<Rightarrow> span_context \<Rightarrow> string" where
  "w3c_header hx version flags rest c =
    join ''-'' ([version, hx_encode hx (sc_trace c), hx_encode hx (sc_span c), flags] @ rest)"

definition w3c_fields :: "string \<Rightarrow> string \<Rightarrow> string list \<Rightarrow> bool" where
  "w3c_fields version flags rest =
    (is_lower_hex version 2 \<and> version \<noteq> ''ff'' \<and> is_lower_hex flags 2
     \<and> list_all (\<lambda>w. CHR ''-'' \<notin> set w) rest \<and> (version = ''00'' \<longrightarrow> rest = []))"

lemma join_Cons_first: "join sep ((c # w) # ws) = c # join sep (w # ws)"
  by (cases ws) simp_all

lemma split_on_head:
  "\<exists>w ws. split_on p s = w # ws"
  using split_on_nonempty by (metis list.exhaust)

lemma join_split_on: "join [c] (split_on (\<lambda>x. x = c) s) = s"
proof (induction s)
  case (Cons x s)
  obtain w ws where split: "split_on (\<lambda>x. x = c) s = w # ws"
    using split_on_head by blast
  show ?case
  proof (cases "x = c")
    case True
    then have "join [c] (split_on (\<lambda>x. x = c) (x # s)) = c # join [c] (w # ws)"
      by (simp add: split)
    with Cons.IH True show ?thesis
      by (simp only: split)
  next
    case False
    then have "join [c] (split_on (\<lambda>x. x = c) (x # s)) = x # join [c] (w # ws)"
      by (simp add: split join_Cons_first)
    with Cons.IH show ?thesis
      by (simp only: split)
  qed
qed simp

lemma lower_hex_clean: "is_lower_hex w n \<Longrightarrow> CHR ''-'' \<notin> set w"
proof -
  have "CHR ''-'' \<notin> set hex_digits"
    by (simp add: hex_digits_def)
  then show "is_lower_hex w n \<Longrightarrow> CHR ''-'' \<notin> set w"
    unfolding is_lower_hex_def list_all_iff by blast
qed

lemma hex_callsD:
  assumes "hex_calls_ok hx"
  shows "is_lower_hex (hx_encode hx b) (2 * length b)"
    and "hx_decode hx (hx_encode hx b) = Some b"
    and "decode_id hx n text = Some b \<longleftrightarrow> length b = n \<and> text = hx_encode hx b"
proof -
  show enc: "is_lower_hex (hx_encode hx b) (2 * length b)"
    and dec: "hx_decode hx (hx_encode hx b) = Some b"
    using assms by (auto simp: hex_calls_ok_def)
  show "decode_id hx n text = Some b \<longleftrightarrow> length b = n \<and> text = hx_encode hx b"
  proof
    assume "decode_id hx n text = Some b"
    then have "is_lower_hex text (2 * n)" "hx_decode hx text = Some b"
      by (auto simp: decode_id_def mult.commute split: if_splits)
    with assms show "length b = n \<and> text = hx_encode hx b"
      unfolding hex_calls_ok_def by fastforce
  qed (use enc dec in \<open>auto simp: decode_id_def mult.commute\<close>)
qed

text \<open>A \<open>traceparent\<close> header is read exactly as the W3C specification tells a receiver to: it is
  accepted just when, but for white space around it, it is a version that is not reserved, the ids of
  a valid context in lower-case hexadecimal and two digits of flags, between dashes, with further
  fields only under a version other than 00; and the context read is the one it names. What is
  written for a valid context is read back as it.\<close>

lemma from_traceparent_w3c:
  assumes "hex_calls_ok hx"
  shows "from_traceparent hx line = Some c \<longleftrightarrow>
      (\<exists>version flags rest. w3c_fields version flags rest \<and> valid_context c
        \<and> trim line = w3c_header hx version flags rest c)"
proof
  assume read: "from_traceparent hx line = Some c"
  then obtain version t n flags rest where
      parts: "split_on (\<lambda>c. c = CHR ''-'') (trim line) = version # t # n # flags # rest"
    by (auto simp: from_traceparent_def split: list.splits)
  have "list_all (\<lambda>w. CHR ''-'' \<notin> set w) rest"
    using split_on_clean [of _ "\<lambda>c. c = CHR ''-''" "trim line"] by (auto simp: parts list_all_iff)
  moreover have "is_lower_hex version 2" "version \<noteq> ''ff''" "is_lower_hex flags 2" "version = ''00'' \<longrightarrow> rest = []"
    and "decode_id hx 16 t = Some (sc_trace c)" "decode_id hx 8 n = Some (sc_span c)"
    and "sc_trace c \<noteq> replicate 16 0" "sc_span c \<noteq> replicate 8 0"
    using read by (auto simp: from_traceparent_def parts bind_eq_Some_conv split: if_splits)
  moreover have "trim line = join [CHR ''-''] (version # t # n # flags # rest)"
    by (metis parts join_split_on)
  ultimately show "\<exists>version flags rest. w3c_fields version flags rest \<and> valid_context c
        \<and> trim line = w3c_header hx version flags rest c"
    using hex_callsD(3) [OF assms]
    by (intro exI [of _ version] exI [of _ flags] exI [of _ rest])
      (simp add: w3c_fields_def valid_context_def w3c_header_def)
next
  assume "\<exists>version flags rest. w3c_fields version flags rest \<and> valid_context c
        \<and> trim line = w3c_header hx version flags rest c"
  then obtain version flags rest where fields: "w3c_fields version flags rest" "valid_context c"
      and line: "trim line = w3c_header hx version flags rest c"
    by blast
  let ?ws = "[version, hx_encode hx (sc_trace c), hx_encode hx (sc_span c), flags] @ rest"
  have "\<forall>w \<in> set ?ws. CHR ''-'' \<notin> set w"
    using fields lower_hex_clean hex_callsD(1) [OF assms] by (auto simp: w3c_fields_def list_all_iff)
  then have "split_on (\<lambda>c. c = CHR ''-'') (trim line) = ?ws"
    unfolding line w3c_header_def by (intro split_on_join) auto
  moreover have "decode_id hx 16 (hx_encode hx (sc_trace c)) = Some (sc_trace c)"
      "decode_id hx 8 (hx_encode hx (sc_span c)) = Some (sc_span c)"
    using fields(2) hex_callsD(3) [OF assms] by (simp_all add: valid_context_def)
  ultimately show "from_traceparent hx line = Some c"
    using fields by (auto simp: from_traceparent_def w3c_fields_def valid_context_def)
qed

lemma trim_to_traceparent: "trim (to_traceparent hx c) = to_traceparent hx c"
  by (rule trim_visible) (simp_all add: to_traceparent_def visible_def)

text \<open>C18. A \<open>traceparent\<close> header is read exactly as the W3C specification tells a receiver to: it is
  accepted just when, but for white space around it, it is a version that is not reserved, the ids of
  a valid context in lower-case hexadecimal and two digits of flags, between dashes, with further
  fields only under a version other than 00; and the context read is the one it names. What is
  written for a valid context is read back as it.\<close>

theorem traceparent_follows_w3c:
  assumes "hex_calls_ok hx"
  shows "(from_traceparent hx line = Some c \<longleftrightarrow>
        (\<exists>version flags rest. w3c_fields version flags rest \<and> valid_context c
          \<and> trim line = w3c_header hx version flags rest c))
    \<and> (valid_context c \<longrightarrow> from_traceparent hx (to_traceparent hx c) = Some c)"
proof (intro conjI impI)
  assume "valid_context c"
  moreover have "to_traceparent hx c = w3c_header hx ''00'' ''01'' [] c"
    by (simp add: to_traceparent_def w3c_header_def)
  moreover have "w3c_fields ''00'' ''01'' []"
    by (simp add: w3c_fields_def is_lower_hex_def hex_digits_def)
  ultimately show "from_traceparent hx (to_traceparent hx c) = Some c"
    using from_traceparent_w3c [OF assms] trim_to_traceparent by metis
qed (rule from_traceparent_w3c [OF assms])

text \<open>A concrete \<open>hex\<close>, and a header it reads.\<close>

fun plain_decode :: "string \<Rightarrow> bytes option" where
  "plain_decode [] = Some []"
| "plain_decode [c] = None"
| "plain_decode (a # b # s) =
    map_option ((#) (of_nat (16 * length (takeWhile (\<lambda>d. d \<noteq> a) hex_digits)
      + length (takeWhile (\<lambda>d. d \<noteq> b) hex_digits)))) (plain_decode s)"

definition plain_hex :: hex_calls where
  "plain_hex = \<lparr> hx_encode = hex_encode, hx_decode = plain_decode \<rparr>"

lemma hex_digit_index: "n < 16 \<Longrightarrow> length (takeWhile (\<lambda>d. d \<noteq> hex_digits ! n) hex_digits) = n"
proof -
  assume "n < 16"
  then have "n \<in> set [0..<16]"
    by simp
  moreover have "list_all (\<lambda>n. length (takeWhile (\<lambda>d. d \<noteq> hex_digits ! n) hex_digits) = n) [0..<16]"
    by code_simp
  ultimately show ?thesis
    by (simp only: list_all_iff)
qed

lemma index_hex_digit:
  assumes "c \<in> set hex_digits"
  defines "n \<equiv> length (takeWhile (\<lambda>d. d \<noteq> c) hex_digits)"
  shows "n < 16 \<and> hex_digits ! n = c"
proof -
  have "list_all (\<lambda>c. length (takeWhile (\<lambda>d. d \<noteq> c) hex_digits) < 16
      \<and> hex_digits ! length (takeWhile (\<lambda>d. d \<noteq> c) hex_digits) = c) hex_digits"
    by code_simp
  with assms show ?thesis
    by (simp only: list_all_iff)
qed

lemma plain_decode_encode: "plain_decode (hex_encode b) = Some b"
proof (induction b)
  case (Cons x b)
  have "unat x div 16 < 16"
    using unsigned_less [where ?'a = nat, of x] by simp
  then have "plain_decode (hex_byte x @ hex_encode b) = map_option ((#) (of_nat (16 * (unat x div 16) + unat x mod 16))) (Some b)"
    by (simp add: hex_byte_def hex_digit_index Cons.IH)
  then show ?case
    by (simp add: hex_encode_def)
qed (simp add: hex_encode_def)

lemma hex_encode_lower: "is_lower_hex (hex_encode b) (2 * length b)"
proof (induction b)
  case (Cons x b)
  have "unat x div 16 < length hex_digits" "unat x mod 16 < length hex_digits"
    using unsigned_less [where ?'a = nat, of x] by (simp_all add: hex_digits_def)
  with Cons show ?case
    by (simp add: is_lower_hex_def hex_encode_def hex_byte_def)
qed (simp add: is_lower_hex_def hex_encode_def)

lemma plain_decode_lower:
  "is_lower_hex text (2 * n) \<Longrightarrow> \<exists>b. plain_decode text = Some b \<and> length b = n \<and> hex_encode b = text"
proof (induction "text" arbitrary: n rule: plain_decode.induct)
  case (3 a c s)
  let ?i = "\<lambda>c. length (takeWhile (\<lambda>d. d \<noteq> c) hex_digits)"
  obtain m where n: "n = Suc m" and "is_lower_hex s (2 * m)"
      and "a \<in> set hex_digits" "c \<in> set hex_digits"
    using "3.prems" by (cases n) (auto simp: is_lower_hex_def)
  with "3.IH" obtain b where b: "plain_decode s = Some b" "length b = m" "hex_encode b = s"
    by blast
  have digits: "?i a < 16" "hex_digits ! ?i a = a" "?i c < 16" "hex_digits ! ?i c = c"
    using index_hex_digit \<open>a \<in> set hex_digits\<close> \<open>c \<in> set hex_digits\<close> by blast+
  moreover have "unat (of_nat (16 * j + k) :: byte) = 16 * j + k" if "j < 16" "k < 16" for j k
    using that by (simp add: unat_of_nat del: of_nat_add of_nat_mult)
  ultimately have "unat (of_nat (16 * ?i a + ?i c) :: byte) = 16 * ?i a + ?i c"
    by blast
  then have "hex_byte (of_nat (16 * ?i a + ?i c)) = [a, c]"
    using digits by (simp only: hex_byte_def) simp
  with b n show ?case
    by (simp add: hex_encode_def)
qed (auto simp: is_lower_hex_def hex_encode_def)

lemma plain_hex_ok: "hex_calls_ok plain_hex"
  by (simp add: hex_calls_ok_def plain_hex_def hex_encode_lower plain_decode_encode plain_decode_lower)

definition some_context :: span_context where
  "some_context = \<lparr> sc_trace = replicate 16 1, sc_span = replicate 8 2 \<rparr>"

theorem traceparent_follows_w3c_witness:
  "from_traceparent plain_hex (to_traceparent plain_hex some_context) = Some some_context
   \<and> (from_traceparent plain_hex ''00-ff'' = Some some_context \<longleftrightarrow>
       (\<exists>version flags rest. w3c_fields version flags rest \<and> valid_context some_context
          \<and> trim ''00-ff'' = w3c_header plain_hex version flags rest some_context))"
proof -
  have "valid_context some_context"
    by (simp add: valid_context_def some_context_def numeral_eq_Suc)
  with traceparent_follows_w3c [OF plain_hex_ok] show ?thesis
    by blast
qed

end
