(* ===== verification/Trace.thy ===== *)
theory Trace
  imports Trace_Context
begin

text \<open>
  \<open>o11y/trace/context.rs\<close>, \<open>span.rs\<close>, \<open>current.rs\<close>, \<open>instrumented.rs\<close> and \<open>owned.rs\<close>: the stack of
  open spans of a thread, the guards that push and pop it, spans that follow a future from poll to
  poll, and spans owned by a value. Ids that are drawn and times that are read are arguments, and
  what a text is the attribute's value of is left open: a value is of type \<open>'v\<close>.
\<close>

section \<open>Open and finished spans\<close>

type_synonym 'v fields = "(string \<times> 'v) list"

datatype status = Unset | Failed string

record 'v span_event =
  ev_time :: nat
  ev_name :: string
  ev_attributes :: "'v fields"

record ('v, 'e) span_state =
  ss_trace :: bytes
  ss_span :: bytes
  ss_parent :: "bytes option"
  ss_name :: string
  ss_start :: nat
  ss_attributes :: "'v fields"
  ss_events :: "'v span_event list"
  ss_links :: "span_context list"
  ss_status :: status
  ss_enrichment :: 'e

record ('v, 'e) span_record =
  rc_trace :: bytes
  rc_span :: bytes
  rc_parent :: "bytes option"
  rc_name :: string
  rc_start :: nat
  rc_end :: nat
  rc_attributes :: "'v fields"
  rc_events :: "'v span_event list"
  rc_links :: "span_context list"
  rc_status :: status
  rc_enrichment :: 'e

definition span_open ::
    "bytes \<Rightarrow> nat \<Rightarrow> 'e \<Rightarrow> bytes \<Rightarrow> bytes option \<Rightarrow> string \<Rightarrow> 'v fields \<Rightarrow> ('v, 'e) span_state" where
  "span_open fresh_span now enrichment trace_id parent name attributes =
    \<lparr> ss_trace = trace_id, ss_span = fresh_span, ss_parent = parent, ss_name = name, ss_start = now,
      ss_attributes = attributes, ss_events = [], ss_links = [], ss_status = Unset, ss_enrichment = enrichment \<rparr>"

definition span_context_of :: "('v, 'e) span_state \<Rightarrow> span_context" where
  "span_context_of ss = \<lparr> sc_trace = ss_trace ss, sc_span = ss_span ss \<rparr>"

definition span_finish :: "nat \<Rightarrow> ('v, 'e) span_state \<Rightarrow> ('v, 'e) span_record" where
  "span_finish until ss =
    \<lparr> rc_trace = ss_trace ss, rc_span = ss_span ss, rc_parent = ss_parent ss, rc_name = ss_name ss,
      rc_start = ss_start ss, rc_end = until, rc_attributes = ss_attributes ss, rc_events = ss_events ss,
      rc_links = ss_links ss, rc_status = ss_status ss, rc_enrichment = ss_enrichment ss \<rparr>"

fun set_field :: "string \<Rightarrow> 'v \<Rightarrow> 'v fields \<Rightarrow> 'v fields" where
  "set_field key v [] = [(key, v)]"
| "set_field key v ((existing, slot) # fs) =
    (if existing = key then (existing, v) # fs else (existing, slot) # set_field key v fs)"

definition set_attribute :: "string \<Rightarrow> 'v \<Rightarrow> ('v, 'e) span_state \<Rightarrow> ('v, 'e) span_state" where
  "set_attribute key v ss = ss\<lparr>ss_attributes := set_field key v (ss_attributes ss)\<rparr>"

definition add_event :: "nat \<Rightarrow> string \<Rightarrow> 'v fields \<Rightarrow> ('v, 'e) span_state \<Rightarrow> ('v, 'e) span_state" where
  "add_event now name attributes ss =
    ss\<lparr>ss_events := ss_events ss @ [\<lparr> ev_time = now, ev_name = name, ev_attributes = attributes \<rparr>]\<rparr>"

definition span_fail :: "string \<Rightarrow> ('v, 'e) span_state \<Rightarrow> ('v, 'e) span_state" where
  "span_fail message ss = ss\<lparr>ss_status := Failed message\<rparr>"

text \<open>\<open>as_value\<close> is \<open>Value::String\<close>.\<close>

definition set_error :: "(string \<Rightarrow> 'v) \<Rightarrow> nat \<Rightarrow> string \<Rightarrow> ('v, 'e) span_state \<Rightarrow> ('v, 'e) span_state" where
  "set_error as_value now message ss =
    span_fail message (add_event now ''exception'' [(''exception.message'', as_value message)] ss)"

definition add_link :: "span_context \<Rightarrow> ('v, 'e) span_state \<Rightarrow> ('v, 'e) span_state" where
  "add_link c ss = ss\<lparr>ss_links := ss_links ss @ [c]\<rparr>"

section \<open>The stack of a thread\<close>

text \<open>The stack cannot be reached while the thread tears down, nor from within a visit to it.
  \<open>th_recorded\<close> is what was handed to \<open>pipeline::record_span\<close>.\<close>

record ('v, 'e) span_thread =
  th_stack :: "('v, 'e) span_state list"
  th_reachable :: bool
  th_recorded :: "('v, 'e) span_record list"

definition read_stack :: "(('v, 'e) span_state list \<Rightarrow> 'r) \<Rightarrow> ('v, 'e) span_thread \<Rightarrow> 'r option" where
  "read_stack visit th = (if th_reachable th then Some (visit (th_stack th)) else None)"

definition write_stack ::
    "(('v, 'e) span_state list \<Rightarrow> ('v, 'e) span_state list \<times> 'r) \<Rightarrow> ('v, 'e) span_thread
      \<Rightarrow> ('v, 'e) span_thread \<times> 'r option" where
  "write_stack visit th =
    (if th_reachable th
     then case visit (th_stack th) of (stack, r) \<Rightarrow> (th\<lparr>th_stack := stack\<rparr>, Some r)
     else (th, None))"

definition current_context :: "('v, 'e) span_thread \<Rightarrow> span_context option" where
  "current_context th =
    Option.bind (read_stack (\<lambda>stack. if stack = [] then None else Some (span_context_of (last stack))) th) (\<lambda>c. c)"

definition inherit :: "bytes \<Rightarrow> ('v, 'e) span_thread \<Rightarrow> bytes \<times> bytes option" where
  "inherit fresh_trace th =
    (case current_context th of
       Some c \<Rightarrow> (sc_trace c, Some (sc_span c))
     | None \<Rightarrow> (fresh_trace, None))"

definition push_span :: "('v, 'e) span_state \<Rightarrow> ('v, 'e) span_thread \<Rightarrow> ('v, 'e) span_thread" where
  "push_span ss th = fst (write_stack (\<lambda>stack. (stack @ [ss], ())) th)"

text \<open>\<open>rposition\<close> and the removal there: the last span of that id.\<close>

fun remove_first :: "bytes \<Rightarrow> ('v, 'e) span_state list \<Rightarrow> ('v, 'e) span_state list \<times> ('v, 'e) span_state option" where
  "remove_first i [] = ([], None)"
| "remove_first i (ss # stack) =
    (if ss_span ss = i then (stack, Some ss)
     else case remove_first i stack of (rest, found) \<Rightarrow> (ss # rest, found))"

definition remove_span :: "bytes \<Rightarrow> ('v, 'e) span_thread \<Rightarrow> ('v, 'e) span_thread \<times> ('v, 'e) span_state option" where
  "remove_span i th =
    (case write_stack (\<lambda>stack. case remove_first i (rev stack) of (rest, found) \<Rightarrow> (rev rest, found)) th of
       (th, r) \<Rightarrow> (th, Option.bind r (\<lambda>found. found)))"

definition with_current :: "(('v, 'e) span_state \<Rightarrow> ('v, 'e) span_state) \<Rightarrow> ('v, 'e) span_thread \<Rightarrow> ('v, 'e) span_thread" where
  "with_current visit th =
    fst (write_stack (\<lambda>stack. (if stack = [] then [] else butlast stack @ [visit (last stack)], ())) th)"

section \<open>Guards\<close>

text \<open>A guard holds the id of the span it opened, unless tracing was disabled.\<close>

definition span_enter ::
    "bytes \<Rightarrow> bytes \<Rightarrow> nat \<Rightarrow> 'e \<Rightarrow> string \<Rightarrow> 'v fields \<Rightarrow> ('v, 'e) span_thread
      \<Rightarrow> ('v, 'e) span_thread \<times> bytes option" where
  "span_enter fresh_trace fresh_span now enrichment name attributes th =
    (case inherit fresh_trace th of
       (trace_id, parent) \<Rightarrow>
         let ss = span_open fresh_span now enrichment trace_id parent name attributes in
         (push_span ss th, Some (ss_span ss)))"

definition span_disabled :: "bytes option" where
  "span_disabled = None"

definition span_record_finished :: "nat \<Rightarrow> ('v, 'e) span_state option \<Rightarrow> ('v, 'e) span_thread \<Rightarrow> ('v, 'e) span_thread" where
  "span_record_finished now ss th =
    (case ss of None \<Rightarrow> th | Some ss \<Rightarrow> th\<lparr>th_recorded := th_recorded th @ [span_finish now ss]\<rparr>)"

definition span_drop :: "nat \<Rightarrow> bytes option \<Rightarrow> ('v, 'e) span_thread \<Rightarrow> ('v, 'e) span_thread" where
  "span_drop now entered th =
    (case entered of
       None \<Rightarrow> th
     | Some i \<Rightarrow> (case remove_span i th of (th, ss) \<Rightarrow> span_record_finished now ss th))"

section \<open>Spans that follow a future\<close>

record ('v, 'e) pending =
  pd_id :: "bytes option"
  pd_state :: "('v, 'e) span_state option"

definition span_detach :: "bytes option \<Rightarrow> ('v, 'e) span_thread \<Rightarrow> ('v, 'e) span_thread \<times> ('v, 'e) pending" where
  "span_detach entered th =
    (case entered of
       None \<Rightarrow> (th, \<lparr> pd_id = None, pd_state = None \<rparr>)
     | Some i \<Rightarrow> (case remove_span i th of (th, ss) \<Rightarrow> (th, \<lparr> pd_id = Some i, pd_state = ss \<rparr>)))"

definition pending_enter ::
    "('v, 'e) pending \<times> ('v, 'e) span_thread \<Rightarrow> ('v, 'e) pending \<times> ('v, 'e) span_thread" where
  "pending_enter = (\<lambda>(pd, th).
    case pd_state pd of
      None \<Rightarrow> (pd, th)
    | Some ss \<Rightarrow> (pd\<lparr>pd_state := None\<rparr>, push_span ss th))"

definition pending_exit ::
    "('v, 'e) pending \<times> ('v, 'e) span_thread \<Rightarrow> ('v, 'e) pending \<times> ('v, 'e) span_thread" where
  "pending_exit = (\<lambda>(pd, th).
    case pd_id pd of
      None \<Rightarrow> (pd, th)
    | Some i \<Rightarrow> (case remove_span i th of (th, ss) \<Rightarrow> (pd\<lparr>pd_state := ss\<rparr>, th)))"

definition pending_finish ::
    "nat \<Rightarrow> ('v, 'e) pending \<times> ('v, 'e) span_thread \<Rightarrow> ('v, 'e) pending \<times> ('v, 'e) span_thread" where
  "pending_finish now p =
    (case pending_exit p of
       (pd, th) \<Rightarrow> (pd\<lparr>pd_state := None, pd_id := None\<rparr>, span_record_finished now (pd_state pd) th))"

text \<open>One poll of an instrumented future. The guard exits the span even if the inner poll panics,
  which is \<open>None\<close> of the inner answer; \<open>Some None\<close> is a future that is not ready.\<close>

definition instrumented_poll ::
    "(('v, 'e) span_thread \<Rightarrow> ('v, 'e) span_thread \<times> 'r option option) \<Rightarrow> nat
      \<Rightarrow> ('v, 'e) pending \<times> ('v, 'e) span_thread \<Rightarrow> (('v, 'e) pending \<times> ('v, 'e) span_thread) \<times> 'r option option" where
  "instrumented_poll inner now p =
    (case pending_enter p of (pd, th) \<Rightarrow>
     case inner th of (th, polled) \<Rightarrow>
       let p = pending_exit (pd, th) in
       (case polled of Some (Some r) \<Rightarrow> pending_finish now p | _ \<Rightarrow> p, polled))"

section \<open>Spans owned by a value\<close>

datatype parent = Current | Context span_context | Root

text \<open>\<open>None\<close> is a span that records nothing; otherwise the context given out at the start, and the
  state.\<close>

type_synonym ('v, 'e) owned_span = "(span_context \<times> ('v, 'e) span_state) option"

definition span_start ::
    "bool \<Rightarrow> bytes \<Rightarrow> bytes \<Rightarrow> nat \<Rightarrow> 'e \<Rightarrow> string \<Rightarrow> parent \<Rightarrow> 'v fields \<Rightarrow> ('v, 'e) span_thread \<Rightarrow> ('v, 'e) owned_span" where
  "span_start enabled fresh_trace fresh_span now enrichment name parent attributes th =
    (if \<not> enabled then None
     else
       let (trace_id, parent_id) =
         (case parent of
            Current \<Rightarrow> inherit fresh_trace th
          | Context c \<Rightarrow> (sc_trace c, Some (sc_span c))
          | Root \<Rightarrow> (fresh_trace, None));
         ss = span_open fresh_span now enrichment trace_id parent_id name attributes
       in Some (span_context_of ss, ss))"

definition owned_visit :: "(('v, 'e) span_state \<Rightarrow> ('v, 'e) span_state) \<Rightarrow> ('v, 'e) owned_span \<Rightarrow> ('v, 'e) owned_span" where
  "owned_visit visit os = map_option (\<lambda>(c, ss). (c, visit ss)) os"

definition owned_context :: "('v, 'e) owned_span \<Rightarrow> span_context option" where
  "owned_context os = map_option fst os"

definition owned_drop :: "bool \<Rightarrow> nat \<Rightarrow> ('v, 'e) owned_span \<Rightarrow> ('v, 'e) span_thread \<Rightarrow> ('v, 'e) span_thread" where
  "owned_drop enabled now os th =
    (case os of
       None \<Rightarrow> th
     | Some (c, ss) \<Rightarrow> if enabled then span_record_finished now (Some ss) th else th)"

section \<open>Code under spans\<close>

text \<open>What a stretch of code on one thread does with spans, a guard dropped where its scope ends:
  it opens a span around other such code, or changes the current one.\<close>

datatype ('v, 'e) traced =
    Spanned (tr_trace: bytes) (tr_span: bytes) (tr_start: nat) (tr_end: nat) (tr_enrichment: 'e)
      (tr_name: string) (tr_fields: "'v fields") (tr_body: "('v, 'e) traced list")
  | Attribute string 'v
  | Event nat string "'v fields"
  | Error_Set nat string

fun change_of :: "(string \<Rightarrow> 'v) \<Rightarrow> ('v, 'e) traced \<Rightarrow> ('v, 'e) span_state \<Rightarrow> ('v, 'e) span_state" where
  "change_of as_value (Attribute key v) = set_attribute key v"
| "change_of as_value (Event now name attributes) = add_event now name attributes"
| "change_of as_value (Error_Set now message) = set_error as_value now message"
| "change_of as_value (Spanned trace_id i t0 t1 e name fs body) = (\<lambda>ss. ss)"

fun run_traced :: "(string \<Rightarrow> 'v) \<Rightarrow> ('v, 'e) traced \<Rightarrow> ('v, 'e) span_thread \<Rightarrow> ('v, 'e) span_thread"
  and run_all :: "(string \<Rightarrow> 'v) \<Rightarrow> ('v, 'e) traced list \<Rightarrow> ('v, 'e) span_thread \<Rightarrow> ('v, 'e) span_thread" where
  "run_traced as_value (Spanned trace_id i t0 t1 e name fs body) th =
    (case span_enter trace_id i t0 e name fs th of
       (th, entered) \<Rightarrow> span_drop t1 entered (run_all as_value body th))"
| "run_traced as_value (Attribute key v) th = with_current (set_attribute key v) th"
| "run_traced as_value (Event now name attributes) th = with_current (add_event now name attributes) th"
| "run_traced as_value (Error_Set now message) th = with_current (set_error as_value now message) th"
| "run_all as_value [] th = th"
| "run_all as_value (t # ts) th = run_all as_value ts (run_traced as_value t th)"

text \<open>What it should record, under the context that encloses it: a span after those inside it, with
  the trace of its parent, and with exactly the changes made directly under it.\<close>

fun records_of :: "(string \<Rightarrow> 'v) \<Rightarrow> span_context option \<Rightarrow> ('v, 'e) traced \<Rightarrow> ('v, 'e) span_record list"
  and records_all :: "(string \<Rightarrow> 'v) \<Rightarrow> span_context option \<Rightarrow> ('v, 'e) traced list \<Rightarrow> ('v, 'e) span_record list" where
  "records_of as_value within (Spanned trace_id i t0 t1 e name fs body) =
    (let own = span_open i t0 e (case within of Some c \<Rightarrow> sc_trace c | None \<Rightarrow> trace_id)
           (map_option sc_span within) name fs in
     records_all as_value (Some (span_context_of own)) body
     @ [span_finish t1 (fold (change_of as_value) body own)])"
| "records_of as_value within (Attribute key v) = []"
| "records_of as_value within (Event now name attributes) = []"
| "records_of as_value within (Error_Set now message) = []"
| "records_all as_value within [] = []"
| "records_all as_value within (t # ts) = records_of as_value within t @ records_all as_value within ts"

definition change_last :: "('a \<Rightarrow> 'a) \<Rightarrow> 'a list \<Rightarrow> 'a list" where
  "change_last f xs = (if xs = [] then [] else butlast xs @ [f (last xs)])"

lemma change_last_simps [simp]:
  "change_last f [] = []" "change_last f (xs @ [x]) = xs @ [f x]"
  by (simp_all add: change_last_def)

lemma change_last_compose: "change_last g (change_last f xs) = change_last (g \<circ> f) xs"
  by (cases xs rule: rev_cases) simp_all

lemma change_last_id: "change_last (\<lambda>x. x) xs = xs"
  by (cases xs rule: rev_cases) simp_all

text \<open>Changing a span keeps its identity.\<close>

lemma change_keeps_context [simp]:
  "span_context_of (change_of as_value t ss) = span_context_of ss"
  by (cases t) (simp_all add: span_context_of_def set_attribute_def add_event_def set_error_def span_fail_def)

lemma fold_change_context [simp]:
  "span_context_of (fold (change_of as_value) ts ss) = span_context_of ss"
  by (induction ts arbitrary: ss) simp_all

lemma change_last_context:
  assumes "\<And>ss. span_context_of (f ss) = span_context_of ss"
  shows "current_context (th\<lparr>th_stack := change_last f (th_stack th)\<rparr>) = current_context th"
  using assms by (cases "th_stack th" rule: rev_cases) (simp_all add: current_context_def read_stack_def)

lemma with_current_reachable:
  "th_reachable th \<Longrightarrow> with_current f th = th\<lparr>th_stack := change_last f (th_stack th)\<rparr>"
  by (simp add: with_current_def write_stack_def change_last_def)

lemma remove_pushed:
  assumes "th_reachable th" and "th_stack th = stack @ [ss]"
  shows "remove_span (ss_span ss) th = (th\<lparr>th_stack := stack\<rparr>, Some ss)"
  using assms by (simp add: remove_span_def write_stack_def)

lemma current_context_simps [simp]:
  "current_context (th\<lparr>th_recorded := rs\<rparr>) = current_context th"
  "th_reachable th \<Longrightarrow> current_context (th\<lparr>th_stack := stack @ [ss]\<rparr>) = Some (span_context_of ss)"
  by (simp_all add: current_context_def read_stack_def)

lemma span_enter_reachable:
  assumes "th_reachable th"
  shows "span_enter trace_id i now e name fs th =
    (let own = span_open i now e (case current_context th of Some c \<Rightarrow> sc_trace c | None \<Rightarrow> trace_id)
       (map_option sc_span (current_context th)) name fs
     in (th\<lparr>th_stack := th_stack th @ [own]\<rparr>, Some i))"
  using assms
  by (cases "current_context th")
    (simp_all add: span_enter_def inherit_def push_span_def write_stack_def span_open_def Let_def)

lemma span_drop_pushed:
  assumes "th_reachable th" and "th_stack th = stack @ [ss]" and "ss_span ss = i"
  shows "span_drop now (Some i) th
    = th\<lparr>th_stack := stack, th_recorded := th_recorded th @ [span_finish now ss]\<rparr>"
  using remove_pushed [OF assms(1,2)] assms(3) by (simp add: span_drop_def span_record_finished_def)

lemma run_traced_spec:
  "th_reachable th \<Longrightarrow> run_traced as_value t th =
    th\<lparr>th_stack := change_last (change_of as_value t) (th_stack th),
      th_recorded := th_recorded th @ records_of as_value (current_context th) t\<rparr>"
  "th_reachable th \<Longrightarrow> run_all as_value ts th =
    th\<lparr>th_stack := change_last (fold (change_of as_value) ts) (th_stack th),
      th_recorded := th_recorded th @ records_all as_value (current_context th) ts\<rparr>"
proof (induction as_value t th and as_value ts th rule: run_traced_run_all.induct)
  case (1 as_value trace_id i t0 t1 e name fs body th)
  define own where "own = span_open i t0 e (case current_context th of Some c \<Rightarrow> sc_trace c | None \<Rightarrow> trace_id)
    (map_option sc_span (current_context th)) name fs"
  define inner where "inner = th\<lparr>th_stack := th_stack th @ [own]\<rparr>"
  have enter: "span_enter trace_id i t0 e name fs th = (inner, Some i)"
    using span_enter_reachable [OF "1.prems"] by (simp add: own_def inner_def Let_def)
  have "current_context inner = Some (span_context_of own)"
    using "1.prems" by (simp add: inner_def)
  then have body: "run_all as_value body inner =
      inner\<lparr>th_stack := th_stack th @ [fold (change_of as_value) body own],
        th_recorded := th_recorded th @ records_all as_value (Some (span_context_of own)) body\<rparr>"
    using "1.IH" [OF enter [symmetric]] "1.prems" by (simp add: inner_def)
  have "ss_span (fold (change_of as_value) body own) = i"
    using arg_cong [OF fold_change_context [of as_value body own], of sc_span]
    by (simp add: span_context_of_def own_def span_open_def)
  then have "span_drop t1 (Some i) (run_all as_value body inner) =
      th\<lparr>th_stack := th_stack th, th_recorded := th_recorded th
        @ records_all as_value (Some (span_context_of own)) body
        @ [span_finish t1 (fold (change_of as_value) body own)]\<rparr>"
    unfolding body using "1.prems"
    by (subst span_drop_pushed) (simp_all add: inner_def, cases th, simp)
  with enter show ?case
    by (simp add: own_def Let_def change_last_id)
next
  case (6 as_value t ts th)
  have "current_context (run_traced as_value t th) = current_context th"
    using "6.IH"(1) [OF "6.prems"] change_last_context [of "change_of as_value t" th] by simp
  with 6 show ?case
    by (simp add: change_last_compose comp_def)
qed (simp_all add: with_current_reachable change_last_id change_last_def)

section \<open>Polls\<close>

text \<open>What the code inside a poll does to the stack: it may change the span it runs under, and leaves
  everything else as it found it.\<close>

definition balanced ::
    "(('v, 'e) span_thread \<Rightarrow> ('v, 'e) span_thread \<times> 'r) \<Rightarrow> (('v, 'e) span_state \<Rightarrow> ('v, 'e) span_state)
      \<Rightarrow> ('v, 'e) span_thread \<Rightarrow> bool" where
  "balanced inner f th =
    (th_reachable (fst (inner th)) \<and> th_stack (fst (inner th)) = change_last f (th_stack th))"

lemma pending_finished [simp]:
  "pending_finish now (\<lparr> pd_id = None, pd_state = None \<rparr>, th) = (\<lparr> pd_id = None, pd_state = None \<rparr>, th)"
  by (simp add: pending_finish_def pending_exit_def span_record_finished_def)

definition not_open :: "bytes \<Rightarrow> ('v, 'e) span_thread \<Rightarrow> bool" where
  "not_open i th = list_all (\<lambda>ss. ss_span ss \<noteq> i) (th_stack th)"

lemma remove_first_absent: "list_all (\<lambda>ss. ss_span ss \<noteq> i) stack \<Longrightarrow> remove_first i stack = (stack, None)"
  by (induction stack) auto

lemma remove_absent: "not_open i th \<Longrightarrow> remove_span i th = (th, None)"
  using remove_first_absent [of i "rev (th_stack th)"]
  by (cases "th_reachable th") (simp_all add: remove_span_def write_stack_def not_open_def list_all_iff)

lemma finish_loses_state:
  "not_open i th \<Longrightarrow> pending_finish now (\<lparr> pd_id = Some i, pd_state = st \<rparr>, th)
    = (\<lparr> pd_id = None, pd_state = None \<rparr>, th)"
  by (simp add: pending_finish_def pending_exit_def remove_absent span_record_finished_def)

lemma instrumented_poll_spec:
  assumes "th_reachable th" and "not_open (ss_span ss) th"
    and keeps: "\<And>ss. span_context_of (f ss) = span_context_of ss"
    and inside: "inside = th\<lparr>th_stack := th_stack th @ [ss]\<rparr>" and "balanced inner f inside"
  shows "instrumented_poll inner now (\<lparr> pd_id = Some (ss_span ss), pd_state = Some ss \<rparr>, th) =
    (let th' = (fst (inner inside))\<lparr>th_stack := th_stack th\<rparr> in
     case snd (inner inside) of
       Some (Some r) \<Rightarrow> ((\<lparr> pd_id = None, pd_state = None \<rparr>, th'), Some (Some r))
     | polled \<Rightarrow> ((\<lparr> pd_id = Some (ss_span ss), pd_state = Some (f ss) \<rparr>, th'), polled))"
proof -
  let ?pd = "\<lparr> pd_id = Some (ss_span ss), pd_state = Some ss \<rparr>"
  obtain th' polled where inner: "inner inside = (th', polled)"
    by fastforce
  have enter: "pending_enter (?pd, th) = (?pd\<lparr>pd_state := None\<rparr>, inside)"
    using assms(1) by (simp add: inside pending_enter_def push_span_def write_stack_def)
  have "ss_span (f ss) = ss_span ss"
    using arg_cong [OF keeps [of ss], of sc_span] by (simp add: span_context_of_def)
  moreover have "th_reachable th'" "th_stack th' = th_stack th @ [f ss]"
    using \<open>balanced inner f inside\<close> inner unfolding balanced_def by (simp_all add: inside)
  ultimately have out: "remove_span (ss_span ss) th' = (th'\<lparr>th_stack := th_stack th\<rparr>, Some (f ss))"
    using remove_pushed by metis
  have "not_open (ss_span ss) (th'\<lparr>th_stack := th_stack th\<rparr>)"
    using assms(2) by (simp add: not_open_def)
  from finish_loses_state [OF this] show ?thesis
    using enter out by (simp add: instrumented_poll_def inner pending_exit_def Let_def split: option.split)
qed

section \<open>Properties\<close>

text \<open>C19. Code under nested guards records exactly the tree it forms: a span for each guard, after
  those opened inside it, in the trace of its parent and naming it, with the attributes it was opened
  with and the changes, events and errors set directly under it; a root starts a trace of its own, and
  the stack is left as it was found.\<close>

theorem nested_spans_recorded:
  assumes "th_reachable th" and "th_stack th = []"
  shows "run_all as_value ts th = th\<lparr>th_recorded := th_recorded th @ records_all as_value None ts\<rparr>"
proof -
  have "current_context th = None"
    using assms by (simp add: current_context_def read_stack_def)
  then have "run_all as_value ts th = th\<lparr>th_stack := th_stack th,
      th_recorded := th_recorded th @ records_all as_value None ts\<rparr>"
    using run_traced_spec(2) [OF assms(1), of as_value ts] assms(2) by simp
  then show ?thesis
    by simp
qed

definition idle_thread :: "(nat, unit) span_thread" where
  "idle_thread = \<lparr> th_stack = [], th_reachable = True, th_recorded = [] \<rparr>"

definition two_spans :: "(nat, unit) traced list" where
  "two_spans = [Spanned [1] [2] 0 9 () ''outer'' [(''k'', 1)]
     [Attribute ''k'' 2, Spanned [3] [4] 1 5 () ''inner'' [] [Attribute ''k'' 3]]]"

theorem nested_spans_recorded_witness:
  "map (\<lambda>r. (rc_name r, rc_trace r, rc_parent r, rc_attributes r))
     (th_recorded (run_all length two_spans idle_thread))
   = [(''inner'', [1], Some [2], [(''k'', 3)]), (''outer'', [1], None, [(''k'', 2)])]"
  using nested_spans_recorded [of idle_thread length two_spans]
  by (simp add: idle_thread_def two_spans_def span_open_def span_context_of_def span_finish_def
      set_attribute_def)

text \<open>C20. The span of an instrumented future is never recorded. Each poll takes it back off the stack,
  into the pending span; finishing takes it off the stack once more, finds nothing, and puts that in
  place of the span it held. So a poll that completes the future hands over nothing beyond what the
  code inside recorded itself, and a future dropped between polls hands over nothing at all.\<close>

theorem instrumented_span_is_lost:
  assumes "th_reachable th" and "not_open (ss_span ss) th"
    and "\<And>ss. span_context_of (f ss) = span_context_of ss"
    and "inside = th\<lparr>th_stack := th_stack th @ [ss]\<rparr>" and "balanced inner f inside"
    and "snd (inner inside) = Some (Some r)"
  shows "instrumented_poll inner now (\<lparr> pd_id = Some (ss_span ss), pd_state = Some ss \<rparr>, th)
      = ((\<lparr> pd_id = None, pd_state = None \<rparr>, (fst (inner inside))\<lparr>th_stack := th_stack th\<rparr>), Some (Some r))
    \<and> pending_finish now (\<lparr> pd_id = Some (ss_span ss), pd_state = Some ss \<rparr>, th)
      = (\<lparr> pd_id = None, pd_state = None \<rparr>, th)"
  using instrumented_poll_spec [OF assms(1-5)] finish_loses_state [OF assms(2)] assms(6)
  by (simp add: Let_def)

definition worked :: "(nat, unit) span_thread \<Rightarrow> (nat, unit) span_thread \<times> nat option option" where
  "worked th = (with_current (set_attribute ''k'' 1) th, Some (Some 7))"

theorem instrumented_span_is_lost_witness:
  "let ss = span_open [2] 0 () [1] None ''work'' [];
       p = instrumented_poll worked 9 (\<lparr> pd_id = Some [2], pd_state = Some ss \<rparr>, idle_thread)
   in snd p = Some (Some 7) \<and> th_recorded (snd (fst p)) = []"
proof -
  let ?ss = "span_open [2] 0 () [1] None ''work'' [] :: (nat, unit) span_state"
  let ?inside = "idle_thread\<lparr>th_stack := th_stack idle_thread @ [?ss]\<rparr>"
  have "balanced worked (set_attribute ''k'' 1) ?inside"
    by (simp add: balanced_def worked_def with_current_reachable idle_thread_def)
  moreover have "span_context_of (set_attribute ''k'' 1 ss) = span_context_of ss" for ss :: "(nat, unit) span_state"
    by (simp add: span_context_of_def set_attribute_def)
  ultimately have "instrumented_poll worked 9 (\<lparr> pd_id = Some (ss_span ?ss), pd_state = Some ?ss \<rparr>, idle_thread)
      = ((\<lparr> pd_id = None, pd_state = None \<rparr>, (fst (worked ?inside))\<lparr>th_stack := th_stack idle_thread\<rparr>), Some (Some 7))"
    using instrumented_span_is_lost [of idle_thread ?ss "set_attribute ''k'' 1" ?inside worked 7 9]
    by (simp add: idle_thread_def not_open_def worked_def)
  then show ?thesis
    by (simp add: span_open_def worked_def with_current_reachable idle_thread_def)
qed

end
