(* ===== verification/O11y_Config.thy ===== *)
theory O11y_Config
  imports Export_Worker Metric_Histogram "HOL-Library.AList"
begin

text \<open>
  \<open>o11y/value.rs\<close>, \<open>environment.rs\<close>, \<open>config.rs\<close>, \<open>enrichment.rs\<close> and the starting of
  \<open>pipeline.rs\<close>: attribute values, the configuration, what is known of the machine and the session,
  and how telemetry is started and stopped. A hash map is the list of its entries in the order it is
  walked; the parsers of URLs and headers, the host's id and the session's UUID are parameters.
\<close>

section \<open>Values\<close>

datatype attr_value = V_Bool bool | V_Int int | V_Double f64 | V_String string | V_Bytes bytes
  | V_List "attr_value list" | V_Map "(string \<times> attr_value) list"

type_synonym attributes = "(string \<times> attr_value) list"

definition i64_max :: int where
  "i64_max = 2 ^ 63 - 1"

definition i64_min :: int where
  "i64_min = - (2 ^ 63)"

text \<open>\<open>i64::from\<close> on what always fits, and \<open>try_from\<close> with \<open>i64::MAX\<close> for what does not.\<close>

definition value_from_int :: "int \<Rightarrow> attr_value" where
  "value_from_int i = V_Int i"

definition value_from_int_saturating :: "int \<Rightarrow> attr_value" where
  "value_from_int_saturating i = V_Int (if i64_min \<le> i \<and> i \<le> i64_max then i else i64_max)"

definition value_from_list :: "('a \<Rightarrow> attr_value) \<Rightarrow> 'a list \<Rightarrow> attr_value" where
  "value_from_list into xs = V_List (map into xs)"

definition value_from_map :: "('a \<Rightarrow> attr_value) \<Rightarrow> (string \<times> 'a) list \<Rightarrow> attr_value" where
  "value_from_map into entries = V_Map (map (\<lambda>(k, v). (k, into v)) entries)"

section \<open>The configuration\<close>

datatype environment = Development | Production | Custom string

fun environment_display :: "environment \<Rightarrow> string" where
  "environment_display Development = ''development''"
| "environment_display Production = ''production''"
| "environment_display (Custom name) = name"

record config =
  cf_endpoint :: string
  cf_headers :: "(string \<times> string) list"
  cf_service_name :: string
  cf_service_version :: string
  cf_environment :: environment
  cf_resource :: attributes
  cf_min_level :: level
  cf_flush_interval :: nat
  cf_max_batch_size :: nat
  cf_max_buffered :: nat
  cf_timeout :: nat
  cf_enabled :: bool
  cf_geolocation :: bool
  cf_geolocation_url :: string
  cf_geolocation_timeout :: nat

text \<open>Durations are in nanoseconds.\<close>

definition default_timeout :: nat where
  "default_timeout = 10 * 10 ^ 9"

definition default_flush_interval :: nat where
  "default_flush_interval = 5 * 10 ^ 9"

definition min_flush_interval :: nat where
  "min_flush_interval = 100 * 10 ^ 6"

definition default_max_batch_size :: nat where
  "default_max_batch_size = 512"

definition default_max_buffered :: nat where
  "default_max_buffered = 8192"

definition geolocation_default_timeout :: nat where
  "geolocation_default_timeout = 10 ^ 9"

definition geolocation_default_url :: string where
  "geolocation_default_url = ''https://ipinfo.io''"

definition config_builder :: "string \<Rightarrow> (string \<times> string) list \<Rightarrow> config" where
  "config_builder endpoint headers =
    \<lparr> cf_endpoint = endpoint, cf_headers = fold (\<lambda>(k, v). AList.update k v) headers [],
      cf_service_name = [], cf_service_version = [], cf_environment = Development, cf_resource = [],
      cf_min_level = Info, cf_flush_interval = default_flush_interval,
      cf_max_batch_size = default_max_batch_size, cf_max_buffered = default_max_buffered,
      cf_timeout = default_timeout, cf_enabled = True, cf_geolocation = False,
      cf_geolocation_url = geolocation_default_url, cf_geolocation_timeout = geolocation_default_timeout \<rparr>"

definition with_service_name :: "string \<Rightarrow> config \<Rightarrow> config" where
  "with_service_name name c = c\<lparr>cf_service_name := name\<rparr>"

definition with_service_version :: "string \<Rightarrow> config \<Rightarrow> config" where
  "with_service_version version c = c\<lparr>cf_service_version := version\<rparr>"

definition with_environment :: "environment \<Rightarrow> config \<Rightarrow> config" where
  "with_environment e c = c\<lparr>cf_environment := e\<rparr>"

fun set_entry :: "'k \<Rightarrow> 'v \<Rightarrow> ('k \<times> 'v) list \<Rightarrow> ('k \<times> 'v) list" where
  "set_entry key v [] = [(key, v)]"
| "set_entry key v ((existing, old) # es) =
    (if existing = key then (existing, v) # es else (existing, old) # set_entry key v es)"

definition with_resource_attribute :: "string \<Rightarrow> attr_value \<Rightarrow> config \<Rightarrow> config" where
  "with_resource_attribute key v c = c\<lparr>cf_resource := set_entry key v (cf_resource c)\<rparr>"

definition with_min_level :: "level \<Rightarrow> config \<Rightarrow> config" where
  "with_min_level l c = c\<lparr>cf_min_level := l\<rparr>"

definition with_export_header :: "string \<Rightarrow> string \<Rightarrow> config \<Rightarrow> config" where
  "with_export_header key v c = c\<lparr>cf_headers := AList.update key v (cf_headers c)\<rparr>"

definition with_flush_interval :: "nat \<Rightarrow> config \<Rightarrow> config" where
  "with_flush_interval interval c = c\<lparr>cf_flush_interval := max interval min_flush_interval\<rparr>"

definition with_max_batch_size :: "nat \<Rightarrow> config \<Rightarrow> config" where
  "with_max_batch_size n c = c\<lparr>cf_max_batch_size := n\<rparr>"

definition with_max_buffered :: "nat \<Rightarrow> config \<Rightarrow> config" where
  "with_max_buffered records c = c\<lparr>cf_max_buffered := records\<rparr>"

definition with_timeout :: "nat \<Rightarrow> config \<Rightarrow> config" where
  "with_timeout timeout c = c\<lparr>cf_timeout := timeout\<rparr>"

definition with_enabled :: "bool \<Rightarrow> config \<Rightarrow> config" where
  "with_enabled b c = c\<lparr>cf_enabled := b\<rparr>"

definition with_geolocation :: "bool \<Rightarrow> config \<Rightarrow> config" where
  "with_geolocation b c = c\<lparr>cf_geolocation := b\<rparr>"

definition with_geolocation_url :: "string \<Rightarrow> config \<Rightarrow> config" where
  "with_geolocation_url url c = c\<lparr>cf_geolocation_url := url\<rparr>"

definition with_geolocation_timeout :: "nat \<Rightarrow> config \<Rightarrow> config" where
  "with_geolocation_timeout timeout c = c\<lparr>cf_geolocation_timeout := timeout\<rparr>"

section \<open>Endpoints in print\<close>

text \<open>\<open>split_once\<close> on a text of several bytes.\<close>

fun split_once_str :: "string \<Rightarrow> string \<Rightarrow> (string \<times> string) option" where
  "split_once_str sep [] = (if sep = [] then Some ([], []) else None)"
| "split_once_str sep (c # s) =
    (if prefix sep (c # s) then Some ([], drop (length sep) (c # s))
     else map_option (\<lambda>(a, b). (c # a, b)) (split_once_str sep s))"

definition redact_endpoint :: "string \<Rightarrow> string" where
  "redact_endpoint endpoint =
    (let (before_query, query) = (case split_once (CHR ''?'') endpoint of
           Some (before, after) \<Rightarrow> (before, ''?<redacted>'') | None \<Rightarrow> (endpoint, []));
         (scheme, rest) = (case split_once_str ''://'' before_query of
           Some (scheme, rest) \<Rightarrow> (Some scheme, rest) | None \<Rightarrow> (None, before_query));
         authority = takeWhile (\<lambda>c. c \<noteq> CHR ''/'') rest;
         rest = (case rsplit_once (CHR ''@'') authority of
           Some (before, after) \<Rightarrow> ''<redacted>'' @ drop (length before) rest | None \<Rightarrow> rest)
     in case scheme of
       Some scheme \<Rightarrow> scheme @ ''://'' @ rest @ query
     | None \<Rightarrow> rest @ query)"

section \<open>Attributes of the process\<close>

definition reserved_prefixes :: "string list" where
  "reserved_prefixes = [''service.'', ''telemetry.sdk.'', ''machine.'', ''location.'', ''deployment.environment.'']"

definition is_reserved :: "string \<Rightarrow> bool" where
  "is_reserved key = (key = ''session.id'' \<or> list_ex (\<lambda>p. prefix p key) reserved_prefixes)"

definition resource_attributes :: "config \<Rightarrow> attributes" where
  "resource_attributes c =
    [(''service.name'', V_String (cf_service_name c))]
    @ (if cf_service_version c \<noteq> [] then [(''service.version'', V_String (cf_service_version c))] else [])
    @ [(''deployment.environment.name'', V_String (environment_display (cf_environment c))),
       (''telemetry.sdk.name'', V_String ''rust-sak''), (''telemetry.sdk.language'', V_String ''rust'')]
    @ filter (\<lambda>(key, v). \<not> is_reserved key) (cf_resource c)"

record geolocation =
  geo_ip :: "string option"
  geo_hostname :: "string option"
  geo_city :: "string option"
  geo_region :: "string option"
  geo_country :: "string option"
  geo_loc :: "string option"
  geo_org :: "string option"
  geo_postal :: "string option"
  geo_timezone :: "string option"

record enrichment =
  er_base :: attributes
  er_session :: string
  er_rendered :: attributes

definition rerender :: "enrichment \<Rightarrow> enrichment" where
  "rerender e = e\<lparr>er_rendered := er_base e @ [(''session.id'', V_String (er_session e))]\<rparr>"

definition enrichment_renew :: "string \<Rightarrow> enrichment \<Rightarrow> enrichment" where
  "enrichment_renew uuid e = rerender (e\<lparr>er_session := uuid\<rparr>)"

definition enrichment_new :: "string option \<Rightarrow> string \<Rightarrow> string \<Rightarrow> string \<Rightarrow> enrichment" where
  "enrichment_new machine_id os arch uuid =
    enrichment_renew uuid
      \<lparr> er_base = (case machine_id of Some i \<Rightarrow> [(''machine.id'', V_String i)] | None \<Rightarrow> [])
          @ [(''machine.os'', V_String os), (''machine.arch'', V_String arch)],
        er_session = [], er_rendered = [] \<rparr>"

definition enrichment_machine_id :: "enrichment \<Rightarrow> string option" where
  "enrichment_machine_id e =
    (case List.find (\<lambda>(key, v). key = ''machine.id'' \<and> (case v of V_String i \<Rightarrow> True | _ \<Rightarrow> False)) (er_base e) of
       Some (key, V_String i) \<Rightarrow> Some i
     | _ \<Rightarrow> None)"

definition location_keys :: "string list" where
  "location_keys = [''location.country'', ''location.region'', ''location.city'']"

definition set_location :: "geolocation \<Rightarrow> enrichment \<Rightarrow> enrichment" where
  "set_location geo e =
    rerender (e\<lparr>er_base := filter (\<lambda>(key, v). key \<notin> set location_keys) (er_base e)
      @ List.map_filter (\<lambda>(key, v). case v of Some t \<Rightarrow> if t \<noteq> [] then Some (key, V_String t) else None | None \<Rightarrow> None)
          [(''location.country'', geo_country geo), (''location.region'', geo_region geo), (''location.city'', geo_city geo)]\<rparr>)"

section \<open>Starting and stopping\<close>

text \<open>\<open>parse_name\<close> and \<open>parse_value\<close> are \<open>HeaderName::from_bytes\<close> and \<open>HeaderValue::from_str\<close>; a
  value is stored with its mark as sensitive.\<close>

fun validate_headers ::
    "(string \<Rightarrow> 'n option) \<Rightarrow> (string \<Rightarrow> 'v option) \<Rightarrow> ('n \<times> 'v \<times> bool) list \<Rightarrow> (string \<times> string) list
      \<Rightarrow> o11y_error + ('n \<times> 'v \<times> bool) list" where
  "validate_headers parse_name parse_value parsed [] = Inr parsed"
| "validate_headers parse_name parse_value parsed ((name, v) # headers) =
    (case (parse_name name, parse_value v) of
       (Some n, Some v) \<Rightarrow> validate_headers parse_name parse_value (AList.update n (v, True) parsed) headers
     | _ \<Rightarrow> Inl (Invalid_Header name))"

text \<open>\<open>parse_url\<close> gives the reason a URL is refused.\<close>

definition validate_endpoint :: "(string \<Rightarrow> string option) \<Rightarrow> string \<Rightarrow> o11y_error + unit" where
  "validate_endpoint parse_url endpoint =
    (case parse_url endpoint of
       Some reason \<Rightarrow> Inl (Invalid_Endpoint (redact_endpoint endpoint) reason)
     | None \<Rightarrow> Inr ())"

record ('n, 'v) pipeline =
  pl_config :: config
  pl_headers :: "('n \<times> 'v \<times> bool) list"
  pl_enrichment :: enrichment
  pl_resource :: attributes
  pl_start :: nat
  pl_worker :: bool

definition new_pipeline :: "config \<Rightarrow> ('n \<times> 'v \<times> bool) list \<Rightarrow> enrichment \<Rightarrow> nat \<Rightarrow> ('n, 'v) pipeline" where
  "new_pipeline c headers e now =
    \<lparr> pl_config = c, pl_headers = headers, pl_enrichment = e, pl_resource = resource_attributes c,
      pl_start = now, pl_worker = True \<rparr>"

text \<open>The statics of the process. A \<open>OnceLock\<close> keeps what it was first set to.\<close>

record ('n, 'v) telemetry =
  ty_initialized :: bool
  ty_pipeline :: "('n, 'v) pipeline option"
  ty_gates :: gates

definition telemetry_new :: "('n, 'v) telemetry" where
  "telemetry_new = \<lparr> ty_initialized = False, ty_pipeline = None, ty_gates = gates_closed \<rparr>"

text \<open>\<open>spawned\<close> is the error of a worker thread that does not start.\<close>

record ('n, 'v) start_calls =
  st_url :: "string \<Rightarrow> string option"
  st_name :: "string \<Rightarrow> 'n option"
  st_value :: "string \<Rightarrow> 'v option"
  st_enrichment :: "string \<Rightarrow> enrichment"
  st_now :: nat
  st_spawned :: "io_error option"

definition telemetry_init ::
    "('n, 'v) start_calls \<Rightarrow> config \<Rightarrow> ('n, 'v) telemetry \<Rightarrow> ('n, 'v) telemetry \<times> (o11y_error + unit)" where
  "telemetry_init st c ty =
    (case validate_endpoint (st_url st) (cf_endpoint c) of
       Inl e \<Rightarrow> (ty, Inl e)
     | Inr _ \<Rightarrow> (case validate_headers (st_name st) (st_value st) [] (cf_headers c) of
         Inl e \<Rightarrow> (ty, Inl e)
       | Inr headers \<Rightarrow>
           if ty_initialized ty then (ty, Inl Already_Initialized)
           else
             let ty = ty\<lparr>ty_initialized := True\<rparr> in
             if \<not> cf_enabled c then (ty, Inr ())
             else case st_spawned st of
               Some err \<Rightarrow> (ty\<lparr>ty_initialized := False\<rparr>, Inl (Io_Failed err))
             | None \<Rightarrow>
                 (ty\<lparr>ty_pipeline := (case ty_pipeline ty of
                        None \<Rightarrow> Some (new_pipeline c headers (st_enrichment st (cf_service_name c)) (st_now st))
                      | Some p \<Rightarrow> Some p),
                     ty_gates := gates_open (cf_min_level c) (ty_gates ty)\<rparr>, Inr ())))"

definition telemetry_shutdown :: "('n, 'v) telemetry \<Rightarrow> ('n, 'v) telemetry" where
  "telemetry_shutdown ty =
    (let ty = ty\<lparr>ty_gates := gates_close (ty_gates ty)\<rparr> in
     ty\<lparr>ty_pipeline := map_option (\<lambda>p. p\<lparr>pl_worker := False\<rparr>) (ty_pipeline ty)\<rparr>)"

definition running :: "('n, 'v) telemetry \<Rightarrow> ('n, 'v) pipeline option" where
  "running ty = (case ty_pipeline ty of Some p \<Rightarrow> if gt_tracing (ty_gates ty) then Some p else None | None \<Rightarrow> None)"

definition telemetry_enabled :: "('n, 'v) telemetry \<Rightarrow> bool" where
  "telemetry_enabled ty = (running ty \<noteq> None)"

definition telemetry_session_id :: "('n, 'v) telemetry \<Rightarrow> string option" where
  "telemetry_session_id ty = map_option (\<lambda>p. er_session (pl_enrichment p)) (running ty)"

definition telemetry_machine_id :: "('n, 'v) telemetry \<Rightarrow> string option" where
  "telemetry_machine_id ty = Option.bind (running ty) (\<lambda>p. enrichment_machine_id (pl_enrichment p))"

definition telemetry_renew :: "string \<Rightarrow> ('n, 'v) telemetry \<Rightarrow> ('n, 'v) telemetry" where
  "telemetry_renew uuid ty =
    ty\<lparr>ty_pipeline := map_option (\<lambda>p. p\<lparr>pl_enrichment := enrichment_renew uuid (pl_enrichment p)\<rparr>) (ty_pipeline ty)\<rparr>"

definition attributes_now :: "('n, 'v) telemetry \<Rightarrow> attributes" where
  "attributes_now ty = (case ty_pipeline ty of Some p \<Rightarrow> er_rendered (pl_enrichment p) | None \<Rightarrow> [])"

section \<open>Printed endpoints\<close>

lemma split_once_str_found:
  assumes "CHR '':'' \<notin> set a"
  shows "split_once_str ''://'' (a @ ''://'' @ b) = Some (a, b)"
  using assms by (induction a) (simp_all add: prefix_Cons)

lemma rsplit_once_found:
  assumes "c \<notin> set b"
  shows "rsplit_once c (a @ c # b) = Some (a, b)"
  using assms by (simp add: rsplit_once_def split_once_found)

text \<open>The user name, the password and the query of an endpoint are not in what is printed of it.\<close>

lemma redact_endpoint_hides:
  assumes "CHR '':'' \<notin> set scheme" and "CHR ''?'' \<notin> set scheme"
    and "CHR ''?'' \<notin> set userinfo" and "CHR ''/'' \<notin> set userinfo"
    and "CHR ''?'' \<notin> set host" and "CHR ''/'' \<notin> set host" and "CHR ''@'' \<notin> set host"
    and "CHR ''?'' \<notin> set path" and "path = [] \<or> hd path = CHR ''/''"
  shows "redact_endpoint (scheme @ ''://'' @ userinfo @ ''@'' @ host @ path @ ''?'' @ query)
    = scheme @ ''://<redacted>@'' @ host @ path @ ''?<redacted>''"
proof -
  let ?rest = "userinfo @ CHR ''@'' # host @ path"
  have "split_once CHR ''?'' ((scheme @ ''://'' @ ?rest) @ CHR ''?'' # query) = Some (scheme @ ''://'' @ ?rest, query)"
    using assms by (intro split_once_found) auto
  moreover have "split_once_str ''://'' (scheme @ ''://'' @ ?rest) = Some (scheme, ?rest)"
    using assms(1) by (rule split_once_str_found)
  moreover have "takeWhile (\<lambda>c. c \<noteq> CHR ''/'') ?rest = userinfo @ CHR ''@'' # host"
    using assms(4,6,9) by (cases path) (auto simp: takeWhile_append)
  moreover have "rsplit_once CHR ''@'' (userinfo @ CHR ''@'' # host) = Some (userinfo, host)"
    using assms(7) by (rule rsplit_once_found)
  ultimately show ?thesis
    by (simp add: redact_endpoint_def)
qed

text \<open>An endpoint with one slash after its scheme, which the URL parser accepts, keeps them.\<close>

lemma single_slash_endpoint_is_printed:
  "redact_endpoint ''https:/user:pw@host/v1'' = ''https:/user:pw@host/v1''"
  by (simp add: redact_endpoint_def split_once_def rsplit_once_def prefix_Cons)

section \<open>Keys are unique\<close>

datatype builder_call = Service_Name string | Service_Version string | Set_Environment environment
  | Resource_Attribute string attr_value | Min_Level level | Export_Header string string
  | Flush_Interval nat | Max_Batch_Size nat | Max_Buffered nat | Timeout nat | Enable bool
  | Geolocate bool | Geolocation_Url string | Geolocation_Timeout nat

fun builder_step :: "builder_call \<Rightarrow> config \<Rightarrow> config" where
  "builder_step (Service_Name s) = with_service_name s"
| "builder_step (Service_Version s) = with_service_version s"
| "builder_step (Set_Environment e) = with_environment e"
| "builder_step (Resource_Attribute k v) = with_resource_attribute k v"
| "builder_step (Min_Level l) = with_min_level l"
| "builder_step (Export_Header k v) = with_export_header k v"
| "builder_step (Flush_Interval n) = with_flush_interval n"
| "builder_step (Max_Batch_Size n) = with_max_batch_size n"
| "builder_step (Max_Buffered n) = with_max_buffered n"
| "builder_step (Timeout n) = with_timeout n"
| "builder_step (Enable b) = with_enabled b"
| "builder_step (Geolocate b) = with_geolocation b"
| "builder_step (Geolocation_Url s) = with_geolocation_url s"
| "builder_step (Geolocation_Timeout n) = with_geolocation_timeout n"

lemmas builder_defs = with_service_name_def with_service_version_def with_environment_def
  with_resource_attribute_def with_min_level_def with_export_header_def with_flush_interval_def
  with_max_batch_size_def with_max_buffered_def with_timeout_def with_enabled_def
  with_geolocation_def with_geolocation_url_def with_geolocation_timeout_def

datatype enrichment_call = Renew_Session string | Located geolocation

fun enrichment_step :: "enrichment_call \<Rightarrow> enrichment \<Rightarrow> enrichment" where
  "enrichment_step (Renew_Session uuid) = enrichment_renew uuid"
| "enrichment_step (Located geo) = set_location geo"

definition config_ok :: "config \<Rightarrow> bool" where
  "config_ok c \<longleftrightarrow> distinct (map fst (cf_resource c)) \<and> distinct (map fst (cf_headers c))
    \<and> min_flush_interval \<le> cf_flush_interval c"

lemma set_entry_keys: "fst ` set (set_entry k v es) = insert k (fst ` set es)"
  by (induction k v es rule: set_entry.induct) auto

lemma set_entry_distinct: "distinct (map fst es) \<Longrightarrow> distinct (map fst (set_entry k v es))"
  by (induction k v es rule: set_entry.induct) (auto simp: set_entry_keys)

lemma map_of_set_entry: "map_of (set_entry k v es) = (map_of es)(k \<mapsto> v)"
  by (induction k v es rule: set_entry.induct) auto

lemma builder_step_ok: "config_ok c \<Longrightarrow> config_ok (builder_step b c)"
  by (cases b) (simp_all add: config_ok_def builder_defs set_entry_distinct distinct_update)

lemma config_builder_ok: "config_ok (config_builder endpoint headers)"
proof -
  have "distinct (map fst (fold (\<lambda>(k, v). AList.update k v) hs acc))"
    if "distinct (map fst acc)" for hs and acc :: "(string \<times> string) list"
    using that by (induction hs arbitrary: acc) (auto simp: distinct_update)
  then show ?thesis
    by (simp add: config_ok_def config_builder_def min_flush_interval_def default_flush_interval_def)
qed

lemma config_built_ok: "config_ok (fold builder_step calls (config_builder endpoint headers))"
proof -
  have "config_ok c \<Longrightarrow> config_ok (fold builder_step calls c)" for c
    by (induction calls arbitrary: c) (auto intro: builder_step_ok)
  then show ?thesis
    by (simp add: config_builder_ok)
qed

definition machine_keys :: "string list" where
  "machine_keys = [''machine.id'', ''machine.os'', ''machine.arch'']"

definition enrichment_ok :: "enrichment \<Rightarrow> bool" where
  "enrichment_ok e \<longleftrightarrow> distinct (map fst (er_base e))
    \<and> fst ` set (er_base e) \<subseteq> set machine_keys \<union> set location_keys
    \<and> er_rendered e = er_base e @ [(''session.id'', V_String (er_session e))]"

lemma enrichment_new_ok: "enrichment_ok (enrichment_new machine_id os arch uuid)"
  by (auto simp: enrichment_ok_def enrichment_new_def enrichment_renew_def rerender_def machine_keys_def
      split: option.split)

lemma location_entries:
  fixes f :: "string \<times> string option \<Rightarrow> (string \<times> attr_value) option"
  assumes "\<And>k v a. f (k, v) = Some a \<Longrightarrow> fst a = k"
  shows "fst ` set (List.map_filter f xs) \<subseteq> fst ` set xs"
    and "distinct (map fst xs) \<Longrightarrow> distinct (map fst (List.map_filter f xs))"
proof -
  have "fst (the (f x)) = fst x" if "f x \<noteq> None" for x
    using that assms [of "fst x" "snd x"] by auto
  then have eq: "map fst (List.map_filter f xs) = map fst (filter (\<lambda>x. f x \<noteq> None) xs)"
    by (simp add: List.map_filter_def)
  show "distinct (map fst xs) \<Longrightarrow> distinct (map fst (List.map_filter f xs))"
    unfolding eq by (simp add: distinct_map_filter)
  have "set (map fst (filter (\<lambda>x. f x \<noteq> None) xs)) \<subseteq> fst ` set xs"
    by auto
  then show "fst ` set (List.map_filter f xs) \<subseteq> fst ` set xs"
    unfolding eq [symmetric] by simp
qed

lemma enrichment_step_ok: "enrichment_ok e \<Longrightarrow> enrichment_ok (enrichment_step call e)"
proof (cases call)
  case (Located geo)
  assume ok: "enrichment_ok e"
  let ?f = "\<lambda>(key, v). case v of Some t \<Rightarrow> if t \<noteq> [] then Some (key, V_String t) else None | None \<Rightarrow> None"
  let ?xs = "[(''location.country'', geo_country geo), (''location.region'', geo_region geo), (''location.city'', geo_city geo)]"
  have entries: "fst ` set (List.map_filter ?f ?xs) \<subseteq> set location_keys" "distinct (map fst (List.map_filter ?f ?xs))"
    using location_entries [of ?f ?xs] by (auto simp: location_keys_def split: option.splits if_splits)
  let ?kept = "filter (\<lambda>(key, v). key \<notin> set location_keys) (er_base e)"
  have "distinct (map fst ?kept)" "fst ` set ?kept \<subseteq> set machine_keys" "fst ` set ?kept \<inter> set location_keys = {}"
    using ok by (auto simp: enrichment_ok_def distinct_map_filter)
  with entries have "distinct (map fst (?kept @ List.map_filter ?f ?xs))"
    "fst ` set (?kept @ List.map_filter ?f ?xs) \<subseteq> set machine_keys \<union> set location_keys"
    by auto
  then show ?thesis
    by (simp add: Located enrichment_ok_def set_location_def rerender_def)
qed (simp add: enrichment_ok_def enrichment_renew_def rerender_def)

lemma enrichment_run_ok:
  "enrichment_ok (fold enrichment_step calls (enrichment_new machine_id os arch uuid))"
proof -
  have "enrichment_ok e \<Longrightarrow> enrichment_ok (fold enrichment_step calls e)" for e
    by (induction calls arbitrary: e) (auto intro: enrichment_step_ok)
  then show ?thesis
    by (simp add: enrichment_new_ok)
qed

definition own_keys :: "string list" where
  "own_keys = [''service.name'', ''service.version'', ''deployment.environment.name'',
     ''telemetry.sdk.name'', ''telemetry.sdk.language'']"

lemma resource_attributes_keys:
  assumes "distinct (map fst (cf_resource c))"
  shows "distinct (map fst (resource_attributes c))"
    and "k \<in> fst ` set (resource_attributes c) \<Longrightarrow> k \<in> set own_keys \<or> \<not> is_reserved k"
proof -
  let ?extra = "filter (\<lambda>(key, v). \<not> is_reserved key) (cf_resource c)"
  define own where "own = [(''service.name'', V_String (cf_service_name c))]
    @ (if cf_service_version c \<noteq> [] then [(''service.version'', V_String (cf_service_version c))] else [])
    @ [(''deployment.environment.name'', V_String (environment_display (cf_environment c))),
       (''telemetry.sdk.name'', V_String ''rust-sak''), (''telemetry.sdk.language'', V_String ''rust'')]"
  have resource: "resource_attributes c = own @ ?extra"
    by (simp only: own_def resource_attributes_def append_assoc)
  have own: "distinct (map fst own)" "set (map fst own) \<subseteq> set own_keys"
    by (cases "cf_service_version c = []"; simp add: own_def own_keys_def)+
  have "list_all is_reserved own_keys"
    by (simp add: own_keys_def is_reserved_def reserved_prefixes_def)
  then have reserved: "\<forall>k \<in> set (map fst own). is_reserved k"
    using own(2) unfolding list_all_iff by blast
  have extra: "distinct (map fst ?extra)" "\<forall>k \<in> set (map fst ?extra). \<not> is_reserved k"
    using assms by (auto simp: distinct_map_filter)
  have "set (map fst own) \<inter> set (map fst ?extra) = {}"
    using reserved extra(2) by blast
  with own(1) extra(1) show "distinct (map fst (resource_attributes c))"
    unfolding resource by (simp only: map_append distinct_append)
  show "k \<in> fst ` set (resource_attributes c) \<Longrightarrow> k \<in> set own_keys \<or> \<not> is_reserved k"
    using own(2) extra(2) unfolding resource set_append image_Un set_map by blast
qed

lemma reserved_keys:
  "k \<in> set machine_keys \<union> set location_keys \<union> {''session.id''} \<Longrightarrow> is_reserved k \<and> k \<notin> set own_keys"
  by (auto simp: machine_keys_def location_keys_def is_reserved_def reserved_prefixes_def own_keys_def)

text \<open>The attributes of a resource block have unique keys, as OTLP requires of them, whatever the
  configuration was built from and however often the session was renewed or the location set: a
  caller's attribute neither repeats a key nor takes one of those this library reports itself.\<close>

theorem resource_keys_unique:
  "distinct (map fst
    (resource_attributes (fold builder_step calls (config_builder endpoint headers))
     @ er_rendered (fold enrichment_step changes (enrichment_new machine_id os arch uuid))))"
proof -
  let ?c = "fold builder_step calls (config_builder endpoint headers)"
  let ?e = "fold enrichment_step changes (enrichment_new machine_id os arch uuid)"
  have built: "distinct (map fst (cf_resource ?c))"
    using config_built_ok [of calls endpoint headers] by (simp add: config_ok_def)
  have ok: "enrichment_ok ?e"
    by (rule enrichment_run_ok)
  have session: "''session.id'' \<notin> set machine_keys \<union> set location_keys"
    by (simp add: machine_keys_def location_keys_def)
  have "k \<notin> fst ` set (resource_attributes ?c)" if "k \<in> set machine_keys \<union> set location_keys \<union> {''session.id''}" for k
    using reserved_keys [OF that] resource_attributes_keys(2) [OF built, of k] by blast
  then have "set (map fst (resource_attributes ?c)) \<inter> set (map fst (er_rendered ?e)) = {}"
    using ok unfolding enrichment_ok_def by auto
  moreover have "distinct (map fst (er_rendered ?e))"
    using ok session unfolding enrichment_ok_def by auto
  ultimately show ?thesis
    using resource_attributes_keys(1) [OF built] by (simp only: map_append distinct_append)
qed

section \<open>Telemetry starts once\<close>

datatype ('n, 'v) telemetry_call = Init "('n, 'v) start_calls" config | Shutdown | Renew string

fun telemetry_step ::
    "('n, 'v) telemetry_call \<Rightarrow> ('n, 'v) telemetry \<Rightarrow> ('n, 'v) telemetry \<times> (o11y_error + unit) option" where
  "telemetry_step (Init st c) ty = (case telemetry_init st c ty of (ty, r) \<Rightarrow> (ty, Some r))"
| "telemetry_step Shutdown ty = (telemetry_shutdown ty, None)"
| "telemetry_step (Renew uuid) ty = (telemetry_renew uuid ty, None)"

fun telemetry_run ::
    "('n, 'v) telemetry_call list \<Rightarrow> ('n, 'v) telemetry \<Rightarrow> ('n, 'v) telemetry \<times> (o11y_error + unit) list" where
  "telemetry_run [] ty = (ty, [])"
| "telemetry_run (call # calls) ty =
    (case telemetry_step call ty of (ty, r) \<Rightarrow>
     case telemetry_run calls ty of (ty, rs) \<Rightarrow> (ty, (case r of Some r \<Rightarrow> r # rs | None \<Rightarrow> rs)))"

definition telemetry_ok :: "('n, 'v) telemetry \<Rightarrow> bool" where
  "telemetry_ok ty \<longleftrightarrow> (gt_tracing (ty_gates ty) \<longrightarrow> ty_pipeline ty \<noteq> None)
    \<and> (ty_pipeline ty \<noteq> None \<longrightarrow> ty_initialized ty)
    \<and> (\<not> gt_tracing (ty_gates ty) \<longrightarrow> gt_threshold (ty_gates ty) = 255)"

lemma telemetry_init_cases:
  assumes "telemetry_init st c ty = (ty', r)"
  shows "(\<exists>e. r = Inl e \<and> ty' = ty) \<or> (r = Inr () \<and> \<not> ty_initialized ty \<and> ty_initialized ty'
     \<and> (if cf_enabled c then ty_pipeline ty' \<noteq> None \<and> ty_gates ty' = gates_open (cf_min_level c) (ty_gates ty)
        else ty_pipeline ty' = ty_pipeline ty \<and> ty_gates ty' = ty_gates ty))"
proof (cases "validate_endpoint (st_url st) (cf_endpoint c)")
  case (Inr u)
  show ?thesis
  proof (cases "validate_headers (st_name st) (st_value st) [] (cf_headers c)")
    case (Inr hs)
    with \<open>validate_endpoint (st_url st) (cf_endpoint c) = Inr u\<close> assms show ?thesis
      by (cases "ty_initialized ty"; cases "cf_enabled c"; cases "st_spawned st")
        (auto simp: telemetry_init_def Let_def split: option.splits)
  qed (use assms Inr in \<open>auto simp: telemetry_init_def\<close>)
next
  case (Inl e)
  with assms have "ty' = ty \<and> r = Inl e"
    by (simp add: telemetry_init_def)
  then show ?thesis
    by simp
qed

lemma telemetry_step_ok:
  assumes "telemetry_ok ty" and "telemetry_step call ty = (ty', r)"
  shows "telemetry_ok ty' \<and> (ty_initialized ty \<longrightarrow> ty_initialized ty' \<and> r \<noteq> Some (Inr ()))
    \<and> (r = Some (Inr ()) \<longrightarrow> ty_initialized ty') \<and> (\<forall>e. r = Some (Inl e) \<longrightarrow> ty' = ty)"
proof (cases call)
  case (Init st c)
  with assms(2) obtain q where q: "telemetry_init st c ty = (ty', q)" "r = Some q"
    by (auto split: prod.splits)
  show ?thesis
    using telemetry_init_cases [OF q(1)] assms(1) q(2)
    by (auto simp: telemetry_ok_def gates_open_def split: if_splits)
qed (use assms in \<open>auto simp: telemetry_ok_def telemetry_shutdown_def telemetry_renew_def gates_close_def Let_def\<close>)

lemma telemetry_run_ok:
  "telemetry_ok ty \<Longrightarrow> telemetry_run calls ty = (ty', rs) \<Longrightarrow>
    telemetry_ok ty' \<and> length (filter is_ok rs) \<le> (if ty_initialized ty then 0 else 1)"
proof (induction calls arbitrary: ty ty' rs)
  case (Cons call calls)
  obtain ty1 r ty2 rs1 where step: "telemetry_step call ty = (ty1, r)" and rest: "telemetry_run calls ty1 = (ty2, rs1)"
    by fastforce
  note ok = telemetry_step_ok [OF Cons.prems(1) step]
  with Cons.IH [OF _ rest] Cons.prems(2) step rest show ?case
    by (cases r; cases "the r") (auto split: if_splits)
qed simp

text \<open>Telemetry starts at most once in a process: of any sequence of calls at most one \<open>init\<close>
  succeeds. A call that fails, for an endpoint or a header that is refused, for a start that was made
  already or a thread that cannot be made, changes nothing, so a later one may succeed. Whenever a gate
  is open there is a pipeline behind it, and it is shut again by \<open>shutdown\<close>.\<close>

theorem telemetry_starts_once:
  "let (ty, rs) = telemetry_run calls telemetry_new in
     length (filter is_ok rs) \<le> 1
     \<and> (case ty_pipeline ty of None \<Rightarrow> gt_threshold (ty_gates ty) = 255 | Some _ \<Rightarrow> True)
     \<and> (telemetry_enabled ty = gt_tracing (ty_gates ty))
     \<and> (case telemetry_init st c ty of (ty', r) \<Rightarrow> is_ok r \<or> ty' = ty)
     \<and> \<not> telemetry_enabled (telemetry_shutdown ty)"
proof -
  obtain ty rs where run: "telemetry_run calls telemetry_new = (ty, rs)"
    by fastforce
  have "telemetry_ok (telemetry_new :: ('a, 'b) telemetry)"
    by (simp add: telemetry_ok_def telemetry_new_def gates_closed_def)
  from telemetry_run_ok [OF this run] have ok: "telemetry_ok ty" "length (filter is_ok rs) \<le> 1"
    by (auto split: if_splits)
  obtain ty' r where init: "telemetry_init st c ty = (ty', r)"
    by fastforce
  show ?thesis
    using ok telemetry_init_cases [OF init]
    by (auto simp: run init telemetry_ok_def telemetry_enabled_def running_def telemetry_shutdown_def gates_close_def
        split: option.splits)
qed

end
