(* ===== verification/Otlp.thy ===== *)
theory Otlp
  imports O11y_Config Trace
begin

text \<open>
  \<open>o11y/otlp.rs\<close>: records, spans and instruments as OTLP/HTTP JSON payloads. A JSON object is the
  list of its entries as they are written; \<open>hex\<close> is a parameter.
\<close>

section \<open>JSON\<close>

datatype json = J_Bool bool | J_Int int | J_Real real | J_Str string | J_Arr "json list"
  | J_Obj "(string \<times> json) list"

definition show_int :: "int \<Rightarrow> string" where
  "show_int i = (if i < 0 then CHR ''-'' # show_nat (nat (- i)) else show_nat (nat i))"

definition big_int :: "nat \<Rightarrow> json" where
  "big_int n = J_Str (show_nat n)"

definition json_double :: "f64 \<Rightarrow> json" where
  "json_double x =
    (case x of NaN \<Rightarrow> J_Str ''NaN'' | Infinite positive \<Rightarrow> J_Str (if positive then ''Infinity'' else ''-Infinity'')
     | Finite r \<Rightarrow> J_Real r)"

section \<open>Base64\<close>

definition base64_alphabet :: string where
  "base64_alphabet = ''ABCDEFGHIJKLMNOPQRSTUVWXYZabcdefghijklmnopqrstuvwxyz0123456789+/''"

fun chunks3 :: "'a list \<Rightarrow> 'a list list" where
  "chunks3 [] = []"
| "chunks3 (a # b # c # s) = [a, b, c] # chunks3 s"
| "chunks3 s = [s]"

definition base64_block :: "bytes \<Rightarrow> u32" where
  "base64_block chunk =
    fold (\<lambda>(index, byte) block. block OR push_bit (16 - 8 * index) (ucast byte)) (List.enumerate 0 chunk) 0"

definition base64_chunk :: "bytes \<Rightarrow> string" where
  "base64_chunk chunk =
    map (\<lambda>index. base64_alphabet ! unat (drop_bit (18 - 6 * index) (base64_block chunk) AND 0x3f))
      [0..<length chunk + 1]
    @ replicate (3 - length chunk) (CHR ''='')"

definition base64 :: "bytes \<Rightarrow> string" where
  "base64 bs = concat (map base64_chunk (chunks3 bs))"

text \<open>Decoding as RFC 4648 has it.\<close>

definition value64 :: "char \<Rightarrow> nat" where
  "value64 c = (if c = CHR ''='' then 0 else length (takeWhile (\<lambda>d. d \<noteq> c) base64_alphabet))"

definition quad_bytes :: "string \<Rightarrow> bytes" where
  "quad_bytes q =
    (let n = foldl (\<lambda>n c. 64 * n + value64 c) 0 q in
     take (3 - length (filter (\<lambda>c. c = CHR ''='') q))
       [of_nat (n div 65536 mod 256), of_nat (n div 256 mod 256), of_nat (n mod 256)])"

fun base64_decode :: "string \<Rightarrow> bytes" where
  "base64_decode (a # b # c # d # s) = quad_bytes [a, b, c, d] @ base64_decode s"
| "base64_decode s = []"

lemma value64_alphabet: "n < 64 \<Longrightarrow> value64 (base64_alphabet ! n) = n \<and> base64_alphabet ! n \<noteq> CHR ''=''"
proof -
  assume "n < 64"
  then have "n \<in> set [0..<64]"
    by simp
  moreover have "list_all (\<lambda>n. value64 (base64_alphabet ! n) = n \<and> base64_alphabet ! n \<noteq> CHR ''='') [0..<64]"
    by code_simp
  ultimately show ?thesis
    unfolding list_all_iff by blast
qed

lemma sextet: "unat (drop_bit k w AND 0x3f) = unat (w :: u32) div 2 ^ k mod 64"
proof -
  have "(0x3f :: u32) = mask 6"
    by (simp add: mask_eq_exp_minus_1)
  then have "unat (drop_bit k w AND 0x3f) = take_bit 6 (unat (drop_bit k w))"
    by (simp only: take_bit_eq_mask [symmetric] unsigned_take_bit_eq)
  also have "unat (drop_bit k w) = drop_bit k (unat w)"
    by (simp only: unsigned_drop_bit_eq) (simp add: take_bit_nat_eq_self unsigned_less [where ?'a = nat, of w, simplified])
  finally show ?thesis
    by (simp only: take_bit_eq_mod drop_bit_eq_div) simp
qed

lemma block_sum:
  "push_bit 16 (ucast (a :: byte)) OR push_bit 8 (ucast (b :: byte)) OR ucast (c :: byte)
    = (of_nat (unat a * 65536 + unat b * 256 + unat c) :: u32)"
proof -
  have below: "bit x n \<Longrightarrow> n < 8" for x :: byte and n
    using bit_imp_le_length [of x n] by simp
  have "push_bit 8 (ucast b) OR ucast c = (push_bit 8 (ucast b) + ucast c :: u32)"
    by (rule disjunctive_add [symmetric]) (auto simp: bit_push_bit_iff bit_ucast_iff dest: below)
  moreover have "push_bit 16 (ucast a) OR (push_bit 8 (ucast b) OR ucast c)
      = (push_bit 16 (ucast a) + (push_bit 8 (ucast b) OR ucast c) :: u32)"
    by (rule disjunctive_add [symmetric]) (auto simp: bit_push_bit_iff bit_ucast_iff bit_or_iff dest: below)
  ultimately show ?thesis
    by (simp add: push_bit_eq_mult unsigned_ucast_eq)
qed

lemma base64_blocks:
  "base64_block [a] = of_nat (unat a * 65536)"
  "base64_block [a, b] = of_nat (unat a * 65536 + unat b * 256)"
  "base64_block [a, b, c] = of_nat (unat a * 65536 + unat b * 256 + unat c)"
proof -
  have "base64_block [a, b, c] = push_bit 16 (ucast a) OR push_bit 8 (ucast b) OR ucast c"
    and "base64_block [a, b] = push_bit 16 (ucast a) OR push_bit 8 (ucast b) OR ucast (0 :: byte)"
    and "base64_block [a] = push_bit 16 (ucast a) OR push_bit 8 (ucast (0 :: byte)) OR ucast (0 :: byte)"
    by (simp_all add: base64_block_def or.assoc)
  then show "base64_block [a] = of_nat (unat a * 65536)"
    and "base64_block [a, b] = of_nat (unat a * 65536 + unat b * 256)"
    and "base64_block [a, b, c] = of_nat (unat a * 65536 + unat b * 256 + unat c)"
    by (simp_all only: block_sum) simp_all
qed

lemma unat_block:
  "unat (of_nat (unat (a :: byte) * 65536 + unat (b :: byte) * 256 + unat (c :: byte)) :: u32)
    = unat a * 65536 + unat b * 256 + unat c"
proof -
  have "unat a < 256" "unat b < 256" "unat c < 256"
    using unsigned_less [where ?'a = nat, of a] unsigned_less [where ?'a = nat, of b]
      unsigned_less [where ?'a = nat, of c] by simp_all
  then have "unat a * 65536 + unat b * 256 + unat c < 2 ^ 32"
    by simp
  then show ?thesis
    by (simp only: unat_of_nat) simp
qed

definition sextet_char :: "nat \<Rightarrow> nat \<Rightarrow> char" where
  "sextet_char n k = base64_alphabet ! (n div 2 ^ k mod 64)"

lemma sextet_char_value [simp]: "value64 (sextet_char n k) = n div 2 ^ k mod 64" "sextet_char n k \<noteq> CHR ''=''"
  using value64_alphabet [of "n div 2 ^ k mod 64"] by (simp_all add: sextet_char_def)

lemma upt_four: "[0..<Suc 1] = [0, 1]" "[0..<Suc 2] = [0, 1, 2]" "[0..<Suc 3] = [0, 1, 2, 3 :: nat]"
  by (simp_all add: upt_rec)

lemma base64_chunks:
  fixes a b c :: byte
  defines "n \<equiv> unat a * 65536 + unat b * 256 + unat c"
  shows "base64_chunk [a, b, c] = [sextet_char n 18, sextet_char n 12, sextet_char n 6, sextet_char n 0]"
    and "c = 0 \<Longrightarrow> base64_chunk [a, b] = [sextet_char n 18, sextet_char n 12, sextet_char n 6, CHR ''='']"
    and "b = 0 \<Longrightarrow> c = 0 \<Longrightarrow> base64_chunk [a] = [sextet_char n 18, sextet_char n 12, CHR ''='', CHR ''='']"
proof -
  have n: "unat (of_nat n :: u32) = n"
    unfolding n_def by (rule unat_block)
  show "base64_chunk [a, b, c] = [sextet_char n 18, sextet_char n 12, sextet_char n 6, sextet_char n 0]"
    by (simp only: base64_chunk_def base64_blocks n_def [symmetric] sextet n)
      (simp add: sextet_char_def numeral_3_eq_3 numeral_2_eq_2)
  show "c = 0 \<Longrightarrow> base64_chunk [a, b] = [sextet_char n 18, sextet_char n 12, sextet_char n 6, CHR ''='']"
  proof -
    assume "c = 0"
    then have "base64_block [a, b] = of_nat n"
      by (simp add: base64_blocks n_def)
    then show ?thesis
      by (simp only: base64_chunk_def sextet n) (simp add: sextet_char_def numeral_3_eq_3 numeral_2_eq_2)
  qed
  show "b = 0 \<Longrightarrow> c = 0 \<Longrightarrow> base64_chunk [a] = [sextet_char n 18, sextet_char n 12, CHR ''='', CHR ''='']"
  proof -
    assume "b = 0" "c = 0"
    then have "base64_block [a] = of_nat n"
      by (simp add: base64_blocks n_def)
    then show ?thesis
      by (simp only: base64_chunk_def sextet n) (simp add: sextet_char_def numeral_3_eq_3 numeral_2_eq_2)
  qed
qed

lemma sextets_join:
  assumes "n < 2 ^ 24"
  shows "64 * (64 * (64 * (n div 2 ^ 18 mod 64) + n div 2 ^ 12 mod 64) + n div 2 ^ 6 mod 64) + n div 2 ^ 0 mod 64 = (n :: nat)"
proof -
  have "n div 2 ^ 18 = n div 2 ^ 12 div 64" "n div 2 ^ 12 = n div 2 ^ 6 div 64" "n div 2 ^ 6 = n div 64"
    by (simp_all add: div_mult2_eq [symmetric])
  moreover have "n div 2 ^ 18 < 64"
    using assms by (simp add: less_mult_imp_div_less)
  ultimately show ?thesis
    by simp
qed

lemma bytes_of_block:
  fixes a b c :: byte
  defines "n \<equiv> unat a * 65536 + unat b * 256 + unat c"
  shows "n < 2 ^ 24" "of_nat (n div 65536 mod 256) = a" "of_nat (n div 256 mod 256) = b" "of_nat (n mod 256) = c"
proof -
  have lt: "unat a < 256" "unat b < 256" "unat c < 256"
    using unsigned_less [where ?'a = nat, of a] unsigned_less [where ?'a = nat, of b]
      unsigned_less [where ?'a = nat, of c] by simp_all
  then show "n < 2 ^ 24"
    by (simp add: n_def)
  have digit: "(256 * x + y) mod 256 = y" "(256 * x + y) div 256 = x" if "y < 256" for x y :: nat
    using that by simp_all
  have "n = 256 * (256 * unat a + unat b) + unat c"
    by (simp add: n_def)
  then have "n mod 256 = unat c" "n div 256 = 256 * unat a + unat b"
    using digit [OF lt(3)] by (simp_all only:)
  moreover from this(2) have "n div 256 mod 256 = unat b" "n div 256 div 256 = unat a"
    using digit [OF lt(2)] by (simp_all only:)
  moreover have "n div 65536 = n div 256 div 256"
    by (simp add: div_mult2_eq [symmetric])
  ultimately show "of_nat (n div 65536 mod 256) = a" "of_nat (n div 256 mod 256) = b" "of_nat (n mod 256) = c"
    using lt by simp_all
qed

lemma quad_value:
  "foldl (\<lambda>n c. 64 * n + value64 c) 0 [a, b, c, d]
    = 64 * (64 * (64 * value64 a + value64 b) + value64 c) + value64 d"
  by simp

lemma value64_pad: "value64 (CHR ''='') = 0"
  by (simp add: value64_def)

lemma quad_bytes_full:
  fixes a b c :: byte
  shows "quad_bytes (base64_chunk [a, b, c]) = [a, b, c]"
    and "quad_bytes (base64_chunk [a, b]) = [a, b]"
    and "quad_bytes (base64_chunk [a]) = [a]"
proof -
  have joined: "foldl (\<lambda>n c. 64 * n + value64 c) 0
      [sextet_char n 18, sextet_char n 12, sextet_char n 6, sextet_char n 0] = n" if "n < 2 ^ 24" for n
    by (simp only: quad_value sextet_char_value sextets_join [OF that])
  have "quad_bytes [sextet_char n 18, sextet_char n 12, sextet_char n 6, sextet_char n 0]
      = [of_nat (n div 65536 mod 256), of_nat (n div 256 mod 256), of_nat (n mod 256)]" if "n < 2 ^ 24" for n
    by (simp only: quad_bytes_def joined [OF that] Let_def) simp
  from this [OF bytes_of_block(1), of a b c] show "quad_bytes (base64_chunk [a, b, c]) = [a, b, c]"
    by (simp only: base64_chunks(1) bytes_of_block)
  have "foldl (\<lambda>n c. 64 * n + value64 c) 0
      [sextet_char n 18, sextet_char n 12, sextet_char n 6, CHR ''=''] = n" if "n < 2 ^ 24" "n mod 64 = 0" for n
    using joined [OF that(1)] that(2) by (simp only: quad_value sextet_char_value value64_pad power_0 div_by_1)
  then have "quad_bytes [sextet_char n 18, sextet_char n 12, sextet_char n 6, CHR ''='']
      = [of_nat (n div 65536 mod 256), of_nat (n div 256 mod 256)]" if "n < 2 ^ 24" "n mod 64 = 0" for n
    using that by (simp only: quad_bytes_def Let_def) simp
  moreover have "(unat a * 65536 + unat b * 256 + unat (0 :: byte)) mod 64 = 0"
    by (simp add: mod_add_eq [symmetric] mod_mult_right_eq [symmetric])
  ultimately show "quad_bytes (base64_chunk [a, b]) = [a, b]"
    using bytes_of_block [of a b 0] by (simp only: base64_chunks(2) [OF refl])
  have "foldl (\<lambda>n c. 64 * n + value64 c) 0
      [sextet_char n 18, sextet_char n 12, CHR ''='', CHR ''=''] = n" if "n < 2 ^ 24" "n mod 64 = 0" "n div 2 ^ 6 mod 64 = 0" for n
    using joined [OF that(1)] that(2,3) by (simp only: quad_value sextet_char_value value64_pad power_0 div_by_1)
  then have "quad_bytes [sextet_char n 18, sextet_char n 12, CHR ''='', CHR ''='']
      = [of_nat (n div 65536 mod 256)]" if "n < 2 ^ 24" "n mod 64 = 0" "n div 2 ^ 6 mod 64 = 0" for n
    using that by (simp only: quad_bytes_def Let_def) simp
  moreover have "unat a * 65536 + unat (0 :: byte) * 256 + unat (0 :: byte) = 64 * (64 * (16 * unat a))"
    by simp
  moreover have "64 * (64 * m) mod 64 = 0" "64 * (64 * m) div 2 ^ 6 mod 64 = 0" for m :: nat
    by simp_all
  ultimately show "quad_bytes (base64_chunk [a]) = [a]"
    using bytes_of_block [of a 0 0] by (metis base64_chunks(3))
qed

text \<open>The hand-written encoder is standard base64: what it writes for any bytes decodes, as RFC 4648
  says, to those bytes, and is four characters for every three bytes begun.\<close>

theorem base64_decodes:
  "base64_decode (base64 bs) = bs \<and> length (base64 bs) = 4 * ((length bs + 2) div 3)"
proof (induction bs rule: chunks3.induct [case_names none full one two])
  case (full a b c s)
  let ?n = "unat a * 65536 + unat b * 256 + unat c"
  have "base64 (a # b # c # s) = base64_chunk [a, b, c] @ base64 s"
    by (simp add: base64_def)
  moreover have "base64_decode (base64_chunk [a, b, c] @ base64 s) = quad_bytes (base64_chunk [a, b, c]) @ base64_decode (base64 s)"
    by (simp only: base64_chunks(1) append.simps base64_decode.simps)
  moreover have "length (base64_chunk [a, b, c]) = 4"
    by (simp only: base64_chunks(1)) simp
  moreover have "(length (a # b # c # s) + 2) div 3 = Suc ((length s + 2) div 3)"
    by simp
  ultimately show ?case
    using full quad_bytes_full(1) [of a b c] by (simp only: length_append) simp
next
  case (one a)
  have "base64_decode (base64_chunk [a]) = quad_bytes (base64_chunk [a])" "length (base64_chunk [a]) = 4"
    by (simp_all only: base64_chunks(3) [OF refl refl] base64_decode.simps append_Nil2) simp_all
  with quad_bytes_full(3) show ?case
    by (simp add: base64_def)
next
  case (two a b)
  have "base64_decode (base64_chunk [a, b]) = quad_bytes (base64_chunk [a, b])" "length (base64_chunk [a, b]) = 4"
    by (simp_all only: base64_chunks(2) [OF refl] base64_decode.simps append_Nil2) simp_all
  with quad_bytes_full(2) show ?case
    by (simp add: base64_def)
qed (simp add: base64_def)

section \<open>Attributes\<close>

fun encode_value :: "attr_value \<Rightarrow> json" where
  "encode_value (V_Bool b) = J_Obj [(''boolValue'', J_Bool b)]"
| "encode_value (V_Int i) = J_Obj [(''intValue'', J_Str (show_int i))]"
| "encode_value (V_Double x) = J_Obj [(''doubleValue'', json_double x)]"
| "encode_value (V_String s) = J_Obj [(''stringValue'', J_Str s)]"
| "encode_value (V_Bytes b) = J_Obj [(''bytesValue'', J_Str (base64 b))]"
| "encode_value (V_List vs) = J_Obj [(''arrayValue'', J_Obj [(''values'', J_Arr (map encode_value vs))])]"
| "encode_value (V_Map entries) =
    J_Obj [(''kvlistValue'', J_Obj [(''values'',
      J_Arr (map (\<lambda>(k, v). J_Obj [(''key'', J_Str k), (''value'', encode_value v)]) entries))])]"

definition key_values :: "(string \<times> json) list \<Rightarrow> json" where
  "key_values attributes = J_Arr (map (\<lambda>(k, v). J_Obj [(''key'', J_Str k), (''value'', v)]) attributes)"

definition field_values :: "attributes \<Rightarrow> json" where
  "field_values attributes = key_values (map (\<lambda>(k, v). (k, encode_value v)) attributes)"

definition tag_values :: "tags \<Rightarrow> json" where
  "tag_values tags = key_values (map (\<lambda>(k, v). (k, J_Obj [(''stringValue'', J_Str v)])) tags)"

text \<open>An \<open>Arc\<close> of attributes is told apart by its address.\<close>

record arc =
  arc_ptr :: nat
  arc_attributes :: attributes

definition resource_block :: "attributes \<Rightarrow> arc \<Rightarrow> json" where
  "resource_block base e = J_Obj [(''attributes'', field_values (base @ arc_attributes e))]"

definition scope_name :: string where
  "scope_name = ''rust-sak/o11y''"

definition scope_block :: "string \<Rightarrow> json" where
  "scope_block version = J_Obj [(''name'', J_Str scope_name), (''version'', J_Str version)]"

section \<open>Grouping by session\<close>

fun add_to_group :: "arc \<Rightarrow> 'r \<Rightarrow> (arc \<times> 'r list) list \<Rightarrow> (arc \<times> 'r list) list" where
  "add_to_group e r [] = [(e, [r])]"
| "add_to_group e r ((e', members) # groups) =
    (if arc_ptr e' = arc_ptr e then (e', members @ [r]) # groups
     else (e', members) # add_to_group e r groups)"

definition group_by_enrichment :: "('r \<Rightarrow> arc) \<Rightarrow> 'r list \<Rightarrow> (arc \<times> 'r list) list" where
  "group_by_enrichment enrichment_of records = fold (\<lambda>r. add_to_group (enrichment_of r) r) records []"

definition by_session :: "('r \<Rightarrow> arc) \<Rightarrow> 'r list \<Rightarrow> (nat \<times> 'r list) list" where
  "by_session enrichment_of records =
    map (\<lambda>i. (i, filter (\<lambda>r. arc_ptr (enrichment_of r) = i) records)) (firsts (map (arc_ptr \<circ> enrichment_of) records))"

lemma add_to_group_map:
  assumes "map (\<lambda>(a, ms). (arc_ptr a, ms)) groups = map (\<lambda>i. (i, f i)) is" and "distinct is"
  shows "map (\<lambda>(a, ms). (arc_ptr a, ms)) (add_to_group e r groups)
    = map (\<lambda>i. (i, (if i = arc_ptr e then (if i \<in> set is then f i else []) @ [r] else f i)))
        (if arc_ptr e \<in> set is then is else is @ [arc_ptr e])"
  using assms
proof (induction e r groups arbitrary: "is" rule: add_to_group.induct)
  case (2 e r e' members groups)
  then obtain js where js: "is = arc_ptr e' # js" "members = f (arc_ptr e')"
      "map (\<lambda>(a, ms). (arc_ptr a, ms)) groups = map (\<lambda>i. (i, f i)) js"
    by (cases "is") auto
  show ?case
  proof (cases "arc_ptr e' = arc_ptr e")
    case True
    with js 2(3) show ?thesis
      by auto
  next
    case False
    with js 2(1) [OF False js(3)] 2(3) show ?thesis
      by auto
  qed
qed simp

text \<open>Grouping neither loses nor mixes records: the groups are one for each enrichment, in the
  order these first appear, and each holds exactly the records emitted under it, in their order.\<close>

theorem groups_keep_sessions:
  "map (\<lambda>(a, ms). (arc_ptr a, ms)) (group_by_enrichment enrichment_of records) = by_session enrichment_of records"
proof (induction records rule: rev_induct)
  case (snoc r rs)
  let ?is = "firsts (map (arc_ptr \<circ> enrichment_of) rs)" and ?p = "arc_ptr (enrichment_of r)"
  have "distinct ?is"
    by (simp add: firsts_def)
  moreover have "filter (\<lambda>r. arc_ptr (enrichment_of r) = ?p) rs = []" if "?p \<notin> set ?is"
  proof -
    have "arc_ptr (enrichment_of x) \<noteq> ?p" if "x \<in> set rs" for x
      using that \<open>?p \<notin> set ?is\<close> by (metis comp_apply image_eqI set_firsts set_map)
    then show ?thesis
      by (simp add: filter_empty_conv)
  qed
  ultimately show ?case
    using add_to_group_map [OF snoc [unfolded by_session_def], of "enrichment_of r" r]
    by (auto simp: group_by_enrichment_def by_session_def firsts_snoc)
qed (simp add: group_by_enrichment_def by_session_def firsts_def)

section \<open>Payloads\<close>

record log_record =
  lr_time :: nat
  lr_level :: level
  lr_body :: string
  lr_fields :: attributes
  lr_enrichment :: arc
  lr_trace :: "bytes option"
  lr_span :: "bytes option"

definition span_kind_internal :: int where
  "span_kind_internal = 1"

definition status_code_error :: int where
  "status_code_error = 2"

definition cumulative :: int where
  "cumulative = 2"

definition encode_log :: "hex_calls \<Rightarrow> log_record \<Rightarrow> json" where
  "encode_log hx r =
    J_Obj ([(''timeUnixNano'', big_int (lr_time r)), (''observedTimeUnixNano'', big_int (lr_time r)),
       (''severityNumber'', J_Int (int (severity_number (lr_level r)))),
       (''severityText'', J_Str (severity_text (lr_level r))),
       (''body'', J_Obj [(''stringValue'', J_Str (lr_body r))]),
       (''attributes'', field_values (lr_fields r))]
     @ (case (lr_trace r, lr_span r) of
          (Some t, Some i) \<Rightarrow> [(''traceId'', J_Str (hx_encode hx t)), (''spanId'', J_Str (hx_encode hx i))]
        | _ \<Rightarrow> []))"

definition logs_payload :: "hex_calls \<Rightarrow> string \<Rightarrow> log_record list \<Rightarrow> attributes \<Rightarrow> json" where
  "logs_payload hx version records base =
    J_Obj [(''resourceLogs'', J_Arr (map (\<lambda>(e, rs).
      J_Obj [(''resource'', resource_block base e),
        (''scopeLogs'', J_Arr [J_Obj [(''scope'', scope_block version),
          (''logRecords'', J_Arr (map (encode_log hx) rs))]])])
      (group_by_enrichment lr_enrichment records)))]"

definition encode_span :: "hex_calls \<Rightarrow> (attr_value, arc) span_record \<Rightarrow> json" where
  "encode_span hx r =
    J_Obj ([(''traceId'', J_Str (hx_encode hx (rc_trace r))), (''spanId'', J_Str (hx_encode hx (rc_span r))),
       (''name'', J_Str (rc_name r)), (''kind'', J_Int span_kind_internal),
       (''startTimeUnixNano'', big_int (rc_start r)), (''endTimeUnixNano'', big_int (rc_end r)),
       (''attributes'', field_values (rc_attributes r)),
       (''events'', J_Arr (map (\<lambda>ev. J_Obj [(''timeUnixNano'', big_int (ev_time ev)), (''name'', J_Str (ev_name ev)),
          (''attributes'', field_values (ev_attributes ev))]) (rc_events r)))]
     @ (case rc_parent r of Some p \<Rightarrow> [(''parentSpanId'', J_Str (hx_encode hx p))] | None \<Rightarrow> [])
     @ (if rc_links r \<noteq> [] then [(''links'', J_Arr (map (\<lambda>l. J_Obj [(''traceId'', J_Str (hx_encode hx (sc_trace l))),
          (''spanId'', J_Str (hx_encode hx (sc_span l)))]) (rc_links r)))] else [])
     @ (case rc_status r of
          Failed message \<Rightarrow> [(''status'', J_Obj [(''code'', J_Int status_code_error), (''message'', J_Str message)])]
        | Unset \<Rightarrow> []))"

definition traces_payload :: "hex_calls \<Rightarrow> string \<Rightarrow> (attr_value, arc) span_record list \<Rightarrow> attributes \<Rightarrow> json" where
  "traces_payload hx version records base =
    J_Obj [(''resourceSpans'', J_Arr (map (\<lambda>(e, rs).
      J_Obj [(''resource'', resource_block base e),
        (''scopeSpans'', J_Arr [J_Obj [(''scope'', scope_block version),
          (''spans'', J_Arr (map (encode_span hx) rs))]])])
      (group_by_enrichment rc_enrichment records)))]"

datatype metric_data = Sum_Points "(tags \<times> u64) list" | Gauge_Points "(tags \<times> f64) list"
  | Histogram_Points "real list" "histogram_point list"

definition metric_fields :: "nat \<Rightarrow> nat \<Rightarrow> metric_data \<Rightarrow> (string \<times> json) list" where
  "metric_fields start now d =
    (case d of
       Sum_Points points \<Rightarrow> [(''sum'', J_Obj [(''aggregationTemporality'', J_Int cumulative), (''isMonotonic'', J_Bool True),
         (''dataPoints'', J_Arr (map (\<lambda>(tags, v). J_Obj [(''attributes'', tag_values tags),
            (''startTimeUnixNano'', big_int start), (''timeUnixNano'', big_int now),
            (''asInt'', J_Str (show_nat (unat v)))]) points))])]
     | Gauge_Points points \<Rightarrow> [(''gauge'', J_Obj [(''dataPoints'', J_Arr (map (\<lambda>(tags, v).
          J_Obj [(''attributes'', tag_values tags), (''timeUnixNano'', big_int now),
            (''asDouble'', json_double v)]) points))])]
     | Histogram_Points bounds points \<Rightarrow> [(''histogram'', J_Obj [(''aggregationTemporality'', J_Int cumulative),
         (''dataPoints'', J_Arr (map (\<lambda>p. J_Obj [(''attributes'', tag_values (hp_tags p)),
            (''startTimeUnixNano'', big_int start), (''timeUnixNano'', big_int now),
            (''count'', big_int (unat (hp_count p))), (''sum'', json_double (hp_sum p)),
            (''explicitBounds'', J_Arr (map J_Real bounds)),
            (''bucketCounts'', J_Arr (map (big_int \<circ> unat) (hp_counts p)))]) points))])])"

definition metrics_payload ::
    "string \<Rightarrow> (string \<times> metric_data) list \<Rightarrow> attributes \<Rightarrow> arc \<Rightarrow> nat \<Rightarrow> nat \<Rightarrow> json" where
  "metrics_payload version snapshots base e start now =
    J_Obj [(''resourceMetrics'', J_Arr [J_Obj [(''resource'', resource_block base e),
      (''scopeMetrics'', J_Arr [J_Obj [(''scope'', scope_block version),
        (''metrics'', J_Arr (map (\<lambda>(name, d). J_Obj (metric_fields start now d @ [(''name'', J_Str name)])) snapshots))]])]])]"

end
