(* ===== verification/Tracing_Layer.thy ===== *)
theory Tracing_Layer
  imports Otlp
begin

text \<open>
  \<open>o11y/tracing/mod.rs\<close>: the layer that forwards the \<open>tracing\<close> crate into this one. The registry of
  \<open>tracing\<close> is a parameter: a span is a number, and each hook is given the scope of its span, itself
  first and its ancestors outwards. The extensions the layer keeps there are part of the state. A hook
  of the caller that panics answers \<open>None\<close>; numbers and compound values are printed by parameters.
\<close>

section \<open>Fields\<close>

datatype tracing_level = Trace_Level | Debug_Level | Info_Level | Warn_Level | Error_Level

fun level_of :: "tracing_level \<Rightarrow> level" where
  "level_of Error_Level = Error" | "level_of Warn_Level = Warn" | "level_of Info_Level = Info"
| "level_of Debug_Level = Debug" | "level_of Trace_Level = Debug"

record printers =
  pr_double :: "f64 \<Rightarrow> string"
  pr_debug :: "attr_value \<Rightarrow> string"

fun describe :: "printers \<Rightarrow> attr_value \<Rightarrow> string" where
  "describe pr (V_String s) = s"
| "describe pr (V_Int i) = show_int i"
| "describe pr (V_Double x) = pr_double pr x"
| "describe pr (V_Bool b) = (if b then ''true'' else ''false'')"
| "describe pr other = pr_debug pr other"

record collect =
  co_message_is_body :: bool
  co_message :: "string option"
  co_fields :: attributes

definition collect_event :: collect where
  "collect_event = \<lparr> co_message_is_body = True, co_message = None, co_fields = [] \<rparr>"

definition collect_span :: collect where
  "collect_span = collect_event\<lparr>co_message_is_body := False\<rparr>"

definition keep :: "string \<Rightarrow> attr_value \<Rightarrow> collect \<Rightarrow> collect" where
  "keep name v co =
    (case v of
       V_String t \<Rightarrow> if co_message_is_body co \<and> name = ''message'' then co\<lparr>co_message := Some t\<rparr>
         else co\<lparr>co_fields := co_fields co @ [(name, v)]\<rparr>
     | _ \<Rightarrow> co\<lparr>co_fields := co_fields co @ [(name, v)]\<rparr>)"

text \<open>What a callsite hands over, one field at a time; \<open>Visit_Text\<close> is a string, or an error or a
  debug value that was printed.\<close>

datatype visited = Visit_I64 int | Visit_U64 nat | Visit_F64 f64 | Visit_Bool bool | Visit_Text string

fun visit_value :: "visited \<Rightarrow> attr_value" where
  "visit_value (Visit_I64 i) = V_Int i"
| "visit_value (Visit_U64 n) = (if int n \<le> i64_max then V_Int (int n) else V_String (show_nat n))"
| "visit_value (Visit_F64 x) = V_Double x"
| "visit_value (Visit_Bool b) = V_Bool b"
| "visit_value (Visit_Text s) = V_String s"

definition collect_all :: "(string \<times> visited) list \<Rightarrow> collect \<Rightarrow> collect" where
  "collect_all fs co = fold (\<lambda>(name, v). keep name (visit_value v)) fs co"

record layer =
  ly_map_field :: "(string \<Rightarrow> attr_value \<Rightarrow> attr_value option option) option"
  ly_fold_spans :: "(string \<Rightarrow> bool option) option"

definition layer_new :: layer where
  "layer_new = \<lparr> ly_map_field = None, ly_fold_spans = None \<rparr>"

definition map_fields :: "printers \<Rightarrow> layer \<Rightarrow> attributes \<Rightarrow> attributes \<times> string option" where
  "map_fields pr ly fs =
    (let failed = list_ex (\<lambda>(name, v). name = ''error'') fs;
         fs = (case ly_map_field ly of
             None \<Rightarrow> fs
           | Some f \<Rightarrow> List.map_filter (\<lambda>(name, v). map_option (\<lambda>v. (name, v)) (Option.bind (f name v) (\<lambda>v. v))) fs)
     in (fs, if failed
             then Some (case List.find (\<lambda>(name, v). name = ''error'') fs of Some (name, v) \<Rightarrow> describe pr v | None \<Rightarrow> [])
             else None))"

text \<open>Of a span's metadata the hook is given the name.\<close>

definition folds :: "layer \<Rightarrow> string \<Rightarrow> bool" where
  "folds ly metadata =
    (case ly_fold_spans ly of None \<Rightarrow> False
     | Some fold_spans \<Rightarrow> (case fold_spans metadata of Some b \<Rightarrow> b | None \<Rightarrow> False))"

section \<open>The state of the layer\<close>

datatype extension = Exported "(attr_value, arc) owned_span" | Folded attributes

text \<open>\<open>br_logs\<close> is what was handed to the pipeline, with the context it carries.\<close>

record bridge =
  br_ext :: "nat \<Rightarrow> extension option"
  br_thread :: "(attr_value, arc) span_thread"
  br_remote :: "span_context option"
  br_gates :: gates
  br_logs :: "(level \<times> string \<times> attributes \<times> span_context option) list"

definition exported_context :: "bridge \<Rightarrow> nat \<Rightarrow> span_context option" where
  "exported_context br i = (case br_ext br i of Some (Exported os) \<Rightarrow> owned_context os | _ \<Rightarrow> None)"

fun find_map :: "('a \<Rightarrow> 'b option) \<Rightarrow> 'a list \<Rightarrow> 'b option" where
  "find_map f [] = None"
| "find_map f (x # xs) = (case f x of Some y \<Rightarrow> Some y | None \<Rightarrow> find_map f xs)"

definition nearest_exported :: "bridge \<Rightarrow> nat list \<Rightarrow> span_context option" where
  "nearest_exported br scope = find_map (exported_context br) scope"

text \<open>\<open>with_parent\<close> around code: the remote parent is put back whatever that code does.\<close>

definition with_parent :: "span_context \<Rightarrow> (bridge \<Rightarrow> bridge) \<Rightarrow> bridge \<Rightarrow> bridge" where
  "with_parent c run br =
    (if \<not> gt_tracing (br_gates br) then run br
     else (run (br\<lparr>br_remote := Some c\<rparr>))\<lparr>br_remote := br_remote br\<rparr>)"

text \<open>What a new span draws: ids, a time and the enrichment.\<close>

record drawn =
  dr_trace :: bytes
  dr_span :: bytes
  dr_now :: nat
  dr_enrichment :: arc

definition layer_new_span ::
    "printers \<Rightarrow> layer \<Rightarrow> drawn \<Rightarrow> string \<Rightarrow> (string \<times> visited) list \<Rightarrow> nat \<Rightarrow> nat list \<Rightarrow> bridge \<Rightarrow> bridge" where
  "layer_new_span pr ly dr name visited i ancestors br =
    (case map_fields pr ly (co_fields (collect_all visited collect_span)) of (fs, error) \<Rightarrow>
       if folds ly name then br\<lparr>br_ext := (br_ext br)(i \<mapsto> Folded fs)\<rparr>
       else
         let parent = (case nearest_exported br ancestors of
               Some c \<Rightarrow> Context c
             | None \<Rightarrow> (case br_remote br of Some c \<Rightarrow> Context c | None \<Rightarrow> Current));
             os = span_start (gt_tracing (br_gates br)) (dr_trace dr) (dr_span dr) (dr_now dr) (dr_enrichment dr)
               name parent fs (br_thread br);
             os = (case error of Some message \<Rightarrow> owned_visit (span_fail message) os | None \<Rightarrow> os)
         in br\<lparr>br_ext := (br_ext br)(i \<mapsto> Exported os)\<rparr>)"

definition layer_record ::
    "printers \<Rightarrow> layer \<Rightarrow> (string \<times> visited) list \<Rightarrow> nat \<Rightarrow> bridge \<Rightarrow> bridge" where
  "layer_record pr ly visited i br =
    (case map_fields pr ly (co_fields (collect_all visited collect_span)) of (fs, error) \<Rightarrow>
     case br_ext br i of
       Some (Exported os) \<Rightarrow>
         let os = fold (\<lambda>(name, v). owned_visit (set_attribute name v)) fs os;
             os = (case error of Some message \<Rightarrow> owned_visit (span_fail message) os | None \<Rightarrow> os)
         in br\<lparr>br_ext := (br_ext br)(i \<mapsto> Exported os)\<rparr>
     | Some (Folded folded) \<Rightarrow>
         br\<lparr>br_ext := (br_ext br)(i \<mapsto> Folded (fold (\<lambda>(name, v). set_entry name v) fs folded))\<rparr>
     | None \<Rightarrow> br)"

definition layer_follows_from :: "nat \<Rightarrow> nat list \<Rightarrow> bridge \<Rightarrow> bridge" where
  "layer_follows_from i followed_scope br =
    (case nearest_exported br followed_scope of
       None \<Rightarrow> br
     | Some c \<Rightarrow> (case br_ext br i of
         Some (Exported os) \<Rightarrow> br\<lparr>br_ext := (br_ext br)(i \<mapsto> Exported (owned_visit (add_link c) os))\<rparr>
       | _ \<Rightarrow> br))"

text \<open>The walk of an event over its scope: folded fields are added unless their key is present, and
  the first exported span is the context, failed by an error.\<close>

definition add_missing :: "attributes \<Rightarrow> attributes \<Rightarrow> attributes" where
  "add_missing folded fs =
    fold (\<lambda>(name, v) fs. if list_ex (\<lambda>(existing, w). existing = name) fs then fs else fs @ [(name, v)]) folded fs"

fun event_walk ::
    "level \<Rightarrow> string \<Rightarrow> nat list \<Rightarrow> attributes \<Rightarrow> span_context option \<Rightarrow> bridge
      \<Rightarrow> attributes \<times> span_context option \<times> bridge" where
  "event_walk l body [] fs ctx br = (fs, ctx, br)"
| "event_walk l body (i # scope) fs ctx br =
    (case br_ext br i of
       Some (Folded folded) \<Rightarrow> event_walk l body scope (add_missing folded fs) ctx br
     | Some (Exported os) \<Rightarrow>
         (case (ctx, owned_context os) of
            (None, Some found) \<Rightarrow> event_walk l body scope fs (Some found)
              (if l = Error then br\<lparr>br_ext := (br_ext br)(i \<mapsto> Exported (owned_visit (span_fail body) os))\<rparr> else br)
          | _ \<Rightarrow> event_walk l body scope fs ctx br)
     | None \<Rightarrow> event_walk l body scope fs ctx br)"

definition layer_event ::
    "printers \<Rightarrow> layer \<Rightarrow> level \<Rightarrow> string \<Rightarrow> string \<Rightarrow> (string \<times> visited) list \<Rightarrow> nat list \<Rightarrow> bridge \<Rightarrow> bridge" where
  "layer_event pr ly l name target visited scope br =
    (let co = collect_all visited collect_event;
         fs = fst (map_fields pr ly (co_fields co));
         body = (case co_message co of Some m \<Rightarrow> m | None \<Rightarrow> name)
     in case event_walk l body scope fs None br of (fs, ctx, br) \<Rightarrow>
       let fs = add_missing [(''target'', V_String target)] fs in
       br\<lparr>br_logs := br_logs br @ [(l, body, fs,
         case ctx of Some c \<Rightarrow> Some c | None \<Rightarrow> current_context (br_thread br))]\<rparr>)"

section \<open>The hooks\<close>

definition on_new_span where
  "on_new_span pr ly dr name visited i ancestors br =
    (if gt_tracing (br_gates br) then layer_new_span pr ly dr name visited i ancestors br else br)"

definition on_record where
  "on_record pr ly visited i br = (if gt_tracing (br_gates br) then layer_record pr ly visited i br else br)"

definition on_follows_from where
  "on_follows_from i followed_scope br =
    (if gt_tracing (br_gates br) then layer_follows_from i followed_scope br else br)"

definition on_event where
  "on_event pr ly severity name target visited scope br =
    (if enabled (level_of severity) (br_gates br) then layer_event pr ly (level_of severity) name target visited scope br else br)"

text \<open>The exported span is dropped; the registry drops a folded one with its span.\<close>

definition on_close :: "nat \<Rightarrow> nat \<Rightarrow> bridge \<Rightarrow> bridge" where
  "on_close now i br =
    (if gt_tracing (br_gates br)
     then (case br_ext br i of
         Some (Exported os) \<Rightarrow> br\<lparr>br_ext := (br_ext br)(i := None),
           br_thread := owned_drop (gt_tracing (br_gates br)) now os (br_thread br)\<rparr>
       | _ \<Rightarrow> br)
     else br)"

section \<open>Where events land\<close>

definition folded_fields :: "bridge \<Rightarrow> nat \<Rightarrow> attributes" where
  "folded_fields br i = (case br_ext br i of Some (Folded fs) \<Rightarrow> fs | _ \<Rightarrow> [])"

lemma list_ex_key: "list_ex (\<lambda>(existing, w). existing = name) fs \<longleftrightarrow> map_of fs name \<noteq> None"
  by (induction fs) auto

lemma map_of_add_missing: "map_of (add_missing folded fs) = map_of folded ++ map_of fs"
proof (induction folded arbitrary: fs)
  case (Cons p folded)
  obtain name v where p: "p = (name, v)"
    by fastforce
  let ?fs = "if map_of fs name \<noteq> None then fs else fs @ [(name, v)]"
  have "map_of (add_missing (p # folded) fs) = map_of folded ++ map_of ?fs"
    using Cons.IH [of ?fs] by (simp add: add_missing_def p list_ex_key)
  also have "\<dots> = map_of (p # folded) ++ map_of fs"
    by (rule ext) (auto simp: p map_add_def map_of_append split: option.splits)
  finally show ?case .
qed (simp add: add_missing_def)

lemma visit_field_keeps:
  assumes "br_ext br i = Some (Exported os)"
  shows "folded_fields (br\<lparr>br_ext := (br_ext br)(i \<mapsto> Exported (owned_visit f os))\<rparr>) = folded_fields br"
    and "exported_context (br\<lparr>br_ext := (br_ext br)(i \<mapsto> Exported (owned_visit f os))\<rparr>) = exported_context br"
  using assms
  by (auto simp: fun_eq_iff folded_fields_def exported_context_def owned_context_def owned_visit_def
      option.map_comp comp_def case_prod_beta)

lemma nearest_Cons:
  "nearest_exported br (i # scope)
    = (case exported_context br i of Some c \<Rightarrow> Some c | None \<Rightarrow> nearest_exported br scope)"
  by (cases "exported_context br i") (simp_all add: nearest_exported_def)

lemma event_walk_spec:
  "event_walk l body scope fs ctx br = (fs', ctx', br') \<Longrightarrow>
    map_of fs' = map_of (fs @ concat (map (folded_fields br) scope))
    \<and> ctx' = (case ctx of Some c \<Rightarrow> Some c | None \<Rightarrow> nearest_exported br scope)
    \<and> br_thread br' = br_thread br \<and> br_logs br' = br_logs br"
proof (induction l body scope fs ctx br arbitrary: fs' ctx' br' rule: event_walk.induct)
  case (2 l body i scope fs ctx br)
  show ?case
  proof (cases "br_ext br i")
    case None
    then have "folded_fields br i = []" "exported_context br i = None"
      by (simp_all add: folded_fields_def exported_context_def)
    with "2.IH"(1) [OF None] "2.prems" None show ?thesis
      by (simp add: nearest_Cons split: option.split)
  next
    case (Some e)
    show ?thesis
    proof (cases e)
      case (Folded folded)
      have "map_of (add_missing folded fs @ xs) = map_of (fs @ folded @ xs)" for xs
        by (simp add: map_of_append map_of_add_missing)
      moreover have "folded_fields br i = folded" "exported_context br i = None"
        using Some Folded by (simp_all add: folded_fields_def exported_context_def)
      ultimately show ?thesis
        using "2.IH"(5) [OF Some Folded] "2.prems" Some Folded by (simp add: nearest_Cons split: option.split)
    next
      case (Exported os)
      have here: "folded_fields br i = []" "exported_context br i = owned_context os"
        using Some Exported by (simp_all add: folded_fields_def exported_context_def)
      show ?thesis
      proof (cases "ctx = None \<and> owned_context os \<noteq> None")
        case True
        then obtain found where found: "owned_context os = Some found" "ctx = None"
          by auto
        let ?br = "if l = Error then br\<lparr>br_ext := (br_ext br)(i \<mapsto> Exported (owned_visit (span_fail body) os))\<rparr> else br"
        have walk: "event_walk l body scope fs (Some found) ?br = (fs', ctx', br')"
          using "2.prems" Some Exported found by simp
        have same: "folded_fields ?br = folded_fields br" "br_thread ?br = br_thread br" "br_logs ?br = br_logs br"
          using visit_field_keeps [of br i os "span_fail body"] Some Exported by simp_all
        from "2.IH"(3) [OF Some Exported refl found(2) found(1) walk] show ?thesis
          unfolding same using here found
          by (simp add: nearest_Cons nearest_exported_def same)
      next
        case False
        then have "event_walk l body scope fs ctx br = (fs', ctx', br')"
          using "2.prems" Some Exported by (cases ctx; cases "owned_context os") auto
        note walk = this
        show ?thesis
        proof (cases ctx)
          case None
          with False have none: "owned_context os = None"
            by simp
          from "2.IH"(2) [OF Some Exported refl None none walk] here none show ?thesis
            by (simp add: nearest_Cons None)
        next
          case (Some c)
          from "2.IH"(4) [OF \<open>br_ext br i = Some e\<close> Exported refl Some walk] here Some show ?thesis
            by simp
        qed
      qed
    qed
  qed
qed (simp add: nearest_exported_def split: option.split)

text \<open>What is added to the fields of an event from around it: no key twice, and none the event has.\<close>

definition extends :: "attributes \<Rightarrow> attributes \<Rightarrow> attributes \<Rightarrow> bool" where
  "extends own outer fs \<longleftrightarrow> (\<exists>added. fs = own @ added \<and> distinct (map fst added)
    \<and> fst ` set added \<inter> fst ` set own = {} \<and> subseq added outer)"

lemma extends_self: "extends own [] own"
  by (simp add: extends_def)

lemma extends_add_missing: "extends own outer fs \<Longrightarrow> extends own (outer @ folded) (add_missing folded fs)"
proof (induction folded arbitrary: outer fs)
  case (Cons p folded)
  obtain name v where p: "p = (name, v)"
    by fastforce
  let ?fs = "if map_of fs name \<noteq> None then fs else fs @ [(name, v)]"
  from Cons.prems obtain added where added: "fs = own @ added" "distinct (map fst added)"
    "fst ` set added \<inter> fst ` set own = {}" "subseq added outer"
    by (auto simp: extends_def)
  have "extends own (outer @ [p]) ?fs"
  proof (cases "map_of fs name")
    case None
    then have "name \<notin> fst ` set own \<union> fst ` set added"
      using added(1) by (auto simp: map_of_eq_None_iff)
    moreover have "subseq (added @ [p]) (outer @ [p])"
      using added(4) by (intro list_emb_append_mono) auto
    ultimately show ?thesis
      using None added by (auto simp: extends_def p intro!: exI [of _ "added @ [p]"])
  next
    case (Some w)
    moreover have "subseq added (outer @ [p])"
      using added(4) by (metis subseq_order.trans subseq_rev_drop_many subseq_order.refl)
    ultimately show ?thesis
      using added by (auto simp: extends_def)
  qed
  from Cons.IH [OF this] show ?case
    by (simp add: add_missing_def p list_ex_key)
qed (simp add: add_missing_def)

lemma event_walk_extends:
  assumes "event_walk l body scope fs ctx br = (fs', ctx', br')" and "extends own outer fs"
  shows "extends own (outer @ concat (map (folded_fields br) scope)) fs'"
  using assms
proof (induction scope arbitrary: outer fs ctx br)
  case (Cons i scope)
  show ?case
  proof (cases "br_ext br i")
    case None
    with Cons show ?thesis
      by (simp add: folded_fields_def)
  next
    case (Some e)
    show ?thesis
    proof (cases e)
      case (Folded folded)
      with Some Cons.prems(1) have "event_walk l body scope (add_missing folded fs) ctx br = (fs', ctx', br')"
        by simp
      from Cons.IH [OF this extends_add_missing [OF Cons.prems(2), of folded]] Some Folded show ?thesis
        by (simp add: folded_fields_def [of br i])
    next
      case (Exported os)
      have failed: "folded_fields (br\<lparr>br_ext := (br_ext br)(i \<mapsto> Exported (owned_visit f os))\<rparr>) = folded_fields br" for f
        using visit_field_keeps(1) Some Exported by simp
      obtain ctx1 br1 where "event_walk l body scope fs ctx1 br1 = (fs', ctx', br')"
        and same: "folded_fields br1 = folded_fields br"
        using Cons.prems(1) Some Exported failed
        by (cases ctx; cases "owned_context os"; cases "l = Error") auto
      from Cons.IH [OF this(1) Cons.prems(2)] show ?thesis
        using Some Exported unfolding same by (simp add: folded_fields_def [of br i])
    qed
  qed
qed simp

text \<open>C22. An event becomes one log record where \<open>tracing\<close> says it is: in the nearest exported span of
  its scope, or in the span open on the thread if there is none. Its fields are its own, and after them, each key
  once and none the event has itself, what folded spans and the target add; so a field has the value nearest to
  the event, its own first, then those of folded spans from the innermost outwards, the target last.\<close>

theorem events_land_in_nearest_span:
  "\<exists>own added. br_logs (layer_event pr ly l name target visited scope br) = br_logs br @
       [(l, case co_message (collect_all visited collect_event) of Some m \<Rightarrow> m | None \<Rightarrow> name, own @ added,
         case nearest_exported br scope of Some c \<Rightarrow> Some c | None \<Rightarrow> current_context (br_thread br))]
    \<and> own = fst (map_fields pr ly (co_fields (collect_all visited collect_event)))
    \<and> distinct (map fst added) \<and> fst ` set added \<inter> fst ` set own = {}
    \<and> subseq added (concat (map (folded_fields br) scope) @ [(''target'', V_String target)])
    \<and> map_of (own @ added) = map_of (own @ concat (map (folded_fields br) scope) @ [(''target'', V_String target)])"
proof -
  let ?body = "case co_message (collect_all visited collect_event) of Some m \<Rightarrow> m | None \<Rightarrow> name"
  let ?own = "fst (map_fields pr ly (co_fields (collect_all visited collect_event)))"
  let ?target = "[(''target'', V_String target)]"
  obtain fs ctx br' where walk: "event_walk l ?body scope ?own None br = (fs, ctx, br')"
    by (metis prod_cases3)
  from event_walk_spec [OF walk] have spec: "map_of fs = map_of (?own @ concat (map (folded_fields br) scope))"
      "ctx = nearest_exported br scope" "br_thread br' = br_thread br" "br_logs br' = br_logs br"
    by simp_all
  have content: "map_of (add_missing ?target fs) = map_of (?own @ concat (map (folded_fields br) scope) @ ?target)"
    using spec(1) by (simp add: map_of_add_missing map_of_append)
  have "extends ?own (concat (map (folded_fields br) scope) @ ?target) (add_missing ?target fs)"
    using extends_add_missing [OF event_walk_extends [OF walk extends_self], of ?target] by simp
  then obtain added where added: "add_missing ?target fs = ?own @ added" "distinct (map fst added)"
    "fst ` set added \<inter> fst ` set ?own = {}" "subseq added (concat (map (folded_fields br) scope) @ ?target)"
    unfolding extends_def by blast
  have log: "br_logs (layer_event pr ly l name target visited scope br) = br_logs br @
       [(l, ?body, add_missing ?target fs,
         case nearest_exported br scope of Some c \<Rightarrow> Some c | None \<Rightarrow> current_context (br_thread br))]"
    using walk spec(2-4) by (simp add: layer_event_def Let_def split: option.split)
  show ?thesis
    using log content added(2-4) unfolding added(1) by blast
qed

text \<open>A span continues the trace of the nearest exported span around it.\<close>

lemma new_span_continues_trace:
  assumes "gt_tracing (br_gates br)" and "\<not> folds ly name" and "nearest_exported br ancestors = Some c"
  shows "\<exists>ctx. exported_context (on_new_span pr ly dr name visited i ancestors br) i = Some ctx
    \<and> sc_trace ctx = sc_trace c \<and> sc_span ctx = dr_span dr"
  using assms
  by (auto simp: on_new_span_def layer_new_span_def exported_context_def span_start_def span_open_def
      span_context_of_def owned_context_def owned_visit_def Let_def split: prod.split option.split)

text \<open>A field the installed map drops is in no record, be it of a span or of an event.\<close>

lemma dropped_fields_stay_out:
  assumes "ly_map_field ly = Some f" and "\<And>v. f name v = Some None \<or> f name v = None"
  shows "map_of (fst (map_fields pr ly fs)) name = None"
proof -
  have "name \<notin> fst ` set (List.map_filter (\<lambda>(name, v). map_option (\<lambda>v. (name, v)) (Option.bind (f name v) (\<lambda>v. v))) fs)"
  proof (induction fs)
    case (Cons p fs)
    obtain n v where p: "p = (n, v)"
      by fastforce
    have "Option.bind (f name v) (\<lambda>v. v) = None"
      using assms(2) [of v] by auto
    with Cons p show ?case
      by (auto simp: List.map_filter_simps split: option.splits)
  qed (simp add: List.map_filter_simps)
  then show ?thesis
    using assms(1) by (simp add: map_fields_def Let_def map_of_eq_None_iff)
qed

end
