(* ===== verification/Crypto.thy ===== *)
theory Crypto
  imports Extract Download_Props
begin

text \<open>
  \<open>crypto\<close>: the helpers that hash text, bytes and files, and the object id Git gives a file. The
  hash functions themselves are crates; each is a record of the start, the update and the finish
  of its hasher, the finish already in hexadecimal. A file is what its reads deliver.
\<close>

section \<open>Reading a file in chunks\<close>

definition chunk_size :: nat where
  "chunk_size = 64 * 1024"

text \<open>The loop of \<open>for_each_chunk\<close>, from an open file on: an interrupted read goes round again.\<close>

function chunk_loop :: "('s \<Rightarrow> bytes \<Rightarrow> 's) \<Rightarrow> read_event list \<Rightarrow> 's \<Rightarrow> 's \<times> (io_error + unit)" where
  "chunk_loop consume events s =
    (case read_some chunk_size events of
       (events', Inr bs) \<Rightarrow>
         if bs = [] then (s, Inr ()) else chunk_loop consume events' (consume s bs)
     | (events', Inl err) \<Rightarrow>
         if io_kind err = Interrupted then chunk_loop consume events' s else (s, Inl err))"
  by pat_completeness auto
termination
  by (relation "measure (\<lambda>(consume, events, s). reader_size events)")
    (auto dest!: sym [where t = "read_some chunk_size _"] intro: read_some_Inr_size read_some_Inl_size)

declare chunk_loop.simps [simp del]

definition for_each_chunk ::
    "io_error + read_event list \<Rightarrow> ('s \<Rightarrow> bytes \<Rightarrow> 's) \<Rightarrow> 's \<Rightarrow> 's \<times> (io_error + unit)" where
  "for_each_chunk reads consume s = sbind (s, reads) (\<lambda>s events. chunk_loop consume events s)"

section \<open>Hashes\<close>

definition bytes_hash :: "'h hash_fn \<Rightarrow> bytes \<Rightarrow> string" where
  "bytes_hash hf bs = h_finish hf (h_update hf (h_new hf) bs)"

definition string_hash :: "'h hash_fn \<Rightarrow> string \<Rightarrow> string" where
  "string_hash hf s = bytes_hash hf (of_text s)"

text \<open>\<open>sha1_file\<close>, \<open>sha256_file\<close> and \<open>xxh3_file\<close>, by the hasher they are given.\<close>

definition file_hash :: "'h hash_fn \<Rightarrow> io_error + read_event list \<Rightarrow> io_error + string" where
  "file_hash hf reads =
    (case for_each_chunk reads (h_update hf) (h_new hf) of
       (h, r) \<Rightarrow> rbind r (\<lambda>_. Inr (h_finish hf h)))"

definition git_blob_header :: "nat \<Rightarrow> bytes" where
  "git_blob_header len = of_text (''blob '' @ show_nat len) @ [0]"

definition git_blob_hasher :: "'h hash_fn \<Rightarrow> nat \<Rightarrow> 'h" where
  "git_blob_hasher sha1 len = h_update sha1 (h_new sha1) (git_blob_header len)"

definition git_blob_sha1_bytes :: "'h hash_fn \<Rightarrow> bytes \<Rightarrow> string" where
  "git_blob_sha1_bytes sha1 bs = h_finish sha1 (h_update sha1 (git_blob_hasher sha1 (length bs)) bs)"

text \<open>\<open>metadata\<close> is the length the file had before it was read.\<close>

definition git_blob_sha1_file ::
    "'h hash_fn \<Rightarrow> io_error + nat \<Rightarrow> io_error + read_event list \<Rightarrow> io_error + string" where
  "git_blob_sha1_file sha1 metadata reads =
    rbind metadata (\<lambda>len.
      case for_each_chunk reads (\<lambda>(count, h) chunk. (count + length chunk, h_update sha1 h chunk))
             (0, git_blob_hasher sha1 len) of
        ((count, h), r) \<Rightarrow>
          rbind r (\<lambda>_.
            if count \<noteq> len then Inl (Io_Error InvalidData None) else Inr (h_finish sha1 h)))"

section \<open>What the reads deliver\<close>

text \<open>The bytes before the end of the file, or the error that comes first.\<close>

fun delivered :: "read_event list \<Rightarrow> io_error + bytes" where
  "delivered [] = Inr []"
| "delivered (Chunk bs # events) =
    (if bs = [] then Inr [] else rbind (delivered events) (\<lambda>rest. Inr (bs @ rest)))"
| "delivered (Fail err # events) =
    (if io_kind err = Interrupted then delivered events else Inl err)"

lemma delivered_read_some:
  assumes "0 < n"
  shows "delivered events =
    (case read_some n events of
       (events', Inr bs) \<Rightarrow> if bs = [] then Inr [] else rbind (delivered events') (\<lambda>rest. Inr (bs @ rest))
     | (events', Inl err) \<Rightarrow> if io_kind err = Interrupted then delivered events' else Inl err)"
proof (cases events rule: delivered.cases)
  case (2 bs events')
  show ?thesis
  proof (cases "length bs \<le> n")
    case False
    then have "take n bs \<noteq> []" "drop n bs \<noteq> []" "bs \<noteq> []"
      using assms by auto
    then show ?thesis
      using 2 False by (cases "delivered events'") simp_all
  qed (use 2 in simp)
qed simp_all

text \<open>A fold over the chunks is a step over all of it, for a consumer that takes bytes in any
  division.\<close>

lemma chunk_loop_delivered:
  assumes "\<And>s a b. consume (consume s a) b = consume s (a @ b)" and "\<And>s. consume s [] = s"
  shows "case delivered events of
      Inr bs \<Rightarrow> chunk_loop consume events s = (consume s bs, Inr ())
    | Inl err \<Rightarrow> snd (chunk_loop consume events s) = Inl err"
  using assms
proof (induction consume events s rule: chunk_loop.induct [case_names step])
  case (step consume events s)
  obtain events' r where read: "read_some chunk_size events = (events', r)"
    by fastforce
  have split: "delivered events = (case r of
      Inr bs \<Rightarrow> if bs = [] then Inr [] else rbind (delivered events') (\<lambda>rest. Inr (bs @ rest))
    | Inl err \<Rightarrow> if io_kind err = Interrupted then delivered events' else Inl err)"
    using delivered_read_some [of chunk_size events] read by (simp add: chunk_size_def)
  show ?case
  proof (cases r)
    case (Inl err)
    with step.IH(1) [OF read [symmetric] Inl] split read show ?thesis
      by (auto simp: step.prems chunk_loop.simps [of consume events s] split: sum.splits)
  next
    case (Inr bs)
    show ?thesis
    proof (cases "bs = []")
      case False
      with step.IH(2) [OF read [symmetric] Inr] have
        "case delivered events' of
          Inr rest \<Rightarrow> chunk_loop consume events' (consume s bs) = (consume (consume s bs) rest, Inr ())
        | Inl err \<Rightarrow> snd (chunk_loop consume events' (consume s bs)) = Inl err"
        using step.prems by simp
      with False split read Inr show ?thesis
        by (auto simp: step.prems chunk_loop.simps [of consume events s] split: sum.splits)
    qed (use split read Inr step.prems in \<open>simp add: chunk_loop.simps [of consume events s]\<close>)
  qed
qed

lemma for_each_chunk_delivered:
  assumes "\<And>s a b. consume (consume s a) b = consume s (a @ b)" and "\<And>s. consume s [] = s"
  shows "case rbind reads delivered of
      Inr bs \<Rightarrow> for_each_chunk reads consume s = (consume s bs, Inr ())
    | Inl err \<Rightarrow> snd (for_each_chunk reads consume s) = Inl err"
proof (cases reads)
  case (Inr events)
  with chunk_loop_delivered [of consume events s] assms show ?thesis
    by (auto simp: for_each_chunk_def split: sum.splits)
qed (simp add: for_each_chunk_def)

lemma file_hash_of_delivered:
  assumes "hash_ok hf"
  shows "file_hash hf reads = rbind (rbind reads delivered) (\<lambda>bs. Inr (bytes_hash hf bs))
    \<and> git_blob_sha1_file hf metadata reads =
      rbind metadata (\<lambda>len. rbind (rbind reads delivered) (\<lambda>bs.
        if length bs = len then Inr (git_blob_sha1_bytes hf bs) else Inl (Io_Error InvalidData None)))"
proof -
  have hf: "h_update hf (h_update hf h a) b = h_update hf h (a @ b)" "h_update hf h [] = h" for h a b
    using assms by (simp_all add: hash_ok_def)
  let ?count = "\<lambda>(count, h) chunk. (count + length chunk, h_update hf h chunk)"
  have "file_hash hf reads = rbind (rbind reads delivered) (\<lambda>bs. Inr (bytes_hash hf bs))"
    using for_each_chunk_delivered [of "h_update hf" reads "h_new hf"] hf
    by (cases "rbind reads delivered"; cases "for_each_chunk reads (h_update hf) (h_new hf)")
      (simp_all add: file_hash_def bytes_hash_def)
  moreover have "git_blob_sha1_file hf metadata reads =
      rbind metadata (\<lambda>len. rbind (rbind reads delivered) (\<lambda>bs.
        if length bs = len then Inr (git_blob_sha1_bytes hf bs) else Inl (Io_Error InvalidData None)))"
  proof (cases metadata)
    case (Inr len)
    obtain count h r where out: "for_each_chunk reads ?count (0, git_blob_hasher hf len) = ((count, h), r)"
      by (cases "for_each_chunk reads ?count (0, git_blob_hasher hf len)") auto
    have "?count (?count s a) b = ?count s (a @ b)" "?count s [] = s" for s a b
      by (simp_all add: hf case_prod_beta)
    from for_each_chunk_delivered [of ?count reads "(0, git_blob_hasher hf len)", OF this] out
    have "case rbind reads delivered of
        Inr bs \<Rightarrow> count = length bs \<and> h = h_update hf (git_blob_hasher hf len) bs \<and> r = Inr ()
      | Inl err \<Rightarrow> r = Inl err"
      by (auto split: sum.splits)
    with Inr out show ?thesis
      by (cases "rbind reads delivered") (simp_all add: git_blob_sha1_file_def git_blob_sha1_bytes_def)
  qed (simp add: git_blob_sha1_file_def)
  ultimately show ?thesis
    by blast
qed

section \<open>Properties\<close>

text \<open>Hashing a file, however its reads divide it and are interrupted, is hashing its bytes; and a
  file whose length changed on the way never gets a Git object id: only what \<open>git hash-object\<close>
  prints for the bytes that were read is returned.\<close>

theorem file_hash_is_bytes_hash:
  assumes "hash_ok hf"
  shows "file_hash hf reads = rbind (rbind reads delivered) (\<lambda>bs. Inr (bytes_hash hf bs))
    \<and> git_blob_sha1_file hf metadata reads =
      rbind metadata (\<lambda>len. rbind (rbind reads delivered) (\<lambda>bs.
        if length bs = len then Inr (git_blob_sha1_bytes hf bs) else Inl (Io_Error InvalidData None)))"
  by (rule file_hash_of_delivered [OF assms])

theorem file_hash_is_bytes_hash_witness:
  "git_blob_sha1_file (j_hash (demo_job Resume 1)) (Inr 3)
      (Inr [Chunk [1], Fail (Io_Error Interrupted None), Chunk [2, 3]])
    = Inr (git_blob_sha1_bytes (j_hash (demo_job Resume 1)) [1, 2, 3])"
  using file_hash_is_bytes_hash [OF demo_hash_ok, of Resume 1 "Inr [Chunk [1], Fail (Io_Error Interrupted None), Chunk [2, 3]]"
      "Inr 3"]
  by simp

end
