(* ===== verification/Install_Folder.thy ===== *)
theory Install_Folder
  imports Prelude "HOL-Library.AList" "HOL-Library.Char_ord" "HOL-Library.List_Lexorder"
begin

text \<open>
  \<open>ai/install/marker.rs\<close>, over the folder it works on: what a finished install left in a
  dependency's folder, recorded in the folder itself, and whether it is still there. The folder is
  a tree; its staging area is held apart from the rest, as whether it is there and what the
  extraction folder in it holds, next to what the extraction reported. Every state the rest has been in is logged,
  so that a statement about the log is one about a process that stops anywhere. An operation the
  system does not perform at once passes through states the disk chooses, and each may fail.
  Paths are those of Unix. The JSON library is a parameter.
\<close>

section \<open>The folder\<close>

datatype node = Regular bytes | Symbolic string | Directory "(string \<times> node) list"

type_synonym entries = "(string \<times> node) list"

fun is_dir :: "node \<Rightarrow> bool" where
  "is_dir (Directory _) = True"
| "is_dir _ = False"

text \<open>The length \<open>symlink_metadata\<close> reports; that of a directory is never looked at.\<close>

fun node_len :: "node \<Rightarrow> nat" where
  "node_len (Regular bs) = length bs"
| "node_len (Symbolic target) = length target"
| "node_len (Directory _) = 0"

text \<open>The disk's answer to one operation: what the entry is on the way, and the error if it fails.\<close>

datatype reply = Reply (between: "node list") (refused: "io_error option")

record folder =
  fd_top :: entries
  fd_staging :: bool
  fd_extract :: "entries option"
  fd_replies :: "reply list"
  fd_reports :: "(nat \<times> nat) list"
  fd_seen :: "entries list"

definition next_reply :: "folder \<Rightarrow> reply" where
  "next_reply f = (case fd_replies f of [] \<Rightarrow> Reply [] None | r # _ \<Rightarrow> r)"

definition replied :: "folder \<Rightarrow> folder" where
  "replied f = f\<lparr>fd_replies := tl (fd_replies f)\<rparr>"

definition show_top :: "entries \<Rightarrow> folder \<Rightarrow> folder" where
  "show_top es f = f\<lparr>fd_top := es, fd_seen := fd_seen f @ [es]\<rparr>"

text \<open>That an entry is not there is said exactly when it is not.\<close>

definition refusal_of :: "folder \<Rightarrow> io_error option" where
  "refusal_of f = (case refused (next_reply f) of
     Some e \<Rightarrow> if io_kind e = NotFound then None else Some e | None \<Rightarrow> None)"

definition io_kind_error :: "io_kind \<Rightarrow> io_error" where
  "io_kind_error k = Io_Error k None"

definition passing :: "string \<Rightarrow> node list \<Rightarrow> folder \<Rightarrow> folder" where
  "passing n nodes f = fold (\<lambda>node f. show_top (AList.update n node (fd_top f)) f) nodes f"

text \<open>A question that changes nothing.\<close>

definition ask :: "folder \<Rightarrow> folder \<times> (io_error + unit)" where
  "ask f = (replied f, case refused (next_reply f) of Some e \<Rightarrow> Inl e | None \<Rightarrow> Inr ())"

definition fs_write :: "string \<Rightarrow> bytes \<Rightarrow> folder \<Rightarrow> folder \<times> (io_error + unit)" where
  "fs_write n bs f =
    (if (case map_of (fd_top f) n of Some node \<Rightarrow> is_dir node | None \<Rightarrow> False) then (replied f, Inl (io_kind_error IsADirectory))
     else let r = next_reply f; f = passing n (between r) (replied f) in
       case refused r of
         Some e \<Rightarrow> (f, Inl e)
       | None \<Rightarrow> (show_top (AList.update n (Regular bs) (fd_top f)) f, Inr ()))"

definition fs_remove_file :: "string \<Rightarrow> folder \<Rightarrow> folder \<times> (io_error + unit)" where
  "fs_remove_file n f =
    (case refusal_of f of
       Some e \<Rightarrow> (replied f, Inl e)
     | None \<Rightarrow> (case map_of (fd_top f) n of
         None \<Rightarrow> (replied f, Inl (io_kind_error NotFound))
       | Some node \<Rightarrow>
           if is_dir node then (replied f, Inl (io_kind_error IsADirectory))
           else (show_top (AList.delete n (fd_top f)) (replied f), Inr ())))"

definition fs_remove_dir_all :: "string \<Rightarrow> folder \<Rightarrow> folder \<times> (io_error + unit)" where
  "fs_remove_dir_all n f =
    (case map_of (fd_top f) n of
       None \<Rightarrow> (replied f, Inl (case refusal_of f of Some e \<Rightarrow> e | None \<Rightarrow> io_kind_error NotFound))
     | Some node \<Rightarrow>
         if \<not> is_dir node then (replied f, Inl (io_kind_error NotADirectory))
         else let r = refusal_of f; f = passing n (between (next_reply f)) (replied f) in
           case r of
             Some e \<Rightarrow> (f, Inl e)
           | None \<Rightarrow> (show_top (AList.delete n (fd_top f)) f, Inr ()))"

text \<open>What stands in the way of a rename onto an entry.\<close>

definition rename_clash :: "node \<Rightarrow> node option \<Rightarrow> io_error option" where
  "rename_clash node there =
    (case there of
       None \<Rightarrow> None
     | Some old \<Rightarrow>
         if is_dir node
         then (if \<not> is_dir old then Some (io_kind_error NotADirectory)
               else if old \<noteq> Directory [] then Some (io_kind_error DirectoryNotEmpty) else None)
         else if is_dir old then Some (io_kind_error IsADirectory) else None)"

definition fs_rename :: "string \<Rightarrow> string \<Rightarrow> folder \<Rightarrow> folder \<times> (io_error + unit)" where
  "fs_rename from to f =
    (case refusal_of f of
       Some e \<Rightarrow> (replied f, Inl e)
     | None \<Rightarrow> (case map_of (fd_top f) from of
         None \<Rightarrow> (replied f, Inl (io_kind_error NotFound))
       | Some node \<Rightarrow> (case rename_clash node (map_of (fd_top f) to) of
           Some e \<Rightarrow> (replied f, Inl e)
         | None \<Rightarrow> (show_top (AList.update to node (AList.delete from (fd_top f))) (replied f), Inr ()))))"

section \<open>Names\<close>

text \<open>\<open>Path::components\<close>: repeated slashes and dots but a leading one are dropped.\<close>

datatype path_component = Root_Dir | Cur_Dir | Parent_Dir | Normal string

definition components :: "string \<Rightarrow> path_component list" where
  "components p =
    (let pieces = split_on (\<lambda>c. c = CHR ''/'') p in
     (if hd pieces = [] \<and> p \<noteq> [] then [Root_Dir] else if hd pieces = ''.'' then [Cur_Dir] else [])
     @ map (\<lambda>s. if s = ''..'' then Parent_Dir else Normal s)
         (filter (\<lambda>s. s \<noteq> [] \<and> s \<noteq> ''.'') pieces))"

definition single :: "string \<Rightarrow> bool" where
  "single n = (case components n of [Normal _] \<Rightarrow> True | _ \<Rightarrow> False)"

definition marker_name :: string where
  "marker_name = ''.installed''"

definition pending_name :: string where
  "pending_name = ''.installed.tmp''"

definition staging_name :: string where
  "staging_name = ''.staging''"

definition is_own :: "string \<Rightarrow> bool" where
  "is_own n = (n \<in> {marker_name, pending_name, staging_name})"

definition installable :: "string \<Rightarrow> bool" where
  "installable n = (single n \<and> \<not> is_own n)"

text \<open>A recorded path as components, if it does not leave the folder.\<close>

definition relative_path :: "string \<Rightarrow> string list option" where
  "relative_path p =
    (if list_all (\<lambda>c. case c of Normal _ \<Rightarrow> True | _ \<Rightarrow> False) (components p)
     then Some (map (\<lambda>c. case c of Normal n \<Rightarrow> n | _ \<Rightarrow> []) (components p)) else None)"

section \<open>The marker\<close>

record installed =
  in_path :: string
  in_size :: nat

record marker =
  mk_hash :: string
  mk_size :: nat
  mk_files :: "installed list"

text \<open>\<open>serde_json\<close> on a type.\<close>

record 'a codec =
  cd_encode :: "'a \<Rightarrow> bytes option"
  cd_decode :: "bytes \<Rightarrow> 'a option"

text \<open>\<open>follow\<close> is what the system finds at a path below a link's target.\<close>

type_synonym follow = "string \<Rightarrow> string list \<Rightarrow> node option"

fun find_node :: "follow \<Rightarrow> entries \<Rightarrow> string list \<Rightarrow> node option" where
  "find_node follow es [] = None"
| "find_node follow es [n] = map_of es n"
| "find_node follow es (n # p) =
    (case map_of es n of
       Some (Directory cs) \<Rightarrow> find_node follow cs p
     | Some (Symbolic target) \<Rightarrow> follow target p
     | _ \<Rightarrow> None)"

definition read_json :: "'a codec \<Rightarrow> follow \<Rightarrow> entries \<Rightarrow> 'a option" where
  "read_json codec follow es =
    (case map_of es marker_name of
       Some (Regular bs) \<Rightarrow> cd_decode codec bs
     | Some (Symbolic target) \<Rightarrow> (case follow target [] of Some (Regular bs) \<Rightarrow> cd_decode codec bs | _ \<Rightarrow> None)
     | _ \<Rightarrow> None)"

definition write_json :: "'a codec \<Rightarrow> 'a \<Rightarrow> folder \<Rightarrow> folder \<times> (io_error + unit)" where
  "write_json codec a f =
    sbind (f, ok_or (cd_encode codec a) (io_kind_error OtherKind)) (\<lambda>f bs.
    sbind (fs_write pending_name bs f) (\<lambda>f _.
    fs_rename pending_name marker_name f))"

definition marker_intact :: "follow \<Rightarrow> entries \<Rightarrow> marker \<Rightarrow> bool" where
  "marker_intact follow es m =
    (mk_files m \<noteq> [] \<and>
     list_all (\<lambda>file. case relative_path (in_path file) of
         None \<Rightarrow> False
       | Some p \<Rightarrow> (case find_node follow es p of
           None \<Rightarrow> False | Some node \<Rightarrow> \<not> is_dir node \<and> node_len node = in_size file)) (mk_files m))"

text \<open>The components joined, each as \<open>to_string_lossy\<close> reads it.\<close>

definition path_text :: "string list \<Rightarrow> string" where
  "path_text p = join ''/'' (map (\<lambda>n. utf8_lossy (of_text n)) p)"

text \<open>Every file and link below, in the order the directories list them.\<close>

function (sequential) walk :: "string list \<Rightarrow> entries \<Rightarrow> folder \<Rightarrow> folder \<times> (io_error + installed list)" where
  "walk dir [] f = (f, Inr [])"
| "walk dir ((n, node) # es) f =
    (if dir = [] \<and> is_own n then walk dir es f
     else sbind (ask f) (\<lambda>f _.
       sbind (case node of
           Directory cs \<Rightarrow> sbind (ask f) (\<lambda>f _. walk (dir @ [n]) cs f)
         | _ \<Rightarrow> (f, Inr [\<lparr> in_path = path_text (dir @ [n]), in_size = node_len node \<rparr>])) (\<lambda>f here.
       sbind (walk dir es f) (\<lambda>f rest. (f, Inr (here @ rest))))))"
  by pat_completeness auto
termination
  by (relation "measure (\<lambda>(dir, es, f). size_list (\<lambda>(n, node). Suc (size node)) es)")
    (auto simp: size_prod_def)

definition record_marker :: "string \<Rightarrow> nat \<Rightarrow> folder \<Rightarrow> folder \<times> (io_error + marker)" where
  "record_marker hash len f =
    sbind (ask f) (\<lambda>f _.
    sbind (walk [] (fd_top f) f) (\<lambda>f files.
    (f, Inr \<lparr> mk_hash = hash, mk_size = len, mk_files = sort_key in_path files \<rparr>)))"

section \<open>What the walk finds\<close>

text \<open>A name that stays inside the folder it is joined to, and one a record spells as it is.\<close>

definition plain_name :: "string \<Rightarrow> bool" where
  "plain_name n \<longleftrightarrow> n \<noteq> [] \<and> n \<noteq> ''.'' \<and> n \<noteq> ''..'' \<and> CHR ''/'' \<notin> set n"

definition entry_name_ok :: "string \<Rightarrow> bool" where
  "entry_name_ok n \<longleftrightarrow> plain_name n \<and> utf8_valid (of_text n)"

text \<open>The files and links below a list of entries.\<close>

function (sequential) tree_leaves :: "string list \<Rightarrow> entries \<Rightarrow> installed list" where
  "tree_leaves dir [] = []"
| "tree_leaves dir ((n, node) # es) =
    (if dir = [] \<and> is_own n then []
     else case node of
       Directory cs \<Rightarrow> tree_leaves (dir @ [n]) cs
     | _ \<Rightarrow> [\<lparr> in_path = path_text (dir @ [n]), in_size = node_len node \<rparr>]) @ tree_leaves dir es"
  by pat_completeness auto
termination
  by (relation "measure (\<lambda>(dir, es). size_list (\<lambda>(n, node). Suc (size node)) es)")
    (auto simp: size_prod_def)

text \<open>A tree whose directories name each entry once, with names a record can spell.\<close>

function (sequential) tree_ok :: "entries \<Rightarrow> bool" where
  "tree_ok [] = True"
| "tree_ok ((n, node) # es) =
    (entry_name_ok n \<and> n \<notin> fst ` set es \<and> (case node of Directory cs \<Rightarrow> tree_ok cs | _ \<Rightarrow> True) \<and> tree_ok es)"
  by pat_completeness auto
termination
  by (relation "measure (\<lambda>es. size_list (\<lambda>(n, node). Suc (size node)) es)")
    (auto simp: size_prod_def)

lemma walk_leaves: "walk dir es f = (f', Inr files) \<Longrightarrow> files = tree_leaves dir es"
proof (induction dir es f arbitrary: f' files rule: walk.induct)
  case (2 dir n node es f)
  show ?case
  proof (cases "dir = [] \<and> is_own n")
    case True
    with 2(1,4) show ?thesis
      by simp
  next
    case False
    with 2(4) obtain e g h here rest where
      here: "(case node of
           Directory cs \<Rightarrow> sbind (ask e) (\<lambda>f _. walk (dir @ [n]) cs f)
         | _ \<Rightarrow> (e, Inr [\<lparr> in_path = path_text (dir @ [n]), in_size = node_len node \<rparr>])) = (g, Inr here)"
      and rest: "walk dir es g = (h, Inr rest)" and files: "files = here @ rest"
      by (auto simp: sbind_Inr)
    have "rest = tree_leaves dir es"
      using 2(3) [OF False] rest by blast
    moreover have "here = (case node of Directory cs \<Rightarrow> tree_leaves (dir @ [n]) cs
        | _ \<Rightarrow> [\<lparr> in_path = path_text (dir @ [n]), in_size = node_len node \<rparr>])"
      using here 2(2) [OF False] by (auto simp: sbind_Inr split: node.splits)
    ultimately show ?thesis
      using files False by (auto split: node.split)
  qed
qed auto

lemma lossy_of_valid: "utf8_valid bs \<Longrightarrow> utf8_lossy bs = to_text bs"
proof (induction bs rule: utf8_lossy.induct)
  case (2 a r)
  then have "utf8_lossy (a # r) = to_text (take (fst (utf8_step a r)) (a # r))
      @ to_text (drop (fst (utf8_step a r) - 1) r)"
    by (simp add: Let_def)
  moreover have "drop (fst (utf8_step a r) - 1) r = drop (fst (utf8_step a r)) (a # r)"
    using utf8_step_pos [of a r] by (cases "fst (utf8_step a r)") simp_all
  ultimately show ?case
    by (simp only: to_text_def map_append [symmetric] append_take_drop_id)
qed (simp add: to_text_def)

lemma path_text_ok: "list_all entry_name_ok p \<Longrightarrow> path_text p = join ''/'' p"
proof -
  assume "list_all entry_name_ok p"
  then have "map (\<lambda>n. utf8_lossy (of_text n)) p = p"
    by (intro map_idI) (simp add: list_all_iff entry_name_ok_def lossy_of_valid)
  then show ?thesis
    by (simp add: path_text_def)
qed

lemma relative_path_ok:
  assumes "p \<noteq> []" and "list_all entry_name_ok p"
  shows "relative_path (path_text p) = Some p"
proof -
  have names: "n \<in> set p \<Longrightarrow> plain_name n" for n
    using assms(2) by (auto simp: list_all_iff entry_name_ok_def)
  then have pieces: "split_on (\<lambda>c. c = CHR ''/'') (join ''/'' p) = p"
    using assms(1) by (intro split_on_join) (auto simp: plain_name_def)
  have "filter (\<lambda>s. s \<noteq> [] \<and> s \<noteq> ''.'') p = p" "map (\<lambda>s. if s = ''..'' then Parent_Dir else Normal s) p = map Normal p"
    using names by (auto simp: plain_name_def filter_id_conv)
  moreover have "hd p \<noteq> []" "hd p \<noteq> ''.''"
    using assms(1) names [of "hd p"] by (auto simp: plain_name_def)
  ultimately have "components (join ''/'' p) = map Normal p"
    by (simp add: components_def pieces Let_def)
  then show ?thesis
    by (simp add: relative_path_def path_text_ok [OF assms(2)] list_all_iff comp_def)
qed

lemma tree_leaves_found:
  assumes "tree_ok es" and "file \<in> set (tree_leaves dir es)"
  shows "\<exists>p node. p \<noteq> [] \<and> list_all entry_name_ok p \<and> in_path file = path_text (dir @ p)
    \<and> find_node follow es p = Some node \<and> \<not> is_dir node \<and> node_len node = in_size file
    \<and> (dir = [] \<longrightarrow> \<not> is_own (hd p))"
  using assms
proof (induction dir es rule: tree_leaves.induct)
  case (2 dir n node es)
  have n: "entry_name_ok n" "n \<notin> fst ` set es" "tree_ok es"
    using 2(3) by auto
  consider (here) "file \<in> set (if dir = [] \<and> is_own n then [] else case node of
       Directory cs \<Rightarrow> tree_leaves (dir @ [n]) cs
     | _ \<Rightarrow> [\<lparr> in_path = path_text (dir @ [n]), in_size = node_len node \<rparr>])"
    | (later) "file \<in> set (tree_leaves dir es)"
    using 2(4) by auto
  then show ?case
  proof cases
    case later
    with 2(2) n(3) obtain p node' where p: "p \<noteq> []" "list_all entry_name_ok p" "in_path file = path_text (dir @ p)"
      "find_node follow es p = Some node'" "\<not> is_dir node'" "node_len node' = in_size file"
      "dir = [] \<longrightarrow> \<not> is_own (hd p)"
      by blast
    then obtain m q where mq: "p = m # q"
      by (cases p) auto
    with p(4) have "map_of es m \<noteq> None"
      by (cases q) (auto split: option.splits)
    then have "m \<noteq> n"
      using n(2) by (auto simp: map_of_eq_None_iff)
    then have "find_node follow ((n, node) # es) p = Some node'"
      using p(4) mq by (cases q) auto
    with p show ?thesis
      by blast
  next
    case here
    then have own: "\<not> (dir = [] \<and> is_own n)"
      by auto
    show ?thesis
    proof (cases node)
      case (Directory cs)
      with here own 2(1,3) obtain p node' where p: "p \<noteq> []" "list_all entry_name_ok p"
        "in_path file = path_text ((dir @ [n]) @ p)" "find_node follow cs p = Some node'" "\<not> is_dir node'"
        "node_len node' = in_size file"
        by auto
      then have "find_node follow ((n, node) # es) (n # p) = Some node'"
        using Directory by (cases p) auto
      with p n(1) own show ?thesis
        by (intro exI [of _ "n # p"] exI [of _ node']) auto
    qed (use here own n(1) in \<open>auto intro!: exI [of _ "[n]"]\<close>)
  qed
qed simp

lemma find_node_cong: "map_of es (hd p) = map_of es' (hd p) \<Longrightarrow> find_node follow es p = find_node follow es' p"
  by (cases p; cases "tl p") auto

text \<open>A marker of the walk is intact in any folder that has the same entries but for the installer's
  own.\<close>

lemma recorded_intact:
  assumes "tree_ok es" and "tree_leaves [] es \<noteq> []" and "\<And>n. \<not> is_own n \<Longrightarrow> map_of es' n = map_of es n"
    and "mk_files m = sort_key in_path (tree_leaves [] es)"
  shows "marker_intact follow es' m"
proof -
  have "case relative_path (in_path x) of
         None \<Rightarrow> False
       | Some p \<Rightarrow> (case find_node follow es' p of
           None \<Rightarrow> False | Some node \<Rightarrow> \<not> is_dir node \<and> node_len node = in_size x)"
    if listed: "x \<in> set (tree_leaves [] es)" for x
  proof -
    from tree_leaves_found [OF assms(1) listed, of follow] obtain p node where p: "p \<noteq> []" "list_all entry_name_ok p"
      "in_path x = path_text p" "find_node follow es p = Some node" "\<not> is_dir node" "node_len node = in_size x"
      "\<not> is_own (hd p)"
      by auto
    then have "find_node follow es' p = Some node"
      using find_node_cong [of es p es' follow] assms(3) by simp
    with p show ?thesis
      by (simp add: relative_path_ok)
  qed
  moreover have "mk_files m \<noteq> []"
    using assms(2,4) by (metis set_empty set_sort)
  ultimately show ?thesis
    using assms(4) by (simp add: marker_intact_def list_all_iff)
qed

end
