(* ===== verification/Hub.thy ===== *)
theory Hub
  imports Fetch Link Crypto Install_Folder
begin

text \<open>
  \<open>ai/source.rs\<close>, \<open>ai/dirs.rs\<close> and \<open>ai/hf.rs\<close>: a folder on Hugging Face as its URL names it, the
  archive in it for a platform, and the client that resolves a revision to its commit and lists a
  folder page by page. The requests go through the \<open>Fetch\<close> of this development. Parameters are the
  URL parser and the JSON decoder, which are crates.
\<close>

section \<open>Folders and sources\<close>

text \<open>What the code reads of a parsed URL.\<close>

record url_parts =
  up_scheme :: string
  up_has_host :: bool
  up_query :: "string option"
  up_fragment :: "string option"
  up_path :: string
  up_origin :: string

record hub_folder =
  fo_base :: string
  fo_repo :: string
  fo_revision :: string
  fo_path :: string

datatype folder_error = Folder_Error (fe_url: string)

datatype source_error = Source_Error (se_url: string)

definition folder_parse ::
    "(string \<Rightarrow> url_parts option) \<Rightarrow> string \<Rightarrow> folder_error + hub_folder" where
  "folder_parse url_parse url =
    rbind (ok_or (url_parse url) (Folder_Error url)) (\<lambda>parsed.
      if up_scheme parsed \<notin> {''https'', ''http''} \<or> \<not> up_has_host parsed
         \<or> up_query parsed \<noteq> None \<or> up_fragment parsed \<noteq> None
      then Inl (Folder_Error url)
      else case filter (\<lambda>segment. segment \<noteq> []) (split_on (\<lambda>c. c = CHR ''/'') (up_path parsed)) of
        owner # repo # tree # revision # segments \<Rightarrow>
          if tree \<noteq> ''tree'' \<or> segments = [] \<or> list_ex (\<lambda>s. s \<in> {''.'', ''..''}) segments
          then Inl (Folder_Error url)
          else Inr \<lparr> fo_base = up_origin parsed, fo_repo = owner @ ''/'' @ repo,
                     fo_revision = revision, fo_path = join ''/'' segments \<rparr>
      | _ \<Rightarrow> Inl (Folder_Error url))"

definition folder_display :: "hub_folder \<Rightarrow> string" where
  "folder_display f =
    fo_base f @ ''/'' @ fo_repo f @ ''/tree/'' @ fo_revision f @ ''/'' @ fo_path f"

text \<open>A \<open>Source\<close> is a folder with a name and a version, the path's last two segments.\<close>

definition source_parse ::
    "(string \<Rightarrow> url_parts option) \<Rightarrow> string \<Rightarrow> source_error + hub_folder" where
  "source_parse url_parse url =
    rbind (map_err (\<lambda>_. Source_Error url) (folder_parse url_parse url)) (\<lambda>folder.
      if CHR ''/'' \<notin> set (fo_path folder) then Inl (Source_Error url) else Inr folder)"

definition segment_from_end :: "hub_folder \<Rightarrow> nat \<Rightarrow> string" where
  "segment_from_end source n =
    (let segments = rev (split_on (\<lambda>c. c = CHR ''/'') (fo_path source)) in
     if n < length segments then segments ! n else [])"

definition source_name :: "hub_folder \<Rightarrow> string" where
  "source_name source = segment_from_end source 1"

definition source_version :: "hub_folder \<Rightarrow> string" where
  "source_version source = segment_from_end source 0"

text \<open>Paths are lists of components.\<close>

definition dir_for :: "path \<Rightarrow> hub_folder \<Rightarrow> path" where
  "dir_for dir source = dir @ [source_name source, source_version source]"

section \<open>Files and their hashes\<close>

datatype hash = Sha256_Hex string | Git_Blob_Sha1 string

record remote_file =
  rf_path :: string
  rf_size :: nat
  rf_hash :: hash

definition file_name :: "remote_file \<Rightarrow> string" where
  "file_name f = last (split_on (\<lambda>c. c = CHR ''/'') (rf_path f))"

fun hash_hex :: "hash \<Rightarrow> string" where
  "hash_hex (Sha256_Hex hex) = hex"
| "hash_hex (Git_Blob_Sha1 hex) = hex"

text \<open>The hashers of the two crates; \<open>metadata\<close> and \<open>reads\<close> are the file.\<close>

record ('h, 'g) hashers =
  hs_sha256 :: "'h hash_fn"
  hs_sha1 :: "'g hash_fn"

fun hash_of_file ::
    "('h, 'g) hashers \<Rightarrow> hash \<Rightarrow> io_error + nat \<Rightarrow> io_error + read_event list \<Rightarrow> io_error + hash" where
  "hash_of_file hs (Sha256_Hex _) metadata reads =
    rbind (file_hash (hs_sha256 hs) reads) (\<lambda>hex. Inr (Sha256_Hex hex))"
| "hash_of_file hs (Git_Blob_Sha1 _) metadata reads =
    rbind (git_blob_sha1_file (hs_sha1 hs) metadata reads) (\<lambda>hex. Inr (Git_Blob_Sha1 hex))"

definition hash_matches :: "hash \<Rightarrow> string \<Rightarrow> bool" where
  "hash_matches h hex = eq_ignore_ascii_case (hash_hex h) (trim hex)"

definition verify_file ::
    "('h, 'g) hashers \<Rightarrow> hash \<Rightarrow> io_error + nat \<Rightarrow> io_error + read_event list \<Rightarrow> io_error + bool" where
  "verify_file hs h metadata reads =
    rbind (hash_of_file hs h metadata reads) (\<lambda>actual. Inr (hash_matches h (hash_hex actual)))"

text \<open>The one archive for a platform, as \<open>std::env::consts\<close> spells it.\<close>

definition arch_name :: "string \<Rightarrow> string option" where
  "arch_name arch =
    (if arch = ''aarch64'' then Some ''arm64'' else if arch = ''x86_64'' then Some ''x64'' else None)"

definition asset_for :: "remote_file list \<Rightarrow> string \<Rightarrow> string \<Rightarrow> remote_file option" where
  "asset_for listing os arch =
    (case arch_name arch of
       None \<Rightarrow> None
     | Some arch \<Rightarrow>
         if os \<notin> {''macos'', ''linux'', ''windows''} then None
         else case filter (\<lambda>f. suffix (''_'' @ os @ ''_'' @ arch @ ''.7z'') (file_name f)) listing of
             [f] \<Rightarrow> Some f
           | _ \<Rightarrow> None)"

section \<open>The hub\<close>

datatype hf_error = Unreached | Hf_Status nat | Hf_Malformed string
  | Wrong_Repository (wr_hub: string) (wr_folder: string)

fun is_unreachable :: "hf_error \<Rightarrow> bool" where
  "is_unreachable Unreached = True"
| "is_unreachable (Hf_Status status) = (500 \<le> status)"
| "is_unreachable (Hf_Malformed reason) = False"
| "is_unreachable (Wrong_Repository hub folder) = False"

record ('m, 'c) hub =
  hub_base :: string
  hub_repo :: string
  hub_fetch :: "('m, 'c) fetch"

definition default_base :: string where
  "default_base = ''https://huggingface.co''"

definition hub_retries :: nat where
  "hub_retries = 5"

definition hub_timeout :: nat where
  "hub_timeout = nanos 30"

definition hub_with_base :: "'m header_calls \<Rightarrow> string \<Rightarrow> string \<Rightarrow> ('m, 'c) hub" where
  "hub_with_base hm base repo =
    \<lparr> hub_base = trim_end_matches (CHR ''/'') base, hub_repo = repo,
      hub_fetch = set_read_timeout (Some hub_timeout) (set_connect_timeout (Some hub_timeout)
        (set_retries hub_retries (fetch_new hm))) \<rparr>"

definition hub_new :: "'m header_calls \<Rightarrow> string \<Rightarrow> ('m, 'c) hub" where
  "hub_new hm repo = hub_with_base hm default_base repo"

definition hub_for_folder :: "'m header_calls \<Rightarrow> hub_folder \<Rightarrow> ('m, 'c) hub" where
  "hub_for_folder hm folder = hub_with_base hm (fo_base folder) (fo_repo folder)"

definition hub_set_retries :: "nat \<Rightarrow> ('m, 'c) hub \<Rightarrow> ('m, 'c) hub" where
  "hub_set_retries retries h = h\<lparr>hub_fetch := set_retries retries (hub_fetch h)\<rparr>"

definition hub_url :: "('m, 'c) hub \<Rightarrow> string \<Rightarrow> string \<Rightarrow> string" where
  "hub_url h commit path =
    hub_base h @ ''/'' @ hub_repo h @ ''/resolve/'' @ commit @ ''/'' @ dropWhile (\<lambda>c. c = CHR ''/'') path"

section \<open>Pages of a listing\<close>

text \<open>One object of the answer, as \<open>serde_json\<close> decodes it.\<close>

record page_entry =
  pe_type :: string
  pe_path :: string
  pe_oid :: "string option"
  pe_size :: nat
  pe_lfs_oid :: "string option"

datatype unhashed = Refuse | Skip_Unhashed

definition entry_file :: "unhashed \<Rightarrow> page_entry \<Rightarrow> (hf_error + remote_file) option" where
  "entry_file unhashed entry =
    (case (pe_lfs_oid entry, pe_oid entry) of
       (Some oid, _) \<Rightarrow> Some (Inr \<lparr> rf_path = pe_path entry, rf_size = pe_size entry,
                                  rf_hash = Sha256_Hex (ascii_lowercase oid) \<rparr>)
     | (None, Some oid) \<Rightarrow> Some (Inr \<lparr> rf_path = pe_path entry, rf_size = pe_size entry,
                                     rf_hash = Git_Blob_Sha1 (ascii_lowercase oid) \<rparr>)
     | (None, None) \<Rightarrow>
         if unhashed = Skip_Unhashed then None
         else Some (Inl (Hf_Malformed (pe_path entry @ '' has no hash''))))"

text \<open>\<open>collect\<close> of results: the first error, or every value.\<close>

fun collect_results :: "('e + 'a) list \<Rightarrow> 'e + 'a list" where
  "collect_results [] = Inr []"
| "collect_results (r # rs) = rbind r (\<lambda>a. rbind (collect_results rs) (\<lambda>as. Inr (a # as)))"

definition parse_page ::
    "(string \<Rightarrow> string + page_entry list) \<Rightarrow> string \<Rightarrow> unhashed \<Rightarrow> hf_error + remote_file list" where
  "parse_page decode body unhashed =
    rbind (map_err (\<lambda>cause. Hf_Malformed (''not a folder listing: '' @ cause)) (decode body)) (\<lambda>entries.
      collect_results
        (List.map_filter (entry_file unhashed) (filter (\<lambda>entry. pe_type entry = ''file'') entries)))"

section \<open>Requests\<close>

text \<open>What is outside: the pieces of \<open>reqwest\<close> and the server the \<open>Fetch\<close> works with, the decoders,
  and how an error reads. \<open>we_body_error\<close> is \<open>is_body\<close> of the error.\<close>

record ('m, 'p, 'n, 'b, 'j, 'c, 's) web =
  we_headers :: "'m header_calls"
  we_reqwest :: "('m, 'p, 'n, 'b, 'c) reqwest"
  we_server :: "('m, 'j, 'c, 's) server"
  we_text :: "'m http_response \<Rightarrow> request_error + string"
  we_sha :: "'m http_response \<Rightarrow> request_error + string"
  we_entries :: "string \<Rightarrow> string + page_entry list"
  we_body_error :: "request_error \<Rightarrow> bool"
  we_show_error :: "request_error \<Rightarrow> string"

fun hf_failure :: "('m, 'p, 'n, 'b, 'j, 'c, 's) web \<Rightarrow> fetch_error \<Rightarrow> hf_error" where
  "hf_failure web (Request_Failed err) =
    (case err_status err of
       Some status \<Rightarrow> Hf_Status status
     | None \<Rightarrow> if err_decode err \<or> we_body_error web err then Hf_Malformed (we_show_error web err)
               else Unreached)"
| "hf_failure web (Body_Too_Large limit) =
    Hf_Malformed (fetch_error_display (we_show_error web) (Body_Too_Large limit))"

type_synonym ('m, 'j, 'c, 's) hub_state = "('m, 'c) hub \<times> ('m, 'j, 'c, 's) network"

definition hub_text ::
    "('m, 'p, 'n, 'b, 'j, 'c, 's) web \<Rightarrow> string \<Rightarrow> ('m, 'j, 'c, 's) hub_state
      \<Rightarrow> ('m, 'j, 'c, 's) hub_state \<times> (hf_error + ('m, string) fetched)" where
  "hub_text web url = (\<lambda>(h, nw).
    (case text_response (we_headers web) (we_reqwest web) (we_server web) (we_text web)
            (hub_fetch h) url nw of
       ((f, nw), r) \<Rightarrow> ((h\<lparr>hub_fetch := f\<rparr>, nw), map_err (hf_failure web) r)))"

definition hub_resolve ::
    "('m, 'p, 'n, 'b, 'j, 'c, 's) web \<Rightarrow> string \<Rightarrow> ('m, 'j, 'c, 's) hub_state
      \<Rightarrow> ('m, 'j, 'c, 's) hub_state \<times> (hf_error + string)" where
  "hub_resolve web revision = (\<lambda>(h, nw).
    (case fetch_json (we_headers web) (we_reqwest web) (we_server web) (we_sha web) (hub_fetch h)
            (hub_base h @ ''/api/models/'' @ hub_repo h @ ''/revision/'' @ revision) nw of
       ((f, nw), r) \<Rightarrow> ((h\<lparr>hub_fetch := f\<rparr>, nw), map_err (hf_failure web) r)))"

definition next_link :: "('m, 'p, 'n, 'b, 'j, 'c, 's) web \<Rightarrow> ('m, string) fetched \<Rightarrow> string option" where
  "next_link web page =
    link (\<lambda>name. map hv_text (hm_get_all (we_headers web) (fr_headers page) name)) ''next''"

definition foreign_page :: "string \<Rightarrow> hf_error" where
  "foreign_page url = Hf_Malformed
    (''the listing's next page, '' @ url @ '', is another host's or one already read'')"

text \<open>The loop over the pages. Nothing but the server ends it, so it is partial.\<close>

partial_function (option) list_from ::
    "('m, 'p, 'n, 'b, 'j, 'c, 's) web \<Rightarrow> unhashed \<Rightarrow> string \<Rightarrow> remote_file list \<Rightarrow> string list
      \<Rightarrow> ('m, 'j, 'c, 's) hub_state
      \<Rightarrow> (('m, 'j, 'c, 's) hub_state \<times> (hf_error + remote_file list)) option" where
  "list_from web unhashed url files visited st =
    (case hub_text web url st of
       (st, Inl e) \<Rightarrow> Some (st, Inl e)
     | (st, Inr page) \<Rightarrow>
         (case parse_page (we_entries web) (fr_body page) unhashed of
            Inl e \<Rightarrow> Some (st, Inl e)
          | Inr found \<Rightarrow>
              (case next_link web page of
                 None \<Rightarrow> Some (st, Inr (files @ found))
               | Some url' \<Rightarrow>
                   if \<not> prefix (hub_base (fst st) @ ''/'') url' \<or> url' \<in> set (url # visited)
                   then Some (st, Inl (foreign_page url'))
                   else list_from web unhashed url' (files @ found) (url # visited) st)))"

declare list_from.simps [code]

definition list_pages ::
    "('m, 'p, 'n, 'b, 'j, 'c, 's) web \<Rightarrow> string \<Rightarrow> string \<Rightarrow> unhashed \<Rightarrow> ('m, 'j, 'c, 's) hub_state
      \<Rightarrow> (('m, 'j, 'c, 's) hub_state \<times> (hf_error + remote_file list)) option" where
  "list_pages web commit folder unhashed st =
    list_from web unhashed
      (hub_base (fst st) @ ''/api/models/'' @ hub_repo (fst st) @ ''/tree/'' @ commit @ ''/''
         @ trim_matches (CHR ''/'') folder) [] [] st"

definition hub_list ::
    "('m, 'p, 'n, 'b, 'j, 'c, 's) web \<Rightarrow> string \<Rightarrow> string \<Rightarrow> ('m, 'j, 'c, 's) hub_state
      \<Rightarrow> (('m, 'j, 'c, 's) hub_state \<times> (hf_error + remote_file list)) option" where
  "hub_list web commit folder st = list_pages web commit folder Refuse st"

section \<open>Listings\<close>

record ('m, 'c) listing =
  li_hub :: "('m, 'c) hub"
  li_folder :: hub_folder
  li_commit :: string
  li_files :: "remote_file list"

definition listing_read_with ::
    "('m, 'p, 'n, 'b, 'j, 'c, 's) web \<Rightarrow> hub_folder \<Rightarrow> ('m, 'j, 'c, 's) hub_state
      \<Rightarrow> (('m, 'j, 'c, 's) network \<times> (hf_error + ('m, 'c) listing)) option" where
  "listing_read_with web folder st =
    (if hub_base (fst st) \<noteq> trim_end_matches (CHR ''/'') (fo_base folder)
        \<or> hub_repo (fst st) \<noteq> fo_repo folder
     then Some (snd st, Inl (Wrong_Repository (hub_base (fst st) @ ''/'' @ hub_repo (fst st))
            (folder_display folder)))
     else case hub_resolve web (fo_revision folder) st of
         (st, Inl e) \<Rightarrow> Some (snd st, Inl e)
       | (st, Inr commit) \<Rightarrow>
           (case list_pages web commit (fo_path folder) Skip_Unhashed st of
              None \<Rightarrow> None
            | Some (st, Inl e) \<Rightarrow> Some (snd st, Inl e)
            | Some (st, Inr files) \<Rightarrow>
                Some (snd st, Inr \<lparr> li_hub = fst st, li_folder = folder, li_commit = commit,
                                   li_files = files \<rparr>)))"

definition listing_read ::
    "('m, 'p, 'n, 'b, 'j, 'c, 's) web \<Rightarrow> hub_folder \<Rightarrow> ('m, 'j, 'c, 's) network
      \<Rightarrow> (('m, 'j, 'c, 's) network \<times> (hf_error + ('m, 'c) listing)) option" where
  "listing_read web folder nw =
    listing_read_with web folder (hub_for_folder (we_headers web) folder, nw)"

definition listing_eq :: "('m, 'c) listing \<Rightarrow> ('m, 'c) listing \<Rightarrow> bool" where
  "listing_eq a b \<longleftrightarrow> (li_folder a, li_commit a, li_files a) = (li_folder b, li_commit b, li_files b)"

section \<open>The folder a dependency installs into\<close>

lemma folder_segments:
  assumes "folder_parse url_parse url = Inr f"
  shows "\<exists>segments. segments \<noteq> [] \<and> list_all plain_name segments \<and> fo_path f = join ''/'' segments
    \<and> split_on (\<lambda>c. c = CHR ''/'') (fo_path f) = segments"
proof -
  obtain parsed where "url_parse url = Some parsed"
    using assms by (auto simp: folder_parse_def rbind_Inr ok_or_Inr)
  let ?all = "filter (\<lambda>s. s \<noteq> []) (split_on (\<lambda>c. c = CHR ''/'') (up_path parsed))"
  obtain owner repo tree revision segments where
    all: "?all = owner # repo # tree # revision # segments"
    and segments: "segments \<noteq> []" "\<not> list_ex (\<lambda>s. s \<in> {''.'', ''..''}) segments" "fo_path f = join ''/'' segments"
    using assms \<open>url_parse url = Some parsed\<close>
    by (auto simp: folder_parse_def ok_or_def split: if_splits list.splits)
  have "set segments \<subseteq> set ?all"
    by (auto simp: all)
  then have "\<forall>s \<in> set segments. s \<noteq> [] \<and> CHR ''/'' \<notin> set s"
    by (auto dest: split_on_clean)
  with segments have "list_all plain_name segments"
    by (auto simp: plain_name_def list_all_iff list_ex_iff)
  moreover from this have "split_on (\<lambda>c. c = CHR ''/'') (join ''/'' segments) = segments"
    using segments(1) by (intro split_on_join) (auto simp: plain_name_def list_all_iff)
  ultimately show ?thesis
    using segments by auto
qed

text \<open>C27. Whatever URL a source is parsed from, the folder it installs into is two plain components below
  the root: a name and a version that are neither empty, nor a dot or two, nor hold a slash.\<close>

theorem dependency_dir_below_root:
  assumes "source_parse url_parse url = Inr source"
  shows "\<exists>name version. dir_for dir source = dir @ [name, version] \<and> plain_name name \<and> plain_name version"
proof -
  from assms have parsed: "folder_parse url_parse url = Inr source" and slash: "CHR ''/'' \<in> set (fo_path source)"
    by (auto simp: source_parse_def rbind_Inr map_err_Inr split: if_splits)
  from folder_segments [OF parsed] obtain segments where
    segments: "segments \<noteq> []" "list_all plain_name segments" "fo_path source = join ''/'' segments"
      "split_on (\<lambda>c. c = CHR ''/'') (fo_path source) = segments"
    by blast
  have "1 < length segments"
  proof (rule ccontr)
    assume "\<not> 1 < length segments"
    with segments(1) obtain s where "segments = [s]"
      by (cases segments; cases "tl segments") auto
    with segments slash show False
      by (simp add: plain_name_def)
  qed
  then have "rev segments ! 1 \<in> set segments" "rev segments ! 0 \<in> set segments"
    by (metis length_rev nth_mem set_rev, metis length_rev nth_mem set_rev less_trans zero_less_one)
  with segments \<open>1 < length segments\<close> show ?thesis
    by (auto simp: dir_for_def source_name_def source_version_def segment_from_end_def Let_def list_all_iff)
qed

section \<open>The pages that are asked for\<close>

lemma hub_text_sends:
  fixes web :: "('m, 'p, 'n, 'b, 'j, 'c, 's) web"
  assumes "hub_text web url (h, nw) = ((h', nw'), r)"
  shows "hub_base h' = hub_base h \<and> hub_repo h' = hub_repo h
    \<and> fe_retries (hub_fetch h') = fe_retries (hub_fetch h)
    \<and> (\<exists>sent. nw_sent nw' = nw_sent nw @ sent \<and> length sent \<le> Suc (fe_retries (hub_fetch h))
        \<and> (\<forall>rq \<in> set sent. into_url (we_reqwest web) url = Inr (og_url rq)))"
proof -
  let ?f = "hub_fetch h" and ?o = "options_new (we_headers web) :: ('m, 'j) request_options"
  obtain f p where prepared: "prepare (we_reqwest web) ?f url ?o = (f, p)"
    by fastforce
  then have retries: "fe_retries f = fe_retries ?f"
    by (auto simp: prepare_def client_def sbind_def Let_def split: prod.splits sum.splits option.splits)
  show ?thesis
  proof (cases p)
    case (Inl e)
    then show ?thesis
      using assms prepared retries
      by (auto simp: hub_text_def text_response_def text_response_with_options_def send_retrying_def)
  next
    case (Inr p)
    obtain st slept r' where ran: "with_fibonacci_backoff (sv_binet (we_server web)) (pr_retries p) fetch_retryable
        (send_once (we_headers web) (we_server web) (we_text web) p) (nw, None) = (st, slept, r')"
      by (metis prod_cases3)
    from backoff_sends [OF this [unfolded with_fibonacci_backoff_def]] obtain n where
      n: "n \<le> Suc (pr_retries p)" "nw_sent (fst st) = nw_sent nw @ replicate n (request_of p)"
      by auto
    moreover have "into_url (we_reqwest web) url = Inr (pr_url p)" "pr_retries p = fe_retries ?f"
      using prepared Inr prepare_spec(5) [of "we_reqwest web" ?f url ?o f p]
      by (auto simp: prepare_def sbind_Inr Let_def options_new_def is_idempotent_def)
    moreover have "h' = h\<lparr>hub_fetch := f\<rparr>" "nw' = fst st"
      using assms prepared Inr ran
      by (auto simp: hub_text_def text_response_def text_response_with_options_def send_retrying_def)
    ultimately show ?thesis
      using retries by (auto simp: request_of_def intro!: exI [of _ "replicate n (request_of p)"])
  qed
qed

lemma list_from_asks:
  assumes "list_from web unhashed url files visited st = Some out"
    and "prefix (hub_base (fst st) @ ''/'') url" and "url \<notin> set visited"
  shows "\<exists>asked. distinct (map fst asked) \<and> set (map fst asked) \<inter> set visited = {}
    \<and> (\<forall>(u, sent) \<in> set asked. prefix (hub_base (fst st) @ ''/'') u
        \<and> length sent \<le> Suc (fe_retries (hub_fetch (fst st)))
        \<and> (\<forall>rq \<in> set sent. into_url (we_reqwest web) u = Inr (og_url rq)))
    \<and> nw_sent (snd (fst out)) = nw_sent (snd st) @ concat (map snd asked)"
  using assms
proof (induction rule: list_from.raw_induct [rotated, consumes 1, case_names step])
  case (step rec web unhashed url files visited st out)
  obtain h nw where st: "st = (h, nw)"
    by fastforce
  obtain h' nw' r where reply: "hub_text web url (h, nw) = ((h', nw'), r)"
    by (metis prod.collapse)
  from hub_text_sends [OF reply] obtain sent where
    sent: "nw_sent nw' = nw_sent nw @ sent" "length sent \<le> Suc (fe_retries (hub_fetch h))"
      "\<forall>rq \<in> set sent. into_url (we_reqwest web) url = Inr (og_url rq)"
    and same: "hub_base h' = hub_base h" "fe_retries (hub_fetch h') = fe_retries (hub_fetch h)"
    by blast
  consider (stopped) "fst out = (h', nw')"
    | (again) page found url' where "next_link web page = Some url'"
        "rec web unhashed url' (files @ found) (url # visited) (h', nw') = Some out"
        "prefix (hub_base h' @ ''/'') url'" "url' \<notin> set (url # visited)"
    using step.hyps reply st by (auto split: sum.splits option.splits if_splits)
  then show ?case
  proof cases
    case stopped
    with sent step.prems st show ?thesis
      by (intro exI [of _ "[(url, sent)]"]) auto
  next
    case again
    from step.IH [OF again(2)] again(3, 4) obtain asked where
      "distinct (map fst asked)" "set (map fst asked) \<inter> set (url # visited) = {}"
      "\<forall>(u, sent) \<in> set asked. prefix (hub_base h' @ ''/'') u
        \<and> length sent \<le> Suc (fe_retries (hub_fetch h'))
        \<and> (\<forall>rq \<in> set sent. into_url (we_reqwest web) u = Inr (og_url rq))"
      "nw_sent (snd (fst out)) = nw_sent nw' @ concat (map snd asked)"
      by auto
    with sent same step.prems st show ?thesis
      by (intro exI [of _ "(url, sent) # asked"]) auto
  qed
qed

text \<open>C25. A listing asks only for pages on the hub it was started on, each page once: every request it
  sends is for a URL below the hub's base, no two pages share a URL, and one page takes no more
  requests than the first and its retries.\<close>

theorem listing_stays_on_hub:
  assumes "list_pages web commit folder unhashed (h, nw) = Some ((h', nw'), r)"
  shows "\<exists>asked. distinct (map fst asked)
    \<and> list_all (\<lambda>(u, sent). prefix (hub_base h @ ''/'') u
        \<and> length sent \<le> Suc (fe_retries (hub_fetch h))
        \<and> list_all (\<lambda>rq. into_url (we_reqwest web) u = Inr (og_url rq)) sent) asked
    \<and> nw_sent nw' = nw_sent nw @ concat (map snd asked)"
  using list_from_asks [OF assms [unfolded list_pages_def]] by (auto simp: list_all_iff)

section \<open>A listing ends\<close>

lemma list_from_ends:
  assumes "finite pages"
    and "\<And>url st st' page url'. hub_text web url st = (st', Inr page) \<Longrightarrow>
      next_link web page = Some url' \<Longrightarrow> url' \<in> pages"
  shows "list_from web unhashed url files visited st \<noteq> None"
proof (induction "card (pages - insert url (set visited))" arbitrary: url files visited st rule: less_induct)
  case less
  obtain st' r where reply: "hub_text web url st = (st', r)"
    by fastforce
  show ?case
  proof (cases "\<exists>page found url'. r = Inr page \<and> parse_page (we_entries web) (fr_body page) unhashed = Inr found
      \<and> next_link web page = Some url' \<and> url' \<notin> set (url # visited)")
    case True
    then obtain page found url' where
      page: "r = Inr page" "parse_page (we_entries web) (fr_body page) unhashed = Inr found"
        "next_link web page = Some url'" "url' \<notin> set (url # visited)"
      by blast
    then have "url' \<in> pages"
      using assms(2) reply by blast
    with page(4) assms(1) have "card (pages - insert url' (set (url # visited))) < card (pages - insert url (set visited))"
      by (intro psubset_card_mono) auto
    from less.hyps [OF this]
    have "list_from web unhashed url' (files @ found) (url # visited) st' \<noteq> None" .
    with page reply show ?thesis
      by (subst list_from.simps) auto
  next
    case False
    with reply show ?thesis
      by (subst list_from.simps) (auto split: sum.splits option.splits)
  qed
qed

text \<open>C26. A listing ends, however the server answers, as long as the pages it ever names as the next are
  finitely many: a server that sends the client round in a circle is found out.\<close>

theorem listing_ends:
  assumes "finite {url'. \<exists>url st st' page. hub_text web url st = (st', Inr page) \<and> next_link web page = Some url'}"
  shows "\<exists>out. list_pages web commit folder unhashed st = Some out"
  unfolding list_pages_def not_None_eq [symmetric] by (rule list_from_ends [OF assms]) blast

section \<open>A hub that goes round in a circle\<close>

definition circular_page :: string where
  "circular_page = ''http://h/api/models/o/r/tree/c/d''"

definition circular_web :: "((string \<times> header_value) list, string, string, string list, unit, string list, unit) web" where
  "circular_web =
    \<lparr> we_headers = list_headers, we_reqwest = plain_reqwest,
      we_server = \<lparr> sv_send = (\<lambda>rq s. (s, Inr \<lparr> ht_status = 200, ht_version = ''1.1'',
            ht_headers = [(''link'', \<lparr> hv_text = Some (''<'' @ circular_page @ ''>; rel=next''), hv_sensitive = False \<rparr>)],
            ht_content_length = None, ht_body = [] \<rparr>)),
        sv_now = (\<lambda>i. 0), sv_http_date = (\<lambda>s. None), sv_binet = (\<lambda>n. 0) \<rparr>,
      we_text = (\<lambda>resp. Inr []), we_sha = (\<lambda>resp. Inr ''c''), we_entries = (\<lambda>s. Inr []),
      we_body_error = (\<lambda>e. False), we_show_error = (\<lambda>e. []) \<rparr>"

definition circular_state :: "((string \<times> header_value) list, unit, string list, unit) hub_state" where
  "circular_state = (hub_with_base list_headers ''http://h/'' ''o/r'', \<lparr> nw_server = (), nw_sent = [] \<rparr>)"

lemma circular_listing:
  "map_option (\<lambda>(st, r). (r, map og_url (nw_sent (snd st))))
      (list_pages circular_web ''c'' ''/d/'' Refuse circular_state)
    = Some (Inl (foreign_page circular_page), [circular_page])"
  by code_simp

lemma circular_pages:
  assumes "hub_text circular_web url st = (st', Inr page)" and "next_link circular_web page = Some url'"
  shows "url' = circular_page"
proof -
  obtain h nw where st: "st = (h, nw)"
    by fastforce
  have "fr_headers page = [(''link'', \<lparr> hv_text = Some (''<'' @ circular_page @ ''>; rel=next''), hv_sensitive = False \<rparr>)]"
    using assms(1)
    by (auto simp: st hub_text_def text_response_def text_response_with_options_def send_retrying_def
        with_fibonacci_backoff_def backoff_loop.simps [of _ _ _ _ 0] send_once_def send_logged_def
        circular_web_def reject_status_def take_response_def read_capped_def map_err_Inr rbind_Inr
        split: prod.splits sum.splits option.splits if_splits)
  then have "next_link circular_web page = next_link circular_web \<lparr> fr_body = [], fr_status = 0, fr_headers =
      [(''link'', \<lparr> hv_text = Some (''<'' @ circular_page @ ''>; rel=next''), hv_sensitive = False \<rparr>)] \<rparr>"
    by (simp add: next_link_def)
  also have "\<dots> = Some circular_page"
    by code_simp
  finally show ?thesis
    using assms(2) by simp
qed

theorem dependency_dir_below_root_witness:
  "dir_for [''deps''] \<lparr> fo_base = ''https://h'', fo_repo = ''o/r'', fo_revision = ''main'', fo_path = ''d/cuda/13'' \<rparr>
    = [''deps'', ''cuda'', ''13''] \<and> plain_name ''cuda'' \<and> plain_name ''13''"
proof -
  let ?source = "\<lparr> fo_base = ''https://h'', fo_repo = ''o/r'', fo_revision = ''main'', fo_path = ''d/cuda/13'' \<rparr>"
  let ?parse = "\<lambda>url. Some \<lparr> up_scheme = ''https'', up_has_host = True, up_query = None, up_fragment = None,
      up_path = ''/o/r/tree/main/d//cuda/13/'', up_origin = ''https://h'' \<rparr>"
  have "source_parse ?parse ''u'' = Inr ?source"
    by (simp add: source_parse_def folder_parse_def ok_or_def)
  from dependency_dir_below_root [OF this, of "[''deps'']"]
  show ?thesis
    by (simp add: dir_for_def source_name_def source_version_def segment_from_end_def plain_name_def)
qed

theorem listing_stays_on_hub_witness:
  "\<exists>asked. distinct (map fst asked) \<and> list_all (\<lambda>(u, sent). prefix ''http://h/'' u) asked
    \<and> map og_url (concat (map snd asked) :: ((string \<times> header_value) list, unit, string list) outgoing list)
      = [circular_page]"
proof -
  from circular_listing obtain h' nw' r where
    listed: "list_pages circular_web ''c'' ''/d/'' Refuse circular_state = Some ((h', nw'), r)"
    and urls: "map og_url (nw_sent nw') = [circular_page]"
    by (auto simp: map_option_case split: option.splits prod.splits)
  have base: "hub_base (fst circular_state) @ ''/'' = ''http://h/''"
    and unsent: "nw_sent (snd circular_state) = []"
    by (code_simp, simp add: circular_state_def)
  note stays = listing_stays_on_hub [of circular_web "''c''" "''/d/''" Refuse "fst circular_state" "snd circular_state"]
  show ?thesis
    using stays [unfolded base] listed urls by (auto simp: unsent list_all_iff)
qed

theorem listing_ends_witness:
  "\<exists>out. list_pages circular_web ''c'' ''d'' Skip_Unhashed circular_state = Some out"
proof (rule listing_ends)
  have "{url'. \<exists>url st st' page. hub_text circular_web url st = (st', Inr page)
      \<and> next_link circular_web page = Some url'} \<subseteq> {circular_page}"
    using circular_pages by blast
  then show "finite {url'. \<exists>url st st' page. hub_text circular_web url st = (st', Inr page)
      \<and> next_link circular_web page = Some url'}"
    by (rule finite_subset) simp
qed

end
