(* ===== verification/Install_Unpack.thy ===== *)
theory Install_Unpack
  imports Extract_Budget Install_Folder
begin

text \<open>
  The blocking half of \<open>ai/install.rs\<close> and the failures of \<open>ai/error.rs\<close>: the archive is extracted
  in staging by the extractor of this development, the marker is deleted, the folder emptied, the
  extracted entries are moved in, and the marker is written. The theorems are about every state the
  folder passes through, so about a process that stops at any moment.
\<close>

section \<open>Failures\<close>

datatype failure = Network | Http_Answer nat | Disk_Full | Io_Stop string
  | Damaged (da_path: string) (da_expected: string) (da_actual: string)
  | Unsupported_Platform (un_os: string) (un_arch: string)
  | Malformed string | Not_Listed | Unlisted | Wrong_Listing (wl_listing: string) (wl_folder: string)

record install_error =
  ie_dependency :: string
  ie_failure :: failure

text \<open>How the errors of the system and of the extractor read.\<close>

record texts =
  tx_io :: "io_error \<Rightarrow> string"
  tx_fs :: "fs_error \<Rightarrow> string"

definition failure_of_io :: "texts \<Rightarrow> io_error \<Rightarrow> failure" where
  "failure_of_io tx e = (if io_kind e = StorageFull then Disk_Full else Io_Stop (tx_io tx e))"

definition failure_of_fs :: "texts \<Rightarrow> fs_error \<Rightarrow> failure" where
  "failure_of_fs tx e = (case e of Io cause \<Rightarrow> failure_of_io tx cause | _ \<Rightarrow> Io_Stop (tx_fs tx e))"

definition io_try :: "texts \<Rightarrow> 's \<times> (io_error + 'a) \<Rightarrow> 's \<times> (failure + 'a)" where
  "io_try tx m = (case m of (s, r) \<Rightarrow> (s, map_err (failure_of_io tx) r))"

section \<open>Emptying a folder\<close>

definition remove_if_present :: "string \<Rightarrow> bool \<Rightarrow> folder \<Rightarrow> folder \<times> (io_error + unit)" where
  "remove_if_present n dir f =
    (case if dir then fs_remove_dir_all n f else fs_remove_file n f of
       (f, Inl cause) \<Rightarrow> if io_kind cause \<noteq> NotFound then (f, Inl cause) else (f, Inr ())
     | (f, Inr _) \<Rightarrow> (f, Inr ()))"

fun empty_loop :: "(string \<Rightarrow> bool) \<Rightarrow> entries \<Rightarrow> folder \<Rightarrow> folder \<times> (io_error + unit)" where
  "empty_loop keep [] f = (f, Inr ())"
| "empty_loop keep ((n, node) # es) f =
    sbind (ask f) (\<lambda>f _.
    sbind (if keep n then (f, Inr ()) else remove_if_present n (is_dir node) f) (\<lambda>f _.
    empty_loop keep es f))"

definition empty_dir :: "(string \<Rightarrow> bool) \<Rightarrow> folder \<Rightarrow> folder \<times> (io_error + unit)" where
  "empty_dir keep f = sbind (ask f) (\<lambda>f _. empty_loop keep (fd_top f) f)"

text \<open>The extraction folder, removed with what is in it; a removal that fails leaves what the disk
  says it tree_leaves.\<close>

definition remove_extract :: "folder \<Rightarrow> folder \<times> (io_error + unit)" where
  "remove_extract f =
    (case refusal_of f of
       None \<Rightarrow> ((replied f)\<lparr>fd_extract := None\<rparr>, Inr ())
     | Some e \<Rightarrow>
         ((replied f)\<lparr>fd_extract := (case (fd_extract f, rev (between (next_reply f))) of
            (Some _, Directory cs # _) \<Rightarrow> Some cs | _ \<Rightarrow> fd_extract f)\<rparr>, Inl e))"

section \<open>Unpacking\<close>

text \<open>The extractor and what it works on: the crates' reading of an archive's bytes, the handle on the
  new extraction folder, and what the folder behind a handle holds.\<close>

record 'd unarchiver =
  ua_env :: "'d env"
  ua_open :: "bytes \<Rightarrow> archive_file"
  ua_root :: "io_error + 'd"
  ua_contents :: "'d \<Rightarrow> entries"

text \<open>The hook passes on the reports with a total.\<close>

definition with_totals :: "extract_progress list \<Rightarrow> (nat \<times> nat) list" where
  "with_totals reports =
    List.map_filter (\<lambda>p. map_option (\<lambda>total. (p_bytes p, total)) (total_bytes p)) reports"

definition extract_env :: "'d env \<Rightarrow> 'd env" where
  "extract_env env = env\<lparr>env_options := default_options\<lparr>on_progress := Some 0\<rparr>\<rparr>"

definition run_extract ::
    "'d unarchiver \<Rightarrow> string \<Rightarrow> bytes \<Rightarrow> folder \<Rightarrow> folder \<times> (fs_error + extract_summary)" where
  "run_extract ua name archive f =
    (case ask f of (f, created) \<Rightarrow>
     case extract_archive (extract_env (ua_env ua)) (Some name) name (ua_open ua archive) created (ua_root ua) of
       Inl e \<Rightarrow> (f, Inl e)
     | Inr (x, r) \<Rightarrow>
         (f\<lparr>fd_staging := True, fd_extract := Some (ua_contents ua (root_dir (x_root x))),
            fd_reports := with_totals (rep_reports (x_reporter x))\<rparr>, r))"

text \<open>A rename out of the extraction folder into the folder, where staging itself is never empty.\<close>

definition move_in :: "string \<Rightarrow> folder \<Rightarrow> folder \<times> (io_error + unit)" where
  "move_in n f =
    (case refusal_of f of
       Some e \<Rightarrow> (replied f, Inl e)
     | None \<Rightarrow> (case fd_extract f of
         None \<Rightarrow> (replied f, Inl (io_kind_error NotFound))
       | Some es \<Rightarrow> (case map_of es n of
           None \<Rightarrow> (replied f, Inl (io_kind_error NotFound))
         | Some node \<Rightarrow>
             (case rename_clash node
                (if n = staging_name then Some (Directory [(n, node)]) else map_of (fd_top f) n) of
                Some e \<Rightarrow> (replied f, Inl e)
              | None \<Rightarrow> (show_top (AList.update n node (fd_top f))
                  ((replied f)\<lparr>fd_extract := Some (AList.delete n es)\<rparr>), Inr ())))))"

fun move_all :: "string list \<Rightarrow> folder \<Rightarrow> folder \<times> (io_error + unit)" where
  "move_all [] f = (f, Inr ())"
| "move_all (n # ns) f = sbind (ask f) (\<lambda>f _. sbind (move_in n f) (\<lambda>f _. move_all ns f))"

definition unpack ::
    "texts \<Rightarrow> 'd unarchiver \<Rightarrow> marker codec \<Rightarrow> string \<Rightarrow> bytes \<Rightarrow> string \<Rightarrow> nat \<Rightarrow> folder
      \<Rightarrow> folder \<times> (failure + unit)" where
  "unpack tx ua codec name archive hash len f =
    sbind (io_try tx (remove_extract f)) (\<lambda>f _.
    sbind (case run_extract ua name archive f of (f, r) \<Rightarrow> (f, map_err (failure_of_fs tx) r)) (\<lambda>f _.
    sbind (io_try tx (remove_if_present marker_name False f)) (\<lambda>f _.
    sbind (io_try tx (empty_dir (\<lambda>n. n = staging_name) f)) (\<lambda>f _.
    sbind (io_try tx (ask f)) (\<lambda>f _.
    sbind (io_try tx (move_all (case fd_extract f of Some es \<Rightarrow> map fst es | None \<Rightarrow> []) f)) (\<lambda>f _.
    sbind (io_try tx (record_marker hash len f)) (\<lambda>f marker.
    io_try tx (write_json codec marker f))))))))"

section \<open>What each operation does to the folder\<close>

abbreviation tops :: "folder \<Rightarrow> string \<Rightarrow> node option" where
  "tops f \<equiv> map_of (fd_top f)"

lemma folder_simps [simp]:
  "fd_top (replied f) = fd_top f" "fd_seen (replied f) = fd_seen f" "fd_extract (replied f) = fd_extract f"
  "fd_top (show_top es f) = es" "fd_seen (show_top es f) = fd_seen f @ [es]"
  "fd_extract (show_top es f) = fd_extract f"
  by (simp_all add: replied_def show_top_def)

lemma ask_folder [simp]: "fst (ask f) = replied f"
  by (simp add: ask_def)

lemma refusal_not_missing: "refusal_of f = Some e \<Longrightarrow> io_kind e \<noteq> NotFound"
  by (auto simp: refusal_of_def split: option.splits if_splits)

lemma passing_extract [simp]: "fd_extract (passing n nodes f) = fd_extract f"
  unfolding passing_def by (induction nodes arbitrary: f) simp_all

lemma passing_tops: "k \<noteq> n \<Longrightarrow> tops (passing n nodes f) k = tops f k"
  unfolding passing_def by (induction nodes arbitrary: f) (simp_all add: update_conv')

text \<open>While there is no marker, nothing done to another name makes one: the folder and every state it
  is logged in since \<open>log\<close> are without it.\<close>

definition unmarked :: "entries list \<Rightarrow> folder \<Rightarrow> bool" where
  "unmarked log f \<longleftrightarrow> tops f marker_name = None
    \<and> (\<exists>since. fd_seen f = log @ since \<and> (\<forall>es \<in> set since. map_of es marker_name = None))"

named_theorems unmarked_steps \<open>steps that leave the folder without a marker\<close>

lemma unmarked_show:
  assumes "unmarked log f" and "map_of es marker_name = None"
  shows "unmarked log (show_top es f)"
proof -
  from assms obtain since where "fd_seen f = log @ since" "\<forall>es \<in> set since. map_of es marker_name = None"
    by (auto simp: unmarked_def)
  with assms(2) show ?thesis
    by (auto simp: unmarked_def intro!: exI [of _ "since @ [es]"])
qed

lemma unmarked_same [unmarked_steps]: "unmarked log f \<Longrightarrow> unmarked log (replied f)"
  by (simp add: unmarked_def)

lemma unmarked_extract: "unmarked log f \<Longrightarrow> unmarked log (f\<lparr>fd_extract := x\<rparr>)"
  by (simp add: unmarked_def)

lemma unmarked_passing: "unmarked log f \<Longrightarrow> n \<noteq> marker_name \<Longrightarrow> unmarked log (passing n nodes f)"
  unfolding passing_def
proof (induction nodes arbitrary: f)
  case (Cons node nodes)
  then show ?case
    by (simp add: unmarked_show update_conv' unmarked_def [of log f])
qed simp

lemma unmarked_ask [unmarked_steps]: "unmarked log f \<Longrightarrow> unmarked log (fst (ask f))"
  by (simp add: unmarked_same)

lemma unmarked_delete: "unmarked log f \<Longrightarrow> map_of (AList.delete n (fd_top f)) marker_name = None"
  by (simp add: unmarked_def delete_conv' restrict_map_def)

lemma unmarked_remove [unmarked_steps]:
  assumes "unmarked log f" and "n \<noteq> marker_name"
  shows "unmarked log (fst (remove_if_present n dir f))"
proof -
  note gone = unmarked_show [OF _ unmarked_delete]
  have "unmarked log (fst (fs_remove_file n f))"
    using assms gone [OF unmarked_same [OF assms(1)] assms(1)]
    by (auto simp: fs_remove_file_def unmarked_same split: option.splits)
  moreover have "unmarked log (fst (fs_remove_dir_all n f))"
    using assms unmarked_passing [OF unmarked_same [OF assms(1)] assms(2), of "between (next_reply f)"]
    by (auto simp: fs_remove_dir_all_def Let_def unmarked_same split: option.splits intro: gone)
  ultimately show ?thesis
    by (auto simp: remove_if_present_def split: prod.splits sum.splits)
qed

lemma unmarked_empty_loop:
  "unmarked log f \<Longrightarrow> marker_name \<notin> fst ` set es \<Longrightarrow> unmarked log (fst (empty_loop keep es f))"
  by (induction keep es f rule: empty_loop.induct)
    (auto intro!: sbind_keeps [of "unmarked log"] unmarked_steps)

lemma unmarked_empty_dir [unmarked_steps]:
  assumes "unmarked log f"
  shows "unmarked log (fst (empty_dir keep f))"
proof -
  have "marker_name \<notin> fst ` set (fd_top f)"
    using assms by (simp add: unmarked_def map_of_eq_None_iff)
  then show ?thesis
    unfolding empty_dir_def
    by (intro sbind_keeps [of "unmarked log"] unmarked_ask [OF assms])
      (auto simp: ask_def intro: unmarked_empty_loop)
qed

lemma unmarked_move_in [unmarked_steps]:
  assumes "unmarked log f" and "n \<noteq> marker_name"
  shows "unmarked log (fst (move_in n f))"
proof -
  have "map_of (AList.update n node (fd_top f)) marker_name = None" for node
    using assms by (simp add: unmarked_def update_conv')
  then show ?thesis
    using assms
    by (auto simp: move_in_def unmarked_same unmarked_extract intro!: unmarked_show split: option.splits)
qed

lemma unmarked_move_all:
  "unmarked log f \<Longrightarrow> marker_name \<notin> set ns \<Longrightarrow> unmarked log (fst (move_all ns f))"
  by (induction ns f rule: move_all.induct) (auto intro!: sbind_keeps [of "unmarked log"] unmarked_steps)

section \<open>What is in the folder once a step succeeded\<close>

lemma removed:
  assumes "remove_if_present n dir f = (f', Inr u)"
  shows "tops f' = (tops f)(n := None)"
proof -
  have "tops (passing n nodes g) |` (- {n}) = tops g |` (- {n})" for nodes g
    by (auto simp: restrict_map_def fun_eq_iff passing_tops)
  moreover have "m |` (- {n}) = m(n := None)" for m :: "string \<Rightarrow> node option"
    by (auto simp: restrict_map_def)
  ultimately show ?thesis
    using assms refusal_not_missing [of f]
    by (auto simp: remove_if_present_def fs_remove_file_def fs_remove_dir_all_def io_kind_error_def Let_def
        delete_conv' fun_upd_idem split: prod.splits sum.splits option.splits if_splits)
qed

lemma emptied_loop:
  assumes "empty_loop keep es f = (f', Inr u)"
  shows "tops f' = (\<lambda>n. if n \<in> fst ` set es \<and> \<not> keep n then None else tops f n)"
  using assms
proof (induction es arbitrary: f)
  case (Cons entry es)
  obtain n node where entry: "entry = (n, node)"
    by fastforce
  with Cons.prems obtain g where step: "(if keep n then (replied f, Inr ()) else remove_if_present n (is_dir node) (replied f)) = (g, Inr ())"
    and rest: "empty_loop keep es g = (f', Inr u)"
    by (auto simp: sbind_Inr ask_def split: option.splits)
  from Cons.IH [OF rest] have "tops f' = (\<lambda>m. if m \<in> fst ` set es \<and> \<not> keep m then None else tops g m)" .
  moreover have "tops g = (if keep n then tops f else (tops f)(n := None))"
    using step removed [of n _ "replied f"] by (auto split: if_splits)
  ultimately show ?case
    using entry by auto
qed simp

lemma emptied:
  assumes "empty_dir keep f = (f', Inr u)"
  shows "tops f' = (\<lambda>n. if keep n then tops f n else None)"
proof -
  have "n \<notin> fst ` set (fd_top f) \<Longrightarrow> tops f n = None" for n
    by (simp add: map_of_eq_None_iff)
  with assms show ?thesis
    by (auto simp: empty_dir_def sbind_Inr ask_def dest!: emptied_loop split: option.splits)
qed

lemma moved_in:
  assumes "move_in n f = (f', Inr u)"
  shows "\<exists>es node. fd_extract f = Some es \<and> map_of es n = Some node \<and> n \<noteq> staging_name
    \<and> tops f' = (tops f)(n \<mapsto> node) \<and> fd_extract f' = Some (AList.delete n es)"
  using assms
  by (auto simp: move_in_def rename_clash_def update_conv' split: option.splits if_splits)

lemma moved_all:
  assumes "move_all ns f = (f', Inr u)" and "fd_extract f = Some es"
  shows "tops f' = (\<lambda>n. if n \<in> set ns then map_of es n else tops f n) \<and> set ns \<subseteq> fst ` set es
    \<and> staging_name \<notin> set ns"
  using assms
proof (induction ns arbitrary: f es)
  case (Cons n ns)
  then obtain g where step: "move_in n (replied f) = (g, Inr ())" and rest: "move_all ns g = (f', Inr u)"
    by (auto simp: sbind_Inr ask_def split: option.splits)
  from moved_in [OF step] Cons.prems(2) obtain node where
    node: "map_of es n = Some node" "n \<noteq> staging_name" "tops g = (tops f)(n \<mapsto> node)"
      "fd_extract g = Some (AList.delete n es)"
    by auto
  from Cons.IH [OF rest node(4)] have IH: "tops f' = (\<lambda>m. if m \<in> set ns then map_of (AList.delete n es) m else tops g m)"
    "set ns \<subseteq> fst ` set (AList.delete n es)" "staging_name \<notin> set ns"
    by auto
  then have "n \<notin> set ns" "set ns \<subseteq> fst ` set es"
    by (auto simp: AList.delete_eq)
  moreover have "n \<in> fst ` set es"
    using node(1) by (metis map_of_SomeD fst_conv image_eqI)
  ultimately show ?case
    using IH node by (auto simp: fun_eq_iff delete_conv')
qed simp

section \<open>Recording what is there\<close>

lemma walk_same: "fd_top (fst (walk dir es f)) = fd_top f \<and> fd_seen (fst (walk dir es f)) = fd_seen f"
proof (induction dir es f rule: walk.induct)
  case (2 dir n node es f)
  let ?same = "\<lambda>g. fd_top g = fd_top f \<and> fd_seen g = fd_seen f"
  show ?case
  proof (cases "dir = [] \<and> is_own n")
    case False
    have "?same (fst (sbind (ask f) (\<lambda>f _.
       sbind (case node of
           Directory cs \<Rightarrow> sbind (ask f) (\<lambda>f _. walk (dir @ [n]) cs f)
         | _ \<Rightarrow> (f, Inr [\<lparr> in_path = path_text (dir @ [n]), in_size = node_len node \<rparr>])) (\<lambda>f here.
       sbind (walk dir es f) (\<lambda>f rest. (f, Inr (here @ rest)))))))"
      using 2(2,3) False
      by (intro sbind_keeps [of ?same]) (auto simp: ask_def intro!: sbind_keeps [of ?same] split: node.split)
    then show ?thesis
      by (simp only: walk.simps False if_False)
  qed (use 2(1) in simp)
qed simp

lemma record_same:
  "fd_top (fst (record_marker hash len f)) = fd_top f \<and> fd_seen (fst (record_marker hash len f)) = fd_seen f"
  unfolding record_marker_def
  by (rule sbind_keeps [of "\<lambda>g. fd_top g = fd_top f \<and> fd_seen g = fd_seen f"])
    (auto simp: ask_def walk_same intro!: sbind_keeps [of "\<lambda>g. fd_top g = fd_top f \<and> fd_seen g = fd_seen f"])

lemma unmarked_record [unmarked_steps]: "unmarked log f \<Longrightarrow> unmarked log (fst (record_marker hash len f))"
  using record_same [of hash len f] by (simp add: unmarked_def)

lemma names_differ [simp]: "pending_name \<noteq> marker_name" "marker_name \<noteq> pending_name" "staging_name \<noteq> marker_name"
  "is_own marker_name" "is_own pending_name" "is_own staging_name"
  by (simp_all add: pending_name_def marker_name_def staging_name_def is_own_def)

text \<open>Writing the marker: either it is not there yet, or the write is over and it is whole.\<close>

lemma marker_written:
  assumes "unmarked log f" and "write_json codec a f = (f', r)"
  shows "unmarked log f' \<and> \<not> is_ok r
    \<or> (\<exists>g bs. unmarked log g \<and> cd_encode codec a = Some bs \<and> fd_seen f' = fd_seen g @ [fd_top f']
        \<and> tops f' = (tops f)(pending_name := None, marker_name \<mapsto> Regular bs)
        \<and> r = Inr ())"
proof (cases "cd_encode codec a")
  case None
  with assms show ?thesis
    by (auto simp: write_json_def ok_or_def)
next
  case (Some bs)
  obtain g r1 where wrote: "fs_write pending_name bs f = (g, r1)"
    by fastforce
  let ?mid = "passing pending_name (between (next_reply f)) (replied f)"
  have mid: "unmarked log ?mid"
    using assms(1) by (simp add: unmarked_passing unmarked_same)
  show ?thesis
  proof (cases r1)
    case (Inl e)
    with wrote assms mid Some have "f' = g" "r = Inl e" "unmarked log g"
      by (auto simp: write_json_def ok_or_def fs_write_def Let_def unmarked_same split: if_splits option.splits)
    then show ?thesis
      by simp
  next
    case (Inr u)
    with wrote have g: "g = show_top (AList.update pending_name (Regular bs) (fd_top ?mid)) ?mid"
      by (auto simp: fs_write_def Let_def split: if_splits option.splits)
    have "map_of (AList.update pending_name (Regular bs) (fd_top ?mid)) marker_name = None"
      using mid by (simp add: unmarked_def update_conv')
    with mid g have unmarked: "unmarked log g"
      by (simp add: unmarked_show)
    then have "tops g marker_name = None"
      by (simp add: unmarked_def)
    moreover have "tops g = (tops f)(pending_name \<mapsto> Regular bs)"
      using passing_tops [of _ pending_name "between (next_reply f)" "replied f"] g
      by (auto simp: update_conv')
    moreover have "fs_rename pending_name marker_name g = (f', r)"
      using assms(2) Some wrote Inr by (simp add: write_json_def ok_or_def)
    ultimately show ?thesis
      using unmarked Some
      by (auto simp: fs_rename_def rename_clash_def update_conv' delete_conv' restrict_map_def unmarked_same
          fun_eq_iff intro!: exI [of _ g] split: option.splits if_splits)
  qed
qed

section \<open>Replacing the folder's contents\<close>

lemma extract_kept:
  "fd_extract (fst (remove_if_present n dir f)) = fd_extract f"
  by (auto simp: remove_if_present_def fs_remove_file_def fs_remove_dir_all_def Let_def
      split: prod.splits sum.splits option.splits if_splits)

lemma empty_loop_extract: "fd_extract (fst (empty_loop keep es f)) = fd_extract f"
  by (induction keep es f rule: empty_loop.induct)
    (auto simp: ask_def extract_kept intro!: sbind_keeps [of "\<lambda>g. fd_extract g = fd_extract f" for f] split: option.splits)

lemma empty_dir_extract: "fd_extract (fst (empty_dir keep f)) = fd_extract f"
  unfolding empty_dir_def
  by (rule sbind_keeps [of "\<lambda>g. fd_extract g = fd_extract f"]) (auto simp: ask_def empty_loop_extract)

lemma io_try_simps [simp]:
  "io_try tx (s, Inr a) = (s, Inr a)" "io_try tx (s, Inl e) = (s, Inl (failure_of_io tx e))"
  "fst (io_try tx m) = fst m"
  by (simp_all add: io_try_def split: prod.splits)

text \<open>The steps from the deleted marker on.\<close>

definition refill ::
    "texts \<Rightarrow> marker codec \<Rightarrow> string \<Rightarrow> nat \<Rightarrow> folder \<Rightarrow> folder \<times> (failure + unit)" where
  "refill tx codec hash len f =
    sbind (io_try tx (empty_dir (\<lambda>n. n = staging_name) f)) (\<lambda>f _.
    sbind (io_try tx (ask f)) (\<lambda>f _.
    sbind (io_try tx (move_all (case fd_extract f of Some es \<Rightarrow> map fst es | None \<Rightarrow> []) f)) (\<lambda>f _.
    sbind (io_try tx (record_marker hash len f)) (\<lambda>f marker.
    io_try tx (write_json codec marker f)))))"

text \<open>A folder filled with \<open>es\<close> and its marker.\<close>

definition filled :: "entries \<Rightarrow> bytes \<Rightarrow> folder \<Rightarrow> bool" where
  "filled es bs f \<longleftrightarrow> tops f marker_name = Some (Regular bs)
    \<and> (\<forall>n. \<not> is_own n \<longrightarrow> tops f n = map_of es n)"

lemma io_try_Inr: "io_try tx m = (s, Inr a) \<longleftrightarrow> m = (s, Inr a)"
  by (cases m; cases "snd m") auto

lemma io_try_Inl: "io_try tx m = (s, Inl e) \<longleftrightarrow> (\<exists>c. m = (s, Inl c) \<and> e = failure_of_io tx c)"
  by (cases m; cases "snd m") auto

lemma refilled:
  assumes "unmarked log f" and "fd_extract f = Some es" and "\<forall>n \<in> fst ` set es. \<not> is_own n"
    and "refill tx codec hash len f = (f', r)"
  shows "unmarked log f' \<and> \<not> is_ok r
    \<or> (\<exists>e f2 g h m bs. r = Inr () \<and> filled es bs f' \<and> cd_encode codec m = Some bs
        \<and> unmarked log h \<and> fd_seen f' = fd_seen h @ [fd_top f']
        \<and> fd_extract e = Some es \<and> tops e = (\<lambda>n. if n = staging_name then tops f n else None)
        \<and> move_all (map fst es) e = (f2, Inr ()) \<and> record_marker hash len f2 = (g, Inr m))"
proof -
  have no_marker: "marker_name \<notin> set (map fst es)"
    using assms(3) by (auto simp: is_own_def)
  obtain f1 r1 where cleared: "empty_dir (\<lambda>n. n = staging_name) f = (f1, r1)"
    by fastforce
  from unmarked_empty_dir [OF assms(1), of "\<lambda>n. n = staging_name"] empty_dir_extract [of "\<lambda>n. n = staging_name" f]
  have f1: "unmarked log f1" "fd_extract f1 = Some es"
    using cleared assms(2) by simp_all
  obtain f2 r2 where moved: "move_all (map fst es) (replied f1) = (f2, r2)"
    by fastforce
  from unmarked_move_all [OF unmarked_same [OF f1(1)] no_marker] have f2: "unmarked log f2"
    using moved by simp
  obtain g r3 where recorded: "record_marker hash len f2 = (g, r3)"
    by fastforce
  from unmarked_record [OF f2, of hash len] record_same [of hash len f2]
  have g: "unmarked log g" "fd_top g = fd_top f2"
    using recorded by simp_all
  show ?thesis
  proof (cases "is_ok r1 \<and> refused (next_reply f1) = None \<and> is_ok r2 \<and> is_ok r3")
    case False
    with assms(4) cleared moved recorded f1 f2 g have "unmarked log f' \<and> \<not> is_ok r"
      by (cases r1; cases r2; cases r3) (auto simp: refill_def ask_def unmarked_same split: option.splits)
    then show ?thesis
      by blast
  next
    case True
    then obtain m where m: "r1 = Inr ()" "r2 = Inr ()" "r3 = Inr m"
      by (auto simp: is_ok_iff)
    with True assms(4) cleared moved recorded f1 have "io_try tx (write_json codec m g) = (f', r)"
      by (simp add: refill_def ask_def)
    then obtain r' where written: "write_json codec m g = (f', r')" and r: "is_ok r = is_ok r'" "r' = Inr () \<Longrightarrow> r = Inr ()"
      by (cases "write_json codec m g"; cases "snd (write_json codec m g)") auto
    from cleared [unfolded m] have tops1: "tops f1 = (\<lambda>n. if n = staging_name then tops f n else None)"
      by (rule emptied)
    from tops1 moved_all [OF moved [unfolded m]] f1(2)
    have "tops f2 = (\<lambda>n. if n \<in> fst ` set es then map_of es n else if n = staging_name then tops f n else None)"
      by (auto simp: fun_eq_iff)
    moreover have "n \<notin> fst ` set es \<Longrightarrow> map_of es n = None" for n
      by (simp add: map_of_eq_None_iff)
    ultimately have "\<not> is_own n \<Longrightarrow> tops g n = map_of es n" for n
      using g(2) by (cases "n \<in> fst ` set es") auto
    note rest = this
    from marker_written [OF g(1) written] show ?thesis
    proof (elim disjE exE conjE)
      fix h bs
      assume h: "unmarked log h" "cd_encode codec m = Some bs" "fd_seen f' = fd_seen h @ [fd_top f']"
        "tops f' = (tops g)(pending_name := None, marker_name \<mapsto> Regular bs)" "r' = Inr ()"
      then have "filled es bs f'"
        using rest by (auto simp: filled_def is_own_def)
      with h r(2) f1(2) cleared moved recorded m tops1 show ?thesis
        by (intro disjI2 exI [of _ "replied f1"] exI [of _ f2] exI [of _ g] exI [of _ h] exI [of _ m] exI [of _ bs])
          simp
    qed (use r(1) in simp)
  qed
qed

text \<open>Up to the refill, the folder's own entries do not move but for the marker.\<close>

lemma unpack_stages:
  assumes "unpack tx ua codec name archive hash len f = (f', r)"
  shows "(fd_seen f' = fd_seen f \<and> fd_top f' = fd_top f \<and> \<not> is_ok r)
    \<or> (\<exists>created x s g. extract_archive (extract_env (ua_env ua)) (Some name) name (ua_open ua archive) created (ua_root ua)
          = Inr (x, Inr s)
        \<and> fd_extract g = Some (ua_contents ua (root_dir (x_root x))) \<and> unmarked (fd_seen f) g
        \<and> tops g = (tops f)(marker_name := None) \<and> refill tx codec hash len g = (f', r))"
proof -
  obtain f1 r1 where cleaned: "remove_extract f = (f1, r1)"
    by fastforce
  then have f1: "fd_top f1 = fd_top f" "fd_seen f1 = fd_seen f"
    by (auto simp: remove_extract_def split: option.splits)
  obtain f2 r2 where extracted: "run_extract ua name archive f1 = (f2, r2)"
    by fastforce
  then have f2: "fd_top f2 = fd_top f" "fd_seen f2 = fd_seen f"
    using f1 by (auto simp: run_extract_def ask_def split: sum.splits option.splits)
  obtain f3 r3 where unmark: "remove_if_present marker_name False f2 = (f3, r3)"
    by fastforce
  show ?thesis
  proof (cases "is_ok r1 \<and> is_ok r2 \<and> is_ok r3")
    case False
    with assms cleaned extracted unmark f1 f2 show ?thesis
      by (cases r1; cases r2; cases r3)
        (auto simp: unpack_def remove_if_present_def fs_remove_file_def io_kind_error_def
          split: option.splits if_splits sum.splits)
  next
    case True
    then obtain s where oks: "r1 = Inr ()" "r2 = Inr s" "r3 = Inr ()"
      by (auto simp: is_ok_iff)
    obtain created x where
      ran: "extract_archive (extract_env (ua_env ua)) (Some name) name (ua_open ua archive) created (ua_root ua)
          = Inr (x, Inr s)" "fd_extract f2 = Some (ua_contents ua (root_dir (x_root x)))"
      using extracted oks(2) by (auto simp: run_extract_def ask_def split: sum.splits option.splits)
    have tops: "tops f3 = (tops f)(marker_name := None)"
      using removed [of marker_name False f2 f3 "()"] unmark oks(3) f2 by simp
    have "fd_seen f3 = fd_seen f \<or> fd_seen f3 = fd_seen f @ [fd_top f3]"
      using unmark oks(3) f2
      by (auto simp: remove_if_present_def fs_remove_file_def split: option.splits if_splits sum.splits)
    with tops have "unmarked (fd_seen f) f3"
      by (auto simp: unmarked_def)
    moreover have "fd_extract f3 = fd_extract f2"
      using unmark extract_kept [of marker_name False f2] by simp
    moreover have "refill tx codec hash len f3 = (f', r)"
      using assms cleaned extracted unmark oks by (simp add: unpack_def refill_def)
    ultimately show ?thesis
      using ran tops by auto
  qed
qed

definition codec_ok :: "'a codec \<Rightarrow> bool" where
  "codec_ok codec \<longleftrightarrow> (\<forall>a bs. cd_encode codec a = Some bs \<longrightarrow> cd_decode codec bs = Some a)"

text \<open>The folder holds just what an extraction of the archive that succeeded made, and a marker for
  it.\<close>

definition whole_install ::
    "'d unarchiver \<Rightarrow> marker codec \<Rightarrow> follow \<Rightarrow> string \<Rightarrow> bytes \<Rightarrow> string \<Rightarrow> nat \<Rightarrow> entries \<Rightarrow> bool" where
  "whole_install ua codec follow name archive hash len es \<longleftrightarrow>
    (\<exists>created x s m.
      extract_archive (extract_env (ua_env ua)) (Some name) name (ua_open ua archive) created (ua_root ua)
        = Inr (x, Inr s)
      \<and> (\<forall>n. \<not> is_own n \<longrightarrow> map_of es n = map_of (ua_contents ua (root_dir (x_root x))) n)
      \<and> read_json codec follow es = Some m \<and> mk_hash m = hash \<and> mk_size m = len)"

lemma recorded_names:
  "record_marker hash len f = (g, Inr m) \<Longrightarrow> mk_hash m = hash \<and> mk_size m = len"
  by (auto simp: record_marker_def sbind_Inr)

lemma unpack_log:
  fixes ua :: "'d unarchiver"
  assumes "codec_ok codec" and "\<And>d n. n \<in> fst ` set (ua_contents ua d) \<Longrightarrow> \<not> is_own n"
    and "unpack tx ua codec name archive hash len f = (f', r)"
  shows "\<exists>since. fd_seen f' = fd_seen f @ since
    \<and> list_all (\<lambda>es. read_json codec follow es = None
        \<or> whole_install ua codec follow name archive hash len es) since
    \<and> (if is_ok r then whole_install ua codec follow name archive hash len (fd_top f')
       else fd_top f' = fd_top f \<or> read_json codec follow (fd_top f') = None)"
proof -
  have unread: "map_of es marker_name = None \<Longrightarrow> read_json codec follow es = None" for es
    by (simp add: read_json_def)
  from unpack_stages [OF assms(3)] show ?thesis
  proof (elim disjE exE conjE)
    fix created s g and x :: "'d extractor"
    let ?es = "ua_contents ua (root_dir (x_root x))"
    assume ran: "extract_archive (extract_env (ua_env ua)) (Some name) name (ua_open ua archive) created (ua_root ua)
        = Inr (x, Inr s)"
      and g: "fd_extract g = Some ?es" "unmarked (fd_seen f) g" "refill tx codec hash len g = (f', r)"
    have "\<forall>n \<in> fst ` set ?es. \<not> is_own n"
      using assms(2) by blast
    from refilled [OF g(2,1) this g(3)] show ?thesis
    proof (elim disjE exE conjE)
      assume "unmarked (fd_seen f) f'" "\<not> is_ok r"
      then show ?thesis
        using unread by (auto simp: unmarked_def list_all_iff)
    next
      fix f2 g' h m bs
      assume final: "r = Inr ()" "filled ?es bs f'" "cd_encode codec m = Some bs" "unmarked (fd_seen f) h"
        "fd_seen f' = fd_seen h @ [fd_top f']" "record_marker hash len f2 = (g', Inr m)"
      then have "whole_install ua codec follow name archive hash len (fd_top f')"
        using ran assms(1) recorded_names [of hash len f2 g' m]
        unfolding whole_install_def by (fastforce simp: filled_def read_json_def codec_ok_def)
      with final show ?thesis
        using unread by (auto simp: unmarked_def list_all_iff)
    qed
  qed auto
qed

text \<open>C23. A marker stands over a complete install only. However the disk answers, and wherever the process
  stops, the folder is at every moment of an unpacking either as it was found, or without a marker, or
  it holds exactly what a successful extraction of the archive made, with the marker for the archive's
  hash and size; and only the last is a success. This is for archives with no top-level entry named like
  one of the installer's own: the code does not check that, and such an entry can end up as the marker.\<close>

theorem marker_only_over_complete_install:
  fixes ua :: "'d unarchiver"
  assumes "codec_ok codec" and "\<And>d n. n \<in> fst ` set (ua_contents ua d) \<Longrightarrow> \<not> is_own n"
    and "unpack tx ua codec name archive hash len f = (f', r)"
  shows "\<exists>since. fd_seen f' = fd_seen f @ since
    \<and> list_all (\<lambda>es. read_json codec follow es = None
        \<or> whole_install ua codec follow name archive hash len es) since
    \<and> (if is_ok r then whole_install ua codec follow name archive hash len (fd_top f')
       else fd_top f' = fd_top f \<or> read_json codec follow (fd_top f') = None)"
  by (rule unpack_log [OF assms])

section \<open>An install is found intact\<close>

lemma update_new: "n \<notin> fst ` set es \<Longrightarrow> AList.update n v es = es @ [(n, v)]"
  by (induction es) auto

lemma moved_list:
  assumes "move_all (map fst es) f = (f', Inr u)" and "fd_extract f = Some es"
    and "distinct (map fst es)" and "fst ` set (fd_top f) \<inter> fst ` set es = {}"
  shows "fd_top f' = fd_top f @ es"
  using assms
proof (induction es arbitrary: f)
  case (Cons entry es)
  obtain n node where entry: "entry = (n, node)"
    by fastforce
  from Cons.prems(1) entry obtain g where step: "move_in n (replied f) = (g, Inr ())"
    and rest: "move_all (map fst es) g = (f', Inr u)"
    by (auto simp: sbind_Inr ask_def split: option.splits)
  have fresh: "n \<notin> fst ` set (fd_top f)" "n \<notin> fst ` set es"
    using Cons.prems(3,4) entry by auto
  have "fd_top g = AList.update n node (fd_top f)" "fd_extract g = Some (AList.delete n es)"
    using step Cons.prems(2) entry by (auto simp: move_in_def split: option.splits)
  moreover have "AList.delete n es = es"
    using fresh(2) by (induction es) auto
  ultimately have g: "fd_top g = fd_top f @ [(n, node)]" "fd_extract g = Some es"
    using fresh(1) by (simp_all add: update_new)
  then have "fst ` set (fd_top g) \<inter> fst ` set es = {}"
    using Cons.prems(4) fresh by auto
  with Cons.IH [OF rest g(2)] Cons.prems(3) g(1) entry show ?case
    by simp
qed auto

lemma unpack_intact:
  fixes ua :: "'d unarchiver"
  assumes "codec_ok codec" and "staging_name \<notin> fst ` set (fd_top f)"
    and "\<And>d. tree_ok (ua_contents ua d) \<and> tree_leaves [] (ua_contents ua d) \<noteq> []
      \<and> list_all (\<lambda>(n, _). \<not> is_own n) (ua_contents ua d)"
    and "unpack tx ua codec name archive hash len f = (f', Inr ())"
  shows "\<exists>m. read_json codec follow (fd_top f') = Some m \<and> marker_intact follow (fd_top f') m
    \<and> mk_hash m = hash \<and> mk_size m = len
    \<and> (\<exists>d. \<forall>n. \<not> is_own n \<longrightarrow> map_of (fd_top f') n = map_of (ua_contents ua d) n)"
proof -
  from unpack_stages [OF assms(4)] obtain g and x :: "'d extractor" where
    g: "fd_extract g = Some (ua_contents ua (root_dir (x_root x)))" "unmarked (fd_seen f) g"
      "tops g = (tops f)(marker_name := None)" "refill tx codec hash len g = (f', Inr ())"
    by auto
  define es where "es = ua_contents ua (root_dir (x_root x))"
  have es: "tree_ok es" "tree_leaves [] es \<noteq> []" "\<forall>n \<in> fst ` set es. \<not> is_own n"
    using assms(3) [of "root_dir (x_root x)"] by (auto simp: es_def list_all_iff)
  from refilled [OF g(2) g(1) [folded es_def] es(3) g(4)] obtain e f2 h m bs where
    filled: "filled es bs f'" "cd_encode codec m = Some bs" and e: "fd_extract e = Some es"
      "tops e = (\<lambda>n. if n = staging_name then tops g n else None)"
    and moved: "move_all (map fst es) e = (f2, Inr ())" and recorded: "record_marker hash len f2 = (h, Inr m)"
    by auto
  have "tops e = Map.empty"
    using e(2) g(3) assms(2) by (auto simp: map_of_eq_None_iff)
  then have "fd_top e = []"
    by simp
  moreover have "distinct (map fst es)"
    using es(1) by (induction es rule: tree_ok.induct) auto
  ultimately have "fd_top f2 = es"
    using moved_list [OF moved e(1)] by simp
  then have "mk_files m = sort_key in_path (tree_leaves [] es)" "mk_hash m = hash" "mk_size m = len"
    using recorded by (auto simp: record_marker_def sbind_Inr ask_def dest: walk_leaves split: option.splits)
  moreover have top: "map_of (fd_top f') n = map_of es n" if "\<not> is_own n" for n
    using filled(1) that by (simp add: filled_def)
  moreover have "read_json codec follow (fd_top f') = Some m"
    using filled assms(1) by (simp add: filled_def read_json_def codec_ok_def)
  ultimately show ?thesis
    using recorded_intact [OF es(1,2)] top unfolding es_def by blast
qed

text \<open>C24. What an unpacking that succeeded leaves is found intact: the marker is read back, and every entry it
  records is there at its recorded size, so a later launch keeps the install and asks nobody. This is for an archive
  that holds at least one file or link, whose names are unique and valid UTF-8, and whose top-level names are none of
  the installer's own, unpacked into a folder with no entry named like the staging one.\<close>

theorem unpacked_is_intact:
  fixes ua :: "'d unarchiver"
  assumes "codec_ok codec" and "staging_name \<notin> fst ` set (fd_top f)"
    and "\<And>d. tree_ok (ua_contents ua d) \<and> tree_leaves [] (ua_contents ua d) \<noteq> []
      \<and> list_all (\<lambda>(n, _). \<not> is_own n) (ua_contents ua d)"
    and "unpack tx ua codec name archive hash len f = (f', Inr ())"
  shows "\<exists>m. read_json codec follow (fd_top f') = Some m \<and> marker_intact follow (fd_top f') m
    \<and> mk_hash m = hash \<and> mk_size m = len"
  using unpack_intact [OF assms] by blast

section \<open>A concrete install\<close>

definition demo_contents :: entries where
  "demo_contents = [(''lib'', Directory [(''a.so'', Symbolic ''a.so.1''), (''a.so.1'', Regular [1, 2])])]"

definition demo_unarchiver :: "unit unarchiver" where
  "demo_unarchiver = \<lparr> ua_env = demo_env, ua_open = (\<lambda>_. demo_archive), ua_root = Inr (),
     ua_contents = (\<lambda>_. demo_contents) \<rparr>"

definition demo_marker :: marker where
  "demo_marker = \<lparr> mk_hash = ''ab'', mk_size = 9, mk_files =
     [\<lparr> in_path = ''lib/a.so'', in_size = 6 \<rparr>, \<lparr> in_path = ''lib/a.so.1'', in_size = 2 \<rparr>] \<rparr>"

text \<open>A codec that knows one marker, and a folder with an older install.\<close>

definition demo_codec :: "marker codec" where
  "demo_codec = \<lparr> cd_encode = (\<lambda>m. if m = demo_marker then Some [7] else None),
     cd_decode = (\<lambda>bs. if bs = [7] then Some demo_marker else None) \<rparr>"

definition demo_folder :: folder where
  "demo_folder = \<lparr> fd_top = [(marker_name, Regular [8]), (''old'', Directory [])], fd_staging = True,
     fd_extract = None, fd_replies = [], fd_reports = [], fd_seen = [] \<rparr>"

definition demo_texts :: texts where
  "demo_texts = \<lparr> tx_io = (\<lambda>_. ''io''), tx_fs = (\<lambda>_. ''fs'') \<rparr>"

lemma demo_unpacks:
  "map_prod fd_top id (unpack demo_texts demo_unarchiver demo_codec ''a.zip'' [] ''ab'' 9 demo_folder)
    = ([(''lib'', Directory [(''a.so'', Symbolic ''a.so.1''), (''a.so.1'', Regular [1, 2])]), (marker_name, Regular [7])],
       Inr ())"
  by code_simp

lemma demo_codec_ok: "codec_ok demo_codec"
  by (simp add: codec_ok_def demo_codec_def)

lemma demo_contents_ok:
  "tree_ok demo_contents" "tree_leaves [] demo_contents \<noteq> []" "list_all (\<lambda>(n, _). \<not> is_own n) demo_contents"
  by code_simp+

theorem marker_only_over_complete_install_witness:
  "whole_install demo_unarchiver demo_codec (\<lambda>_ _. None) ''a.zip'' [] ''ab'' 9
     (fd_top (fst (unpack demo_texts demo_unarchiver demo_codec ''a.zip'' [] ''ab'' 9 demo_folder)))"
proof -
  let ?run = "unpack demo_texts demo_unarchiver demo_codec ''a.zip'' [] ''ab'' 9 demo_folder"
  have "is_ok (snd ?run)"
    using demo_unpacks by (cases ?run) simp
  moreover have "\<not> is_own n" if "n \<in> fst ` set (ua_contents demo_unarchiver d)" for d n
    using that demo_contents_ok(3) by (auto simp: demo_unarchiver_def list_all_iff)
  ultimately show ?thesis
    using marker_only_over_complete_install [OF demo_codec_ok, of demo_unarchiver demo_texts "''a.zip''" "[]" "''ab''" 9
        demo_folder "fst ?run" "snd ?run" "\<lambda>_ _. None"]
    by auto
qed

theorem unpacked_is_intact_witness:
  "\<exists>m. read_json demo_codec (\<lambda>_ _. None)
      (fd_top (fst (unpack demo_texts demo_unarchiver demo_codec ''a.zip'' [] ''ab'' 9 demo_folder))) = Some m
    \<and> mk_hash m = ''ab''"
proof -
  let ?run = "unpack demo_texts demo_unarchiver demo_codec ''a.zip'' [] ''ab'' 9 demo_folder"
  have "?run = (fst ?run, Inr ())"
    using demo_unpacks by (cases ?run) simp
  moreover have "staging_name \<notin> fst ` set (fd_top demo_folder)"
    by (simp add: demo_folder_def staging_name_def marker_name_def)
  ultimately show ?thesis
    using unpacked_is_intact [OF demo_codec_ok, of demo_folder demo_unarchiver demo_texts "''a.zip''" "[]" "''ab''" 9
        "fst ?run" "\<lambda>_ _. None"] demo_contents_ok
    by (auto simp: demo_unarchiver_def)
qed

end
