(* ===== verification/Install_Fetch.thy ===== *)
theory Install_Fetch
  imports Hub Install_Unpack
begin

text \<open>
  The download half of \<open>ai/install.rs\<close>: a file of a listing is downloaded by the downloader of this
  development into staging, and checked against the hash the hub reported; one that does not match
  is deleted with its partial and sidecar, and downloaded once more when bytes already on disk were
  used. And \<open>ai/progress.rs\<close>: the fraction done an install reports. The staged files are those of
  the download's disk.
\<close>

section \<open>What is outside\<close>

text \<open>\<open>fw_chunks\<close> is how reading a file divides its bytes, or fails.\<close>

record ('h, 'g, 'm, 'p, 'n, 'b, 'j, 'c) fetch_world =
  fw_headers :: "'m header_calls"
  fw_reqwest :: "('m, 'p, 'n, 'b, 'c) reqwest"
  fw_built_url :: "('m, 'j, 'c) outgoing \<Rightarrow> string option"
  fw_job :: "('m, 'j, 'c) prepared_request \<Rightarrow> 'h job"
  fw_idle :: "'h job"
  fw_hashers :: "('h, 'g) hashers"
  fw_chunks :: "bytes \<Rightarrow> read_event list"
  fw_texts :: texts

text \<open>What a transfer tells its caller.\<close>

datatype step = On_Disk nat | Hashing

record ('h, 'm, 'c) transferring =
  ts_fetch :: "('m, 'c) fetch"
  ts_disk :: "'h transfer"
  ts_steps :: "step list"

definition tell :: "step \<Rightarrow> ('h, 'm, 'c) transferring \<Rightarrow> ('h, 'm, 'c) transferring" where
  "tell st s = s\<lparr>ts_steps := ts_steps s @ [st]\<rparr>"

definition on_disk ::
    "('h transfer \<Rightarrow> 'h transfer \<times> 'a) \<Rightarrow> ('h, 'm, 'c) transferring \<Rightarrow> ('h, 'm, 'c) transferring \<times> 'a" where
  "on_disk f s = (case f (ts_disk s) of (w, a) \<Rightarrow> (s\<lparr>ts_disk := w\<rparr>, a))"

section \<open>Downloading and verifying\<close>

definition is_staged :: "string \<Rightarrow> 'h transfer \<Rightarrow> 'h transfer \<times> bool" where
  "is_staged path w = (case file_metadata w path of (w, r) \<Rightarrow> (w, is_ok r))"

definition already_on_disk :: "string \<Rightarrow> 'h transfer \<Rightarrow> 'h transfer \<times> nat" where
  "already_on_disk path w =
    (case file_metadata w path of
       (w, Inr len) \<Rightarrow> (w, len)
     | (w, Inl _) \<Rightarrow> (case file_metadata w (part_path path) of
         (w, Inr len) \<Rightarrow> (w, len) | (w, Inl _) \<Rightarrow> (w, 0)))"

definition download_failure :: "texts \<Rightarrow> download_error \<Rightarrow> failure" where
  "download_failure tx cause =
    (case cause of
       Http e \<Rightarrow> (case err_status e of Some status \<Rightarrow> Http_Answer status | None \<Rightarrow> Network)
     | Io_Failed e \<Rightarrow> failure_of_io tx e
     | Cancelled \<Rightarrow> Network)"

definition discard_staged :: "string \<Rightarrow> 'h transfer \<Rightarrow> 'h transfer \<times> (io_error + unit)" where
  "discard_staged staged w =
    sbind (remove_if_there w staged) (\<lambda>w _.
    sbind (remove_if_there w (part_path staged)) (\<lambda>w _.
    remove_if_there w (sidecar_path staged)))"

text \<open>The hash of the file on disk, of the expected kind.\<close>

definition staged_hash ::
    "('h, 'g) hashers \<Rightarrow> (bytes \<Rightarrow> read_event list) \<Rightarrow> hash \<Rightarrow> string \<Rightarrow> 'h transfer
      \<Rightarrow> 'h transfer \<times> (io_error + string)" where
  "staged_hash hs chunks expected path w =
    (case (case expected of Sha256_Hex _ \<Rightarrow> (w, Inr 0) | Git_Blob_Sha1 _ \<Rightarrow> file_metadata w path) of
       (w, metadata) \<Rightarrow>
     case read_file w path of
       (w, r) \<Rightarrow> (w, rbind (hash_of_file hs expected metadata (rbind r (\<lambda>b. Inr (chunks b))))
                       (\<lambda>h. Inr (hash_hex h))))"

definition hashed_options :: "'m header_calls \<Rightarrow> hash \<Rightarrow> ('m, 'j) request_options" where
  "hashed_options hm expected =
    (let options = with_resume_across_urls True (with_resume_key (hash_hex expected) (options_new hm)) in
     case expected of Sha256_Hex _ \<Rightarrow> with_digest Sha256 options | Git_Blob_Sha1 _ \<Rightarrow> options)"

definition fetch_hashed ::
    "('h, 'g, 'm, 'p, 'n, 'b, 'j, 'c) fetch_world \<Rightarrow> string \<Rightarrow> string \<Rightarrow> hash \<Rightarrow> ('h, 'm, 'c) transferring
      \<Rightarrow> ('h, 'm, 'c) transferring \<times> (failure + string)" where
  "fetch_hashed fw url staged expected s =
    (case on_disk (is_staged staged) s of (s, was_staged) \<Rightarrow>
     case on_disk (already_on_disk staged) s of (s, there) \<Rightarrow>
     let s = tell (On_Disk there) s in
     case download_with_options (fw_reqwest fw) (fw_built_url fw) (fw_job fw) (fw_idle fw) (ts_fetch s) url staged
            (hashed_options (fw_headers fw) expected) ((ts_disk s)\<lparr>t_updates := []\<rparr>) of
       (f, w, digest, r) \<Rightarrow>
         let s = fold (\<lambda>p. tell (On_Disk (pg_downloaded p))) (t_updates w) (s\<lparr>ts_fetch := f, ts_disk := w\<rparr>) in
         (case r of
            Inl cause \<Rightarrow> (s, Inl (download_failure (fw_texts fw) cause))
          | Inr _ \<Rightarrow> (case digest of
              Some d \<Rightarrow> (s, Inr d)
            | None \<Rightarrow>
                io_try (fw_texts fw) (on_disk (staged_hash (fw_hashers fw) (fw_chunks fw) expected staged)
                  (if was_staged then tell Hashing s else s)))))"

definition fetch_verified ::
    "('h, 'g, 'm, 'p, 'n, 'b, 'j, 'c) fetch_world \<Rightarrow> string \<Rightarrow> string \<Rightarrow> remote_file \<Rightarrow> bool \<Rightarrow> ('h, 'm, 'c) transferring
      \<Rightarrow> ('h, 'm, 'c) transferring \<times> (failure + unit)" where
  "fetch_verified fw url staged f retry s =
    (let damaged = (\<lambda>digest. Damaged (rf_path f) (hash_hex (rf_hash f)) digest);
         discard = (\<lambda>s. io_try (fw_texts fw) (on_disk (discard_staged staged) s)) in
     sbind (fetch_hashed fw url staged (rf_hash f) s) (\<lambda>s digest.
     if hash_matches (rf_hash f) digest then (s, Inr ())
     else sbind (discard s) (\<lambda>s _.
       if \<not> retry then (s, Inl (damaged digest))
       else sbind (fetch_hashed fw url staged (rf_hash f) s) (\<lambda>s digest.
         if hash_matches (rf_hash f) digest then (s, Inr ())
         else sbind (discard s) (\<lambda>s _. (s, Inl (damaged digest)))))))"

section \<open>What a digest stands for\<close>

fun content_hash :: "('h, 'g) hashers \<Rightarrow> hash \<Rightarrow> bytes \<Rightarrow> string" where
  "content_hash hs (Sha256_Hex _) b = bytes_hash (hs_sha256 hs) b"
| "content_hash hs (Git_Blob_Sha1 _) b = git_blob_sha1_bytes (hs_sha1 hs) b"

text \<open>The crates hash as documented, the downloader with the same SHA-256, and a file is read as it is or
  not at all.\<close>

definition world_ok :: "('h, 'g, 'm, 'p, 'n, 'b, 'j, 'c) fetch_world \<Rightarrow> bool" where
  "world_ok fw \<longleftrightarrow> hash_ok (hs_sha256 (fw_hashers fw)) \<and> hash_ok (hs_sha1 (fw_hashers fw))
    \<and> (\<forall>p. j_hash (fw_job fw p) = hs_sha256 (fw_hashers fw))
    \<and> j_hash (fw_idle fw) = hs_sha256 (fw_hashers fw)
    \<and> (\<forall>b. case delivered (fw_chunks fw b) of Inr b' \<Rightarrow> b' = b | Inl _ \<Rightarrow> True)"

lemma hash_of_bytes: "h_finish hf (hash_of hf c) = bytes_hash hf c"
  by (simp add: hash_of_def bytes_hash_def)

lemma metadata_leaves: "file_metadata d p = (d', r) \<Longrightarrow> leaves (d_files d) d d'"
  and read_leaves: "read_file d p = (d', r') \<Longrightarrow> leaves (d_files d) d d'"
  by (auto simp: file_metadata_def read_file_def on_file_def leaves_def split: option.splits)

lemmas metadata_files = metadata_leaves [THEN leaves_transfer(1)]
  and read_files = read_leaves [THEN leaves_transfer(1)]

lemma metadata_len: "file_metadata d p = (d', Inr n) \<Longrightarrow> \<exists>b. d_files d p = Some b \<and> n = length b"
  and read_content: "read_file d p = (d', Inr b) \<Longrightarrow> d_files d p = Some b"
  by (auto simp: file_metadata_def read_file_def on_file_def split: option.splits)

lemma staged_hash_content:
  assumes "world_ok fw" and "staged_hash (fw_hashers fw) (fw_chunks fw) expected path w = (w', Inr digest)"
  shows "d_files w' = d_files w
    \<and> (\<exists>b. d_files w path = Some b \<and> digest = content_hash (fw_hashers fw) expected b)"
proof -
  obtain w1 metadata where m: "(case expected of Sha256_Hex _ \<Rightarrow> (w, Inr 0) | Git_Blob_Sha1 _ \<Rightarrow> file_metadata w path)
      = (w1, metadata)"
    by fastforce
  obtain w2 r where rd: "read_file w1 path = (w2, r)"
    by fastforce
  from m have files: "d_files w1 = d_files w"
    by (auto split: hash.splits dest: metadata_files)
  with rd have files2: "d_files w2 = d_files w"
    by (auto dest: read_files)
  from assms(2) m rd have out: "w' = w2"
    "rbind (hash_of_file (fw_hashers fw) expected metadata (rbind r (\<lambda>b. Inr (fw_chunks fw b)))) (\<lambda>h. Inr (hash_hex h))
      = Inr digest"
    by (simp_all add: staged_hash_def)
  then obtain b where b: "r = Inr b"
    by (cases r; cases expected; cases metadata)
      (auto simp: rbind_Inr file_hash_def for_each_chunk_def git_blob_sha1_file_def)
  then have there: "d_files w path = Some b"
    using rd files read_content by fastforce
  have "case delivered (fw_chunks fw b) of Inr b' \<Rightarrow> b' = b | Inl _ \<Rightarrow> True"
    using assms(1) by (simp add: world_ok_def)
  moreover have "hash_ok (hs_sha256 (fw_hashers fw))" "hash_ok (hs_sha1 (fw_hashers fw))"
    using assms(1) by (simp_all add: world_ok_def)
  ultimately have "digest = content_hash (fw_hashers fw) expected b"
    using out(2) b file_hash_of_delivered [of "hs_sha256 (fw_hashers fw)" "Inr (fw_chunks fw b)"]
      file_hash_of_delivered [of "hs_sha1 (fw_hashers fw)" "Inr (fw_chunks fw b)" metadata]
    by (cases expected) (auto simp: rbind_Inr split: sum.splits if_splits)
  with there out(1) files2 show ?thesis
    by auto
qed

lemma stream_to_file_refused: "stream_to_file j (Inl e) w = (w, Inl (Http e))"
  by (simp add: stream_to_file_def)

lemma download_is_a_job:
  assumes "download_with_options rw built job idle f url path opts w = (f', w', digest, Inr ())"
  shows "\<exists>p j w1. j_hash j = j_hash (job p) \<and> j_path j = path \<and> j_algorithm j = ro_digest opts
    \<and> stream_to_file j (Inr ()) w = (w1, Inr digest) \<and> d_files w' = d_files w1"
proof (cases "snd (prepare rw f url opts)")
  case (Inl e)
  with assms show ?thesis
    by (cases "prepare rw f url opts")
      (simp add: download_with_options_def run_download_def stream_to_file_refused)
next
  case (Inr p)
  define j where "j = (job p)\<lparr>j_retries := pr_retries p, j_path := path,
    j_mode := (case ro_download_mode opts of Some m \<Rightarrow> m | None \<Rightarrow> fe_download_mode f),
    j_ident := \<lparr> id_url = effective_url built p, id_resume_key = ro_resume_key opts,
                 id_across_urls = ro_resume_across_urls opts \<rparr>,
    j_algorithm := ro_digest opts\<rparr>"
  obtain w1 r where run: "stream_to_file j (Inr ()) w = (w1, r)"
    by fastforce
  have "run_download j (Inr ()) w = (w', digest, Inr ())"
    using assms Inr by (cases "prepare rw f url opts") (auto simp: download_with_options_def j_def)
  then have "r = Inr digest" "d_files w' = d_files w1"
    using run by (auto simp: run_download_def Let_def split: sum.splits)
  with run show ?thesis
    by (intro exI [of _ p] exI [of _ j] exI [of _ w1]) (simp add: j_def)
qed

lemma hashed_options_digest:
  "ro_digest (hashed_options hm expected) = (case expected of Sha256_Hex _ \<Rightarrow> Some Sha256 | Git_Blob_Sha1 _ \<Rightarrow> None)"
  by (simp add: hashed_options_def with_digest_def with_resume_across_urls_def with_resume_key_def
      options_new_def split: hash.split)

lemma download_digest_content:
  assumes "world_ok fw"
    and "download_with_options (fw_reqwest fw) (fw_built_url fw) (fw_job fw) (fw_idle fw) f url staged
      (hashed_options hm expected) w = (f', w', Some digest, Inr ())"
  shows "\<exists>b. d_files w' staged = Some b \<and> digest = content_hash (fw_hashers fw) expected b"
proof -
  from download_is_a_job [OF assms(2)] obtain p j w1
    where j: "j_hash j = j_hash (fw_job fw p)" "j_path j = staged"
      "j_algorithm j = (case expected of Sha256_Hex _ \<Rightarrow> Some Sha256 | Git_Blob_Sha1 _ \<Rightarrow> None)"
    and run: "stream_to_file j (Inr ()) w = (w1, Inr (Some digest))" "d_files w' = d_files w1"
    unfolding hashed_options_digest by blast
  from assms(1) j(1) have hash: "j_hash j = hs_sha256 (fw_hashers fw)" "hash_ok (j_hash j)"
    by (simp_all add: world_ok_def)
  from stream_to_file_spec [OF hash(2), of None w "Inr ()"] run j(2,3) hash(1) show ?thesis
    by (cases expected) (auto simp: arrived_def hash_of_bytes)
qed

lemma tell_disk [simp]: "ts_disk (tell st s) = ts_disk s"
  by (simp add: tell_def)

lemma tells_disk [simp]: "ts_disk (fold (\<lambda>p. tell (g p)) ps s) = ts_disk s"
  by (induction ps arbitrary: s) simp_all

lemma io_try_damaged [simp]: "io_try tx m \<noteq> (s, Inl (Damaged p e a))"
  by (cases m; cases "snd m") (auto simp: io_try_def failure_of_io_def)

lemma on_disk_Inr: "on_disk f s = (s', a) \<Longrightarrow> f (ts_disk s) = (ts_disk s', a)"
  by (cases "f (ts_disk s)") (auto simp: on_disk_def)

lemma fetch_hashed_content:
  fixes fw :: "('h, 'g, 'm, 'p, 'n, 'b, 'j, 'c) fetch_world"
  assumes "world_ok fw" and "fetch_hashed fw url staged expected s = (s', Inr digest)"
  shows "\<exists>b. d_files (ts_disk s') staged = Some b \<and> digest = content_hash (fw_hashers fw) expected b"
proof -
  obtain s1 was_staged where s1: "on_disk (is_staged staged) s = (s1, was_staged)"
    by fastforce
  obtain s2 there where s2: "on_disk (already_on_disk staged) s1 = (s2, there)"
    by fastforce
  define s3 where "s3 = tell (On_Disk there) s2"
  obtain f w dg r where dl: "download_with_options (fw_reqwest fw) (fw_built_url fw) (fw_job fw) (fw_idle fw)
      (ts_fetch s3) url staged (hashed_options (fw_headers fw) expected) ((ts_disk s3)\<lparr>t_updates := []\<rparr>)
      = (f, w, dg, r)"
    by (rule prod_cases4)
  define s4 where "s4 = fold (\<lambda>p. tell (On_Disk (pg_downloaded p))) (t_updates w) (s3\<lparr>ts_fetch := f, ts_disk := w\<rparr>)"
  have out: "(case r of Inl cause \<Rightarrow> (s4, Inl (download_failure (fw_texts fw) cause))
      | Inr _ \<Rightarrow> (case dg of Some d \<Rightarrow> (s4, Inr d)
          | None \<Rightarrow> io_try (fw_texts fw) (on_disk (staged_hash (fw_hashers fw) (fw_chunks fw) expected staged)
              (if was_staged then tell Hashing s4 else s4)))) = (s', Inr digest)"
    using assms(2) s1 s2 dl unfolding s4_def s3_def by (simp add: fetch_hashed_def Let_def)
  then have ok: "r = Inr ()"
    by (cases r) auto
  show ?thesis
  proof (cases dg)
    case None
    with out ok have "staged_hash (fw_hashers fw) (fw_chunks fw) expected staged
        (ts_disk (if was_staged then tell Hashing s4 else s4)) = (ts_disk s', Inr digest)"
      by (intro on_disk_Inr) (simp add: io_try_Inr)
    from staged_hash_content [OF assms(1) this] show ?thesis
      by auto
  next
    case (Some d)
    with out ok have "s' = s4" "d = digest"
      by auto
    with download_digest_content [OF assms(1)] dl ok Some show ?thesis
      by (simp add: s4_def)
  qed
qed

lemma fetch_hashed_undamaged: "fetch_hashed fw url staged expected s \<noteq> (s', Inl (Damaged p e a))"
proof
  assume "fetch_hashed fw url staged expected s = (s', Inl (Damaged p e a))"
  moreover have "download_failure tx cause \<noteq> Damaged p e a" for tx cause
    by (auto simp: download_failure_def failure_of_io_def split: download_error.splits option.splits)
  ultimately show False
    by (auto simp: fetch_hashed_def Let_def split: prod.splits sum.splits option.splits if_splits)
qed

abbreviation gone :: "string \<Rightarrow> ('h, 'm, 'c) transferring \<Rightarrow> bool" where
  "gone staged s \<equiv> d_files (ts_disk s) staged = None \<and> d_files (ts_disk s) (part_path staged) = None
    \<and> d_files (ts_disk s) (sidecar_path staged) = None"

abbreviation verified_ends ::
    "('h, 'g) hashers \<Rightarrow> string \<Rightarrow> hash \<Rightarrow> ('h, 'm, 'c) transferring \<Rightarrow> failure + unit \<Rightarrow> bool" where
  "verified_ends hs staged h s r \<equiv> (case r of
      Inr _ \<Rightarrow> (case d_files (ts_disk s) staged of
        Some b \<Rightarrow> hash_matches h (content_hash hs h b) | None \<Rightarrow> False)
    | Inl (Damaged _ _ _) \<Rightarrow> gone staged s
    | Inl _ \<Rightarrow> True)"

lemma spec_on_disk: "spec (on_disk f s) Q E = spec (f (ts_disk s)) (\<lambda>w a. Q (s\<lparr>ts_disk := w\<rparr>) a) (\<lambda>w e. E (s\<lparr>ts_disk := w\<rparr>) e)"
  by (cases "f (ts_disk s)"; cases "snd (f (ts_disk s))") (auto simp: on_disk_def)

lemma spec_io_try: "spec (io_try tx m) Q E = spec m Q (\<lambda>s e. E s (failure_of_io tx e))"
  by (cases m; cases "snd m") (auto simp: io_try_def)

lemma discard_spec_staged:
  "spec (io_try tx (on_disk (discard_staged staged) s)) (\<lambda>s' _. gone staged s')
    (\<lambda>s' e. verified_ends hs staged h s' (Inl e))"
  unfolding spec_io_try spec_on_disk discard_staged_def spec_sbind
  by (rule spec_mono [OF remove_if_there_spec], rule spec_mono [OF remove_if_there_spec],
      rule spec_mono [OF remove_if_there_spec])
    (auto simp: leaves_def failure_of_io_def)

lemma fetch_hashed_spec:
  fixes fw :: "('h, 'g, 'm, 'p, 'n, 'b, 'j, 'c) fetch_world"
  assumes "world_ok fw"
  shows "spec (fetch_hashed fw url staged h s)
    (\<lambda>s' digest. hash_matches h digest \<longrightarrow> verified_ends (fw_hashers fw) staged h s' (Inr ()))
    (\<lambda>s' e. verified_ends (fw_hashers fw) staged h s' (Inl e))"
proof -
  obtain s' r where run: "fetch_hashed fw url staged h s = (s', r)"
    by fastforce
  show ?thesis
  proof (cases r)
    case (Inl e)
    with run fetch_hashed_undamaged [of fw url staged h s s'] show ?thesis
      by (cases e) auto
  next
    case (Inr digest)
    with run fetch_hashed_content [OF assms, of url staged h s s' digest] show ?thesis
      by auto
  qed
qed

text \<open>Both ways a transfer ends at a file: it is there and matches, or nothing of it is.\<close>

lemma fetch_verified_ends:
  fixes fw :: "('h, 'g, 'm, 'p, 'n, 'b, 'j, 'c) fetch_world"
  assumes "world_ok fw" and "fetch_verified fw url staged f retry s = (s', r)"
  shows "verified_ends (fw_hashers fw) staged (rf_hash f) s' r"
proof -
  note fetched = fetch_hashed_spec [OF assms(1), of url staged "rf_hash f"]
    and discarded = discard_spec_staged [where tx = "fw_texts fw" and staged = staged and hs = "fw_hashers fw" and h = "rf_hash f"]
  have "spec (fetch_verified fw url staged f retry s)
    (\<lambda>s' _. verified_ends (fw_hashers fw) staged (rf_hash f) s' (Inr ()))
    (\<lambda>s' e. verified_ends (fw_hashers fw) staged (rf_hash f) s' (Inl e))"
    unfolding fetch_verified_def Let_def spec_sbind
  proof (rule spec_mono [OF fetched], goal_cases)
    case (1 s1 digest)
    have again: "spec (fetch_hashed fw url staged (rf_hash f) s2) (\<lambda>s3 digest.
        spec (if hash_matches (rf_hash f) digest then (s3, Inr ())
          else sbind (io_try (fw_texts fw) (on_disk (discard_staged staged) s3))
            (\<lambda>s4 _. (s4, Inl (Damaged (rf_path f) (hash_hex (rf_hash f)) digest))))
        (\<lambda>s' _. verified_ends (fw_hashers fw) staged (rf_hash f) s' (Inr ()))
        (\<lambda>s' e. verified_ends (fw_hashers fw) staged (rf_hash f) s' (Inl e)))
      (\<lambda>s' e. verified_ends (fw_hashers fw) staged (rf_hash f) s' (Inl e))" for s2
      by (rule spec_mono [OF fetched]) (auto intro: spec_mono [OF discarded])
    with 1 show ?case
      by (auto intro!: spec_mono [OF discarded])
  qed
  with assms(2) show ?thesis
    by (cases r) auto
qed

section \<open>The fraction done\<close>

text \<open>The numbers of \<open>f64\<close>, \<open>rnd\<close> being how they round; \<open>fc_high\<close> starts at 0.\<close>

datatype phase = Download_Phase | Extract_Phase

record fraction =
  fc_high :: real

definition fraction_new :: fraction where
  "fraction_new = \<lparr> fc_high = 0 \<rparr>"

definition download_share :: real where
  "download_share = 8 / 10"

definition unfinished :: real where
  "unfinished = 1 - 1 / 2 ^ 53"

definition ratio :: "(real \<Rightarrow> real) \<Rightarrow> nat \<Rightarrow> nat \<Rightarrow> real" where
  "ratio rnd got whole = (if whole = 0 then 1 else min (rnd (rnd (real got) / rnd (real whole))) 1)"

definition report_fraction :: "real \<Rightarrow> fraction \<Rightarrow> fraction \<times> real" where
  "report_fraction x f =
    (let f = f\<lparr>fc_high := max (fc_high f) (min x unfinished)\<rparr> in (f, fc_high f))"

definition fraction_download :: "(real \<Rightarrow> real) \<Rightarrow> nat \<Rightarrow> nat \<Rightarrow> fraction \<Rightarrow> fraction \<times> real" where
  "fraction_download rnd got whole = report_fraction (rnd (rnd download_share * ratio rnd got whole))"

definition fraction_whole :: "(real \<Rightarrow> real) \<Rightarrow> nat \<Rightarrow> nat \<Rightarrow> fraction \<Rightarrow> fraction \<times> real" where
  "fraction_whole rnd got whole = report_fraction (ratio rnd got whole)"

definition fraction_extract :: "(real \<Rightarrow> real) \<Rightarrow> nat \<Rightarrow> nat \<Rightarrow> fraction \<Rightarrow> fraction \<times> real" where
  "fraction_extract rnd got whole =
    report_fraction (rnd (rnd download_share + rnd (rnd (1 - rnd download_share) * ratio rnd got whole)))"

definition fraction_finish :: "fraction \<Rightarrow> fraction \<times> real" where
  "fraction_finish f = (let f = f\<lparr>fc_high := 1\<rparr> in (f, fc_high f))"

text \<open>A run of reports before the end.\<close>

datatype tally = Fetched nat nat | Whole nat nat | Extracted nat nat

fun tally_step :: "(real \<Rightarrow> real) \<Rightarrow> tally \<Rightarrow> fraction \<Rightarrow> fraction \<times> real" where
  "tally_step rnd (Fetched got whole) f = fraction_download rnd got whole f"
| "tally_step rnd (Whole got whole) f = fraction_whole rnd got whole f"
| "tally_step rnd (Extracted got whole) f = fraction_extract rnd got whole f"

fun reported :: "(real \<Rightarrow> real) \<Rightarrow> tally list \<Rightarrow> fraction \<Rightarrow> fraction \<times> real list" where
  "reported rnd [] f = (f, [])"
| "reported rnd (t # ts) f =
    (case tally_step rnd t f of (f, x) \<Rightarrow> case reported rnd ts f of (f, xs) \<Rightarrow> (f, x # xs))"

lemma report_bounds:
  assumes "report_fraction x f = (f', y)" and "fc_high f < 1"
  shows "fc_high f \<le> y \<and> y < 1 \<and> fc_high f' = y"
  using assms by (auto simp: report_fraction_def Let_def unfinished_def)

lemma tally_bounds:
  assumes "tally_step rnd t f = (f', y)" and "fc_high f < 1"
  shows "fc_high f \<le> y \<and> y < 1 \<and> fc_high f' = y"
  using assms report_bounds
  by (cases t) (auto simp: fraction_download_def fraction_whole_def fraction_extract_def)

lemma reported_bounds:
  assumes "reported rnd ts f = (f', xs)" and "fc_high f < 1"
  shows "sorted (fc_high f # xs) \<and> list_all (\<lambda>x. x < 1) xs"
  using assms
proof (induction ts arbitrary: f xs)
  case (Cons t ts)
  from Cons.prems(1) obtain g y ys where step: "tally_step rnd t f = (g, y)"
    and rest: "reported rnd ts g = (f', ys)" and xs: "xs = y # ys"
    by (auto split: prod.splits)
  from tally_bounds [OF step Cons.prems(2)] Cons.IH [OF rest] show ?case
    by (auto simp: xs)
qed simp

section \<open>Properties\<close>

text \<open>However the platform rounds, and whatever the transfer reports - a restart from nothing, more bytes
  than the total, a total of none - the fraction a caller sees never goes down, is below 1 until the
  dependency is installed, and is 1 then.\<close>

theorem fraction_only_grows:
  "let (f, xs) = reported rnd ts fraction_new in
    sorted (0 # xs @ [snd (fraction_finish f)]) \<and> list_all (\<lambda>x. x < 1) xs \<and> snd (fraction_finish f) = 1"
proof -
  obtain f xs where run: "reported rnd ts fraction_new = (f, xs)"
    by fastforce
  from reported_bounds [OF run] have "sorted (0 # xs)" "list_all (\<lambda>x. x < 1) xs"
    by (simp_all add: fraction_new_def)
  then show ?thesis
    by (auto simp: run fraction_finish_def sorted_append list_all_iff intro: less_imp_le)
qed

text \<open>C30. A transfer that succeeds leaves, at the staged path, a file whose own hash is the one the hub reported,
  whether its bytes were downloaded, resumed or there already; one that ends as damaged leaves neither
  the file nor its partial nor the sidecar, so nothing of it is ever resumed.\<close>

theorem verified_archive_matches:
  fixes fw :: "('h, 'g, 'm, 'p, 'n, 'b, 'j, 'c) fetch_world"
  assumes "world_ok fw" and "fetch_verified fw url staged f retry s = (s', r)"
  shows "case r of
      Inr _ \<Rightarrow> (case d_files (ts_disk s') staged of
          Some b \<Rightarrow> hash_matches (rf_hash f) (content_hash (fw_hashers fw) (rf_hash f) b) | None \<Rightarrow> False)
    | Inl (Damaged _ _ _) \<Rightarrow> d_files (ts_disk s') staged = None
        \<and> d_files (ts_disk s') (part_path staged) = None \<and> d_files (ts_disk s') (sidecar_path staged) = None
    | Inl _ \<Rightarrow> True"
  by (rule fetch_verified_ends [OF assms])

definition demo_world ::
    "(bytes, bytes, (string \<times> header_value) list, string, string, string list, unit, string list) fetch_world" where
  "demo_world =
    \<lparr> fw_headers = list_headers, fw_reqwest = plain_reqwest, fw_built_url = (\<lambda>_. None),
      fw_job = (\<lambda>_. demo_job Resume 1), fw_idle = demo_job Resume 1,
      fw_hashers = \<lparr> hs_sha256 = j_hash (demo_job Resume 1), hs_sha1 = j_hash (demo_job Resume 1) \<rparr>,
      fw_chunks = (\<lambda>b. [Chunk b]), fw_texts = demo_texts \<rparr>"

text \<open>The archive is in staging already.\<close>

definition demo_transferring :: "(bytes, (string \<times> header_value) list, string list) transferring" where
  "demo_transferring =
    \<lparr> ts_fetch = set_retries 1 (fetch_new list_headers), ts_disk = demo_disk [''f'' \<mapsto> [1, 2, 3, 4, 5]], ts_steps = [] \<rparr>"

definition demo_remote :: "string \<Rightarrow> remote_file" where
  "demo_remote hex = \<lparr> rf_path = ''d/f'', rf_size = 5, rf_hash = Sha256_Hex hex \<rparr>"

lemma demo_world_ok: "world_ok demo_world"
  using demo_hash_ok [of Resume 1]
  by (simp add: world_ok_def demo_world_def)

theorem verified_archive_matches_witness:
  "d_files (ts_disk (fst (fetch_verified demo_world ''u'' ''f'' (demo_remote ''12345'') False demo_transferring)))
      ''f'' \<noteq> None
    \<and> d_files (ts_disk (fst (fetch_verified demo_world ''u'' ''f'' (demo_remote ''99'') False demo_transferring)))
      ''f.part'' = None"
proof -
  have one: "snd (fetch_verified demo_world ''u'' ''f'' (demo_remote ''12345'') False demo_transferring) = Inr ()"
    by code_simp
  have two: "snd (fetch_verified demo_world ''u'' ''f'' (demo_remote ''99'') False demo_transferring)
      = Inl (Damaged ''d/f'' ''99'' ''12345'')"
    by code_simp
  have part: "part_path ''f'' = ''f.part''"
    by code_simp
  note matches = verified_archive_matches [OF demo_world_ok prod.collapse [symmetric]]
  show ?thesis
    using matches [of "''u''" "''f''" "demo_remote ''12345''" False demo_transferring]
      matches [of "''u''" "''f''" "demo_remote ''99''" False demo_transferring]
    by (auto simp: one two part split: option.splits)
qed

end
