(* ===== verification/Install_Lock.thy ===== *)
theory Install_Lock
  imports Install_Fetch
begin

text \<open>
  The machine the installers work on, and \<open>ai/install/lock.rs\<close>: the folders below the root with their
  contents, the files a download writes, what each folder's lock answers, and which locks this process
  holds. Other processes are in the answers: the one that gives the lock says what the folder holds by
  then. Every state of a folder is logged with whether its lock was held, so that a statement about the
  log is one about every moment.
\<close>

section \<open>The machine\<close>

datatype event =
    Progress (ev_dependency: string) (ev_phase: phase) (ev_bytes: nat) (ev_total: nat) (ev_fraction: real)
  | Verifying (ev_dependency: string)
  | Current (ev_dependency: string)

text \<open>An answer to an operation on a lock or beside the folders: the error if it fails, whether another
  process holds the lock, and what the others left in the folder.\<close>

datatype lock_reply = Lock_Reply (lk_refused: "io_error option") (lk_busy: bool) (lk_left: "entries option")

record change =
  ch_dir :: path
  ch_locked :: bool
  ch_entries :: entries

record 'h machine =
  mc_folders :: "(path \<times> folder) list"
  mc_disk :: "'h transfer"
  mc_locks :: "lock_reply list"
  mc_held :: "path list"
  mc_changes :: "change list"
  mc_events :: "event list"

definition blank_folder :: folder where
  "blank_folder = \<lparr> fd_top = [], fd_staging = False, fd_extract = None, fd_replies = [], fd_reports = [], fd_seen = [] \<rparr>"

definition folder_at :: "path \<Rightarrow> 'h machine \<Rightarrow> folder" where
  "folder_at dir m = (case map_of (mc_folders m) dir of Some f \<Rightarrow> f | None \<Rightarrow> blank_folder)"

definition contents_at :: "path \<Rightarrow> 'h machine \<Rightarrow> entries" where
  "contents_at dir m = fd_top (folder_at dir m)"

definition emit :: "event \<Rightarrow> 'h machine \<Rightarrow> 'h machine" where
  "emit e m = m\<lparr>mc_events := mc_events m @ [e]\<rparr>"

text \<open>Work in a folder: the states it passes through go to the machine's log.\<close>

definition in_folder ::
    "path \<Rightarrow> (folder \<Rightarrow> folder \<times> 'a) \<Rightarrow> 'h machine \<Rightarrow> 'h machine \<times> 'a" where
  "in_folder dir work m =
    (case work ((folder_at dir m)\<lparr>fd_seen := [], fd_reports := []\<rparr>) of (f, r) \<Rightarrow>
      (m\<lparr>mc_folders := AList.update dir f (mc_folders m),
         mc_changes := mc_changes m @ map (\<lambda>es. \<lparr> ch_dir = dir, ch_locked = dir \<in> set (mc_held m),
           ch_entries = es \<rparr>) (fd_seen f)\<rparr>, r))"

section \<open>The lock\<close>

definition lock_answer :: "'h machine \<Rightarrow> 'h machine \<times> lock_reply" where
  "lock_answer m =
    (m\<lparr>mc_locks := tl (mc_locks m)\<rparr>,
     case mc_locks m of [] \<Rightarrow> Lock_Reply None False None | r # _ \<Rightarrow> r)"

definition lock_ask :: "'h machine \<Rightarrow> 'h machine \<times> (io_error + unit)" where
  "lock_ask m = (case lock_answer m of (m, r) \<Rightarrow>
    (m, case lk_refused r of Some e \<Rightarrow> Inl e | None \<Rightarrow> Inr ()))"

text \<open>The folder as the process that held the lock before left it, staging being held apart.\<close>

definition taken_over :: "path \<Rightarrow> entries option \<Rightarrow> 'h machine \<Rightarrow> 'h machine" where
  "taken_over dir left m = (case left of
     None \<Rightarrow> m
   | Some es \<Rightarrow> m\<lparr>mc_folders := AList.update dir ((folder_at dir m)\<lparr>fd_top := filter (\<lambda>(n, _). n \<noteq> staging_name) es\<rparr>)
       (mc_folders m)\<rparr>)"

text \<open>\<open>try_lock\<close>: \<open>False\<close> is that it would block. And \<open>lock\<close>, which waits.\<close>

definition try_lock :: "path \<Rightarrow> 'h machine \<Rightarrow> 'h machine \<times> (io_error + bool)" where
  "try_lock dir m = (case lock_answer m of (m, r) \<Rightarrow>
    (case lk_refused r of
       Some e \<Rightarrow> (m, Inl e)
     | None \<Rightarrow> if lk_busy r then (m, Inr False) else (taken_over dir (lk_left r) m, Inr True)))"

definition wait_lock :: "path \<Rightarrow> 'h machine \<Rightarrow> 'h machine \<times> (io_error + unit)" where
  "wait_lock dir m = (case lock_answer m of (m, r) \<Rightarrow>
    (case lk_refused r of Some e \<Rightarrow> (m, Inl e) | None \<Rightarrow> (taken_over dir (lk_left r) m, Inr ())))"

text \<open>The lock file, opened with the folder it is in created.\<close>

definition lock_open :: "'h machine \<Rightarrow> 'h machine \<times> (io_error + unit)" where
  "lock_open m = sbind (lock_ask m) (\<lambda>m _. lock_ask m)"

text \<open>An error here closes the file, and with it the lock.\<close>

definition lock_held :: "path \<Rightarrow> 'h machine \<Rightarrow> 'h machine \<times> (io_error + unit)" where
  "lock_held dir m = sbind (lock_ask m) (\<lambda>m _.
    (m\<lparr>mc_folders := (case map_of (mc_folders m) dir of
         None \<Rightarrow> mc_folders m @ [(dir, blank_folder)] | Some _ \<Rightarrow> mc_folders m),
       mc_held := dir # mc_held m\<rparr>, Inr ()))"

definition try_acquire :: "path \<Rightarrow> 'h machine \<Rightarrow> 'h machine \<times> (io_error + bool)" where
  "try_acquire dir m =
    sbind (lock_open m) (\<lambda>m _.
    sbind (try_lock dir m) (\<lambda>m free.
    if free then sbind (lock_held dir m) (\<lambda>m _. (m, Inr True)) else (m, Inr False)))"

definition acquire :: "path \<Rightarrow> 'h machine \<Rightarrow> 'h machine \<times> (io_error + unit)" where
  "acquire dir m =
    sbind (try_acquire dir m) (\<lambda>m locked.
    if locked then (m, Inr ())
    else sbind (lock_open m) (\<lambda>m _. sbind (wait_lock dir m) (\<lambda>m _. lock_held dir m)))"

definition release :: "path \<Rightarrow> 'h machine \<Rightarrow> 'h machine" where
  "release dir m = m\<lparr>mc_held := remove1 dir (mc_held m)\<rparr>"

section \<open>What the operations keep\<close>

lemma folder_at_update [simp]:
  "folder_at dir (m\<lparr>mc_folders := AList.update dir' f (mc_folders m)\<rparr>) = (if dir = dir' then f else folder_at dir m)"
  "folder_at dir (m\<lparr>mc_disk := w\<rparr>) = folder_at dir m"
  "folder_at dir (m\<lparr>mc_locks := ls\<rparr>) = folder_at dir m"
  "folder_at dir (m\<lparr>mc_held := hs\<rparr>) = folder_at dir m"
  "folder_at dir (m\<lparr>mc_events := es\<rparr>) = folder_at dir m"
  "folder_at dir (m\<lparr>mc_changes := cs\<rparr>) = folder_at dir m"
  by (simp_all add: folder_at_def update_conv')

lemma emit_simps [simp]:
  "mc_folders (emit e m) = mc_folders m" "mc_held (emit e m) = mc_held m" "mc_changes (emit e m) = mc_changes m"
  "mc_disk (emit e m) = mc_disk m" "mc_locks (emit e m) = mc_locks m"
  "folder_at dir (emit e m) = folder_at dir m"
  by (simp_all add: emit_def)

text \<open>\<open>apart dir m m'\<close>: between \<open>m\<close> and \<open>m'\<close> only the folder \<open>dir\<close> may have changed, and not through this
  process; no event was reported, and staging is still held apart.\<close>

definition no_staging :: "path \<Rightarrow> 'h machine \<Rightarrow> bool" where
  "no_staging dir m \<longleftrightarrow> staging_name \<notin> fst ` set (contents_at dir m)"

definition apart :: "path \<Rightarrow> 'h machine \<Rightarrow> 'h machine \<Rightarrow> bool" where
  "apart dir m m' \<longleftrightarrow> mc_changes m' = mc_changes m \<and> mc_events m' = mc_events m \<and> mc_disk m' = mc_disk m
    \<and> (\<forall>d. d \<noteq> dir \<longrightarrow> folder_at d m' = folder_at d m) \<and> (no_staging dir m \<longrightarrow> no_staging dir m')"

lemma apart_trans: "apart dir m m' \<Longrightarrow> apart dir m' m'' \<Longrightarrow> apart dir m m''"
  by (simp add: apart_def)

lemma lock_answer_apart: "lock_answer m = (m', r) \<Longrightarrow> apart dir m m' \<and> mc_held m' = mc_held m"
  by (auto simp: lock_answer_def apart_def no_staging_def contents_at_def)

lemma lock_ask_apart: "spec (lock_ask m) (\<lambda>m' _. apart dir m m' \<and> mc_held m' = mc_held m)
    (\<lambda>m' _. apart dir m m' \<and> mc_held m' = mc_held m)"
  using lock_answer_apart [of m _ _ dir]
  by (auto simp: lock_ask_def spec_def split: prod.splits option.splits)

lemma taken_over_apart: "apart dir m (taken_over dir left m) \<and> mc_held (taken_over dir left m) = mc_held m"
  by (auto simp: taken_over_def apart_def no_staging_def contents_at_def split: option.split)

lemma folder_at_created:
  "folder_at d (m\<lparr>mc_folders := (case map_of (mc_folders m) dir of
      None \<Rightarrow> mc_folders m @ [(dir, blank_folder)] | Some _ \<Rightarrow> mc_folders m)\<rparr>) = folder_at d m"
  by (auto simp: folder_at_def map_add_def split: option.split)

lemma lock_held_apart:
  "spec (lock_held dir m) (\<lambda>m' _. apart dir m m' \<and> mc_held m' = dir # mc_held m)
    (\<lambda>m' _. apart dir m m' \<and> mc_held m' = mc_held m)"
  unfolding lock_held_def spec_sbind
  by (rule spec_mono [OF lock_ask_apart [of _ dir]])
    (auto simp: apart_def folder_at_created no_staging_def contents_at_def)

lemma try_lock_apart:
  "spec (try_lock dir m) (\<lambda>m' _. apart dir m m' \<and> mc_held m' = mc_held m)
    (\<lambda>m' _. apart dir m m' \<and> mc_held m' = mc_held m)"
proof -
  obtain m1 r where answer: "lock_answer m = (m1, r)"
    by fastforce
  from lock_answer_apart [OF answer] have "apart dir m m1 \<and> mc_held m1 = mc_held m" .
  with taken_over_apart [of dir m1 "lk_left r"] show ?thesis
    by (auto simp: try_lock_def answer intro: apart_trans split: option.splits)
qed

lemma wait_lock_apart:
  "spec (wait_lock dir m) (\<lambda>m' _. apart dir m m' \<and> mc_held m' = mc_held m)
    (\<lambda>m' _. apart dir m m' \<and> mc_held m' = mc_held m)"
proof -
  obtain m1 r where answer: "lock_answer m = (m1, r)"
    by fastforce
  from lock_answer_apart [OF answer] have "apart dir m m1 \<and> mc_held m1 = mc_held m" .
  with taken_over_apart [of dir m1 "lk_left r"] show ?thesis
    by (auto simp: wait_lock_def answer intro: apart_trans split: option.splits)
qed

lemma lock_open_apart:
  "spec (lock_open m) (\<lambda>m' _. apart dir m m' \<and> mc_held m' = mc_held m)
    (\<lambda>m' _. apart dir m m' \<and> mc_held m' = mc_held m)"
  unfolding lock_open_def spec_sbind
  by (rule spec_mono [OF lock_ask_apart [of _ dir]])
    (auto intro: apart_trans intro!: spec_mono [OF lock_ask_apart [of _ dir]])

lemma try_acquire_apart:
  "spec (try_acquire dir m)
    (\<lambda>m' locked. apart dir m m' \<and> mc_held m' = (if locked then dir # mc_held m else mc_held m))
    (\<lambda>m' _. apart dir m m' \<and> mc_held m' = mc_held m)"
  unfolding try_acquire_def spec_sbind
proof (rule spec_mono [OF lock_open_apart [of _ dir]], goal_cases)
  case (1 m1)
  show ?case
  proof (rule spec_mono [OF try_lock_apart], goal_cases)
    case (1 m2 free)
    then show ?case
      using \<open>apart dir m m1 \<and> mc_held m1 = mc_held m\<close>
      by (auto intro: apart_trans intro!: spec_mono [OF lock_held_apart])
  qed (use 1 in \<open>auto intro: apart_trans\<close>)
qed

lemma acquire_apart:
  "spec (acquire dir m) (\<lambda>m' _. apart dir m m' \<and> mc_held m' = dir # mc_held m)
    (\<lambda>m' _. apart dir m m' \<and> mc_held m' = mc_held m)"
  unfolding acquire_def spec_sbind
proof (rule spec_mono [OF try_acquire_apart], goal_cases)
  case (1 m1 locked)
  have "spec (sbind (lock_open m1) (\<lambda>m _. sbind (wait_lock dir m) (\<lambda>m _. lock_held dir m)))
      (\<lambda>m' _. apart dir m1 m' \<and> mc_held m' = dir # mc_held m1) (\<lambda>m' _. apart dir m1 m' \<and> mc_held m' = mc_held m1)"
    unfolding spec_sbind
    by (rule spec_mono [OF lock_open_apart [of _ dir]], rule spec_mono [OF wait_lock_apart],
        rule spec_mono [OF lock_held_apart]) (auto intro: apart_trans)
  with 1 show ?case
    by (auto intro: apart_trans elim!: spec_mono)
qed auto

lemma in_folder_changes:
  assumes "in_folder dir work m = (m', r)"
  shows "mc_held m' = mc_held m" "mc_disk m' = mc_disk m" "mc_events m' = mc_events m" "mc_locks m' = mc_locks m"
    "d \<noteq> dir \<Longrightarrow> folder_at d m' = folder_at d m"
    "work ((folder_at dir m)\<lparr>fd_seen := [], fd_reports := []\<rparr>) = (folder_at dir m', r)"
    "mc_changes m' = mc_changes m @ map (\<lambda>es. \<lparr> ch_dir = dir, ch_locked = dir \<in> set (mc_held m),
       ch_entries = es \<rparr>) (fd_seen (folder_at dir m'))"
  using assms by (auto simp: in_folder_def split: prod.splits)

end
