(* ===== verification/Install.thy ===== *)
theory Install
  imports Install_Lock Hub "HOL-Library.Product_Lexorder"
begin

text \<open>
  The rest of \<open>ai/install.rs\<close>, with \<open>runtime_library\<close> of \<open>ai/load.rs\<close>: what counts as installed, the plan
  of what an install will do, and the install of one dependency - lock, staging, transfer,
  unpacking, the removal of its other versions, the events - composed of the parts modelled so far.
\<close>

section \<open>What is installed\<close>

datatype kind = Runtime | Libraries

record dependency =
  dp_name :: string
  dp_source :: hub_folder
  dp_kind :: kind

text \<open>\<open>os\<close> as \<open>std::env::consts::OS\<close> spells it.\<close>

definition is_runtime_library :: "string \<Rightarrow> string \<Rightarrow> bool" where
  "is_runtime_library n os =
    (if contains ''_providers_'' n then False
     else if os = ''macos'' then prefix ''libonnxruntime'' n \<and> suffix ''.dylib'' n
     else if os = ''windows'' then eq_ignore_ascii_case n ''onnxruntime.dll''
     else prefix ''libonnxruntime.so'' n)"

definition is_file_at :: "follow \<Rightarrow> node \<Rightarrow> bool" where
  "is_file_at follow node = (case node of
     Regular _ \<Rightarrow> True | Directory _ \<Rightarrow> False
   | Symbolic target \<Rightarrow> (case follow target [] of Some (Regular _) \<Rightarrow> True | _ \<Rightarrow> False))"

text \<open>A file before a link, a longer name before a shorter one.\<close>

definition library_in :: "follow \<Rightarrow> string \<Rightarrow> entries \<Rightarrow> string option" where
  "library_in follow os es =
    (case sort_key (\<lambda>(is_link, n). (is_link, - int (length n), n))
        (List.map_filter (\<lambda>(n, node).
           if utf8_valid (of_text n) \<and> is_file_at follow node \<and> is_runtime_library n os
           then Some (case node of Symbolic _ \<Rightarrow> True | _ \<Rightarrow> False, n) else None) es) of
       [] \<Rightarrow> None | (_, n) # _ \<Rightarrow> Some n)"

definition intact_in :: "marker codec \<Rightarrow> follow \<Rightarrow> string \<Rightarrow> kind \<Rightarrow> entries \<Rightarrow> marker option" where
  "intact_in codec follow os kind es =
    (case read_json codec follow es of
       None \<Rightarrow> None
     | Some mk \<Rightarrow>
         if marker_intact follow es mk \<and> (kind = Libraries \<or> library_in follow os es \<noteq> None)
         then Some mk else None)"

section \<open>The world\<close>

record ('h, 'g, 'm, 'p, 'n, 'b, 'j, 'c, 's, 'd) install_world =
  iw_fetch :: "('h, 'g, 'm, 'p, 'n, 'b, 'j, 'c) fetch_world"
  iw_web :: "('m, 'p, 'n, 'b, 'j, 'c, 's) web"
  iw_unarchiver :: "'d unarchiver"
  iw_codec :: "marker codec"
  iw_follow :: "path \<Rightarrow> follow"
  iw_os :: string
  iw_arch :: string
  iw_rnd :: "real \<Rightarrow> real"

definition intact_at ::
    "('h, 'g, 'm, 'p, 'n, 'b, 'j, 'c, 's, 'd) install_world \<Rightarrow> path \<Rightarrow> kind \<Rightarrow> 'h machine \<Rightarrow> marker option" where
  "intact_at iw dir kind m =
    intact_in (iw_codec iw) (iw_follow iw dir) (iw_os iw) kind (contents_at dir m)"

definition is_present ::
    "('h, 'g, 'm, 'p, 'n, 'b, 'j, 'c, 's, 'd) install_world \<Rightarrow> path \<Rightarrow> dependency \<Rightarrow> 'h machine \<Rightarrow> bool" where
  "is_present iw base dep m = (intact_at iw (dir_for base (dp_source dep)) (dp_kind dep) m \<noteq> None)"

section \<open>The plan\<close>

datatype state = Present | Missing | Unavailable

record planned =
  pl_name :: string
  pl_state :: state
  pl_size :: nat

record ('m, 'c) remote =
  re_hub :: "('m, 'c) hub"
  re_commit :: string
  re_asset :: remote_file

datatype ('m, 'c) action = Keep | Fetch_It "('m, 'c) remote" | Skip

fun action_state :: "('m, 'c) action \<Rightarrow> state" where
  "action_state Keep = Present"
| "action_state (Fetch_It remote) = Missing"
| "action_state Skip = Unavailable"

record ('m, 'c) plan_entry =
  pe_dependency :: dependency
  pe_planned :: planned
  pe_action :: "('m, 'c) action"

definition plan_entry_of :: "dependency \<Rightarrow> ('m, 'c) action \<Rightarrow> nat \<Rightarrow> ('m, 'c) plan_entry" where
  "plan_entry_of dep action len =
    \<lparr> pe_dependency = dep,
      pe_planned = \<lparr> pl_name = dp_name dep, pl_state = action_state action, pl_size = len \<rparr>,
      pe_action = action \<rparr>"

fun failure_of_hf :: "hf_error \<Rightarrow> failure" where
  "failure_of_hf Unreached = Network"
| "failure_of_hf (Hf_Status status) = Http_Answer status"
| "failure_of_hf (Hf_Malformed reason) = Malformed reason"
| "failure_of_hf (Wrong_Repository h folder) = Wrong_Listing h folder"

text \<open>The repositories seen so far, with the hub and the commit of each.\<close>

type_synonym ('m, 'c) repos = "((string \<times> string \<times> string) \<times> ('m, 'c) hub \<times> string) list"

definition repo_of :: "hub_folder \<Rightarrow> string \<times> string \<times> string" where
  "repo_of source = (fo_base source, fo_repo source, fo_revision source)"

definition plan_action ::
    "('h, 'g, 'm, 'p, 'n, 'b, 'j, 'c, 's, 'd) install_world \<Rightarrow> dependency \<Rightarrow> ('m, 'c) hub \<Rightarrow> string
      \<Rightarrow> remote_file list \<Rightarrow> failure + ('m, 'c) plan_entry" where
  "plan_action iw dep h commit files =
    (case asset_for files (iw_os iw) (iw_arch iw) of
       Some asset \<Rightarrow>
         if \<not> installable (file_name asset) then Inl (Malformed (rf_path asset @ '' is not a plain file name''))
         else Inr (plan_entry_of dep (Fetch_It \<lparr> re_hub = h, re_commit = commit, re_asset = asset \<rparr>) (rf_size asset))
     | None \<Rightarrow>
         if dp_kind dep = Runtime then Inl (Unsupported_Platform (iw_os iw) (iw_arch iw))
         else Inr (plan_entry_of dep Skip 0))"

text \<open>One dependency. A listing may not end, so this is partial.\<close>

definition plan_one ::
    "('h, 'g, 'm, 'p, 'n, 'b, 'j, 'c, 's, 'd) install_world \<Rightarrow> path \<Rightarrow> nat \<Rightarrow> 'h machine \<Rightarrow> dependency
      \<Rightarrow> ('m, 'c) repos \<times> ('m, 'j, 'c, 's) network
      \<Rightarrow> ((('m, 'c) repos \<times> ('m, 'j, 'c, 's) network) \<times> (failure + ('m, 'c) plan_entry)) option" where
  "plan_one iw base retries m dep st =
    (case intact_at iw (dir_for base (dp_source dep)) (dp_kind dep) m of
       Some mk \<Rightarrow> Some (st, Inr (plan_entry_of dep Keep (mk_size mk)))
     | None \<Rightarrow>
         let source = dp_source dep; (repos, nw) = st in
         case (case map_of repos (repo_of source) of
                 Some (h, commit) \<Rightarrow> ((h, nw), Inr commit)
               | None \<Rightarrow> hub_resolve (iw_web iw) (fo_revision source)
                   (hub_set_retries retries (hub_for_folder (we_headers (iw_web iw)) source), nw)) of
           ((h, nw), Inl e) \<Rightarrow> Some ((repos, nw), Inl (failure_of_hf e))
         | ((h, nw), Inr commit) \<Rightarrow>
             (case hub_list (iw_web iw) commit (fo_path source) (h, nw) of
                None \<Rightarrow> None
              | Some ((h, nw), r) \<Rightarrow>
                  let repos = AList.update (repo_of source) (h, commit) repos in
                  Some ((repos, nw), rbind (map_err failure_of_hf r) (plan_action iw dep h commit))))"

fun plan_loop ::
    "('h, 'g, 'm, 'p, 'n, 'b, 'j, 'c, 's, 'd) install_world \<Rightarrow> path \<Rightarrow> nat \<Rightarrow> 'h machine \<Rightarrow> dependency list
      \<Rightarrow> ('m, 'c) repos \<times> ('m, 'j, 'c, 's) network
      \<Rightarrow> (('m, 'j, 'c, 's) network \<times> (install_error + ('m, 'c) plan_entry list)) option" where
  "plan_loop iw base retries m [] st = Some (snd st, Inr [])"
| "plan_loop iw base retries m (dep # deps) st =
    (case plan_one iw base retries m dep st of
       None \<Rightarrow> None
     | Some (st, Inl cause) \<Rightarrow>
         Some (snd st, Inl \<lparr> ie_dependency = dp_name dep, ie_failure = cause \<rparr>)
     | Some (st, Inr e) \<Rightarrow>
         (case plan_loop iw base retries m deps st of
            None \<Rightarrow> None
          | Some (nw, r) \<Rightarrow> Some (nw, rbind r (\<lambda>es. Inr (e # es)))))"

definition plan_retrying where
  "plan_retrying iw base deps retries m nw = plan_loop iw base retries m deps ([], nw)"

definition plan where
  "plan iw base deps m nw = plan_retrying iw base deps hub_retries m nw"

section \<open>Staging\<close>

definition staging_text :: "path \<Rightarrow> string" where
  "staging_text dir = join ''/'' (dir @ [staging_name])"

definition staged_path :: "path \<Rightarrow> string \<Rightarrow> string" where
  "staged_path dir n = staging_text dir @ ''/'' @ n"

definition make_staging :: "folder \<Rightarrow> folder \<times> (io_error + unit)" where
  "make_staging f = sbind (ask f) (\<lambda>f _. (f\<lparr>fd_staging := True\<rparr>, Inr ()))"

text \<open>Staging removed, with the files in it; a removal that fails may have got to them.\<close>

definition drop_staging :: "folder \<Rightarrow> folder \<times> bool" where
  "drop_staging f =
    (case refusal_of f of
       None \<Rightarrow> ((replied f)\<lparr>fd_staging := False, fd_extract := None\<rparr>, True)
     | Some e \<Rightarrow> (replied f, between (next_reply f) \<noteq> []))"

definition remove_staging :: "path \<Rightarrow> 'h machine \<Rightarrow> 'h machine" where
  "remove_staging dir m =
    (case in_folder dir drop_staging m of
       (m, cleared) \<Rightarrow>
         if cleared then m\<lparr>mc_disk := (mc_disk m)\<lparr>d_files := (\<lambda>p.
           if prefix (staging_text dir @ ''/'') p then None else d_files (mc_disk m) p)\<rparr>\<rparr>
         else m)"

section \<open>Other versions\<close>

text \<open>A folder removed with what is in it: it only ever loses entries on the way, or parts of them.\<close>

definition remove_whole :: "folder \<Rightarrow> folder \<times> (io_error + unit)" where
  "remove_whole f =
    (let r = next_reply f;
         f = fold (\<lambda>node g. case node of
               Directory cs \<Rightarrow> show_top (filter (\<lambda>(n, _). n \<in> fst ` set (fd_top g)) cs) g | _ \<Rightarrow> g)
             (between r) (replied f) in
     case refused r of
       Some e \<Rightarrow> (f, Inl e)
     | None \<Rightarrow> (show_top [] f, Inr ()))"

definition remove_version :: "path \<Rightarrow> 'h machine \<Rightarrow> 'h machine" where
  "remove_version other m =
    (case lock_ask m of
       (m, Inl _) \<Rightarrow> m
     | (m, Inr _) \<Rightarrow>
         (case try_acquire other m of
            (m, Inl _) \<Rightarrow> m
          | (m, Inr locked) \<Rightarrow>
              if \<not> locked then m
              else release other (case in_folder other (\<lambda>f.
                  sbind (remove_if_present marker_name False f) (\<lambda>f _. remove_whole f)) m of
                (m, r) \<Rightarrow> if is_ok r then m\<lparr>mc_folders := AList.delete other (mc_folders m)\<rparr> else m)))"

definition remove_other_versions :: "path \<Rightarrow> 'h machine \<Rightarrow> 'h machine" where
  "remove_other_versions dir m =
    (case lock_ask m of
       (m, Inl _) \<Rightarrow> m
     | (m, Inr _) \<Rightarrow>
         fold remove_version
           (filter (\<lambda>other. other \<noteq> dir \<and> butlast other = butlast dir) (map fst (mc_folders m))) m)"

section \<open>One install\<close>

text \<open>What the steps of a transfer and the reports of an extraction become.\<close>

fun transfer_event ::
    "(real \<Rightarrow> real) \<Rightarrow> string \<Rightarrow> nat \<Rightarrow> step \<Rightarrow> fraction \<times> 'h machine \<Rightarrow> fraction \<times> 'h machine" where
  "transfer_event rnd name len (On_Disk bytes) (fc, m) =
    (case fraction_download rnd bytes len fc of
       (fc, x) \<Rightarrow> (fc, emit (Progress name Download_Phase bytes len x) m))"
| "transfer_event rnd name len Hashing (fc, m) = (fc, emit (Verifying name) m)"

fun extract_event ::
    "(real \<Rightarrow> real) \<Rightarrow> string \<Rightarrow> nat \<times> nat \<Rightarrow> fraction \<times> 'h machine \<Rightarrow> fraction \<times> 'h machine" where
  "extract_event rnd name (bytes, whole) (fc, m) =
    (case fraction_extract rnd bytes whole fc of
       (fc, x) \<Rightarrow> (fc, emit (Progress name Extract_Phase bytes whole x) m))"

text \<open>The transfer into staging. A file that is gone again right after it was verified is an error of the system.\<close>

definition fetch_archive ::
    "('h, 'g, 'm, 'p, 'n, 'b, 'j, 'c, 's, 'd) install_world \<Rightarrow> ('m, 'c) remote \<Rightarrow> path \<Rightarrow> string
      \<Rightarrow> fraction \<Rightarrow> 'h machine \<Rightarrow> (fraction \<times> 'h machine) \<times> (failure + bytes)" where
  "fetch_archive iw remote dir name fc m =
    (let asset = re_asset remote; staged = staged_path dir (file_name asset) in
     case is_staged staged (mc_disk m) of (disk, retry) \<Rightarrow>
     case fetch_verified (iw_fetch iw) (hub_url (re_hub remote) (re_commit remote) (rf_path asset)) staged asset retry
            \<lparr> ts_fetch = hub_fetch (re_hub remote), ts_disk = disk, ts_steps = [] \<rparr> of
       (s, r) \<Rightarrow>
         (fold (transfer_event (iw_rnd iw) name (rf_size asset)) (ts_steps s) (fc, m\<lparr>mc_disk := ts_disk s\<rparr>),
          rbind r (\<lambda>_. case d_files (ts_disk s) staged of
            Some b \<Rightarrow> Inr b
          | None \<Rightarrow> Inl (failure_of_io (fw_texts (iw_fetch iw)) not_found))))"

definition unpack_archive ::
    "('h, 'g, 'm, 'p, 'n, 'b, 'j, 'c, 's, 'd) install_world \<Rightarrow> ('m, 'c) remote \<Rightarrow> path \<Rightarrow> string \<Rightarrow> bytes
      \<Rightarrow> fraction \<Rightarrow> 'h machine \<Rightarrow> (fraction \<times> 'h machine) \<times> (failure + nat)" where
  "unpack_archive iw remote dir name archive fc m =
    (let asset = re_asset remote in
     case in_folder dir (unpack (fw_texts (iw_fetch iw)) (iw_unarchiver iw) (iw_codec iw) (file_name asset) archive
            (hash_hex (rf_hash asset)) (rf_size asset)) m of
       (m, r) \<Rightarrow>
         (let reports = fd_reports (folder_at dir m) in
          (fold (extract_event (iw_rnd iw) name) reports (fc, m),
           rbind r (\<lambda>_. Inr (if reports = [] then 0 else snd (last reports))))))"

text \<open>Under the lock: \<open>None\<close> is that another process installed it meanwhile.\<close>

definition install_locked ::
    "('h, 'g, 'm, 'p, 'n, 'b, 'j, 'c, 's, 'd) install_world \<Rightarrow> ('m, 'c) remote \<Rightarrow> path \<Rightarrow> dependency
      \<Rightarrow> 'h machine \<Rightarrow> 'h machine \<times> (failure + event option)" where
  "install_locked iw remote dir dep m =
    (let name = dp_name dep; tx = fw_texts (iw_fetch iw) in
     if intact_at iw dir (dp_kind dep) m \<noteq> None then (emit (Current name) m, Inr None)
     else sbind (io_try tx (in_folder dir make_staging m)) (\<lambda>m _.
       case fetch_archive iw remote dir name fraction_new m of
         ((fc, m), Inl e) \<Rightarrow> (m, Inl e)
       | ((fc, m), Inr archive) \<Rightarrow>
           (case unpack_archive iw remote dir name archive fc m of
              ((fc, m), Inl e) \<Rightarrow> (m, Inl e)
            | ((fc, m), Inr whole) \<Rightarrow>
                (remove_other_versions dir (remove_staging dir m),
                 Inr (Some (Progress name Extract_Phase whole whole (snd (fraction_finish fc))))))))"

definition install_one ::
    "('h, 'g, 'm, 'p, 'n, 'b, 'j, 'c, 's, 'd) install_world \<Rightarrow> ('m, 'c) remote \<Rightarrow> path \<Rightarrow> dependency
      \<Rightarrow> 'h machine \<Rightarrow> 'h machine \<times> (failure + unit)" where
  "install_one iw remote dir dep m =
    sbind (io_try (fw_texts (iw_fetch iw)) (acquire dir m)) (\<lambda>m _.
      case install_locked iw remote dir dep m of
        (m, r) \<Rightarrow>
          (let m = release dir m in
           case r of
             Inl e \<Rightarrow> (m, Inl e)
           | Inr None \<Rightarrow> (m, Inr ())
           | Inr (Some finished) \<Rightarrow> (emit finished m, Inr ())))"

text \<open>\<open>Plan::install\<close>, and \<open>install\<close>.\<close>

fun install_entries ::
    "('h, 'g, 'm, 'p, 'n, 'b, 'j, 'c, 's, 'd) install_world \<Rightarrow> path \<Rightarrow> ('m, 'c) plan_entry list
      \<Rightarrow> 'h machine \<Rightarrow> 'h machine \<times> (install_error + unit)" where
  "install_entries iw base [] m = (m, Inr ())"
| "install_entries iw base (e # es) m =
    (let dep = pe_dependency e in
     sbind (case pe_action e of
         Keep \<Rightarrow> (emit (Current (dp_name dep)) m, Inr ())
       | Fetch_It remote \<Rightarrow>
           (case install_one iw remote (dir_for base (dp_source dep)) dep m of
              (m, r) \<Rightarrow> (m, map_err (\<lambda>cause. \<lparr> ie_dependency = dp_name dep, ie_failure = cause \<rparr>) r))
       | Skip \<Rightarrow> (m, Inr ())) (\<lambda>m _. install_entries iw base es m))"

definition install ::
    "('h, 'g, 'm, 'p, 'n, 'b, 'j, 'c, 's, 'd) install_world \<Rightarrow> path \<Rightarrow> dependency list
      \<Rightarrow> 'h machine \<Rightarrow> ('m, 'j, 'c, 's) network
      \<Rightarrow> (('m, 'j, 'c, 's) network \<times> 'h machine \<times> (install_error + unit)) option" where
  "install iw base deps m nw =
    (case plan iw base deps m nw of
       None \<Rightarrow> None
     | Some (nw, Inl e) \<Rightarrow> Some (nw, m, Inl e)
     | Some (nw, Inr entries) \<Rightarrow> (case install_entries iw base entries m of (m, r) \<Rightarrow> Some (nw, m, r)))"

section \<open>What an install changes\<close>

text \<open>\<open>Q\<close> holds of every change logged on the way, and the same locks are held after as before.\<close>

definition grows :: "(change \<Rightarrow> bool) \<Rightarrow> 'h machine \<Rightarrow> 'h machine \<Rightarrow> bool" where
  "grows Q m m' \<longleftrightarrow> mc_held m' = mc_held m
    \<and> (\<exists>new. mc_changes m' = mc_changes m @ new \<and> list_all Q new)"

named_theorems grows_intros \<open>steps that log only changes of a kind\<close>

lemma grows_refl [grows_intros]: "grows Q m m"
  by (simp add: grows_def)

lemma grows_trans: "grows Q m m' \<Longrightarrow> grows Q m' m'' \<Longrightarrow> grows Q m m''"
  by (fastforce simp: grows_def)

lemma grows_same:
  "mc_held m' = mc_held m \<Longrightarrow> mc_changes m' = mc_changes m \<Longrightarrow> grows Q m m'"
  by (simp add: grows_def)

lemma grows_emit [grows_intros]: "grows Q m (emit e m)"
  by (rule grows_same) simp_all

lemma grows_apart: "apart dir m m' \<Longrightarrow> mc_held m' = mc_held m \<Longrightarrow> grows Q m m'"
  by (simp add: grows_same apart_def)

lemma grows_ask: "lock_ask m = (m', r) \<Longrightarrow> grows Q m m'"
  using lock_ask_apart [of m] by (cases r) (auto intro: grows_apart)

lemma grows_in_folder:
  assumes "in_folder dir work m = (m', r)" and "dir \<in> set (mc_held m)"
    and "list_all (\<lambda>es. Q \<lparr> ch_dir = dir, ch_locked = True, ch_entries = es \<rparr>)
      (fd_seen (fst (work ((folder_at dir m)\<lparr>fd_seen := [], fd_reports := []\<rparr>))))"
  shows "grows Q m m'"
  using in_folder_changes [OF assms(1)] assms(2,3)
  by (auto simp: grows_def list_all_iff)

text \<open>Work in a locked folder, between taking the lock and giving it back.\<close>

lemma grows_locked:
  assumes "apart dir m m1" and "mc_held m1 = dir # mc_held m" and "grows Q m1 m2"
  shows "grows Q m (release dir m2)"
  using assms by (auto simp: grows_def apart_def release_def)

section \<open>Removing another version\<close>

lemma remove_marker:
  assumes "remove_if_present marker_name False f = (f', r)"
  shows "(if is_ok r then unmarked (fd_seen f) f' else fd_seen f' = fd_seen f)"
proof -
  note gone = refusal_not_missing [of f]
  have "unmarked (fd_seen f) (show_top (AList.delete marker_name (fd_top f)) (replied f))"
    by (auto simp: unmarked_def delete_conv')
  then show ?thesis
    using assms gone
    by (auto simp: remove_if_present_def fs_remove_file_def unmarked_def io_kind_error_def
        split: option.splits if_splits)
qed

lemma unmarked_remove_whole:
  assumes "unmarked lg f"
  shows "unmarked lg (fst (remove_whole f))"
proof -
  define step :: "node \<Rightarrow> folder \<Rightarrow> folder" where "step = (\<lambda>node g. case node of
      Directory cs \<Rightarrow> show_top (filter (\<lambda>(n, _). n \<in> fst ` set (fd_top g)) cs) g | _ \<Rightarrow> g)"
  have "unmarked lg (step node g)" if "unmarked lg g" for node g
  proof -
    have "map_of (filter (\<lambda>(n, _). n \<in> fst ` set (fd_top g)) cs) marker_name = None" for cs :: entries
      using that by (force simp: unmarked_def map_of_eq_None_iff)
    then show ?thesis
      using that unmarked_show [OF that] by (cases node) (simp_all add: step_def)
  qed
  then have "unmarked lg (fold step nodes g)" if "unmarked lg g" for nodes g
    using that by (induction nodes arbitrary: g) simp_all
  with assms show ?thesis
    by (auto simp: remove_whole_def Let_def step_def [symmetric] unmarked_same unmarked_show split: option.split)
qed

lemma version_removed:
  "list_all (\<lambda>es. map_of es marker_name = None)
    (fd_seen (fst (sbind (remove_if_present marker_name False (f\<lparr>fd_seen := [], fd_reports := rs\<rparr>)) (\<lambda>f _. remove_whole f))))"
proof -
  obtain f1 r where removed: "remove_if_present marker_name False (f\<lparr>fd_seen := [], fd_reports := rs\<rparr>) = (f1, r)"
    by fastforce
  show ?thesis
  proof (cases r)
    case (Inr u)
    with remove_marker [OF removed] unmarked_remove_whole [of "[]" f1] show ?thesis
      by (auto simp: removed unmarked_def list_all_iff)
  qed (use remove_marker [OF removed] in \<open>simp add: removed\<close>)
qed

lemma remove_version_grows:
  assumes "\<And>es. map_of es marker_name = None \<Longrightarrow> Q \<lparr> ch_dir = other, ch_locked = True, ch_entries = es \<rparr>"
  shows "grows Q m (remove_version other m)"
proof -
  obtain m1 r1 where asked: "lock_ask m = (m1, r1)"
    by fastforce
  obtain m2 r2 where locked: "try_acquire other m1 = (m2, r2)"
    by fastforce
  obtain m3 r3 where work: "in_folder other (\<lambda>f.
      sbind (remove_if_present marker_name False f) (\<lambda>f _. remove_whole f)) m2 = (m3, r3)"
    by fastforce
  from grows_ask [OF asked] have one: "grows Q m m1" .
  show ?thesis
  proof (cases "r2 = Inr True")
    case True
    with try_acquire_apart [of other m1] locked have m2: "apart other m1 m2" "mc_held m2 = other # mc_held m1"
      by auto
    have "grows Q m2 m3"
      using version_removed [where f = "folder_at other m2" and rs = "[]"] m2(2) assms
      by (intro grows_in_folder [OF work]) (auto simp: list_all_iff)
    then have "grows Q m2 (if is_ok r3 then m3\<lparr>mc_folders := AList.delete other (mc_folders m3)\<rparr> else m3)"
      by (rule grows_trans) (simp add: grows_same)
    from grows_trans [OF one grows_locked [OF m2 this]] show ?thesis
      using True asked locked work one by (auto simp: remove_version_def split: sum.split)
  next
    case False
    with try_acquire_apart [of other m1] locked have "grows Q m1 m2"
      by (cases r2) (auto intro: grows_apart split: if_splits)
    with one have "grows Q m m2"
      by (rule grows_trans)
    with one False show ?thesis
      by (auto simp: remove_version_def asked locked split: sum.split)
  qed
qed

lemma remove_other_versions_grows:
  fixes m :: "'a machine"
  assumes "\<And>other es. other \<noteq> dir \<Longrightarrow> map_of es marker_name = None
    \<Longrightarrow> Q \<lparr> ch_dir = other, ch_locked = True, ch_entries = es \<rparr>"
  shows "grows Q m (remove_other_versions dir m)"
proof -
  have "grows Q m (fold remove_version others m)" if "dir \<notin> set others" for others and m :: "'a machine"
    using that
  proof (induction others arbitrary: m)
    case (Cons other others)
    then have "grows Q m (remove_version other m)"
      using assms by (intro remove_version_grows) auto
    with Cons show ?case
      by (auto intro: grows_trans)
  qed (simp add: grows_refl)
  moreover obtain m1 r where "lock_ask m = (m1, r)"
    by fastforce
  ultimately show ?thesis
    using grows_ask [of m m1 r Q]
    by (auto simp: remove_other_versions_def intro!: grows_trans [of Q m m1] split: sum.split)
qed

section \<open>A marker stands over a verified archive\<close>

text \<open>Reporting changes nothing but what was reported.\<close>

definition events_only :: "'h machine \<Rightarrow> 'h machine \<Rightarrow> bool" where
  "events_only m m' \<longleftrightarrow> mc_held m' = mc_held m \<and> mc_changes m' = mc_changes m \<and> mc_disk m' = mc_disk m
    \<and> (\<forall>d. folder_at d m' = folder_at d m)"

lemma events_only_refl [simp]: "events_only m m"
  by (simp add: events_only_def)

lemma transfer_events_only: "events_only m (snd (fold (transfer_event rnd name len) steps (fc, m)))"
proof (induction steps arbitrary: fc m)
  case (Cons st steps)
  obtain fc' m' where one: "transfer_event rnd name len st (fc, m) = (fc', m')"
    by fastforce
  then have "events_only m m'"
    by (cases st) (auto simp: events_only_def split: prod.splits)
  with Cons [of m' fc'] one show ?case
    by (simp add: events_only_def)
qed simp

lemma extract_events_only: "events_only m (snd (fold (extract_event rnd name) reports (fc, m)))"
proof (induction reports arbitrary: fc m)
  case (Cons report reports)
  obtain fc' m' where one: "extract_event rnd name report (fc, m) = (fc', m')"
    by fastforce
  then have "events_only m m'"
    by (cases report) (auto simp: events_only_def split: prod.splits)
  with Cons [of m' fc'] one show ?case
    by (simp add: events_only_def)
qed simp

text \<open>What any moment of an install may look like: the folder was locked, and it has no readable marker or
  holds the whole extraction of an archive that hashes to what was wanted for this folder, under its marker.\<close>

definition verified_change ::
    "('h, 'g, 'm, 'p, 'n, 'b, 'j, 'c, 's, 'd) install_world \<Rightarrow> (path \<Rightarrow> remote_file \<Rightarrow> bool) \<Rightarrow> change \<Rightarrow> bool" where
  "verified_change iw wanted c \<longleftrightarrow> ch_locked c
    \<and> (read_json (iw_codec iw) (iw_follow iw (ch_dir c)) (ch_entries c) = None
       \<or> (\<exists>asset archive. wanted (ch_dir c) asset
            \<and> hash_matches (rf_hash asset) (content_hash (fw_hashers (iw_fetch iw)) (rf_hash asset) archive)
            \<and> whole_install (iw_unarchiver iw) (iw_codec iw) (iw_follow iw (ch_dir c)) (file_name asset) archive
                (hash_hex (rf_hash asset)) (rf_size asset) (ch_entries c)))"

text \<open>What a plan is to fetch into a folder.\<close>

definition planned_asset :: "path \<Rightarrow> ('m, 'c) plan_entry list \<Rightarrow> path \<Rightarrow> remote_file \<Rightarrow> bool" where
  "planned_asset base entries dir asset \<longleftrightarrow> (\<exists>e \<in> set entries. \<exists>remote. pe_action e = Fetch_It remote
     \<and> dir = dir_for base (dp_source (pe_dependency e)) \<and> asset = re_asset remote)"

text \<open>The archives must not carry the installer's own names.\<close>

definition install_world_ok :: "('h, 'g, 'm, 'p, 'n, 'b, 'j, 'c, 's, 'd) install_world \<Rightarrow> bool" where
  "install_world_ok iw \<longleftrightarrow> world_ok (iw_fetch iw) \<and> codec_ok (iw_codec iw)
    \<and> (\<forall>d n. n \<in> fst ` set (ua_contents (iw_unarchiver iw) d) \<longrightarrow> \<not> is_own n)"

lemma unmarked_verified:
  "map_of es marker_name = None \<Longrightarrow> verified_change iw wanted \<lparr> ch_dir = dir, ch_locked = True, ch_entries = es \<rparr>"
  by (simp add: verified_change_def read_json_def)

lemma fetch_archive_verified:
  fixes iw :: "('h, 'g, 'm, 'p, 'n, 'b, 'j, 'c, 's, 'd) install_world"
  assumes "install_world_ok iw" and "fetch_archive iw remote dir name fc m = ((fc', m'), r)"
  shows "grows Q m m' \<and> (\<forall>d. folder_at d m' = folder_at d m)
    \<and> (case r of Inl _ \<Rightarrow> True | Inr archive \<Rightarrow> hash_matches (rf_hash (re_asset remote))
          (content_hash (fw_hashers (iw_fetch iw)) (rf_hash (re_asset remote)) archive))"
proof -
  let ?asset = "re_asset remote"
  let ?staged = "staged_path dir (file_name ?asset)"
  obtain disk retry where staged: "is_staged ?staged (mc_disk m) = (disk, retry)"
    by fastforce
  obtain s r0 where fetched: "fetch_verified (iw_fetch iw) (hub_url (re_hub remote) (re_commit remote) (rf_path ?asset))
      ?staged ?asset retry \<lparr> ts_fetch = hub_fetch (re_hub remote), ts_disk = disk, ts_steps = [] \<rparr> = (s, r0)"
    by fastforce
  have "world_ok (iw_fetch iw)"
    using assms(1) by (simp add: install_world_ok_def)
  from fetch_verified_ends [OF this fetched] have verified: "r0 = Inr () \<Longrightarrow> d_files (ts_disk s) ?staged = Some b
      \<Longrightarrow> hash_matches (rf_hash ?asset) (content_hash (fw_hashers (iw_fetch iw)) (rf_hash ?asset) b)" for b
    by auto
  note out = assms(2) [unfolded fetch_archive_def Let_def staged prod.case fetched]
  then have m': "m' = snd (fold (transfer_event (iw_rnd iw) name (rf_size ?asset)) (ts_steps s) (fc, m\<lparr>mc_disk := ts_disk s\<rparr>))"
    and r: "r = rbind r0 (\<lambda>_. case d_files (ts_disk s) ?staged of
        Some b \<Rightarrow> Inr b | None \<Rightarrow> Inl (failure_of_io (fw_texts (iw_fetch iw)) not_found))"
    by auto
  from transfer_events_only [of "m\<lparr>mc_disk := ts_disk s\<rparr>"] have "events_only (m\<lparr>mc_disk := ts_disk s\<rparr>) m'"
    by (simp add: m')
  then show ?thesis
    using verified by (cases r0) (auto simp: r events_only_def grows_same split: option.splits)
qed

lemma unpack_archive_verified:
  fixes iw :: "('h, 'g, 'm, 'p, 'n, 'b, 'j, 'c, 's, 'd) install_world"
  assumes "install_world_ok iw" and "dir \<in> set (mc_held m)"
    and "hash_matches (rf_hash (re_asset remote))
      (content_hash (fw_hashers (iw_fetch iw)) (rf_hash (re_asset remote)) archive)"
    and "unpack_archive iw remote dir name archive fc m = ((fc', m'), r)" and "wanted dir (re_asset remote)"
  shows "grows (verified_change iw wanted) m m'"
proof -
  let ?asset = "re_asset remote"
  obtain m1 r1 where ran: "in_folder dir (unpack (fw_texts (iw_fetch iw)) (iw_unarchiver iw) (iw_codec iw)
      (file_name ?asset) archive (hash_hex (rf_hash ?asset)) (rf_size ?asset)) m = (m1, r1)"
    by fastforce
  note unpacked = in_folder_changes(6) [OF ran]
  have "\<exists>since. fd_seen (folder_at dir m1) = since
      \<and> list_all (\<lambda>es. read_json (iw_codec iw) (iw_follow iw dir) es = None
          \<or> whole_install (iw_unarchiver iw) (iw_codec iw) (iw_follow iw dir) (file_name ?asset) archive
              (hash_hex (rf_hash ?asset)) (rf_size ?asset) es) since"
    using unpack_log [OF _ _ unpacked, of "iw_follow iw dir"] assms(1) by (auto simp: install_world_ok_def)
  then have "list_all (\<lambda>es. verified_change iw wanted \<lparr> ch_dir = dir, ch_locked = True, ch_entries = es \<rparr>)
      (fd_seen (folder_at dir m1))"
    using assms(3,5) by (auto simp: verified_change_def list_all_iff)
  then have "grows (verified_change iw wanted) m m1"
    by (intro grows_in_folder [OF ran assms(2)]) (simp add: unpacked)
  moreover have "m' = snd (fold (extract_event (iw_rnd iw) name) (fd_reports (folder_at dir m1)) (fc, m1))"
    using assms(4) by (auto simp: unpack_archive_def Let_def ran)
  then have "grows (verified_change iw wanted) m1 m'"
    using extract_events_only [of m1] by (auto simp: events_only_def intro!: grows_same)
  ultimately show ?thesis
    by (rule grows_trans)
qed

lemma staging_grows:
  assumes "dir \<in> set (mc_held m)"
  shows "in_folder dir make_staging m = (m', r) \<Longrightarrow> grows Q m m'"
    and "grows Q m (remove_staging dir m)"
proof -
  have quiet: "fd_seen (fst (make_staging f)) = fd_seen f" "fd_seen (fst (drop_staging f)) = fd_seen f" for f
    by (auto simp: make_staging_def drop_staging_def ask_def split: option.split)
  show "grows Q m m'" if "in_folder dir make_staging m = (m', r)"
    by (rule grows_in_folder [OF that assms]) (simp add: quiet)
  obtain m1 cleared where "in_folder dir drop_staging m = (m1, cleared)"
    by fastforce
  moreover from grows_in_folder [OF this assms] have "grows Q m m1"
    by (simp add: quiet)
  ultimately show "grows Q m (remove_staging dir m)"
    by (auto simp: remove_staging_def grows_def)
qed

lemma install_locked_verified:
  fixes iw :: "('h, 'g, 'm, 'p, 'n, 'b, 'j, 'c, 's, 'd) install_world"
  assumes "install_world_ok iw" and "dir \<in> set (mc_held m)"
    and "install_locked iw remote dir dep m = (m', r)" and "wanted dir (re_asset remote)"
  shows "grows (verified_change iw wanted) m m'"
proof (cases "intact_at iw dir (dp_kind dep) m")
  case (Some mk)
  with assms(3) show ?thesis
    by (auto simp: install_locked_def Let_def intro: grows_emit)
next
  case None
  obtain m1 r1 where staging: "in_folder dir make_staging m = (m1, r1)"
    by fastforce
  obtain fc2 m2 r2 where fetched: "fetch_archive iw remote dir (dp_name dep) fraction_new m1 = ((fc2, m2), r2)"
    by (metis prod.collapse)
  have one: "grows (verified_change iw wanted) m m1"
    by (rule staging_grows(1) [OF assms(2) staging])
  from fetch_archive_verified [OF assms(1) fetched] have two: "grows (verified_change iw wanted) m1 m2"
    and good: "r2 = Inr archive \<Longrightarrow> hash_matches (rf_hash (re_asset remote))
      (content_hash (fw_hashers (iw_fetch iw)) (rf_hash (re_asset remote)) archive)" for archive
    by auto
  have held: "dir \<in> set (mc_held m2)"
    using one two assms(2) by (simp add: grows_def)
  show ?thesis
  proof (cases "is_ok r1 \<and> is_ok r2")
    case False
    with assms(3) None staging fetched have "m' \<in> {m1, m2}"
      by (cases r1; cases r2) (auto simp: install_locked_def Let_def)
    then show ?thesis
      using one grows_trans [OF one two] by auto
  next
    case True
    then obtain archive where ok: "r1 = Inr ()" "r2 = Inr archive"
      by (auto simp: is_ok_iff)
    obtain fc3 m3 r3 where unpacked: "unpack_archive iw remote dir (dp_name dep) archive fc2 m2 = ((fc3, m3), r3)"
      by (metis prod.collapse)
    from unpack_archive_verified [where wanted = wanted, OF assms(1) held good [OF ok(2)] unpacked assms(4)]
    have three: "grows (verified_change iw wanted) m m3"
      using one two grows_trans by blast
    have "dir \<in> set (mc_held m3)"
      using three assms(2) by (simp add: grows_def)
    from staging_grows(2) [OF this, of "verified_change iw wanted"]
    have "grows (verified_change iw wanted) m3 (remove_other_versions dir (remove_staging dir m3))"
      by (rule grows_trans) (rule remove_other_versions_grows, rule unmarked_verified)
    with three have "grows (verified_change iw wanted) m (remove_other_versions dir (remove_staging dir m3))"
      by (rule grows_trans)
    with three assms(3) None staging fetched unpacked ok show ?thesis
      by (cases r3) (auto simp: install_locked_def Let_def)
  qed
qed

lemma install_one_verified:
  fixes iw :: "('h, 'g, 'm, 'p, 'n, 'b, 'j, 'c, 's, 'd) install_world"
  assumes "install_world_ok iw" and "install_one iw remote dir dep m = (m', r)" and "wanted dir (re_asset remote)"
  shows "grows (verified_change iw wanted) m m'"
proof -
  obtain m1 r1 where locked: "acquire dir m = (m1, r1)"
    by fastforce
  show ?thesis
  proof (cases r1)
    case (Inl e)
    with acquire_apart [of dir m] locked assms(2) show ?thesis
      by (auto simp: install_one_def intro: grows_apart)
  next
    case (Inr u)
    with acquire_apart [of dir m] locked have m1: "apart dir m m1" "mc_held m1 = dir # mc_held m"
      by simp_all
    obtain m2 r2 where ran: "install_locked iw remote dir dep m1 = (m2, r2)"
      by fastforce
    have "grows (verified_change iw wanted) m1 m2"
      by (rule install_locked_verified [where wanted = wanted, OF assms(1) _ ran assms(3)]) (simp add: m1)
    from grows_locked [OF m1 this] have "grows (verified_change iw wanted) m (release dir m2)" .
    then have "grows (verified_change iw wanted) m (emit e (release dir m2))" for e
      by (rule grows_trans) (rule grows_emit)
    with \<open>grows (verified_change iw wanted) m (release dir m2)\<close> show ?thesis
      using assms(2) locked Inr ran by (auto simp: install_one_def Let_def split: sum.splits option.splits)
  qed
qed

lemma install_entries_verified:
  fixes iw :: "('h, 'g, 'm, 'p, 'n, 'b, 'j, 'c, 's, 'd) install_world"
  assumes "install_world_ok iw" and "install_entries iw base es m = (m', r)"
    and "\<And>dir asset. planned_asset base es dir asset \<Longrightarrow> wanted dir asset"
  shows "grows (verified_change iw wanted) m m'"
  using assms(2,3)
proof (induction es arbitrary: m)
  case Nil
  then show ?case
    by (simp add: grows_refl)
next
  case (Cons e es)
  let ?dep = "pe_dependency e"
  obtain m1 r1 where one: "(case pe_action e of
      Keep \<Rightarrow> (emit (Current (dp_name ?dep)) m, Inr ())
    | Fetch_It remote \<Rightarrow> (case install_one iw remote (dir_for base (dp_source ?dep)) ?dep m of
        (m, r) \<Rightarrow> (m, map_err (\<lambda>cause. \<lparr> ie_dependency = dp_name ?dep, ie_failure = cause \<rparr>) r))
    | Skip \<Rightarrow> (m, Inr ())) = (m1, r1)"
    by fastforce
  then have "grows (verified_change iw wanted) m m1"
    using Cons.prems(2) by (cases "pe_action e")
      (auto simp: planned_asset_def intro: grows_emit grows_refl install_one_verified [OF assms(1)] split: prod.splits)
  moreover have "planned_asset base es dir asset \<Longrightarrow> wanted dir asset" for dir asset
    using Cons.prems(2) [of dir asset] by (auto simp: planned_asset_def)
  then have "grows (verified_change iw wanted) m1 m'"
    using Cons one by (cases r1) (auto simp: grows_refl)
  ultimately show ?case
    by (rule grows_trans)
qed

section \<open>An install that succeeds is found intact\<close>

lemma remove_version_others: "d \<noteq> other \<Longrightarrow> folder_at d (remove_version other m) = folder_at d m"
proof -
  assume d: "d \<noteq> other"
  obtain m1 r1 where asked: "lock_ask m = (m1, r1)"
    by fastforce
  obtain m2 r2 where locked: "try_acquire other m1 = (m2, r2)"
    by fastforce
  obtain m3 r3 where work: "in_folder other (\<lambda>f.
      sbind (remove_if_present marker_name False f) (\<lambda>f _. remove_whole f)) m2 = (m3, r3)"
    by fastforce
  have "folder_at d m1 = folder_at d m"
    using lock_ask_apart [of m other] asked d by (cases r1) (auto simp: apart_def)
  moreover have "folder_at d m2 = folder_at d m1"
    using try_acquire_apart [of other m1] locked d by (cases r2) (auto simp: apart_def)
  moreover have "folder_at d m3 = folder_at d m2"
    by (rule in_folder_changes(5) [OF work d])
  moreover have "folder_at d (m3\<lparr>mc_folders := AList.delete other (mc_folders m3)\<rparr>) = folder_at d m3"
    using d by (simp add: folder_at_def delete_conv')
  ultimately show ?thesis
    by (simp add: remove_version_def release_def asked locked work split: sum.split)
qed

lemma remove_other_versions_own: "folder_at dir (remove_other_versions dir m) = folder_at dir m"
proof -
  have "folder_at dir (fold remove_version others m) = folder_at dir m" if "dir \<notin> set others"
    for others and m :: "'a machine"
    using that by (induction others arbitrary: m) (auto simp: remove_version_others)
  moreover obtain m1 r where "lock_ask m = (m1, r)"
    by fastforce
  moreover have "folder_at dir m1 = folder_at dir m" if "lock_ask m = (m1, r)" for m1 r
    using that by (auto simp: lock_ask_def lock_answer_def)
  ultimately show ?thesis
    by (auto simp: remove_other_versions_def split: sum.split)
qed

lemma staging_contents:
  "in_folder dir make_staging m = (m', r) \<Longrightarrow> contents_at dir m' = contents_at dir m"
  "contents_at dir (remove_staging dir m) = contents_at dir m"
  by (auto simp: contents_at_def in_folder_def make_staging_def remove_staging_def drop_staging_def ask_def
      split: prod.splits option.splits if_splits)

lemma library_in_iff:
  "library_in follow os es \<noteq> None \<longleftrightarrow>
     (\<exists>(n, node) \<in> set es. utf8_valid (of_text n) \<and> is_file_at follow node \<and> is_runtime_library n os)"
proof -
  have "(case xs of [] \<Rightarrow> None | (a :: bool, n :: string) # _ \<Rightarrow> Some n) \<noteq> None \<longleftrightarrow> xs \<noteq> []" for xs
    by (cases xs) (auto split: prod.split)
  moreover have "List.map_filter f es \<noteq> [] \<longleftrightarrow> (\<exists>e \<in> set es. f e \<noteq> None)"
    for f :: "string \<times> node \<Rightarrow> (bool \<times> string) option"
    by (induction es) (auto simp: List.map_filter_def)
  moreover have "sort_key k xs \<noteq> [] \<longleftrightarrow> xs \<noteq> []" for k :: "bool \<times> string \<Rightarrow> bool \<times> int \<times> string" and xs
    by (metis set_empty set_sort)
  ultimately show ?thesis
    unfolding library_in_def by (simp only: split_def) force
qed

lemma library_kept:
  assumes "library_in follow os cs \<noteq> None" and "tree_ok cs"
    and "\<And>n. n \<in> fst ` set cs \<Longrightarrow> map_of es n = map_of cs n"
  shows "library_in follow os es \<noteq> None"
proof -
  from assms(1) obtain n node where found: "(n, node) \<in> set cs"
    "utf8_valid (of_text n)" "is_file_at follow node" "is_runtime_library n os"
    unfolding library_in_iff by blast
  have "distinct (map fst cs)"
    using assms(2) by (induction cs rule: tree_ok.induct) auto
  with found(1) assms(3) [of n] have "map_of es n = Some node"
    by force
  from map_of_SomeD [OF this] found(2-4) show ?thesis
    unfolding library_in_iff by blast
qed

lemma install_locked_intact:
  fixes iw :: "('h, 'g, 'm, 'p, 'n, 'b, 'j, 'c, 's, 'd) install_world"
  assumes "install_world_ok iw" and "no_staging dir m"
    and "\<And>d. tree_ok (ua_contents (iw_unarchiver iw) d) \<and> tree_leaves [] (ua_contents (iw_unarchiver iw) d) \<noteq> []"
    and "\<And>d. dp_kind dep = Runtime \<Longrightarrow>
      library_in (iw_follow iw dir) (iw_os iw) (ua_contents (iw_unarchiver iw) d) \<noteq> None"
    and "install_locked iw remote dir dep m = (m', Inr finished)"
  shows "intact_at iw dir (dp_kind dep) m' \<noteq> None"
proof (cases "intact_at iw dir (dp_kind dep) m")
  case (Some mk)
  with assms(5) have "m' = emit (Current (dp_name dep)) m"
    by (simp add: install_locked_def Let_def)
  with Some show ?thesis
    by (simp add: intact_at_def contents_at_def)
next
  case None
  from assms(5) None obtain m1 where staging: "in_folder dir make_staging m = (m1, Inr ())"
    and rest: "(case fetch_archive iw remote dir (dp_name dep) fraction_new m1 of
         ((fc, m), Inl e) \<Rightarrow> (m, Inl e)
       | ((fc, m), Inr archive) \<Rightarrow>
           (case unpack_archive iw remote dir (dp_name dep) archive fc m of
              ((fc, m), Inl e) \<Rightarrow> (m, Inl e)
            | ((fc, m), Inr whole) \<Rightarrow>
                (remove_other_versions dir (remove_staging dir m),
                 Inr (Some (Progress (dp_name dep) Extract_Phase whole whole (snd (fraction_finish fc)))))))
        = (m', Inr finished)"
    by (auto simp: install_locked_def Let_def sbind_Inr io_try_Inr)
  from rest obtain fc2 m2 archive fc3 m3 n where
    fetched: "fetch_archive iw remote dir (dp_name dep) fraction_new m1 = ((fc2, m2), Inr archive)"
    and unpacked: "unpack_archive iw remote dir (dp_name dep) archive fc2 m2 = ((fc3, m3), Inr n)"
    and m': "m' = remove_other_versions dir (remove_staging dir m3)"
    by (auto split: prod.splits sum.splits)
  obtain m4 where ran: "in_folder dir (unpack (fw_texts (iw_fetch iw)) (iw_unarchiver iw) (iw_codec iw)
      (file_name (re_asset remote)) archive (hash_hex (rf_hash (re_asset remote))) (rf_size (re_asset remote))) m2 = (m4, Inr ())"
    and m3: "m3 = snd (fold (extract_event (iw_rnd iw) (dp_name dep)) (fd_reports (folder_at dir m4)) (fc2, m4))"
    using unpacked by (auto simp: unpack_archive_def Let_def rbind_Inr split: prod.splits)
  have "contents_at dir m2 = contents_at dir m"
    using staging_contents(1) [OF staging] fetch_archive_verified [OF assms(1) fetched]
    by (simp add: contents_at_def)
  with assms(2) have "staging_name \<notin> fst ` set (fd_top ((folder_at dir m2)\<lparr>fd_seen := [], fd_reports := []\<rparr>))"
    by (simp add: no_staging_def contents_at_def)
  from unpack_intact [OF _ this _ in_folder_changes(6) [OF ran], of "iw_follow iw dir"] assms(1,3) obtain mk d where
    "read_json (iw_codec iw) (iw_follow iw dir) (fd_top (folder_at dir m4)) = Some mk"
    "marker_intact (iw_follow iw dir) (fd_top (folder_at dir m4)) mk"
    and top: "\<And>n. \<not> is_own n \<Longrightarrow> map_of (fd_top (folder_at dir m4)) n = map_of (ua_contents (iw_unarchiver iw) d) n"
    by (fastforce simp: install_world_ok_def list_all_iff)
  moreover have "\<not> is_own n" if "n \<in> fst ` set (ua_contents (iw_unarchiver iw) d)" for n
    using assms(1) that by (simp add: install_world_ok_def)
  then have "library_in (iw_follow iw dir) (iw_os iw) (fd_top (folder_at dir m4)) \<noteq> None" if "dp_kind dep = Runtime"
    using library_kept [OF assms(4) [OF that, of d]] assms(3) [of d] top by blast
  moreover have "contents_at dir m3 = fd_top (folder_at dir m4)"
    using extract_events_only [of m4] by (simp add: m3 events_only_def contents_at_def)
  moreover have "contents_at dir m' = contents_at dir m3"
    using remove_other_versions_own [of dir "remove_staging dir m3"] staging_contents(2) [of dir m3]
    by (simp add: m' contents_at_def)
  ultimately show ?thesis
    by (cases "dp_kind dep") (auto simp: intact_at_def intact_in_def)
qed

lemma install_one_intact:
  fixes iw :: "('h, 'g, 'm, 'p, 'n, 'b, 'j, 'c, 's, 'd) install_world"
  assumes "install_world_ok iw" and "no_staging dir m"
    and "\<And>d. tree_ok (ua_contents (iw_unarchiver iw) d) \<and> tree_leaves [] (ua_contents (iw_unarchiver iw) d) \<noteq> []"
    and "\<And>d. dp_kind dep = Runtime \<Longrightarrow>
      library_in (iw_follow iw dir) (iw_os iw) (ua_contents (iw_unarchiver iw) d) \<noteq> None"
    and "install_one iw remote dir dep m = (m', Inr ())"
  shows "intact_at iw dir (dp_kind dep) m' \<noteq> None"
proof -
  obtain m1 where locked: "acquire dir m = (m1, Inr ())"
    and rest: "(case install_locked iw remote dir dep m1 of (m, r) \<Rightarrow>
        (let m = release dir m in
         case r of Inl e \<Rightarrow> (m, Inl e) | Inr None \<Rightarrow> (m, Inr ()) | Inr (Some finished) \<Rightarrow> (emit finished m, Inr ())))
      = (m', Inr ())"
    using assms(5) by (auto simp: install_one_def sbind_Inr io_try_Inr)
  from rest obtain m2 finished where ran: "install_locked iw remote dir dep m1 = (m2, Inr finished)"
    and m': "folder_at dir m' = folder_at dir m2"
    by (auto simp: Let_def release_def split: prod.splits sum.splits option.splits)
  have "no_staging dir m1"
    using acquire_apart [of dir m] locked assms(2) by (simp add: apart_def)
  from install_locked_intact [OF assms(1) this assms(3,4) ran] m' show ?thesis
    by (simp add: intact_at_def contents_at_def)
qed

section \<open>The plan\<close>

lemma not_runtime: "k \<noteq> Runtime \<longleftrightarrow> k = Libraries"
  by (cases k) simp_all

lemma plan_one_row:
  assumes "plan_one iw base retries m dep st = Some (st', Inr e)"
  shows "pe_dependency e = dep \<and> pl_name (pe_planned e) = dp_name dep
    \<and> pl_state (pe_planned e) = action_state (pe_action e)
    \<and> (case pe_action e of
        Keep \<Rightarrow> is_present iw base dep m
      | Fetch_It remote \<Rightarrow> \<not> is_present iw base dep m \<and> installable (file_name (re_asset remote))
          \<and> pl_size (pe_planned e) = rf_size (re_asset remote)
      | Skip \<Rightarrow> \<not> is_present iw base dep m \<and> dp_kind dep = Libraries \<and> pl_size (pe_planned e) = 0)"
    and "is_present iw base dep m \<Longrightarrow> st' = st"
  using assms
  by (auto simp: plan_one_def plan_action_def plan_entry_of_def is_present_def Let_def rbind_Inr
      not_runtime split: option.splits prod.splits sum.splits if_splits)

lemma plan_loop_rows:
  assumes "plan_loop iw base retries m deps st = Some (nw, Inr es)"
  shows "map pe_dependency es = deps \<and> list_all (\<lambda>e.
      pl_name (pe_planned e) = dp_name (pe_dependency e)
      \<and> pl_state (pe_planned e) = action_state (pe_action e)
      \<and> (case pe_action e of
          Keep \<Rightarrow> is_present iw base (pe_dependency e) m
        | Fetch_It remote \<Rightarrow> \<not> is_present iw base (pe_dependency e) m \<and> installable (file_name (re_asset remote))
            \<and> pl_size (pe_planned e) = rf_size (re_asset remote)
        | Skip \<Rightarrow> \<not> is_present iw base (pe_dependency e) m \<and> dp_kind (pe_dependency e) = Libraries
            \<and> pl_size (pe_planned e) = 0)) es"
    and "list_all (\<lambda>dep. is_present iw base dep m) deps \<Longrightarrow> nw = snd st"
  using assms
proof (induction deps arbitrary: st nw es)
  case (Cons dep deps)
  {
    case 1
    then obtain st1 e es' where one: "plan_one iw base retries m dep st = Some (st1, Inr e)"
      and rest: "plan_loop iw base retries m deps st1 = Some (nw, Inr es')" and es: "es = e # es'"
      by (auto simp: rbind_Inr split: option.splits sum.splits prod.splits)
    from plan_one_row(1) [OF one] Cons.IH(1) [OF rest] show ?case
      by (auto simp: es)
  next
    case 2
    then obtain st1 e es' where one: "plan_one iw base retries m dep st = Some (st1, Inr e)"
      and rest: "plan_loop iw base retries m deps st1 = Some (nw, Inr es')"
      by (auto simp: rbind_Inr split: option.splits sum.splits prod.splits)
    from plan_one_row(2) [OF one] Cons.IH(2) [OF _ rest] 2(1) show ?case
      by simp
  }
qed simp_all

lemma plan_loop_present:
  assumes "list_all (\<lambda>dep. is_present iw base dep m) deps"
  shows "\<exists>nw es. plan_loop iw base retries m deps st = Some (nw, Inr es)"
  using assms
proof (induction deps arbitrary: st)
  case (Cons dep deps)
  then obtain mk where "intact_at iw (dir_for base (dp_source dep)) (dp_kind dep) m = Some mk"
    by (auto simp: is_present_def)
  then have "plan_one iw base retries m dep st = Some (st, Inr (plan_entry_of dep Keep (mk_size mk)))"
    by (simp add: plan_one_def)
  with Cons show ?case
    by (fastforce split: option.split)
qed simp

text \<open>What is fetched was listed: the hub answered a listing of the dependency's folder at that commit, and the asset
  is the one of the list for this platform.\<close>

definition listed_asset ::
    "('h, 'g, 'm, 'p, 'n, 'b, 'j, 'c, 's, 'd) install_world \<Rightarrow> hub_folder \<Rightarrow> ('m, 'c) remote \<Rightarrow> bool" where
  "listed_asset iw source remote \<longleftrightarrow> (\<exists>h nw1 nw2 files.
     hub_list (iw_web iw) (re_commit remote) (fo_path source) (h, nw1) = Some ((re_hub remote, nw2), Inr files)
     \<and> asset_for files (iw_os iw) (iw_arch iw) = Some (re_asset remote))"

lemma plan_action_fetches:
  assumes "plan_action iw dep h commit files = Inr e" and "pe_action e = Fetch_It remote"
  shows "pe_dependency e = dep" and "re_hub remote = h" and "re_commit remote = commit"
    and "asset_for files (iw_os iw) (iw_arch iw) = Some (re_asset remote)"
  using assms
  by (cases "asset_for files (iw_os iw) (iw_arch iw)"; fastforce simp: plan_action_def plan_entry_of_def split: if_splits)+

lemma plan_one_listed:
  assumes "plan_one iw base retries m dep st = Some (st', Inr e)" and "pe_action e = Fetch_It remote"
  shows "pe_dependency e = dep \<and> listed_asset iw (dp_source dep) remote"
proof -
  have "(\<exists>len. e = plan_entry_of dep Keep len)
    \<or> (\<exists>h nw1 hub nw2 files commit. hub_list (iw_web iw) commit (fo_path (dp_source dep)) (h, nw1)
          = Some ((hub, nw2), Inr files) \<and> plan_action iw dep hub commit files = Inr e)"
    using assms(1)
    by (auto simp: plan_one_def Let_def rbind_Inr map_err_Inr split: option.splits prod.splits sum.splits)
  with assms(2) obtain h nw1 hub nw2 files commit where answer: "hub_list (iw_web iw) commit (fo_path (dp_source dep)) (h, nw1)
      = Some ((hub, nw2), Inr files)" and action: "plan_action iw dep hub commit files = Inr e"
    by (auto simp: plan_entry_of_def)
  from plan_action_fetches [OF action assms(2)] answer show ?thesis
    by (auto simp: listed_asset_def)
qed

lemma plan_loop_listed:
  assumes "plan_loop iw base retries m deps st = Some (nw, Inr es)" and "e \<in> set es" and "pe_action e = Fetch_It remote"
  shows "listed_asset iw (dp_source (pe_dependency e)) remote"
  using assms(1,2)
proof (induction deps arbitrary: st nw es)
  case (Cons dep deps)
  then obtain st1 e1 es' where one: "plan_one iw base retries m dep st = Some (st1, Inr e1)"
    and rest: "plan_loop iw base retries m deps st1 = Some (nw, Inr es')" and es: "es = e1 # es'"
    by (auto simp: rbind_Inr split: option.splits sum.splits prod.splits)
  from Cons.IH [OF rest] Cons.prems(2) plan_one_listed [OF one, of remote] assms(3) show ?case
    by (auto simp: es)
qed simp

section \<open>Properties\<close>

text \<open>A plan has one row for each dependency, in order: kept exactly when it is installed and intact,
  fetched - under a plain file name and at its archive's size - when it is not, skipped only when it is
  not the runtime. When all are intact the plan succeeds, and asks the hub for nothing; it fails only
  when some dependency is not.\<close>

theorem plan_decides_locally:
  "case plan iw base deps m nw of
      Some (nw', Inr es) \<Rightarrow>
        map pe_dependency es = deps \<and> list_all (\<lambda>e.
          pl_name (pe_planned e) = dp_name (pe_dependency e)
          \<and> pl_state (pe_planned e) = action_state (pe_action e)
          \<and> (case pe_action e of
              Keep \<Rightarrow> is_present iw base (pe_dependency e) m
            | Fetch_It remote \<Rightarrow> \<not> is_present iw base (pe_dependency e) m \<and> installable (file_name (re_asset remote))
                \<and> pl_size (pe_planned e) = rf_size (re_asset remote)
            | Skip \<Rightarrow> \<not> is_present iw base (pe_dependency e) m \<and> dp_kind (pe_dependency e) = Libraries
                \<and> pl_size (pe_planned e) = 0)) es
        \<and> (if list_all (\<lambda>dep. is_present iw base dep m) deps then nw' = nw else True)
    | _ \<Rightarrow> \<not> list_all (\<lambda>dep. is_present iw base dep m) deps"
proof -
  note rows = plan_loop_rows [of iw base hub_retries m deps "([], nw)"]
    and present = plan_loop_present [of iw base m deps hub_retries "([], nw)"]
  show ?thesis
  proof (cases "plan iw base deps m nw")
    case None
    with present show ?thesis
      by (auto simp: plan_def plan_retrying_def)
  next
    case (Some out)
    then obtain nw' r where out: "plan_loop iw base hub_retries m deps ([], nw) = Some (nw', r)"
      by (cases out) (auto simp: plan_def plan_retrying_def)
    show ?thesis
    proof (cases r)
      case (Inl e)
      with out present show ?thesis
        by (auto simp: plan_def plan_retrying_def)
    next
      case (Inr es)
      with rows [of nw' es] out show ?thesis
        by (simp add: plan_def plan_retrying_def)
    qed
  qed
qed

text \<open>C28. Over a whole install - planning, every dependency in turn, whatever fails and wherever the process
  stops - each change to any folder is made under that folder's lock, and at every moment a readable
  marker stands in it only over the whole extraction of an archive, with the hash and the size of an asset that
  this install's plan fetches into this very folder and the hub listed there, and the archive's own bytes
  hash to that. Other versions are removed marker first. The locks held are given back. The archives must have no
  top-level entry named like one of the installer's own.\<close>

theorem marker_only_over_verified_archive:
  assumes "install_world_ok iw" and "install iw base deps m nw = Some (nw', m', r)"
  shows "mc_held m' = mc_held m
    \<and> (\<exists>new. mc_changes m' = mc_changes m @ new \<and> list_all (\<lambda>c. ch_locked c
        \<and> (case read_json (iw_codec iw) (iw_follow iw (ch_dir c)) (ch_entries c) of
             None \<Rightarrow> True
           | Some _ \<Rightarrow> (\<exists>entries e remote archive.
               plan iw base deps m nw = Some (nw', Inr entries) \<and> e \<in> set entries \<and> pe_action e = Fetch_It remote
               \<and> ch_dir c = dir_for base (dp_source (pe_dependency e))
               \<and> listed_asset iw (dp_source (pe_dependency e)) remote
               \<and> hash_matches (rf_hash (re_asset remote))
                   (content_hash (fw_hashers (iw_fetch iw)) (rf_hash (re_asset remote)) archive)
               \<and> whole_install (iw_unarchiver iw) (iw_codec iw) (iw_follow iw (ch_dir c)) (file_name (re_asset remote))
                   archive (hash_hex (rf_hash (re_asset remote))) (rf_size (re_asset remote)) (ch_entries c)))) new)"
proof -
  define wanted where "wanted = (\<lambda>dir asset. \<exists>entries e remote. plan iw base deps m nw = Some (nw', Inr entries)
    \<and> e \<in> set entries \<and> pe_action e = Fetch_It remote \<and> dir = dir_for base (dp_source (pe_dependency e))
    \<and> listed_asset iw (dp_source (pe_dependency e)) remote \<and> asset = re_asset remote)"
  have "grows (verified_change iw wanted) m m'"
  proof (cases "\<exists>entries. plan iw base deps m nw = Some (nw', Inr entries)")
    case True
    then obtain entries where planned: "plan iw base deps m nw = Some (nw', Inr entries)"
      by blast
    have "wanted dir asset" if "planned_asset base entries dir asset" for dir asset
      using that planned plan_loop_listed [of iw base hub_retries m deps "([], nw)" nw' entries]
      unfolding wanted_def planned_asset_def plan_def plan_retrying_def by blast
    with assms(2) planned show ?thesis
      by (auto simp: install_def split: prod.splits intro!: install_entries_verified [OF assms(1), of base entries m m' r])
  next
    case False
    with assms(2) show ?thesis
      by (auto simp: install_def grows_refl split: option.splits sum.splits prod.splits)
  qed
  then obtain new where held: "mc_held m' = mc_held m" and new: "mc_changes m' = mc_changes m @ new"
    "list_all (verified_change iw wanted) new"
    by (auto simp: grows_def)
  show ?thesis
  proof (intro conjI exI [of _ new] list.pred_mono_strong [OF new(2)], goal_cases)
    case (3 c)
    then show ?case
      by (simp add: verified_change_def)
  next
    case (4 c)
    show ?case
    proof (cases "read_json (iw_codec iw) (iw_follow iw (ch_dir c)) (ch_entries c)")
      case (Some mk)
      with 4 show ?thesis
        by (simp add: verified_change_def wanted_def) blast
    qed simp
  qed (fact held new(1))+
qed

text \<open>C29. A dependency whose install succeeded is found intact right after, by the test of its own kind - so the next
  launch makes no request for it - whether this process installed it or another one had by the time the lock was
  free. This is for archives that hold at least one file or link, with unique names in valid UTF-8, and no top-level
  entry named like one of the installer's own; for a runtime the archives hold a runtime library at their top. The
  folder had no entry named like the staging one.\<close>

theorem installed_is_present:
  fixes iw :: "('h, 'g, 'm, 'p, 'n, 'b, 'j, 'c, 's, 'd) install_world"
  assumes "install_world_ok iw" and "no_staging dir m"
    and "\<And>d. tree_ok (ua_contents (iw_unarchiver iw) d) \<and> tree_leaves [] (ua_contents (iw_unarchiver iw) d) \<noteq> []"
    and "\<And>d. dp_kind dep = Runtime \<Longrightarrow>
      library_in (iw_follow iw dir) (iw_os iw) (ua_contents (iw_unarchiver iw) d) \<noteq> None"
    and "install_one iw remote dir dep m = (m', Inr ())"
  shows "intact_at iw dir (dp_kind dep) m' \<noteq> None"
  by (rule install_one_intact [OF assms])

section \<open>A concrete install\<close>

definition linux_marker :: marker where
  "linux_marker = \<lparr> mk_hash = ''12345'', mk_size = 5, mk_files =
     [\<lparr> in_path = ''lib/a.so'', in_size = 6 \<rparr>, \<lparr> in_path = ''lib/a.so.1'', in_size = 2 \<rparr>] \<rparr>"

definition linux_codec :: "marker codec" where
  "linux_codec = \<lparr> cd_encode = (\<lambda>mk. if mk = linux_marker then Some [7] else None),
     cd_decode = (\<lambda>bs. if bs = [7] then Some linux_marker else None) \<rparr>"

definition linux_source :: hub_folder where
  "linux_source = \<lparr> fo_base = ''http://h'', fo_repo = ''o/r'', fo_revision = ''main'', fo_path = ''d/cuda/13'' \<rparr>"

definition linux_web :: "((string \<times> header_value) list, string, string, string list, unit, string list, unit) web" where
  "linux_web = circular_web\<lparr>
     we_server := (we_server circular_web)\<lparr> sv_send := (\<lambda>rq s. (s, Inr \<lparr> ht_status = 200, ht_version = ''1.1'',
       ht_headers = [], ht_content_length = None, ht_body = [] \<rparr>)) \<rparr>,
     we_entries := (\<lambda>s. Inr [\<lparr> pe_type = ''file'', pe_path = ''d/cuda/13/c_linux_x64.7z'', pe_oid = None, pe_size = 5,
       pe_lfs_oid = Some ''12345'' \<rparr>]) \<rparr>"

definition linux_world ::
    "(bytes, bytes, (string \<times> header_value) list, string, string, string list, unit, string list, unit, unit) install_world" where
  "linux_world =
    \<lparr> iw_fetch = demo_world, iw_web = linux_web, iw_unarchiver = demo_unarchiver, iw_codec = linux_codec,
      iw_follow = (\<lambda>_ _ _. None), iw_os = ''linux'', iw_arch = ''x86_64'', iw_rnd = (\<lambda>x. x) \<rparr>"

text \<open>An older version is installed, and the archive is in staging already.\<close>

definition linux_machine :: "bytes machine" where
  "linux_machine =
    \<lparr> mc_folders = [([''deps'', ''cuda'', ''12''], blank_folder\<lparr>fd_top := [(marker_name, Regular [7])]\<rparr>)],
      mc_disk = demo_disk [''deps/cuda/13/.staging/c_linux_x64.7z'' \<mapsto> [1, 2, 3, 4, 5]],
      mc_locks = [], mc_held = [], mc_changes = [], mc_events = [] \<rparr>"

definition linux_dependency :: dependency where
  "linux_dependency = \<lparr> dp_name = ''CUDA'', dp_source = linux_source, dp_kind = Libraries \<rparr>"

definition linux_run where
  "linux_run = install linux_world [''deps''] [linux_dependency] linux_machine \<lparr> nw_server = (), nw_sent = [] \<rparr>"

definition linux_remote :: "((string \<times> header_value) list, string list) remote" where
  "linux_remote = \<lparr> re_hub = hub_with_base list_headers ''http://h'' ''o/r'', re_commit = ''c'',
     re_asset = \<lparr> rf_path = ''d/cuda/13/c_linux_x64.7z'', rf_size = 5, rf_hash = Sha256_Hex ''12345'' \<rparr> \<rparr>"

lemma linux_world_ok: "install_world_ok linux_world"
  using demo_world_ok demo_contents_ok(3)
  by (auto simp: install_world_ok_def linux_world_def codec_ok_def linux_codec_def demo_unarchiver_def list_all_iff)

text \<open>The new version is in place, and the old one is gone: five states, all under a lock.\<close>

lemma linux_runs:
  "map_option (\<lambda>(nw, m, r). (r, map (\<lambda>c. last (ch_dir c)) (mc_changes m), map fst (mc_folders m))) linux_run
    = Some (Inr (), [''13'', ''13'', ''13'', ''12'', ''12''], [[''deps'', ''cuda'', ''13'']])"
  by code_simp

theorem marker_only_over_verified_archive_witness:
  "case linux_run of
     Some (nw, m, r) \<Rightarrow> mc_held m = [] \<and> length (mc_changes m) = 5 \<and> list_all ch_locked (mc_changes m)
   | None \<Rightarrow> False"
proof -
  from linux_runs obtain nw m where run: "linux_run = Some (nw, m, Inr ())"
    and changes: "map (\<lambda>c. last (ch_dir c)) (mc_changes m) = [''13'', ''13'', ''13'', ''12'', ''12'']"
    by (auto simp: map_option_case split: option.splits prod.splits)
  have "length (mc_changes m) = 5"
    using arg_cong [OF changes, of length] by simp
  moreover have "mc_held linux_machine = []" "mc_changes linux_machine = []"
    by (simp_all add: linux_machine_def)
  ultimately show ?thesis
    using marker_only_over_verified_archive [OF linux_world_ok run [unfolded linux_run_def]]
    by (auto simp: run list_all_iff)
qed

theorem installed_is_present_witness:
  "intact_at linux_world [''deps'', ''cuda'', ''13''] Libraries
     (fst (install_one linux_world linux_remote [''deps'', ''cuda'', ''13''] linux_dependency linux_machine)) \<noteq> None"
proof -
  let ?run = "install_one linux_world linux_remote [''deps'', ''cuda'', ''13''] linux_dependency linux_machine"
  have "is_ok (snd ?run)"
    by code_simp
  then have run: "?run = (fst ?run, Inr ())"
    by (cases ?run) (auto simp: is_ok_iff)
  have "no_staging [''deps'', ''cuda'', ''13''] linux_machine"
    by (simp add: no_staging_def contents_at_def folder_at_def linux_machine_def blank_folder_def)
  from installed_is_present [OF linux_world_ok this _ _ run] demo_contents_ok(1,2) show ?thesis
    by (simp add: linux_world_def demo_unarchiver_def linux_dependency_def)
qed

end
