(* ===== verification/Providers.thy ===== *)
theory Providers
  imports Prelude
begin

text \<open>
  \<open>ai/providers.rs\<close> and \<open>ai/tuning.rs\<close>: the execution providers a session can be asked for, the fallback
  ladder a request becomes, and the options each provider is attached with. A \<open>BTreeMap\<close> is the list of its
  entries in the order of the keys.
\<close>

section \<open>Providers\<close>

datatype provider = Auto | Cpu | CoreMl | Cuda | TensorRt | WebGpu

definition all_providers :: "provider list" where
  "all_providers = [Auto, Cpu, CoreMl, Cuda, TensorRt, WebGpu]"

fun provider_name :: "provider \<Rightarrow> string" where
  "provider_name Auto = ''Auto''"
| "provider_name Cpu = ''CPU''"
| "provider_name CoreMl = ''CoreML''"
| "provider_name Cuda = ''CUDA''"
| "provider_name TensorRt = ''TensorRT''"
| "provider_name WebGpu = ''WebGPU''"

definition is_accelerator :: "provider \<Rightarrow> bool" where
  "is_accelerator p = (p \<notin> {Auto, Cpu})"

datatype unknown_provider = Unknown_Provider string

definition provider_from_str :: "string \<Rightarrow> unknown_provider + provider" where
  "provider_from_str s =
    ok_or (find (\<lambda>p. eq_ignore_ascii_case (provider_name p) s) all_providers) (Unknown_Provider s)"

definition auto_order :: "provider list" where
  "auto_order = [TensorRt, Cuda, CoreMl, WebGpu]"

record supported =
  has_cpu :: bool
  has_coreml :: bool
  has_cuda :: bool
  has_tensorrt :: bool
  has_webgpu :: bool

text \<open>\<open>macos\<close> is \<open>cfg!(target_os)\<close>, and \<open>offered\<close> what the runtime's load found.\<close>

definition detect :: "bool \<Rightarrow> bool \<Rightarrow> bool \<Rightarrow> bool \<Rightarrow> supported" where
  "detect macos offered cuda tensorrt =
    \<lparr> has_cpu = True, has_coreml = macos, has_cuda = cuda, has_tensorrt = (cuda \<and> tensorrt), has_webgpu = offered \<rparr>"

fun supports :: "supported \<Rightarrow> provider \<Rightarrow> bool" where
  "supports su Auto = True"
| "supports su Cpu = has_cpu su"
| "supports su CoreMl = has_coreml su"
| "supports su Cuda = has_cuda su"
| "supports su TensorRt = has_tensorrt su"
| "supports su WebGpu = has_webgpu su"

definition available :: "supported \<Rightarrow> provider list" where
  "available su = filter (\<lambda>p. p \<noteq> Auto \<and> supports su p) all_providers"

section \<open>The ladder\<close>

definition push_accelerator :: "supported \<Rightarrow> provider list \<Rightarrow> provider \<Rightarrow> provider list" where
  "push_accelerator su chain a = (if supports su a \<and> a \<notin> set chain then chain @ [a] else chain)"

fun chain_loop :: "supported \<Rightarrow> provider list \<Rightarrow> provider list \<Rightarrow> provider list" where
  "chain_loop su chain [] = chain"
| "chain_loop su chain (p # ps) =
    (case p of
       Cpu \<Rightarrow> chain
     | Auto \<Rightarrow> chain_loop su (foldl (push_accelerator su) chain auto_order) ps
     | _ \<Rightarrow> chain_loop su (foldl (push_accelerator su) chain [p]) ps)"

definition ladder :: "provider list \<Rightarrow> supported \<Rightarrow> provider list list" where
  "ladder requested su =
    (let chain = chain_loop su [] requested in map (\<lambda>from. drop from chain) [0..<length chain] @ [[]])"

section \<open>Tuning\<close>

datatype compute_units = All_Units | Cpu_And_Gpu | Cpu_And_Neural_Engine

fun units_name :: "compute_units \<Rightarrow> string" where
  "units_name All_Units = ''ALL''"
| "units_name Cpu_And_Gpu = ''CPUAndGPU''"
| "units_name Cpu_And_Neural_Engine = ''CPUAndNeuralEngine''"

datatype specialization = Default_Strategy | Fast_Prediction

fun specialization_name :: "specialization \<Rightarrow> string" where
  "specialization_name Default_Strategy = ''Default''"
| "specialization_name Fast_Prediction = ''FastPrediction''"

datatype execution_mode = Parallel | Sequential

type_synonym option_map = "(string \<times> string) list"

record tuning =
  tu_units :: compute_units
  tu_specialization :: specialization
  tu_mode :: execution_mode
  tu_disable_mem_pattern :: bool
  tu_disabled_optimizers :: "string list"
  tu_prefer_nhwc :: bool
  tu_trt_options :: option_map
  tu_prefer_nchw :: bool
  tu_force_cpu_nodes :: "string list"

definition default_tuning :: tuning where
  "default_tuning =
    \<lparr> tu_units = All_Units, tu_specialization = Default_Strategy, tu_mode = Parallel, tu_disable_mem_pattern = False,
      tu_disabled_optimizers = [], tu_prefer_nhwc = False, tu_trt_options = [], tu_prefer_nchw = False,
      tu_force_cpu_nodes = [] \<rparr>"

record cache_paths =
  cp_tensorrt :: string
  cp_timing :: string
  cp_coreml :: string

text \<open>\<open>Path::join\<close> with a plain name.\<close>

definition join_name :: "string \<Rightarrow> string \<Rightarrow> string" where
  "join_name dir name = (if dir = [] \<or> last dir = CHR ''/'' then dir @ name else dir @ ''/'' @ name)"

definition paths_under :: "string \<Rightarrow> cache_paths" where
  "paths_under dir =
    (let trt = join_name dir ''tensorrt'' in
     \<lparr> cp_tensorrt = trt, cp_timing = join_name trt ''timing'', cp_coreml = join_name dir ''coreml'' \<rparr>)"

text \<open>\<open>create_dir_all\<close> is the system's, over its state.\<close>

definition create_paths :: "(string \<Rightarrow> 'w \<Rightarrow> 'w \<times> (io_error + unit)) \<Rightarrow> cache_paths \<Rightarrow> 'w \<Rightarrow> 'w \<times> (io_error + unit)" where
  "create_paths mk p w =
    sbind (mk (cp_tensorrt p) w) (\<lambda>w _. sbind (mk (cp_timing p) w) (\<lambda>w _. mk (cp_coreml p) w))"

definition trt_workspace_limit :: nat where
  "trt_workspace_limit = 4 * 2 ^ 30"

definition trt_workspace_bytes :: "nat option \<Rightarrow> nat" where
  "trt_workspace_bytes device_memory =
    (case device_memory of None \<Rightarrow> trt_workspace_limit | Some bytes \<Rightarrow> min (bytes div 4) trt_workspace_limit)"

section \<open>Option maps\<close>

text \<open>The order of \<open>str\<close>.\<close>

fun text_less :: "string \<Rightarrow> string \<Rightarrow> bool" where
  "text_less [] t = (t \<noteq> [])"
| "text_less (c # s) [] = False"
| "text_less (c # s) (d # t) =
    ((of_char c :: nat) < of_char d \<or> c = d \<and> text_less s t)"

fun btree_insert :: "string \<Rightarrow> string \<Rightarrow> option_map \<Rightarrow> option_map" where
  "btree_insert k v [] = [(k, v)]"
| "btree_insert k v ((k', v') # m) =
    (if k = k' then (k, v) # m else if text_less k k' then (k, v) # (k', v') # m else (k', v') # btree_insert k v m)"

definition btree_extend :: "option_map \<Rightarrow> option_map \<Rightarrow> option_map" where
  "btree_extend m es = foldl (\<lambda>m (k, v). btree_insert k v m) m es"

definition options_from :: "option_map \<Rightarrow> option_map" where
  "options_from es = btree_extend [] es"

definition graph_capture_disabled :: string where
  "graph_capture_disabled = ''0''"

definition coreml_options :: "tuning \<Rightarrow> cache_paths \<Rightarrow> option_map" where
  "coreml_options tu paths = options_from
    [(''EnableOnSubgraphs'', ''0''),
     (''MLComputeUnits'', units_name (tu_units tu)),
     (''ModelCacheDirectory'', cp_coreml paths),
     (''ModelFormat'', ''MLProgram''),
     (''RequireStaticInputShapes'', ''1''),
     (''SpecializationStrategy'', specialization_name (tu_specialization tu))]"

definition cuda_options :: "tuning \<Rightarrow> option_map" where
  "cuda_options tu = options_from
    [(''cudnn_conv_algo_search'', ''EXHAUSTIVE''),
     (''cudnn_conv_use_max_workspace'', ''1''),
     (''device_id'', ''0''),
     (''do_copy_in_default_stream'', ''1''),
     (''enable_cuda_graph'', graph_capture_disabled),
     (''gpu_mem_limit'', ''0''),
     (''prefer_nhwc'', if tu_prefer_nhwc tu then ''1'' else ''0'')]"

definition tensorrt_options :: "tuning \<Rightarrow> cache_paths \<Rightarrow> nat option \<Rightarrow> option_map" where
  "tensorrt_options tu paths device_memory =
    (let options = options_from
      [(''device_id'', ''0''),
       (''trt_max_workspace_size'', show_nat (trt_workspace_bytes device_memory)),
       (''trt_fp16_enable'', ''0''),
       (''trt_int8_enable'', ''0''),
       (''trt_engine_hw_compatible'', ''0''),
       (''trt_cuda_graph_enable'', graph_capture_disabled),
       (''trt_builder_optimization_level'', ''5''),
       (''trt_engine_cache_enable'', ''1''),
       (''trt_engine_cache_path'', cp_tensorrt paths),
       (''trt_timing_cache_enable'', ''1''),
       (''trt_timing_cache_path'', cp_timing paths)] in
     btree_extend options (tu_trt_options tu))"

definition webgpu_options :: "tuning \<Rightarrow> option_map" where
  "webgpu_options tu =
    (let options = (if tu_prefer_nchw tu then btree_insert ''preferredLayout'' ''NCHW'' [] else []) in
     if tu_force_cpu_nodes tu \<noteq> []
     then btree_insert ''forceCpuNodeNames'' (join [CHR 0x0A] (tu_force_cpu_nodes tu)) options else options)"

definition provider_options :: "provider \<Rightarrow> tuning \<Rightarrow> cache_paths \<Rightarrow> nat option \<Rightarrow> option_map" where
  "provider_options p tu paths device_memory =
    (case p of
       Auto \<Rightarrow> []
     | Cpu \<Rightarrow> []
     | CoreMl \<Rightarrow> coreml_options tu paths
     | Cuda \<Rightarrow> cuda_options tu
     | TensorRt \<Rightarrow> tensorrt_options tu paths device_memory
     | WebGpu \<Rightarrow> webgpu_options tu)"

record session_settings =
  se_parallel :: bool
  se_mem_pattern :: bool
  se_disabled_optimizers :: "string option"

definition settings_of :: "tuning \<Rightarrow> session_settings" where
  "settings_of tu =
    (let names = filter (\<lambda>n. n \<noteq> []) (tu_disabled_optimizers tu) in
     \<lparr> se_parallel = (tu_mode tu = Parallel), se_mem_pattern = (\<not> tu_disable_mem_pattern tu),
       se_disabled_optimizers = (if names \<noteq> [] then Some (join '';'' names) else None) \<rparr>)"

section \<open>Facts\<close>

text \<open>The accelerators a request asks for, in the order it prefers them: what is before the first CPU, with each
  \<open>Auto\<close> spelled out, what is not offered left out, and repeats after the first left out.\<close>

definition wanted_providers :: "provider list \<Rightarrow> provider list" where
  "wanted_providers requested =
    concat (map (\<lambda>p. if p = Auto then auto_order else [p]) (takeWhile (\<lambda>p. p \<noteq> Cpu) requested))"

lemma push_firsts:
  "push_accelerator su (firsts (filter (supports su) xs)) a = firsts (filter (supports su) (xs @ [a]))"
  by (auto simp: push_accelerator_def firsts_snoc)

lemma push_all_firsts:
  "foldl (push_accelerator su) (firsts (filter (supports su) xs)) ys = firsts (filter (supports su) (xs @ ys))"
proof (induction ys arbitrary: xs)
  case (Cons y ys)
  from Cons.IH [of "xs @ [y]"] show ?case
    by (simp add: push_firsts)
qed simp

lemma chain_loop_firsts:
  "chain_loop su (firsts (filter (supports su) xs)) requested
    = firsts (filter (supports su) (xs @ wanted_providers requested))"
proof (induction requested arbitrary: xs)
  case Nil
  then show ?case
    by (simp add: wanted_providers_def)
next
  case (Cons p ps)
  show ?case
  proof (cases "p = Cpu")
    case True
    then show ?thesis
      by (simp add: wanted_providers_def)
  next
    case False
    let ?e = "if p = Auto then auto_order else [p]"
    have "chain_loop su (firsts (filter (supports su) xs)) (p # ps)
        = chain_loop su (foldl (push_accelerator su) (firsts (filter (supports su) xs)) ?e) ps"
      using False by (cases p) simp_all
    with Cons.IH [of "xs @ ?e"] False show ?thesis
      by (simp add: push_all_firsts wanted_providers_def)
  qed
qed

lemma chain_spec: "chain_loop su [] requested = firsts (filter (supports su) (wanted_providers requested))"
  using chain_loop_firsts [of su "[]" requested] by (simp add: firsts_def)

lemma drops_are_suffixes: "map (\<lambda>from. drop from xs) [0..<length xs] @ [[]] = rev (suffixes xs)"
proof (induction xs)
  case (Cons x xs)
  have "map (\<lambda>from. drop from (x # xs)) [0..<length (x # xs)]
      = (x # xs) # map (\<lambda>from. drop from xs) [0..<length xs]"
    by (simp add: upt_conv_Cons map_Suc_upt [symmetric] del: upt_Suc)
  with Cons.IH show ?case
    by simp
qed simp

lemma wanted_accelerators: "p \<in> set (wanted_providers requested) \<Longrightarrow> is_accelerator p"
  by (auto simp: wanted_providers_def is_accelerator_def auto_order_def dest: set_takeWhileD split: if_splits)

lemma ladder_suffixes:
  "ladder requested su = rev (suffixes (firsts (filter (supports su) (wanted_providers requested))))"
  by (simp add: ladder_def Let_def chain_spec drops_are_suffixes)

lemma ladder_last: "ladder requested su \<noteq> []" "last (ladder requested su) = []"
  by (simp_all add: ladder_def Let_def)

lemma ladder_rung:
  assumes "rung \<in> set (ladder requested su)"
  shows "list_all (\<lambda>p. is_accelerator p \<and> supports su p) rung \<and> distinct rung"
proof -
  from assms obtain before where "firsts (filter (supports su) (wanted_providers requested)) = before @ rung"
    by (auto simp: ladder_suffixes suffix_def)
  moreover from this have "set rung \<subseteq> set (filter (supports su) (wanted_providers requested))" "distinct rung"
    using set_firsts [of "filter (supports su) (wanted_providers requested)"]
      distinct_firsts [of "filter (supports su) (wanted_providers requested)"]
    by (metis set_append sup_ge2, metis distinct_append)
  ultimately show ?thesis
    using wanted_accelerators by (auto simp: list_all_iff)
qed

lemma provider_round_trip:
  assumes "eq_ignore_ascii_case s (provider_name p)"
  shows "provider_from_str s = Inr p"
proof -
  have "eq_ignore_ascii_case q s = eq_ignore_ascii_case q (provider_name p)" for q
    using assms by (auto simp: eq_ignore_ascii_case_def)
  then show ?thesis
    by (cases p; simp add: provider_from_str_def all_providers_def ok_or_def; simp add: eq_ignore_ascii_case_def
        ascii_lowercase_def to_ascii_lower_def is_ascii_upper_def)
qed

text \<open>An option map has each key once, in order, and an option set later replaces the one set before.\<close>

lemma text_less_trans: "text_less s t \<Longrightarrow> text_less t u \<Longrightarrow> text_less s u"
proof (induction s t arbitrary: u rule: text_less.induct)
  case (3 c s d t)
  then show ?case
    by (cases u) (auto simp: less_trans)
qed (auto elim: text_less.elims)

lemma text_less_linear: "text_less s t \<or> s = t \<or> text_less t s"
proof (induction s t rule: text_less.induct)
  case (3 c s d t)
  have "c = d" if "(of_char c :: nat) = of_char d"
    using that by simp
  with 3 show ?case
    by (cases "(of_char c :: nat)" "of_char d :: nat" rule: linorder_cases) auto
next
  case (1 t)
  then show ?case
    by simp
qed simp

lemma map_of_btree_insert [simp]: "map_of (btree_insert k v m) = (map_of m)(k \<mapsto> v)"
  by (induction k v m rule: btree_insert.induct) auto

lemma set_btree_insert: "fst ` set (btree_insert k v m) = insert k (fst ` set m)"
  by (induction k v m rule: btree_insert.induct) auto

lemma sorted_btree_insert:
  "sorted_wrt text_less (map fst m) \<Longrightarrow> sorted_wrt text_less (map fst (btree_insert k v m))"
proof (induction k v m rule: btree_insert.induct)
  case (2 k v k' v' m)
  then show ?case
    using text_less_linear [of k k'] set_btree_insert [of k v m]
    by (auto simp: image_iff dest: text_less_trans)
qed simp

lemma map_of_btree_extend: "map_of (btree_extend m es) = map_of m ++ map_of (rev es)"
  unfolding btree_extend_def
  by (induction es arbitrary: m) (auto simp: fun_eq_iff map_add_def split: option.splits)

lemma sorted_btree_extend:
  "sorted_wrt text_less (map fst m) \<Longrightarrow> sorted_wrt text_less (map fst (btree_extend m es))"
  unfolding btree_extend_def by (induction es arbitrary: m) (auto simp: sorted_btree_insert)

lemma provider_options_sorted: "sorted_wrt text_less (map fst (provider_options p tu paths mem))"
  by (cases p)
    (auto simp: provider_options_def coreml_options_def cuda_options_def tensorrt_options_def webgpu_options_def
      options_from_def Let_def intro!: sorted_btree_extend sorted_btree_insert)

lemma trt_workspace_bounds:
  "trt_workspace_bytes mem \<le> 2 ^ 32" "mem = Some bytes \<Longrightarrow> 4 * trt_workspace_bytes mem \<le> bytes"
  by (auto simp: trt_workspace_bytes_def trt_workspace_limit_def split: option.split)

section \<open>Properties\<close>

text \<open>C36. The rungs are the accelerators asked for and offered, best first, then that list without its first, and so on
  down to the CPU alone: what follows a CPU is ignored, each \<open>Auto\<close> stands for the whole order, a repeat
  counts once, and no rung holds \<open>Auto\<close>, the CPU or a provider the machine lacks.\<close>

theorem ladder_tries_what_was_asked:
  "ladder requested su = rev (suffixes (firsts (filter (supports su) (wanted_providers requested))))
    \<and> last (ladder requested su) = []
    \<and> list_all (\<lambda>rung. list_all (\<lambda>p. is_accelerator p \<and> supports su p) rung \<and> distinct rung) (ladder requested su)"
  using ladder_rung by (auto simp: ladder_suffixes [symmetric] ladder_last list_all_iff)

end
