(* ===== verification/Session.thy ===== *)
theory Session
  imports Providers Install
begin

text \<open>
  \<open>ai/load.rs\<close>, \<open>ai/webgpu.rs\<close>, the counting of \<open>ai/logger.rs\<close> and \<open>ai/session.rs\<close>: the one environment of a
  process, and the building of a session on the first rung of its ladder that works. The runtime (\<open>ort\<close>) and the
  system are parameters, over a world of theirs; a call of the runtime also returns the records it logged on the
  calling thread. What the process does is logged: the start, the lock of the TensorRT builds, the attempts and
  the discarding of a timing cache. Log output, the silencing at exit and poisoned locks are not modelled, and
  the builds are those of one thread, which holds the lock from \<open>Locked\<close> to \<open>Unlocked\<close>.
\<close>

section \<open>The process\<close>

datatype accelerator = On_CoreMl | On_Cuda | On_TensorRt | On_WebGpu

fun accelerator_of :: "provider \<Rightarrow> accelerator option" where
  "accelerator_of Auto = None"
| "accelerator_of Cpu = None"
| "accelerator_of CoreMl = Some On_CoreMl"
| "accelerator_of Cuda = Some On_Cuda"
| "accelerator_of TensorRt = Some On_TensorRt"
| "accelerator_of WebGpu = Some On_WebGpu"

fun provider_of :: "accelerator \<Rightarrow> provider" where
  "provider_of On_CoreMl = CoreMl"
| "provider_of On_Cuda = Cuda"
| "provider_of On_TensorRt = TensorRt"
| "provider_of On_WebGpu = WebGpu"

datatype build_step = Started string | Locked | Unlocked | Attempted "accelerator list" bool | Discarded string

record ('w, 'env) process =
  pr_world :: 'w
  pr_env :: "'env option"
  pr_webgpu :: bool
  pr_oom :: u64
  pr_memory :: "nat option option"
  pr_messages :: "string list"
  pr_steps :: "build_step list"

definition log_step :: "build_step \<Rightarrow> ('w, 'env) process \<Rightarrow> ('w, 'env) process" where
  "log_step st s = s\<lparr>pr_steps := pr_steps s @ [st]\<rparr>"

text \<open>The system: folders as they are read and written, \<open>Path::display\<close> and the text of a file error.\<close>

record 'w host =
  hs_entries :: "string \<Rightarrow> 'w \<Rightarrow> entries option"
  hs_follow :: "string \<Rightarrow> follow"
  hs_os :: string
  hs_webgpu :: "'w \<Rightarrow> bool"
  hs_cuda_memory :: "'w \<Rightarrow> nat option"
  hs_mkdir :: "string \<Rightarrow> 'w \<Rightarrow> 'w \<times> (io_error + unit)"
  hs_folder :: "string \<Rightarrow> 'w \<Rightarrow> folder"
  hs_put :: "string \<Rightarrow> folder \<Rightarrow> 'w \<Rightarrow> 'w"
  hs_display :: "string \<Rightarrow> string"
  hs_error :: "io_error \<Rightarrow> string"

text \<open>The runtime. A device comes with the name of its provider, when that can be read.\<close>

record ('w, 'env, 'b, 's, 'dev) ort =
  or_open :: "string \<Rightarrow> 'w \<Rightarrow> 'w \<times> string list \<times> (string + unit)"
  or_start :: "string \<Rightarrow> 'w \<Rightarrow> 'w \<times> string list \<times> (string + 'env)"
  or_register :: "'env \<Rightarrow> string \<Rightarrow> 'w \<Rightarrow> 'w \<times> string list \<times> (string + unit)"
  or_devices :: "'env \<Rightarrow> 'w \<Rightarrow> ('dev \<times> string option) list"
  or_builder :: "'env \<Rightarrow> 'w \<Rightarrow> 'w \<times> string list \<times> (string + 'b)"
  or_attach :: "accelerator \<Rightarrow> option_map \<Rightarrow> 'b \<Rightarrow> 'w \<Rightarrow> 'w \<times> string list \<times> (string + 'b)"
  or_device :: "'dev \<Rightarrow> option_map \<Rightarrow> 'b \<Rightarrow> 'w \<Rightarrow> 'w \<times> string list \<times> (string + 'b)"
  or_parallel :: "bool \<Rightarrow> 'b \<Rightarrow> 'w \<Rightarrow> 'w \<times> string list \<times> (string + 'b)"
  or_mem_pattern :: "bool \<Rightarrow> 'b \<Rightarrow> 'w \<Rightarrow> 'w \<times> string list \<times> (string + 'b)"
  or_disabled :: "string \<Rightarrow> 'b \<Rightarrow> 'w \<Rightarrow> 'w \<times> string list \<times> (string + 'b)"
  or_commit :: "string \<Rightarrow> 'b \<Rightarrow> 'w \<Rightarrow> 'w \<times> string list \<times> (string + 's)"

section \<open>Out of memory\<close>

definition is_oom_record :: "string \<Rightarrow> bool" where
  "is_oom_record message = (contains ''OutOfMemory'' message \<or> contains ''out of memory'' message)"

definition says_oom :: "string \<Rightarrow> bool" where
  "says_oom message =
    (let message = ascii_lowercase message in
     contains ''out of memory'' message \<or> contains ''outofmemory'' message \<or> contains ''failed to allocate'' message)"

definition count_message :: "string \<Rightarrow> ('w, 'env) process \<Rightarrow> ('w, 'env) process" where
  "count_message message s =
    (let s = s\<lparr>pr_messages := pr_messages s @ [message]\<rparr> in
     if is_oom_record message then s\<lparr>pr_oom := pr_oom s + 1\<rparr> else s)"

definition oom_since :: "u64 \<Rightarrow> ('w, 'env) process \<Rightarrow> bool" where
  "oom_since mark s = (pr_oom s \<noteq> mark)"

definition runtime :: "('w \<Rightarrow> 'w \<times> string list \<times> (string + 'a)) \<Rightarrow> ('w, 'env) process
    \<Rightarrow> ('w, 'env) process \<times> (string + 'a)" where
  "runtime call s =
    (case call (pr_world s) of (w, messages, r) \<Rightarrow> (fold count_message messages (s\<lparr>pr_world := w\<rparr>), r))"

section \<open>Loading\<close>

definition webgpu_ep :: string where
  "webgpu_ep = ''WebGpuExecutionProvider''"

datatype load_error = Not_Installed string | Not_Opened string string | Not_Started string string

definition file_in :: "'w host \<Rightarrow> string \<Rightarrow> string \<Rightarrow> 'w \<Rightarrow> bool" where
  "file_in hs dir n w =
    (case hs_entries hs dir w of
       Some es \<Rightarrow> (case map_of es n of Some node \<Rightarrow> is_file_at (hs_follow hs dir) node | None \<Rightarrow> False)
     | None \<Rightarrow> False)"

definition plugin_name :: "string \<Rightarrow> string" where
  "plugin_name os =
    (if os = ''macos'' then ''libonnxruntime_providers_webgpu.dylib''
     else if os = ''windows'' then ''onnxruntime_providers_webgpu.dll''
     else ''libonnxruntime_providers_webgpu.so'')"

definition plugin_in :: "'w host \<Rightarrow> string \<Rightarrow> 'w \<Rightarrow> string option" where
  "plugin_in hs dir w =
    (if file_in hs dir (plugin_name (hs_os hs)) w then Some (join_name dir (plugin_name (hs_os hs))) else None)"

definition webgpu_devices :: "('w, 'env, 'b, 's, 'dev) ort \<Rightarrow> 'env \<Rightarrow> 'w \<Rightarrow> 'dev list" where
  "webgpu_devices rt env w = map fst (filter (\<lambda>(dev, ep). ep = Some webgpu_ep) (or_devices rt env w))"

definition register_webgpu :: "'w host \<Rightarrow> ('w, 'env, 'b, 's, 'dev) ort \<Rightarrow> 'env \<Rightarrow> string \<Rightarrow> ('w, 'env) process
    \<Rightarrow> ('w, 'env) process \<times> bool" where
  "register_webgpu hs rt env dir s =
    (if \<not> hs_webgpu hs (pr_world s) then (s, False)
     else case plugin_in hs dir (pr_world s) of
       None \<Rightarrow> (s, False)
     | Some plugin \<Rightarrow>
         (case runtime (or_register rt env plugin) s of
            (s, Inl _) \<Rightarrow> (s, False)
          | (s, Inr _) \<Rightarrow> (s, webgpu_devices rt env (pr_world s) \<noteq> [])))"

definition library_of :: "'w host \<Rightarrow> string \<Rightarrow> 'w \<Rightarrow> string option" where
  "library_of hs dir w = Option.bind (hs_entries hs dir w) (library_in (hs_follow hs dir) (hs_os hs))"

definition start :: "'w host \<Rightarrow> ('w, 'env, 'b, 's, 'dev) ort \<Rightarrow> string \<Rightarrow> string \<Rightarrow> string \<Rightarrow> ('w, 'env) process
    \<Rightarrow> ('w, 'env) process \<times> (load_error + 'env)" where
  "start hs rt dir n name s =
    (if \<not> file_in hs dir n (pr_world s) then (s, Inl (Not_Installed (join_name dir n)))
     else
       sbind (case runtime (or_open rt (join_name dir n)) s of (s, r) \<Rightarrow>
         (s, map_err (Not_Opened (join_name dir n)) r)) (\<lambda>s _.
       case runtime (or_start rt name) s of
         (s, Inl reason) \<Rightarrow> (s, Inl (Not_Started (join_name dir n) reason))
       | (s, Inr env) \<Rightarrow> (log_step (Started dir) s, Inr env)))"

definition load_with :: "'w host \<Rightarrow> ('w, 'env, 'b, 's, 'dev) ort \<Rightarrow> string \<Rightarrow> string \<Rightarrow> ('w, 'env) process
    \<Rightarrow> ('w, 'env) process \<times> (load_error + unit)" where
  "load_with hs rt dir name s =
    (if pr_env s \<noteq> None then (s, Inr ())
     else if \<not> file_in hs dir marker_name (pr_world s) then (s, Inl (Not_Installed dir))
     else
       sbind (s, ok_or (library_of hs dir (pr_world s)) (Not_Installed dir)) (\<lambda>s n.
       sbind (start hs rt dir n name s) (\<lambda>s env.
       case register_webgpu hs rt env dir s of (s, offered) \<Rightarrow>
         (s\<lparr>pr_webgpu := offered, pr_env := Some env\<rparr>, Inr ()))))"

definition load where
  "load hs rt dir s = load_with hs rt dir ''rust-sak'' s"

section \<open>One attempt\<close>

record session_request =
  rq_model :: string
  rq_providers :: "provider list"
  rq_supported :: supported
  rq_tuning :: tuning
  rq_cache :: cache_paths

datatype rung_error = Rung_Error (ru_providers: "provider list") (ru_reason: string) (ru_out_of_memory: bool)

datatype session_error = Session_Error (se_model: string) (se_reason: string)

fun written_by :: "cache_paths \<Rightarrow> accelerator \<Rightarrow> string list" where
  "written_by paths On_CoreMl = [cp_coreml paths]"
| "written_by paths On_TensorRt = [cp_tensorrt paths, cp_timing paths]"
| "written_by paths On_Cuda = []"
| "written_by paths On_WebGpu = []"

definition written :: "cache_paths \<Rightarrow> accelerator list \<Rightarrow> string list" where
  "written paths rung = concat (map (written_by paths) rung)"

fun create_folders :: "'w host \<Rightarrow> string list \<Rightarrow> 'w \<Rightarrow> 'w \<times> (io_error + unit)" where
  "create_folders hs [] w = (w, Inr ())"
| "create_folders hs (d # ds) w = sbind (hs_mkdir hs d w) (\<lambda>w _. create_folders hs ds w)"

text \<open>The first CUDA device's memory is probed once.\<close>

definition device_memory :: "'w host \<Rightarrow> ('w, 'env) process \<Rightarrow> ('w, 'env) process \<times> nat option" where
  "device_memory hs s =
    (case pr_memory s of
       Some m \<Rightarrow> (s, m)
     | None \<Rightarrow> (let m = hs_cuda_memory hs (pr_world s) in (s\<lparr>pr_memory := Some m\<rparr>, m)))"

definition attach_webgpu where
  "attach_webgpu rt env options b s =
    (case webgpu_devices rt env (pr_world s) of
       [] \<Rightarrow> (s, Inl ''the WebGPU plugin offers no device'')
     | dev # _ \<Rightarrow> runtime (or_device rt dev (map (\<lambda>(k, v). (webgpu_ep @ ''.'' @ k, v)) options) b) s)"

fun attach_loop :: "('w, 'env, 'b, 's, 'dev) ort \<Rightarrow> 'env \<Rightarrow> session_request \<Rightarrow> nat option \<Rightarrow> accelerator list \<Rightarrow> 'b
    \<Rightarrow> ('w, 'env) process \<Rightarrow> ('w, 'env) process \<times> (string + 'b)" where
  "attach_loop rt env rq mem [] b s = (s, Inr b)"
| "attach_loop rt env rq mem (a # rung) b s =
    (let options = provider_options (provider_of a) (rq_tuning rq) (rq_cache rq) mem in
     sbind (if a = On_WebGpu then attach_webgpu rt env options b s else runtime (or_attach rt a options b) s) (\<lambda>s b.
     attach_loop rt env rq mem rung b s))"

definition build_rung :: "('w, 'env, 'b, 's, 'dev) ort \<Rightarrow> 'env \<Rightarrow> session_request \<Rightarrow> accelerator list \<Rightarrow> nat option
    \<Rightarrow> ('w, 'env) process \<Rightarrow> ('w, 'env) process \<times> (string + 's)" where
  "build_rung rt env rq rung mem s =
    (let settings = settings_of (rq_tuning rq) in
     sbind (runtime (or_builder rt env) s) (\<lambda>s b.
     sbind (attach_loop rt env rq mem rung b s) (\<lambda>s b.
     sbind (runtime (or_parallel rt (se_parallel settings) b) s) (\<lambda>s b.
     sbind (runtime (or_mem_pattern rt (se_mem_pattern settings) b) s) (\<lambda>s b.
     sbind (case se_disabled_optimizers settings of
         Some disabled \<Rightarrow> runtime (or_disabled rt disabled b) s | None \<Rightarrow> (s, Inr b)) (\<lambda>s b.
     runtime (or_commit rt (rq_model rq) b) s))))))"

definition attempt_rung :: "'w host \<Rightarrow> ('w, 'env, 'b, 's, 'dev) ort \<Rightarrow> session_request \<Rightarrow> accelerator list
    \<Rightarrow> ('w, 'env) process \<Rightarrow> ('w, 'env) process \<times> (string + 's)" where
  "attempt_rung hs rt rq rung s =
    sbind (s, ok_or (pr_env s) ''the ONNX Runtime is not loaded'') (\<lambda>s env.
    case find (\<lambda>d. \<not> utf8_valid (of_text d)) (written (rq_cache rq) rung) of
      Some d \<Rightarrow> (s, Inl (''its cache folder is not valid UTF-8: '' @ hs_display hs d))
    | None \<Rightarrow>
        sbind (case create_folders hs (written (rq_cache rq) rung) (pr_world s) of (w, r) \<Rightarrow>
          (s\<lparr>pr_world := w\<rparr>, map_err (\<lambda>e. ''its cache folder could not be created: '' @ hs_error hs e) r)) (\<lambda>s _.
        case (if On_TensorRt \<in> set rung then device_memory hs s else (s, None)) of (s, mem) \<Rightarrow>
          build_rung rt env rq rung mem s))"

section \<open>Building\<close>

definition attempted where
  "attempted hs rt rq rung s =
    (case attempt_rung hs rt rq rung s of (s, r) \<Rightarrow> (log_step (Attempted rung (is_ok r)) s, r))"

definition discard_timing :: "'w host \<Rightarrow> string \<Rightarrow> ('w, 'env) process \<Rightarrow> ('w, 'env) process" where
  "discard_timing hs timing s =
    log_step (Discarded timing)
      (s\<lparr>pr_world := hs_put hs timing (fst (empty_dir (\<lambda>_. False) (hs_folder hs timing (pr_world s)))) (pr_world s)\<rparr>)"

definition serialized :: "'w host \<Rightarrow> bool \<Rightarrow> string \<Rightarrow> (('w, 'env) process \<Rightarrow> ('w, 'env) process \<times> ('e + 'a))
    \<Rightarrow> ('w, 'env) process \<Rightarrow> ('w, 'env) process \<times> ('e + 'a)" where
  "serialized hs tensorrt timing f s =
    (if \<not> tensorrt then f s
     else case f (log_step Locked s) of
       (s, Inl e) \<Rightarrow> (log_step Unlocked (discard_timing hs timing s), Inl e)
     | (s, Inr a) \<Rightarrow> (log_step Unlocked s, Inr a))"

definition rung_error_of :: "provider list \<Rightarrow> string \<Rightarrow> u64 \<Rightarrow> ('w, 'env) process \<Rightarrow> rung_error" where
  "rung_error_of providers reason mark s =
    Rung_Error providers reason (providers \<noteq> [] \<and> (oom_since mark s \<or> says_oom reason))"

definition build :: "'w host \<Rightarrow> ('w, 'env, 'b, 's, 'dev) ort \<Rightarrow> session_request \<Rightarrow> provider list
    \<Rightarrow> ('w, 'env) process \<Rightarrow> ('w, 'env) process \<times> (rung_error + 's)" where
  "build hs rt rq rung s =
    (let rung = List.map_filter accelerator_of rung; providers = map provider_of rung; mark = pr_oom s in
     case serialized hs (On_TensorRt \<in> set rung) (cp_timing (rq_cache rq)) (attempted hs rt rq rung) s of
       (s, r) \<Rightarrow> (s, map_err (\<lambda>reason. rung_error_of providers reason mark s) r))"

fun walk_rungs :: "string \<Rightarrow> (provider list \<Rightarrow> 'st \<Rightarrow> 'st \<times> (string + 's)) \<Rightarrow> string \<Rightarrow> provider list list \<Rightarrow> 'st
    \<Rightarrow> 'st \<times> (session_error + 's \<times> provider list)" where
  "walk_rungs model try_rung last_reason [] s = (s, Inl (Session_Error model last_reason))"
| "walk_rungs model try_rung last_reason (rung # rungs) s =
    (case try_rung rung s of
       (s, Inr built) \<Rightarrow> (s, Inr (built, rung))
     | (s, Inl reason) \<Rightarrow> walk_rungs model try_rung reason rungs s)"

definition session :: "'w host \<Rightarrow> ('w, 'env, 'b, 's, 'dev) ort \<Rightarrow> session_request \<Rightarrow> ('w, 'env) process
    \<Rightarrow> ('w, 'env) process \<times> (session_error + 's \<times> provider list)" where
  "session hs rt rq s =
    walk_rungs (rq_model rq)
      (\<lambda>rung s. case build hs rt rq rung s of (s, r) \<Rightarrow> (s, map_err ru_reason r))
      ''the ladder has no rung'' (ladder (rq_providers rq) (rq_supported rq)) s"

section \<open>What the steps leave alone\<close>

text \<open>A call of the runtime changes its world and the count of its records, and nothing else of the process.\<close>

lemma count_message_simps [simp]:
  "pr_world (count_message m s) = pr_world s" "pr_env (count_message m s) = pr_env s"
  "pr_webgpu (count_message m s) = pr_webgpu s" "pr_memory (count_message m s) = pr_memory s"
  "pr_steps (count_message m s) = pr_steps s" "pr_messages (count_message m s) = pr_messages s @ [m]"
  by (simp_all add: count_message_def Let_def)

lemma count_messages_simps [simp]:
  "pr_world (fold count_message ms s) = pr_world s" "pr_env (fold count_message ms s) = pr_env s"
  "pr_webgpu (fold count_message ms s) = pr_webgpu s" "pr_memory (fold count_message ms s) = pr_memory s"
  "pr_steps (fold count_message ms s) = pr_steps s" "pr_messages (fold count_message ms s) = pr_messages s @ ms"
  by (induction ms arbitrary: s) simp_all

lemma log_step_simps [simp]:
  "pr_world (log_step st s) = pr_world s" "pr_env (log_step st s) = pr_env s"
  "pr_webgpu (log_step st s) = pr_webgpu s" "pr_memory (log_step st s) = pr_memory s"
  "pr_oom (log_step st s) = pr_oom s" "pr_messages (log_step st s) = pr_messages s"
  "pr_steps (log_step st s) = pr_steps s @ [st]"
  by (simp_all add: log_step_def)

definition quiet :: "('w, 'env) process \<Rightarrow> ('w, 'env) process \<Rightarrow> bool" where
  "quiet s s' = (pr_env s' = pr_env s \<and> pr_webgpu s' = pr_webgpu s \<and> pr_steps s' = pr_steps s)"

named_theorems quiet_steps

lemma quiet_refl [simp]: "quiet s s"
  by (simp add: quiet_def)

lemma quiet_runtime [quiet_steps]: "quiet s0 s \<Longrightarrow> quiet s0 (fst (runtime call s))"
  by (simp add: quiet_def runtime_def split: prod.split)

lemma quiet_attach [quiet_steps]: "quiet s0 s \<Longrightarrow> quiet s0 (fst (attach_webgpu rt env options b s))"
  by (auto simp: attach_webgpu_def intro: quiet_steps split: list.split)

lemma quiet_attach_loop [quiet_steps]: "quiet s0 s \<Longrightarrow> quiet s0 (fst (attach_loop rt env rq mem rung b s))"
  by (induction rt env rq mem rung b s rule: attach_loop.induct)
    (auto simp: Let_def intro!: sbind_keeps [of "quiet s0"] quiet_steps)

lemma quiet_build_rung [quiet_steps]: "quiet s0 s \<Longrightarrow> quiet s0 (fst (build_rung rt env rq rung mem s))"
  unfolding build_rung_def Let_def
  by (intro sbind_keeps [of "quiet s0"] quiet_steps) (auto intro: quiet_steps split: option.split)

lemma quiet_memory [quiet_steps]: "quiet s0 s \<Longrightarrow> quiet s0 (fst (device_memory hs s))"
  by (simp add: quiet_def device_memory_def Let_def split: option.split)

lemma quiet_world [simp]: "quiet s0 (s\<lparr>pr_world := w\<rparr>) = quiet s0 s"
  by (simp add: quiet_def)

lemma quiet_attempt: "quiet s (fst (attempt_rung hs rt rq rung s))"
proof -
  have mem: "quiet s (fst (case (if b then device_memory hs t else (t, None)) of (t, mem) \<Rightarrow> build_rung rt env rq rung mem t))"
    if "quiet s t" for t env b
    using that quiet_memory [OF that, of hs] by (simp add: case_prod_unfold quiet_steps)
  show ?thesis
    unfolding attempt_rung_def
    by (intro sbind_keeps [of "quiet s"]) (auto intro!: sbind_keeps [of "quiet s"] mem split: option.split prod.split)
qed

section \<open>The lock and the timing cache\<close>

text \<open>What one build logs: an attempt without TensorRT, or one with it under the lock, which discards the timing cache
  before the lock is given up if the attempt failed.\<close>

definition build_block :: "string \<Rightarrow> accelerator list \<times> bool \<Rightarrow> build_step list" where
  "build_block timing a =
    (case a of (rung, worked) \<Rightarrow>
       if On_TensorRt \<in> set rung
       then [Locked, Attempted rung worked] @ (if worked then [] else [Discarded timing]) @ [Unlocked]
       else [Attempted rung worked])"

lemma attempted_steps:
  "pr_steps (fst (attempted hs rt rq rung s)) = pr_steps s @ [Attempted rung (is_ok (snd (attempted hs rt rq rung s)))]"
  using quiet_attempt [of s hs rt rq rung] by (simp add: attempted_def quiet_def case_prod_unfold)

lemma build_steps:
  "\<exists>worked. pr_steps (fst (build hs rt rq rung s))
      = pr_steps s @ build_block (cp_timing (rq_cache rq)) (List.map_filter accelerator_of rung, worked)
    \<and> pr_env (fst (build hs rt rq rung s)) = pr_env s"
proof -
  let ?rung = "List.map_filter accelerator_of rung"
  have env: "pr_env (fst (attempted hs rt rq ?rung t)) = pr_env t" for t
    using quiet_attempt [of t hs rt rq ?rung] by (simp add: attempted_def quiet_def case_prod_unfold)
  show ?thesis
  proof (cases "On_TensorRt \<in> set ?rung")
    case True
    let ?m = "attempted hs rt rq ?rung (log_step Locked s)"
    from attempted_steps [of hs rt rq ?rung "log_step Locked s"] env [of "log_step Locked s"] True show ?thesis
      by (cases ?m; cases "snd ?m")
        (auto simp: build_def serialized_def discard_timing_def build_block_def Let_def)
  next
    case False
    let ?m = "attempted hs rt rq ?rung s"
    from attempted_steps [of hs rt rq ?rung s] env [of s] False show ?thesis
      by (cases ?m) (auto simp: build_def serialized_def build_block_def Let_def)
  qed
qed

section \<open>The rungs\<close>

text \<open>The state after the rungs of a list have all failed, one after the other.\<close>

fun failing :: "'w host \<Rightarrow> ('w, 'env, 'b, 's, 'dev) ort \<Rightarrow> session_request \<Rightarrow> provider list list
    \<Rightarrow> ('w, 'env) process \<Rightarrow> ('w, 'env) process option" where
  "failing hs rt rq [] s = Some s"
| "failing hs rt rq (rung # rungs) s =
    (case build hs rt rq rung s of (s, Inl _) \<Rightarrow> failing hs rt rq rungs s | (_, Inr _) \<Rightarrow> None)"

lemma walk_rungs_spec:
  assumes "walk_rungs model (\<lambda>rung s. case build hs rt rq rung s of (s, r) \<Rightarrow> (s, map_err ru_reason r)) reason rungs s = (s', r)"
  shows "case r of
      Inr (built, rung) \<Rightarrow> \<exists>before after s1. rungs = before @ rung # after \<and> failing hs rt rq before s = Some s1
        \<and> build hs rt rq rung s1 = (s', Inr built)
    | Inl e \<Rightarrow> failing hs rt rq rungs s = Some s' \<and> se_model e = model
        \<and> (if rungs = [] then se_reason e = reason
           else \<exists>s1 e1. failing hs rt rq (butlast rungs) s = Some s1 \<and> build hs rt rq (last rungs) s1 = (s', Inl e1)
             \<and> se_reason e = ru_reason e1)"
  using assms
proof (induction rungs arbitrary: reason s)
  case (Cons rung rungs)
  obtain s1 r1 where b: "build hs rt rq rung s = (s1, r1)"
    by (cases "build hs rt rq rung s")
  show ?case
  proof (cases r1)
    case (Inr built)
    with b Cons.prems have "r = Inr (built, rung)" "s' = s1"
      by simp_all
    moreover have "\<exists>before after s2. rung # rungs = before @ rung # after \<and> failing hs rt rq before s = Some s2
        \<and> build hs rt rq rung s2 = (s1, Inr built)"
      using b Inr by (intro exI [of _ "[]"] exI [of _ rungs] exI [of _ s]) simp
    ultimately show ?thesis
      by simp
  next
    case (Inl e1)
    with b Cons.prems have walk: "walk_rungs model (\<lambda>rung s. case build hs rt rq rung s of (s, r) \<Rightarrow> (s, map_err ru_reason r))
        (ru_reason e1) rungs s1 = (s', r)"
      by simp
    note IH = Cons.IH [OF walk]
    show ?thesis
    proof (cases r)
      case (Inr x)
      then obtain built rung' before after s2 where x: "x = (built, rung')" "rungs = before @ rung' # after"
        "failing hs rt rq before s1 = Some s2" "build hs rt rq rung' s2 = (s', Inr built)"
        using IH by (cases x) auto
      then have "\<exists>before after s2. rung # rungs = before @ rung' # after \<and> failing hs rt rq before s = Some s2
          \<and> build hs rt rq rung' s2 = (s', Inr built)"
        using b Inl by (intro exI [of _ "rung # before"] exI [of _ after] exI [of _ s2]) simp
      with x Inr show ?thesis
        by simp
    next
      case (Inl e)
      with IH b \<open>r1 = Inl e1\<close> walk show ?thesis
        by (cases "rungs = []") auto
    qed
  qed
qed auto

section \<open>Records of memory running out\<close>

definition records_counted :: "('w, 'env) process \<Rightarrow> ('w, 'env) process \<Rightarrow> bool" where
  "records_counted s0 s =
    (\<exists>new. pr_messages s = pr_messages s0 @ new \<and> pr_oom s = pr_oom s0 + of_nat (length (filter is_oom_record new)))"

lemma records_refl [simp]: "records_counted s s"
  by (auto simp: records_counted_def intro: exI [of _ "[]"])

lemma fold_counted:
  "pr_oom (fold count_message ms s) = pr_oom s + of_nat (length (filter is_oom_record ms))"
  by (induction ms arbitrary: s) (simp_all add: count_message_def Let_def)

named_theorems counted_steps

lemma counted_runtime [counted_steps]: "records_counted s0 s \<Longrightarrow> records_counted s0 (fst (runtime call s))"
  by (auto simp: records_counted_def runtime_def fold_counted split: prod.split)

lemma counted_attach [counted_steps]:
  "records_counted s0 s \<Longrightarrow> records_counted s0 (fst (attach_webgpu rt env options b s))"
  by (auto simp: attach_webgpu_def intro: counted_steps split: list.split)

lemma counted_attach_loop [counted_steps]:
  "records_counted s0 s \<Longrightarrow> records_counted s0 (fst (attach_loop rt env rq mem rung b s))"
  by (induction rt env rq mem rung b s rule: attach_loop.induct)
    (auto simp: Let_def intro!: sbind_keeps [of "records_counted s0"] counted_steps)

lemma counted_build_rung [counted_steps]:
  "records_counted s0 s \<Longrightarrow> records_counted s0 (fst (build_rung rt env rq rung mem s))"
  unfolding build_rung_def Let_def
  by (intro sbind_keeps [of "records_counted s0"] counted_steps) (auto intro: counted_steps split: option.split)

lemma counted_simps [simp]:
  "records_counted s0 (s\<lparr>pr_world := w\<rparr>) = records_counted s0 s"
  "records_counted s0 (s\<lparr>pr_memory := m\<rparr>) = records_counted s0 s"
  "records_counted s0 (log_step st s) = records_counted s0 s"
  by (simp_all add: records_counted_def)

lemma counted_attempt:
  assumes "records_counted s0 s"
  shows "records_counted s0 (fst (attempt_rung hs rt rq rung s))"
proof -
  have mem: "records_counted s0 (fst (case (if b then device_memory hs t else (t, None)) of (t, mem) \<Rightarrow> build_rung rt env rq rung mem t))"
    if "records_counted s0 t" for t env b
    using that by (auto simp: case_prod_unfold counted_steps device_memory_def Let_def split: option.split)
  show ?thesis
    using assms unfolding attempt_rung_def
    by (intro sbind_keeps [of "records_counted s0"])
      (auto intro!: sbind_keeps [of "records_counted s0"] mem split: option.split prod.split)
qed

lemma counted_attempted: "records_counted s0 s \<Longrightarrow> records_counted s0 (fst (attempted hs rt rq rung s))"
  using counted_attempt [of s0 s hs rt rq rung] by (simp add: attempted_def case_prod_unfold)

lemma build_error:
  assumes "build hs rt rq rung s = (s', Inl e)"
  shows "records_counted s s' \<and> ru_providers e = map provider_of (List.map_filter accelerator_of rung)
    \<and> ru_out_of_memory e = (ru_providers e \<noteq> [] \<and> (oom_since (pr_oom s) s' \<or> says_oom (ru_reason e)))"
proof -
  let ?rung = "List.map_filter accelerator_of rung"
  have "records_counted s (fst (build hs rt rq rung s))"
    using counted_attempted [of s s hs rt rq ?rung] counted_attempted [of s "log_step Locked s" hs rt rq ?rung]
    by (cases "attempted hs rt rq ?rung (log_step Locked s)"; cases "snd (attempted hs rt rq ?rung (log_step Locked s))")
      (auto simp: build_def serialized_def discard_timing_def Let_def case_prod_unfold split: sum.split)
  with assms show ?thesis
    by (auto simp: build_def Let_def rung_error_of_def split: prod.splits sum.splits)
      (cases "snd (serialized hs (On_TensorRt \<in> set ?rung) (cp_timing (rq_cache rq)) (attempted hs rt rq ?rung) s)"; auto)+
qed

section \<open>One environment\<close>

text \<open>Loads and sessions of a process, in any order.\<close>

datatype use = Load string string | Build_Session session_request

fun use_runtime :: "'w host \<Rightarrow> ('w, 'env, 'b, 's, 'dev) ort \<Rightarrow> ('w, 'env) process \<Rightarrow> use \<Rightarrow> ('w, 'env) process" where
  "use_runtime hs rt s (Load dir name) = fst (load_with hs rt dir name s)"
| "use_runtime hs rt s (Build_Session rq) = fst (session hs rt rq s)"

definition starts :: "build_step list \<Rightarrow> nat" where
  "starts st = length (filter (\<lambda>x. case x of Started _ \<Rightarrow> True | _ \<Rightarrow> False) st)"

lemma starts_append [simp]: "starts (xs @ ys) = starts xs + starts ys"
  by (simp add: starts_def)

lemma runtime_quiet: "runtime call t = (u, x) \<Longrightarrow> quiet t u"
  using quiet_runtime [OF quiet_refl, of t call] by simp

lemma quiet_trans: "quiet s t \<Longrightarrow> quiet t u \<Longrightarrow> quiet s u"
  by (simp add: quiet_def)

lemma register_quiet: "register_webgpu hs rt env dir t = (u, b) \<Longrightarrow> quiet t u"
  by (auto simp: register_webgpu_def dest: runtime_quiet split: if_splits option.splits sum.splits prod.splits)

lemma start_cases:
  assumes "start hs rt dir n name s = (u, x)"
  shows "(\<exists>env. x = Inr env \<and> pr_env u = pr_env s \<and> pr_webgpu u = pr_webgpu s \<and> pr_steps u = pr_steps s @ [Started dir])
    \<or> (\<exists>e. x = Inl e \<and> quiet s u)"
proof (cases "file_in hs dir n (pr_world s)")
  case True
  obtain t r where opened: "runtime (or_open rt (join_name dir n)) s = (t, r)"
    by (cases "runtime (or_open rt (join_name dir n)) s")
  obtain t' r' where begun: "runtime (or_start rt name) t = (t', r')"
    by (cases "runtime (or_start rt name) t")
  note still = runtime_quiet [OF opened] runtime_quiet [OF begun]
  show ?thesis
    using True assms opened begun still
    by (cases r; cases r') (auto simp: start_def quiet_def)
qed (use assms in \<open>auto simp: start_def\<close>)

text \<open>A load either leaves all but the world as it is, or starts the environment, once.\<close>

lemma load_with_cases:
  assumes "load_with hs rt dir name s = (s', r)"
  shows "(if pr_env s \<noteq> None then s' = s \<and> r = Inr ()
    else r \<noteq> Inr () \<and> quiet s s'
      \<or> pr_env s' \<noteq> None \<and> r = Inr () \<and> pr_steps s' = pr_steps s @ [Started dir])"
proof (cases "pr_env s")
  case (Some env)
  with assms show ?thesis
    by (auto simp: load_with_def)
next
  case None
  show ?thesis
  proof (cases "file_in hs dir marker_name (pr_world s)")
    case True
    show ?thesis
    proof (cases "library_of hs dir (pr_world s)")
      case (Some n)
      obtain t x where started: "start hs rt dir n name s = (t, x)"
        by (cases "start hs rt dir n name s")
      show ?thesis
      proof (cases x)
        case (Inr env)
        obtain u b where registered: "register_webgpu hs rt env dir t = (u, b)"
          by (cases "register_webgpu hs rt env dir t")
        have "pr_steps u = pr_steps s @ [Started dir]"
          using start_cases [OF started] register_quiet [OF registered] Inr by (simp add: quiet_def)
        with assms None True Some started registered Inr show ?thesis
          by (auto simp: load_with_def ok_or_def)
      next
        case (Inl e)
        with assms None True Some started start_cases [OF started] show ?thesis
          by (auto simp: load_with_def ok_or_def)
      qed
    qed (use assms None True in \<open>auto simp: load_with_def ok_or_def\<close>)
  qed (use assms None in \<open>auto simp: load_with_def\<close>)
qed

text \<open>A session starts no environment and does not forget one.\<close>

lemma build_block_starts: "starts (build_block timing a) = 0"
  by (cases a) (simp add: build_block_def starts_def)

lemma walk_steps:
  "\<exists>attempts. pr_steps (fst (walk_rungs model (\<lambda>rung s. case build hs rt rq rung s of (s, r) \<Rightarrow> (s, map_err ru_reason r)) reason rungs s))
      = pr_steps s @ concat (map (build_block (cp_timing (rq_cache rq))) attempts)
    \<and> pr_env (fst (walk_rungs model (\<lambda>rung s. case build hs rt rq rung s of (s, r) \<Rightarrow> (s, map_err ru_reason r)) reason rungs s)) = pr_env s"
proof (induction rungs arbitrary: reason s)
  case Nil
  show ?case
    by (intro exI [of _ "[]"]) simp
next
  case (Cons rung rungs)
  obtain s1 r1 where b: "build hs rt rq rung s = (s1, r1)"
    by (cases "build hs rt rq rung s")
  from build_steps [of hs rt rq rung s] b obtain a where
    st: "pr_steps s1 = pr_steps s @ build_block (cp_timing (rq_cache rq)) a" "pr_env s1 = pr_env s"
    by auto
  show ?case
  proof (cases r1)
    case (Inr built)
    with b st show ?thesis
      by (intro exI [of _ "[a]"]) simp
  next
    case (Inl e)
    from Cons.IH [of "ru_reason e" s1] obtain attempts where
      "pr_steps (fst (walk_rungs model (\<lambda>rung s. case build hs rt rq rung s of (s, r) \<Rightarrow> (s, map_err ru_reason r)) (ru_reason e) rungs s1))
        = pr_steps s1 @ concat (map (build_block (cp_timing (rq_cache rq))) attempts)"
      "pr_env (fst (walk_rungs model (\<lambda>rung s. case build hs rt rq rung s of (s, r) \<Rightarrow> (s, map_err ru_reason r)) (ru_reason e) rungs s1)) = pr_env s1"
      by blast
    with b st Inl show ?thesis
      by (intro exI [of _ "a # attempts"]) simp
  qed
qed

lemma blocks_start_nothing: "starts (concat (map (build_block timing) attempts)) = 0"
  by (induction attempts) (simp_all add: build_block_starts, simp add: starts_def)

lemma use_runtime_keeps:
  assumes "starts (pr_steps s) = (if pr_env s = None then 0 else 1)"
  shows "starts (pr_steps (use_runtime hs rt s u)) = (if pr_env (use_runtime hs rt s u) = None then 0 else 1)
    \<and> (pr_env s \<noteq> None \<longrightarrow> pr_env (use_runtime hs rt s u) = pr_env s)"
proof (cases u)
  case (Load dir name)
  obtain s' r where "load_with hs rt dir name s = (s', r)"
    by (cases "load_with hs rt dir name s")
  with load_with_cases [OF this] assms Load show ?thesis
    by (auto simp: quiet_def starts_def split: if_splits)
next
  case (Build_Session rq)
  from walk_steps [of "rq_model rq" hs rt rq "''the ladder has no rung''" "ladder (rq_providers rq) (rq_supported rq)" s]
  obtain attempts where "pr_steps (fst (session hs rt rq s)) = pr_steps s @ concat (map (build_block (cp_timing (rq_cache rq))) attempts)"
    "pr_env (fst (session hs rt rq s)) = pr_env s"
    unfolding session_def by blast
  with assms Build_Session show ?thesis
    by (simp add: blocks_start_nothing)
qed

section \<open>Properties\<close>

text \<open>C37. A session is built on the first rung that works: every rung before it was tried, in order, and failed. If none
  works, all were tried, and the error is the model with the reason of the last, the CPU alone.\<close>

theorem session_takes_first_rung:
  assumes "session hs rt rq s = (s', r)" and "rungs = ladder (rq_providers rq) (rq_supported rq)"
  shows "case r of
      Inr (built, rung) \<Rightarrow> \<exists>before after s1. rungs = before @ rung # after \<and> failing hs rt rq before s = Some s1
        \<and> build hs rt rq rung s1 = (s', Inr built)
    | Inl e \<Rightarrow> failing hs rt rq rungs s = Some s' \<and> se_model e = rq_model rq
        \<and> (\<exists>s1 e1. failing hs rt rq (butlast rungs) s = Some s1 \<and> build hs rt rq [] s1 = (s', Inl e1)
             \<and> se_reason e = ru_reason e1)"
  using walk_rungs_spec [OF assms(1) [unfolded session_def]] ladder_last [of "rq_providers rq" "rq_supported rq"]
  unfolding assms(2) by (cases r) auto

text \<open>A machine where TensorRT runs out of memory and CUDA works.\<close>

definition small_host :: "nat host" where
  "small_host =
    \<lparr> hs_entries = (\<lambda>d w. if d = ''rt'' then Some [(''.installed'', Regular []), (''libonnxruntime.so'', Regular [])] else None),
      hs_follow = (\<lambda>_ _ _. None), hs_os = ''linux'', hs_webgpu = (\<lambda>_. False), hs_cuda_memory = (\<lambda>_. Some 8000),
      hs_mkdir = (\<lambda>d w. (w + 1, Inr ())),
      hs_folder = (\<lambda>_ _. \<lparr> fd_top = [], fd_staging = False, fd_extract = None, fd_replies = [], fd_reports = [], fd_seen = [] \<rparr>),
      hs_put = (\<lambda>_ _ w. w), hs_display = (\<lambda>d. d), hs_error = (\<lambda>_. ''refused'') \<rparr>"

definition small_ort :: "(nat, unit, accelerator list, accelerator list, unit) ort" where
  "small_ort =
    \<lparr> or_open = (\<lambda>_ w. (w, [], Inr ())), or_start = (\<lambda>_ w. (w, [], Inr ())), or_register = (\<lambda>_ _ w. (w, [], Inr ())),
      or_devices = (\<lambda>_ _. []), or_builder = (\<lambda>_ w. (w, [], Inr [])),
      or_attach = (\<lambda>a _ b w.
        if a = On_TensorRt then (w, [''Error Code 2: OutOfMemory''], Inl ''failed to create engine'') else (w, [], Inr (b @ [a]))),
      or_device = (\<lambda>_ _ b w. (w, [], Inr b)), or_parallel = (\<lambda>_ b w. (w, [], Inr b)),
      or_mem_pattern = (\<lambda>_ b w. (w, [], Inr b)), or_disabled = (\<lambda>_ b w. (w, [], Inr b)), or_commit = (\<lambda>_ b w. (w, [], Inr b)) \<rparr>"

definition new_process :: "(nat, unit) process" where
  "new_process =
    \<lparr> pr_world = 0, pr_env = None, pr_webgpu = False, pr_oom = 0, pr_memory = None, pr_messages = [], pr_steps = [] \<rparr>"

definition loaded_process :: "(nat, unit) process" where
  "loaded_process = fst (load small_host small_ort ''rt'' new_process)"

definition small_request :: session_request where
  "small_request =
    \<lparr> rq_model = ''m.onnx'', rq_providers = [Auto], rq_supported = detect False False True True,
      rq_tuning = default_tuning, rq_cache = paths_under ''cache'' \<rparr>"

theorem session_takes_first_rung_witness:
  "snd (session small_host small_ort small_request loaded_process) = Inr ([On_Cuda], [Cuda])
    \<and> (\<exists>before after s1. [[TensorRt, Cuda], [Cuda], []] = before @ [Cuda] # after
      \<and> failing small_host small_ort small_request before loaded_process = Some s1
      \<and> build small_host small_ort small_request [Cuda] s1
        = (fst (session small_host small_ort small_request loaded_process), Inr [On_Cuda]))"
proof -
  have run: "snd (session small_host small_ort small_request loaded_process) = Inr ([On_Cuda], [Cuda])"
    by code_simp
  moreover have "[[TensorRt, Cuda], [Cuda], []] = ladder (rq_providers small_request) (rq_supported small_request)"
    by code_simp
  ultimately show ?thesis
    using session_takes_first_rung [OF prod.collapse [symmetric], of "[[TensorRt, Cuda], [Cuda], []]" small_request
        small_host small_ort loaded_process]
    by simp
qed

text \<open>C38. The TensorRT builds of a session are each under the lock, and one that fails discards the timing cache before it
  gives the lock up; no other build takes the lock or touches the cache.\<close>

theorem timing_cache_is_guarded:
  "\<exists>attempts. pr_steps (fst (session hs rt rq s))
    = pr_steps s @ concat (map (build_block (cp_timing (rq_cache rq))) attempts)"
  using walk_steps [of "rq_model rq" hs rt rq "''the ladder has no rung''" "ladder (rq_providers rq) (rq_supported rq)" s]
  unfolding session_def by blast

text \<open>C39. A failed build is called out of memory exactly when its rung has an accelerator and a record of this build, on
  this thread, or the reason says so; records of earlier builds do not count. The count may wrap around in between.\<close>

theorem out_of_memory_is_of_this_build:
  assumes "build hs rt rq rung s = (s', Inl e)" and "pr_messages s' = pr_messages s @ new" and "length new < 2 ^ 64"
  shows "ru_out_of_memory e = (ru_providers e \<noteq> [] \<and> (list_ex is_oom_record new \<or> says_oom (ru_reason e)))"
proof -
  from build_error [OF assms(1)] assms(2) have oom: "pr_oom s' = pr_oom s + of_nat (length (filter is_oom_record new))"
    by (auto simp: records_counted_def)
  have "length (filter is_oom_record new) < 2 ^ 64"
    using assms(3) length_filter_le [of is_oom_record new] by linarith
  then have "(of_nat (length (filter is_oom_record new)) :: u64) = 0 \<longleftrightarrow> filter is_oom_record new = []"
    by (auto simp: word_of_nat_eq_0_iff dest: dvd_imp_le)
  moreover have "filter is_oom_record new = [] \<longleftrightarrow> \<not> list_ex is_oom_record new"
    by (simp add: filter_empty_conv list_ex_iff)
  ultimately show ?thesis
    using build_error [OF assms(1)] oom by (auto simp: oom_since_def)
qed

theorem out_of_memory_is_of_this_build_witness:
  "map_err ru_out_of_memory (snd (build small_host small_ort small_request [TensorRt] loaded_process)) = Inl True"
proof -
  obtain s' e where run: "build small_host small_ort small_request [TensorRt] loaded_process = (s', Inl e)"
    and e: "ru_providers e = [TensorRt]" and messages: "pr_messages s' = [''Error Code 2: OutOfMemory'']"
  proof -
    let ?m = "build small_host small_ort small_request [TensorRt] loaded_process"
    have "map_err ru_providers (snd ?m) = Inl [TensorRt]" "pr_messages (fst ?m) = [''Error Code 2: OutOfMemory'']"
      by code_simp+
    then show thesis
      using that by (cases ?m; cases "snd ?m") auto
  qed
  have "pr_messages loaded_process = []" "is_oom_record ''Error Code 2: OutOfMemory''"
    by code_simp+
  with out_of_memory_is_of_this_build [OF run, of "[''Error Code 2: OutOfMemory'']"] e messages run show ?thesis
    by simp
qed

text \<open>C40. However a process mixes loads, of whatever folders, and sessions, it starts at most one environment, none once it
  has one, and keeps the one it has.\<close>

theorem runtime_starts_once:
  assumes "pr_env s = None" and "starts (pr_steps s) = 0" and "s' = foldl (use_runtime hs rt) s uses"
  shows "starts (pr_steps s') = (if pr_env s' = None then 0 else 1)
    \<and> (if pr_env s' = None then True else pr_env (foldl (use_runtime hs rt) s' later) = pr_env s'
         \<and> starts (pr_steps (foldl (use_runtime hs rt) s' later)) = 1)"
proof -
  have run: "starts (pr_steps (foldl (use_runtime hs rt) t us)) = (if pr_env (foldl (use_runtime hs rt) t us) = None then 0 else 1)
      \<and> (pr_env t \<noteq> None \<longrightarrow> pr_env (foldl (use_runtime hs rt) t us) = pr_env t)"
    if "starts (pr_steps t) = (if pr_env t = None then 0 else 1)" for t us
    using that
  proof (induction us arbitrary: t)
    case (Cons u us)
    from use_runtime_keeps [OF Cons.prems, of hs rt u] Cons.IH [of "use_runtime hs rt t u"] show ?case
      by auto
  qed simp
  from run [of s uses] assms have "starts (pr_steps s') = (if pr_env s' = None then 0 else 1)"
    by simp
  with run [of s' later] show ?thesis
    by auto
qed

theorem runtime_starts_once_witness:
  "starts (pr_steps (foldl (use_runtime small_host small_ort) loaded_process
      [Load ''rt'' ''other'', Build_Session small_request, Load ''none'' ''app''])) = 1"
proof -
  have "pr_env loaded_process = Some ()" "loaded_process = foldl (use_runtime small_host small_ort) new_process [Load ''rt'' ''rust-sak'']"
    by (code_simp, simp add: loaded_process_def load_def)
  with runtime_starts_once [of new_process loaded_process small_host small_ort "[Load ''rt'' ''rust-sak'']"
      "[Load ''rt'' ''other'', Build_Session small_request, Load ''none'' ''app'']"]
  show ?thesis
    by (simp add: new_process_def starts_def)
qed

end
