(* ===== verification/Image_Container.thy ===== *)
theory Image_Container
  imports Prelude
begin

text \<open>
  \<open>image/container.rs\<close> and \<open>image/icc.rs\<close>: the colour profile a WebP, AVIF or HEIF file declares, found by
  walking its chunks and boxes, and the description in an ICC profile. The bytes may be the beginning of
  the file, and the walk says when it ran out of them. \<open>usize\<close> has 64 bits, so a sum of a 32-bit number
  and a position does not wrap. A text is the list of its code points.
\<close>

section \<open>Numbers in bytes\<close>

text \<open>\<open>bytes.get(a..b)\<close>.\<close>

definition get_range :: "nat \<Rightarrow> nat \<Rightarrow> bytes \<Rightarrow> bytes option" where
  "get_range a b bs = (if a \<le> b \<and> b \<le> length bs then Some (take (b - a) (drop a bs)) else None)"

definition byte_at :: "nat \<Rightarrow> bytes \<Rightarrow> byte option" where
  "byte_at i bs = (if i < length bs then Some (bs ! i) else None)"

definition of_be :: "bytes \<Rightarrow> nat" where
  "of_be bs = fold (\<lambda>b n. 256 * n + unat b) bs 0"

definition of_le :: "bytes \<Rightarrow> nat" where
  "of_le bs = of_be (rev bs)"

definition read_u16 :: "bytes \<Rightarrow> nat \<Rightarrow> nat option" where
  "read_u16 bs i = map_option of_be (get_range i (i + 2) bs)"

definition read_u32 :: "bytes \<Rightarrow> nat \<Rightarrow> nat option" where
  "read_u32 bs i = map_option of_be (get_range i (i + 4) bs)"

section \<open>The description of an ICC profile\<close>

type_synonym code_points = "nat list"

definition max_chars :: nat where
  "max_chars = 64"

definition icc_header_len :: nat where
  "icc_header_len = 128"

text \<open>The code points of UTF-8 and of UTF-16, what is not one being replaced.\<close>

definition replacement :: nat where
  "replacement = 0xFFFD"

definition utf8_point :: "bytes \<Rightarrow> nat" where
  "utf8_point bs = (case bs of
     [] \<Rightarrow> replacement
   | a # r \<Rightarrow> fold (\<lambda>b n. 64 * n + unat b mod 64) r
       (unat a mod (if r = [] then 128 else 2 ^ (6 - length r))))"

function utf8_points :: "bytes \<Rightarrow> code_points" where
  "utf8_points [] = []"
| "utf8_points (a # r) =
    (let n = fst (utf8_step a r) in
     (if snd (utf8_step a r) then utf8_point (take n (a # r)) else replacement) # utf8_points (drop (n - 1) r))"
  by pat_completeness auto
termination
  by (relation "measure length") (auto simp: less_Suc_eq_le)

definition high_surrogate :: "nat \<Rightarrow> bool" where
  "high_surrogate u = (0xD800 \<le> u \<and> u \<le> 0xDBFF)"

definition low_surrogate :: "nat \<Rightarrow> bool" where
  "low_surrogate u = (0xDC00 \<le> u \<and> u \<le> 0xDFFF)"

fun utf16_points :: "nat list \<Rightarrow> code_points" where
  "utf16_points [] = []"
| "utf16_points [u] = [if high_surrogate u \<or> low_surrogate u then replacement else u]"
| "utf16_points (u # v # us) =
    (if high_surrogate u \<and> low_surrogate v
     then (0x10000 + (u - 0xD800) * 0x400 + (v - 0xDC00)) # utf16_points us
     else (if high_surrogate u \<or> low_surrogate u then replacement else u) # utf16_points (v # us))"

text \<open>\<open>char::is_whitespace\<close>: the code points with the property White_Space.\<close>

definition is_space :: "nat \<Rightarrow> bool" where
  "is_space c = ((9 \<le> c \<and> c \<le> 13) \<or> c \<in> {0x20, 0x85, 0xA0, 0x1680, 0x2028, 0x2029, 0x202F, 0x205F, 0x3000}
     \<or> (0x2000 \<le> c \<and> c \<le> 0x200A))"

text \<open>The whole pairs of bytes.\<close>

fun u16_units :: "bytes \<Rightarrow> nat list" where
  "u16_units (a # b # bs) = of_be [a, b] # u16_units bs"
| "u16_units _ = []"

definition text_description :: "bytes \<Rightarrow> code_points option" where
  "text_description data =
    Option.bind (read_u32 data 8) (\<lambda>count.
    map_option (\<lambda>ascii. utf8_points (takeWhile (\<lambda>b. b \<noteq> 0) ascii)) (get_range 12 (12 + count) data))"

text \<open>\<open>map_while\<close> over a count that may be garbage: the records up to the first past the end. The number of them is
  bounded by the bytes, whatever the count.\<close>

fun map_while :: "(nat \<Rightarrow> 'a option) \<Rightarrow> nat \<Rightarrow> nat \<Rightarrow> 'a list" where
  "map_while f i 0 = []"
| "map_while f i (Suc n) = (case f i of None \<Rightarrow> [] | Some a \<Rightarrow> a # map_while f (Suc i) n)"

definition multi_localized :: "bytes \<Rightarrow> code_points option" where
  "multi_localized data =
    Option.bind (read_u32 data 8) (\<lambda>count.
    Option.bind (read_u32 data 12) (\<lambda>record_size.
    if record_size < 12 then None
    else let records = map_while (\<lambda>i. get_range (16 + i * record_size) (16 + i * record_size + 12) data) 0 count in
      Option.bind (case find (\<lambda>r. take 2 r = of_text ''en'') records of
          Some r \<Rightarrow> Some r
        | None \<Rightarrow> (case records of [] \<Rightarrow> None | r # _ \<Rightarrow> Some r)) (\<lambda>r.
      Option.bind (read_u32 r 4) (\<lambda>len.
      Option.bind (read_u32 r 8) (\<lambda>offset.
      map_option (\<lambda>utf16. utf16_points (u16_units utf16)) (get_range offset (offset + len) data))))))"

definition trim_nul_space :: "code_points \<Rightarrow> code_points" where
  "trim_nul_space t =
    (let blank = (\<lambda>c. c = 0 \<or> is_space c) in rev (dropWhile blank (rev (dropWhile blank t))))"

definition description :: "bytes \<Rightarrow> code_points option" where
  "description profile =
    (if get_range 36 40 profile \<noteq> Some (of_text ''acsp'') then None
     else
      Option.bind (read_u32 profile icc_header_len) (\<lambda>count.
      Option.bind (find (\<lambda>tag. take 4 tag = of_text ''desc'')
          (map_while (\<lambda>i. get_range (icc_header_len + 4 + i * 12) (icc_header_len + 4 + i * 12 + 12) profile) 0 count)) (\<lambda>tag.
      Option.bind (read_u32 tag 4) (\<lambda>offset.
      Option.bind (read_u32 tag 8) (\<lambda>len.
      Option.bind (get_range offset (offset + len) profile) (\<lambda>data.
      Option.bind (get_range 0 4 data) (\<lambda>kind.
      Option.bind (if kind = of_text ''desc'' then text_description data
          else if kind = of_text ''mluc'' then multi_localized data else None) (\<lambda>t.
      let t = trim_nul_space t in
      if t = [] then None else Some (rev (dropWhile is_space (rev (take max_chars t))))))))))))"

section \<open>Chunks and boxes\<close>

datatype truncated = Truncated

type_synonym split_bytes = "bytes \<times> bytes \<times> bytes"

datatype image_format = Bmp | Gif | Jpeg | Png | Tiff | Avif | Heif | WebP

definition riff_chunk :: "bytes \<Rightarrow> truncated + split_bytes" where
  "riff_chunk bs =
    rbind (ok_or (get_range 0 8 bs) Truncated) (\<lambda>header.
      let kind = take 4 header; len = of_le (drop 4 header) in
      rbind (ok_or (get_range 8 (8 + len) bs) Truncated) (\<lambda>data.
        Inr (kind, data, drop (min (8 + len + len mod 2) (length bs)) bs)))"

definition vp8x_icc :: byte where
  "vp8x_icc = 0x20"

lemma get_range_Some: "get_range a b bs = Some x \<longleftrightarrow> a \<le> b \<and> b \<le> length bs \<and> x = take (b - a) (drop a bs)"
  by (auto simp: get_range_def)

lemma riff_chunk_shorter: "riff_chunk bs = Inr (kind, data, rest) \<Longrightarrow> length rest < length bs"
  by (auto simp: riff_chunk_def rbind_Inr ok_or_def Let_def get_range_Some split: option.splits)

function webp_loop :: "bool \<Rightarrow> bytes \<Rightarrow> truncated + code_points option" where
  "webp_loop first rest =
    (case riff_chunk rest of
       Inl e \<Rightarrow> Inl e
     | Inr (kind, data, after) \<Rightarrow>
         if kind = of_text ''VP8X'' \<and> first then
           (if (case data of [] \<Rightarrow> True | flags # _ \<Rightarrow> flags AND vp8x_icc = 0) then Inr None
            else webp_loop False after)
         else if kind = of_text ''ICCP'' then Inr (description data)
         else Inr None)"
  by pat_completeness auto
termination
  by (relation "measure (\<lambda>(first, rest). length rest)") (auto dest: riff_chunk_shorter)

declare webp_loop.simps [simp del]

definition webp_profile :: "bytes \<Rightarrow> truncated + code_points option" where
  "webp_profile bs =
    (if length bs < 12 then Inl Truncated
     else if take 4 bs \<noteq> of_text ''RIFF'' \<or> take 4 (drop 8 bs) \<noteq> of_text ''WEBP'' then Inr None
     else webp_loop True (drop 12 bs))"

text \<open>A size of 0 is that the box runs to the end of the file, of 1 that the size follows in 64 bits.\<close>

definition next_box :: "bytes \<Rightarrow> truncated + split_bytes option" where
  "next_box bs =
    (if bs = [] then Inr None
     else
      rbind (ok_or (get_range 0 8 bs) Truncated) (\<lambda>header.
      let kind = drop 4 header; n = of_be (take 4 header) in
      rbind (if n = 0 then Inr (8, length bs)
             else if n = 1 then rbind (ok_or (get_range 8 16 bs) Truncated) (\<lambda>w. Inr (16, of_be w))
             else Inr (8, n)) (\<lambda>(hlen, len).
      if len < hlen then Inl Truncated
      else rbind (ok_or (get_range hlen len bs) Truncated) (\<lambda>body. Inr (Some (kind, body, drop len bs))))))"

lemma next_box_shorter: "next_box bs = Inr (Some (kind, body, rest)) \<Longrightarrow> length rest < length bs"
  by (auto simp: next_box_def rbind_Inr ok_or_def Let_def get_range_Some split: option.splits if_splits)

function children :: "bytes \<Rightarrow> (bytes \<times> bytes) list option" where
  "children body =
    (case next_box body of
       Inl _ \<Rightarrow> None
     | Inr None \<Rightarrow> Some []
     | Inr (Some (kind, child, rest)) \<Rightarrow> map_option ((#) (kind, child)) (children rest))"
  by pat_completeness auto
termination
  by (relation "measure length") (auto dest: next_box_shorter)

declare children.simps [simp del]

function find_meta :: "bytes \<Rightarrow> truncated + bytes" where
  "find_meta rest =
    (case next_box rest of
       Inl e \<Rightarrow> Inl e
     | Inr None \<Rightarrow> Inl Truncated
     | Inr (Some (kind, body, after)) \<Rightarrow> if kind = of_text ''meta'' then Inr body else find_meta after)"
  by pat_completeness auto
termination
  by (relation "measure length") (auto dest: next_box_shorter)

declare find_meta.simps [simp del]

definition find_child :: "(bytes \<times> bytes) list \<Rightarrow> string \<Rightarrow> bytes option" where
  "find_child boxes kind = map_option snd (find (\<lambda>(k, _). k = of_text kind) boxes)"

fun chunks_of :: "nat \<Rightarrow> bytes \<Rightarrow> nat list" where
  "chunks_of w [] = []"
| "chunks_of w [b] = (if w = 1 then [unat b mod 128] else [])"
| "chunks_of w (a # b # bs) =
    (if w = 1 then (unat a mod 128) # chunks_of w (b # bs) else (of_be [a, b] mod 0x8000) # chunks_of w bs)"

text \<open>The entries of an \<open>ipma\<close> box up to the item's. Each takes at least three bytes, so a garbage count ends with
  the bytes.\<close>

fun association_loop :: "bytes \<Rightarrow> nat \<Rightarrow> nat \<Rightarrow> nat \<Rightarrow> nat \<Rightarrow> nat \<Rightarrow> nat list option" where
  "association_loop ipma version width item 0 i = Some []"
| "association_loop ipma version width item (Suc count) i =
    Option.bind (if version < 1 then map_option (\<lambda>id. (id, i + 2)) (read_u16 ipma i)
                 else map_option (\<lambda>id. (id, i + 4)) (read_u32 ipma i)) (\<lambda>(id, i).
    Option.bind (byte_at i ipma) (\<lambda>n.
    let i = i + 1; len = unat n * width in
    if id = item then map_option (chunks_of width) (get_range i (i + len) ipma)
    else association_loop ipma version width item count (i + len)))"

definition associations :: "bytes \<Rightarrow> nat \<Rightarrow> nat list option" where
  "associations ipma item =
    Option.bind (byte_at 0 ipma) (\<lambda>version.
    Option.bind (byte_at 3 ipma) (\<lambda>flags.
    Option.bind (read_u32 ipma 4) (\<lambda>count.
    association_loop ipma (unat version) (if flags AND 1 = 1 then 2 else 1) item count 8)))"

text \<open>The bodies of the \<open>colr\<close> properties among the associations; 0 is no property.\<close>

definition colr_at :: "(bytes \<times> bytes) list \<Rightarrow> nat \<Rightarrow> bytes option" where
  "colr_at properties index =
    (if index = 0 then None
     else if index - 1 < length properties \<and> fst (properties ! (index - 1)) = of_text ''colr''
     then Some (snd (properties ! (index - 1))) else None)"

fun colr_loop :: "(bytes \<times> bytes) list \<Rightarrow> nat \<Rightarrow> (bytes \<times> bytes) list \<Rightarrow> bytes list option" where
  "colr_loop properties primary [] = Some []"
| "colr_loop properties primary ((kind, ipma) # iprp) =
    (if kind \<noteq> of_text ''ipma'' then colr_loop properties primary iprp
     else Option.bind (associations ipma primary) (\<lambda>indices.
       map_option ((@) (List.map_filter (colr_at properties) indices)) (colr_loop properties primary iprp)))"

definition primary_colr :: "bytes \<Rightarrow> bytes list option" where
  "primary_colr meta =
    Option.bind (get_range 4 (length meta) meta) (\<lambda>body.
    Option.bind (children body) (\<lambda>boxes.
    Option.bind (find_child boxes ''pitm'') (\<lambda>pitm.
    Option.bind (byte_at 0 pitm) (\<lambda>version.
    Option.bind (if version = 0 then read_u16 pitm 4 else read_u32 pitm 4) (\<lambda>primary.
    Option.bind (find_child boxes ''iprp'') (\<lambda>iprp.
    Option.bind (children iprp) (\<lambda>iprp.
    Option.bind (find_child iprp ''ipco'') (\<lambda>ipco.
    Option.bind (children ipco) (\<lambda>properties.
    colr_loop properties primary iprp)))))))))"

definition nclx_name :: "nat \<Rightarrow> nat \<Rightarrow> string option" where
  "nclx_name primaries transfer =
    (if primaries = 1 \<and> transfer = 13 then Some ''sRGB''
     else if primaries = 12 \<and> transfer = 13 then Some ''Display P3''
     else if primaries = 9 \<and> transfer \<in> {1, 6, 13, 14, 15} then Some ''Rec. 2020''
     else if primaries = 9 \<and> transfer = 16 then Some ''Rec. 2100 PQ''
     else if primaries = 9 \<and> transfer = 18 then Some ''Rec. 2100 HLG''
     else None)"

definition profile_from_colrs :: "bytes list \<Rightarrow> code_points option" where
  "profile_from_colrs colrs =
    (case find (\<lambda>body. get_range 0 4 body \<in> {Some (of_text ''prof''), Some (of_text ''rICC'')}) colrs of
       Some body \<Rightarrow> description (drop 4 body)
     | None \<Rightarrow>
         Option.bind (find (\<lambda>body. get_range 0 4 body = Some (of_text ''nclx'')) colrs) (\<lambda>nclx.
         Option.bind (read_u16 nclx 4) (\<lambda>primaries.
         Option.bind (read_u16 nclx 6) (\<lambda>transfer.
         map_option (map of_char) (nclx_name primaries transfer)))))"

definition isobmff_profile :: "bytes \<Rightarrow> truncated + code_points option" where
  "isobmff_profile bs =
    rbind (find_meta bs) (\<lambda>meta. Inr (Option.bind (primary_colr meta) profile_from_colrs))"

definition color_profile :: "bytes \<Rightarrow> image_format \<Rightarrow> truncated + code_points option" where
  "color_profile bs format =
    (case format of
       WebP \<Rightarrow> webp_profile bs
     | Avif \<Rightarrow> isobmff_profile bs
     | Heif \<Rightarrow> isobmff_profile bs
     | _ \<Rightarrow> Inr None)"

section \<open>The beginning of a file\<close>

lemma get_range_longer: "get_range a b bs = Some x \<Longrightarrow> get_range a b (bs @ more) = Some x"
  by (auto simp: get_range_Some)

lemma riff_chunk_longer:
  assumes "riff_chunk bs = Inr (kind, data, rest)"
  shows "\<exists>rest'. riff_chunk (bs @ more) = Inr (kind, data, rest') \<and> (rest = [] \<or> rest' = rest @ more)"
proof -
  obtain header where header: "get_range 0 8 bs = Some header" and kind: "kind = take 4 header"
    and data: "get_range 8 (8 + of_le (drop 4 header)) bs = Some data"
    and rest: "rest = drop (min (8 + of_le (drop 4 header) + of_le (drop 4 header) mod 2) (length bs)) bs"
    using assms by (auto simp: riff_chunk_def rbind_Inr ok_or_def Let_def split: option.splits)
  from header data have "get_range 0 8 (bs @ more) = Some header"
    "get_range 8 (8 + of_le (drop 4 header)) (bs @ more) = Some data"
    by (simp_all add: get_range_longer)
  then show ?thesis
    using kind rest by (auto simp: riff_chunk_def ok_or_def Let_def min_def)
qed

lemma webp_loop_Nil: "webp_loop first [] = Inl Truncated"
  by (subst webp_loop.simps) (simp add: riff_chunk_def get_range_def ok_or_def)

lemma webp_loop_longer: "webp_loop first rest = Inr p \<Longrightarrow> webp_loop first (rest @ more) = Inr p"
proof (induction first rest rule: webp_loop.induct)
  case (1 first rest)
  from 1(2) obtain kind data after where chunk: "riff_chunk rest = Inr (kind, data, after)"
    by (subst (asm) webp_loop.simps) (auto split: sum.splits)
  from riff_chunk_longer [OF this, of more] obtain next' where
    chunk': "riff_chunk (rest @ more) = Inr (kind, data, next')" and next': "after = [] \<or> next' = after @ more"
    by blast
  show ?case
  proof (cases "kind = of_text ''VP8X'' \<and> first \<and> \<not> (case data of [] \<Rightarrow> True | flags # _ \<Rightarrow> flags AND vp8x_icc = 0)")
    case True
    then have again: "webp_loop False after = Inr p"
      using 1(2) chunk by (subst (asm) webp_loop.simps) auto
    then have "webp_loop False next' = Inr p"
      using 1(1) chunk True next' webp_loop_Nil by auto
    with True chunk' show ?thesis
      by (subst webp_loop.simps) auto
  next
    case False
    with 1(2) chunk chunk' show ?thesis
      by (subst webp_loop.simps, subst (asm) webp_loop.simps) auto
  qed
qed

lemma webp_profile_longer:
  assumes "webp_profile bs = Inr p"
  shows "webp_profile (bs @ more) = Inr p"
  using assms webp_loop_longer [of True "drop 12 bs" p more]
  by (auto simp: webp_profile_def split: if_splits)

text \<open>Whether the \<open>meta\<close> box the walk finds is one that runs to the end of the file.\<close>

function meta_to_end :: "bytes \<Rightarrow> bool" where
  "meta_to_end rest =
    (case next_box rest of
       Inr (Some (kind, body, after)) \<Rightarrow>
         if kind = of_text ''meta'' then of_be (take 4 rest) = 0 else meta_to_end after
     | _ \<Rightarrow> False)"
  by pat_completeness auto
termination
  by (relation "measure length") (auto dest: next_box_shorter)

declare meta_to_end.simps [simp del]

lemma next_box_longer:
  assumes "next_box bs = Inr (Some (kind, body, rest))"
  shows "(if of_be (take 4 bs) = 0 then rest = [] else next_box (bs @ more) = Inr (Some (kind, body, rest @ more)))"
proof -
  obtain header hlen len where bs: "bs \<noteq> []" and header: "get_range 0 8 bs = Some header" and kind: "kind = drop 4 header"
    and sized: "(if of_be (take 4 header) = 0 then Inr (8, length bs)
        else if of_be (take 4 header) = 1 then rbind (ok_or (get_range 8 16 bs) Truncated) (\<lambda>w. Inr (16, of_be w))
        else Inr (8, of_be (take 4 header))) = Inr (hlen, len)"
    and body: "get_range hlen len bs = Some body" and rest: "rest = drop len bs" and len: "\<not> len < hlen"
    using assms by (auto simp: next_box_def rbind_Inr ok_or_def Let_def split: option.splits if_splits)
  have start: "take 4 header = take 4 bs"
    using header by (simp add: get_range_Some min_def)
  show ?thesis
  proof (cases "of_be (take 4 bs) = 0")
    case True
    with sized rest show ?thesis
      by (simp add: start)
  next
    case False
    then have "(if of_be (take 4 header) = 0 then Inr (8, length (bs @ more))
        else if of_be (take 4 header) = 1 then rbind (ok_or (get_range 8 16 (bs @ more)) Truncated) (\<lambda>w. Inr (16, of_be w))
        else Inr (8, of_be (take 4 header))) = (Inr (hlen, len) :: truncated + nat \<times> nat)"
      using sized get_range_longer [of 8 16 bs _ more]
      by (auto simp: start ok_or_def rbind_Inr split: option.splits if_splits)
    moreover have "drop len (bs @ more) = rest @ more"
      using body by (auto simp: rest get_range_Some)
    ultimately show ?thesis
      using False bs get_range_longer [OF header, of more] get_range_longer [OF body, of more] kind len
      by (simp add: next_box_def ok_or_def Let_def)
  qed
qed

lemma find_meta_Nil: "find_meta [] = Inl Truncated"
  by (subst find_meta.simps) (simp add: next_box_def)

lemma find_meta_longer:
  assumes "find_meta bs = Inr body" and "\<not> meta_to_end bs"
  shows "find_meta (bs @ more) = Inr body"
  using assms
proof (induction bs rule: find_meta.induct)
  case (1 bs)
  from 1(2) obtain kind b rest where box: "next_box bs = Inr (Some (kind, b, rest))"
    by (subst (asm) find_meta.simps) (auto split: sum.splits option.splits)
  show ?case
  proof (cases "kind = of_text ''meta''")
    case True
    with box 1(3) have "of_be (take 4 bs) \<noteq> 0"
      by (subst (asm) meta_to_end.simps) simp
    with next_box_longer [OF box, of more] True 1(2) box show ?thesis
      by (subst find_meta.simps, subst (asm) find_meta.simps) simp
  next
    case False
    with box 1(2,3) have rest: "find_meta rest = Inr body" "\<not> meta_to_end rest"
      by (subst (asm) find_meta.simps, simp, subst (asm) meta_to_end.simps, simp)
    then have "of_be (take 4 bs) \<noteq> 0"
      using next_box_longer [OF box, of more] find_meta_Nil by (cases "of_be (take 4 bs) = 0") auto
    with next_box_longer [OF box, of more] 1(1) box False rest show ?thesis
      by (subst find_meta.simps) simp
  qed
qed

lemma color_profile_longer:
  assumes "color_profile bs format = Inr p" and "format \<in> {Avif, Heif} \<Longrightarrow> \<not> meta_to_end bs"
  shows "color_profile (bs @ more) format = Inr p"
  using assms webp_profile_longer [of bs p more] find_meta_longer [of bs _ more]
  by (cases format) (auto simp: color_profile_def isobmff_profile_def rbind_Inr)

section \<open>Properties\<close>

text \<open>C31. What the walk finds in the beginning of a file it also finds in the whole: once it answers, no byte after
  can change the answer, so a caller need not read on. The exception is a \<open>meta\<close> box that says it runs to
  the end of the file, whose end in a prefix is the prefix's.\<close>

theorem prefix_decides_profile:
  assumes "color_profile bs format = Inr p" and "format \<in> {Avif, Heif} \<Longrightarrow> \<not> meta_to_end bs"
  shows "color_profile (bs @ more) format = Inr p"
  by (rule color_profile_longer [OF assms])

definition boxed :: "string \<Rightarrow> bytes \<Rightarrow> bytes" where
  "boxed kind body = [0, 0, 0, of_nat (8 + length body)] @ of_text kind @ body"

definition avif_meta :: bytes where
  "avif_meta = [0, 0, 0, 0] @ boxed ''pitm'' [0, 0, 0, 0, 0, 1]
     @ boxed ''iprp'' (boxed ''ipco'' (boxed ''colr'' (of_text ''nclx'' @ [0, 1, 0, 13]))
         @ boxed ''ipma'' [0, 0, 0, 0, 0, 0, 0, 1, 0, 1, 1, 1])"

theorem prefix_decides_profile_witness:
  "color_profile (boxed ''meta'' avif_meta @ [1, 2, 3]) Avif = Inr (Some (map of_char ''sRGB''))"
proof (rule prefix_decides_profile)
  show "color_profile (boxed ''meta'' avif_meta) Avif = Inr (Some (map of_char ''sRGB''))"
    by code_simp
  show "\<not> meta_to_end (boxed ''meta'' avif_meta)"
    by code_simp
qed

text \<open>The exception is real: of a file whose \<open>meta\<close> box runs to its end, a prefix is taken to declare no profile
  and the whole declares one.\<close>

lemma open_meta_misread:
  "color_profile (take 30 ([0, 0, 0, 0] @ of_text ''meta'' @ avif_meta)) Avif = Inr None
    \<and> color_profile ([0, 0, 0, 0] @ of_text ''meta'' @ avif_meta) Avif = Inr (Some (map of_char ''sRGB''))"
  by code_simp

end
