(* ===== verification/Image_Files.thy ===== *)
theory Image_Files
  imports Image_Container Install_Folder
begin

text \<open>
  The formats of \<open>image/format.rs\<close> and \<open>image/raw/format.rs\<close>, the options of \<open>options.rs\<close>, and the routing of
  \<open>dispatch.rs\<close> with the entry points around it: which codec a path or the first bytes of a file select,
  what an image is converted to before it is encoded, and how much of a file a probe reads. The codecs and
  their images are parameters; the process-wide AVIF lock is not modelled.
\<close>

section \<open>Formats\<close>

definition all_formats :: "image_format list" where
  "all_formats = [Bmp, Gif, Jpeg, Png, Tiff, Avif, Heif, WebP]"

fun extensions :: "image_format \<Rightarrow> string list" where
  "extensions Bmp = [''bmp'']"
| "extensions Gif = [''gif'']"
| "extensions Jpeg = [''jpg'', ''jpeg'']"
| "extensions Png = [''png'']"
| "extensions Tiff = [''tiff'', ''tif'']"
| "extensions Avif = [''avif'']"
| "extensions Heif = [''heif'', ''heic'']"
| "extensions WebP = [''webp'']"

definition format_extension :: "image_format \<Rightarrow> string" where
  "format_extension f = hd (extensions f)"

fun format_name :: "image_format \<Rightarrow> string" where
  "format_name Bmp = ''BMP''"
| "format_name Gif = ''GIF''"
| "format_name Jpeg = ''JPEG''"
| "format_name Png = ''PNG''"
| "format_name Tiff = ''TIFF''"
| "format_name Avif = ''AVIF''"
| "format_name Heif = ''HEIF''"
| "format_name WebP = ''WebP''"

definition format_of_extension :: "string \<Rightarrow> image_format option" where
  "format_of_extension extension =
    find (\<lambda>f. list_ex (\<lambda>ext. eq_ignore_ascii_case ext extension) (extensions f)) all_formats"

text \<open>\<open>Path::extension\<close>, as text: what follows the last dot of the file name, if the dot is not its first character.\<close>

definition path_extension :: "string \<Rightarrow> string option" where
  "path_extension p =
    (case rev (components p) of
       Normal n # _ \<Rightarrow>
         (case rsplit_once CHR ''.'' n of
            Some (stem, ext) \<Rightarrow> if stem = [] \<or> \<not> utf8_valid (of_text ext) then None else Some ext
          | None \<Rightarrow> None)
     | _ \<Rightarrow> None)"

definition format_of_path :: "string \<Rightarrow> image_format option" where
  "format_of_path p = Option.bind (path_extension p) format_of_extension"

definition format_of_magic :: "bytes \<Rightarrow> image_format option" where
  "format_of_magic bs =
    (if prefix [0x89, 0x50, 0x4E, 0x47, 0x0D, 0x0A, 0x1A, 0x0A] bs then Some Png
     else if prefix [0xFF, 0xD8, 0xFF] bs then Some Jpeg
     else if prefix (of_text ''GIF87a'') bs \<or> prefix (of_text ''GIF89a'') bs then Some Gif
     else if prefix (of_text ''BM'') bs then Some Bmp
     else if prefix [0x49, 0x49, 0x2A, 0] bs \<or> prefix [0x4D, 0x4D, 0, 0x2A] bs then Some Tiff
     else if 12 \<le> length bs \<and> take 4 bs = of_text ''RIFF'' \<and> take 4 (drop 8 bs) = of_text ''WEBP'' then Some WebP
     else if 12 \<le> length bs \<and> take 4 (drop 4 bs) = of_text ''ftyp'' then
       (let brand = to_text (take 4 (drop 8 bs)) in
        if brand \<in> {''avif'', ''avis''} then Some Avif
        else if brand \<in> {''heic'', ''heix'', ''heim'', ''heis'', ''hevc'', ''hevx'', ''mif1'', ''msf1''} then Some Heif
        else None)
     else None)"

text \<open>Whether the \<open>image\<close> crate handles it.\<close>

fun is_native :: "image_format \<Rightarrow> bool" where
  "is_native Avif = False"
| "is_native Heif = False"
| "is_native WebP = False"
| "is_native _ = True"

section \<open>Camera RAW\<close>

datatype raw_format = Ari | Arw | Crw | Cr2 | Cr3 | Dcr | Dcs | Dng | Erf | Fff | Iiq | Kdc | Mef | Mos | Mrw | Nef
  | Nrw | Orf | Pef | Qtk | Raf | Rw2 | Srw | ThreeFr | X3f

text \<open>The list the macro takes: each format with its extensions, the canonical one first.\<close>

definition raw_formats :: "(raw_format \<times> string list) list" where
  "raw_formats =
    [(Ari, [''ari'']), (Arw, [''arw'']), (Crw, [''crw'']), (Cr2, [''cr2'']), (Cr3, [''cr3'', ''crm'']), (Dcr, [''dcr'']),
     (Dcs, [''dcs'']), (Dng, [''dng'']), (Erf, [''erf'']), (Fff, [''fff'']), (Iiq, [''iiq'']), (Kdc, [''kdc'']),
     (Mef, [''mef'']), (Mos, [''mos'']), (Mrw, [''mrw'']), (Nef, [''nef'']), (Nrw, [''nrw'']), (Orf, [''orf'', ''ori'']),
     (Pef, [''pef'']), (Qtk, [''qtk'']), (Raf, [''raf'']), (Rw2, [''rw2'', ''rwl'', ''raw'']), (Srw, [''srw'']),
     (ThreeFr, [''3fr'']), (X3f, [''x3f''])]"

definition raw_of_extension :: "string \<Rightarrow> raw_format option" where
  "raw_of_extension extension =
    map_option fst (find (\<lambda>(f, exts). ascii_lowercase extension \<in> set exts) raw_formats)"

definition raw_extension :: "raw_format \<Rightarrow> string" where
  "raw_extension f = (case map_of raw_formats f of Some (ext # _) \<Rightarrow> ext | _ \<Rightarrow> [])"

definition raw_of_path :: "string \<Rightarrow> raw_format option" where
  "raw_of_path p = Option.bind (path_extension p) raw_of_extension"

text \<open>What \<open>zenraw\<close> takes the bytes for.\<close>

datatype raw_class = Is_Dng | Is_Apple_Dng | Is_Cr3 | Is_Raf | Is_Rw2 | Is_Orf | Is_Other

fun raw_of_class :: "raw_class \<Rightarrow> raw_format option" where
  "raw_of_class Is_Dng = Some Dng"
| "raw_of_class Is_Apple_Dng = Some Dng"
| "raw_of_class Is_Cr3 = Some Cr3"
| "raw_of_class Is_Raf = Some Raf"
| "raw_of_class Is_Rw2 = Some Rw2"
| "raw_of_class Is_Orf = Some Orf"
| "raw_of_class Is_Other = None"

section \<open>Options\<close>

datatype png_compression = Fast | Default_Compression | Best
datatype png_filter = NoFilter | Sub | Up | Avg | Paeth | Adaptive

text \<open>The codecs' \<open>'p\<close> presets and \<open>'h\<close> chroma samplings.\<close>

datatype ('p, 'h) encode_options = Bmp_Options | Gif_Options | Jpeg_Options nat
  | Png_Options png_compression png_filter | Tiff_Options | Avif_Options nat nat "nat option"
  | Heif_Options nat 'p 'h | WebP_Options nat nat nat bool bool

fun options_format :: "('p, 'h) encode_options \<Rightarrow> image_format" where
  "options_format Bmp_Options = Bmp"
| "options_format Gif_Options = Gif"
| "options_format (Jpeg_Options _) = Jpeg"
| "options_format (Png_Options _ _) = Png"
| "options_format Tiff_Options = Tiff"
| "options_format (Avif_Options _ _ _) = Avif"
| "options_format (Heif_Options _ _ _) = Heif"
| "options_format (WebP_Options _ _ _ _ _) = WebP"

fun default_for :: "'p \<Rightarrow> 'h \<Rightarrow> image_format \<Rightarrow> ('p, 'h) encode_options" where
  "default_for medium yuv420 Bmp = Bmp_Options"
| "default_for medium yuv420 Gif = Gif_Options"
| "default_for medium yuv420 Jpeg = Jpeg_Options 75"
| "default_for medium yuv420 Png = Png_Options Default_Compression Adaptive"
| "default_for medium yuv420 Tiff = Tiff_Options"
| "default_for medium yuv420 Avif = Avif_Options 60 6 None"
| "default_for medium yuv420 Heif = Heif_Options 50 medium yuv420"
| "default_for medium yuv420 WebP = WebP_Options 75 100 4 False False"

datatype 'e image_error = Codec_Failed 'e | Image_Io io_error | Not_Raw | Unknown_Extension | Unrecognized_Format
  | Format_Mismatch image_format image_format

definition resolve_options ::
    "'p \<Rightarrow> 'h \<Rightarrow> image_format \<Rightarrow> ('p, 'h) encode_options option \<Rightarrow> 'e image_error + ('p, 'h) encode_options" where
  "resolve_options medium yuv420 format options =
    (let options = (case options of Some given \<Rightarrow> given | None \<Rightarrow> default_for medium yuv420 format) in
     if options_format options = format then Inr options
     else Inl (Format_Mismatch format (options_format options)))"

section \<open>Colour types\<close>

text \<open>The variants of \<open>DynamicImage\<close>, and one of a later release, with or without alpha.\<close>

datatype color = Luma8 | LumaA8 | Rgb8 | Rgba8 | Luma16 | LumaA16 | Rgb16 | Rgba16 | Rgb32F | Rgba32F
  | Later_Color bool

fun has_alpha :: "color \<Rightarrow> bool" where
  "has_alpha LumaA8 = True"
| "has_alpha Rgba8 = True"
| "has_alpha LumaA16 = True"
| "has_alpha Rgba16 = True"
| "has_alpha Rgba32F = True"
| "has_alpha (Later_Color alpha) = alpha"
| "has_alpha _ = False"

definition compatible_color :: "image_format \<Rightarrow> color \<Rightarrow> color option" where
  "compatible_color format c =
    (case format of
       Bmp \<Rightarrow> None
     | Jpeg \<Rightarrow> None
     | Tiff \<Rightarrow> (case c of LumaA8 \<Rightarrow> Some Rgba8 | LumaA16 \<Rightarrow> Some Rgba16 | _ \<Rightarrow> None)
     | Gif \<Rightarrow> (case c of Rgb8 \<Rightarrow> None | Rgba8 \<Rightarrow> None | other \<Rightarrow> Some (if has_alpha other then Rgba8 else Rgb8))
     | WebP \<Rightarrow> (case c of
         Luma8 \<Rightarrow> None | LumaA8 \<Rightarrow> None | Rgb8 \<Rightarrow> None | Rgba8 \<Rightarrow> None
       | Luma16 \<Rightarrow> Some Luma8 | LumaA16 \<Rightarrow> Some LumaA8 | Rgb16 \<Rightarrow> Some Rgb8 | Rgb32F \<Rightarrow> Some Rgb8
       | Rgba16 \<Rightarrow> Some Rgba8 | Rgba32F \<Rightarrow> Some Rgba8
       | other \<Rightarrow> Some (if has_alpha other then Rgba8 else Rgb8))
     | _ \<Rightarrow> (case c of Rgb32F \<Rightarrow> Some Rgb16 | Rgba32F \<Rightarrow> Some Rgba16 | _ \<Rightarrow> None))"

text \<open>\<open>DynamicImage\<close>: its colour type, and its conversions.\<close>

record 'i image_calls =
  im_color :: "'i \<Rightarrow> color"
  im_to :: "color \<Rightarrow> 'i \<Rightarrow> 'i"

definition make_compatible :: "'i image_calls \<Rightarrow> 'i \<Rightarrow> image_format \<Rightarrow> 'i option" where
  "make_compatible ic img format =
    map_option (\<lambda>c. im_to ic c img) (compatible_color format (im_color ic img))"

section \<open>Encoding\<close>

text \<open>The encoders, over a writer \<open>'w\<close>; the three that seek encode into a buffer of their own.\<close>

record ('i, 'p, 'h, 'w, 'e) encoders =
  en_buffered :: "image_format \<Rightarrow> 'i \<Rightarrow> 'e + bytes"
  en_write_all :: "bytes \<Rightarrow> 'w \<Rightarrow> 'w \<times> (io_error + unit)"
  en_jpeg :: "nat \<Rightarrow> 'i \<Rightarrow> 'w \<Rightarrow> 'w \<times> ('e + unit)"
  en_png :: "png_compression \<Rightarrow> png_filter \<Rightarrow> 'i \<Rightarrow> 'w \<Rightarrow> 'w \<times> ('e + unit)"
  en_avif :: "nat \<Rightarrow> nat \<Rightarrow> nat option \<Rightarrow> 'i \<Rightarrow> 'w \<Rightarrow> 'w \<times> ('e + unit)"
  en_heif :: "nat \<Rightarrow> 'p \<Rightarrow> 'h \<Rightarrow> 'i \<Rightarrow> 'w \<Rightarrow> 'w \<times> ('e + unit)"
  en_webp :: "nat \<Rightarrow> nat \<Rightarrow> nat \<Rightarrow> bool \<Rightarrow> bool \<Rightarrow> 'i \<Rightarrow> 'w \<Rightarrow> 'w \<times> ('e + unit)"

definition codec_step :: "'w \<times> ('e + 'a) \<Rightarrow> 'w \<times> ('e image_error + 'a)" where
  "codec_step m = (fst m, map_err Codec_Failed (snd m))"

definition encode_with ::
    "('i, 'p, 'h, 'w, 'e) encoders \<Rightarrow> ('p, 'h) encode_options \<Rightarrow> 'i \<Rightarrow> 'w \<Rightarrow> 'w \<times> ('e image_error + unit)" where
  "encode_with en options img w =
    (case options of
       Jpeg_Options quality \<Rightarrow> codec_step (en_jpeg en quality img w)
     | Png_Options compression flt \<Rightarrow> codec_step (en_png en compression flt img w)
     | Avif_Options quality speed threads \<Rightarrow> codec_step (en_avif en quality speed threads img w)
     | Heif_Options quality preset chroma \<Rightarrow> codec_step (en_heif en quality preset chroma img w)
     | WebP_Options quality quality_alpha compression lossless threads \<Rightarrow>
         codec_step (en_webp en quality quality_alpha compression lossless threads img w)
     | _ \<Rightarrow>
         (case en_buffered en (options_format options) img of
            Inl e \<Rightarrow> (w, Inl (Codec_Failed e))
          | Inr encoded \<Rightarrow> (case en_write_all en encoded w of (w, r) \<Rightarrow> (w, map_err Image_Io r))))"

definition encode_into ::
    "'i image_calls \<Rightarrow> ('i, 'p, 'h, 'w, 'e) encoders \<Rightarrow> 'i \<Rightarrow> ('p, 'h) encode_options \<Rightarrow> 'w
      \<Rightarrow> 'w \<times> ('e image_error + unit)" where
  "encode_into ic en img options w =
    (let img = (case make_compatible ic img (options_format options) of
           Some converted \<Rightarrow> converted | None \<Rightarrow> img) in
     encode_with en options img w)"

definition encode_writer ::
    "'p \<Rightarrow> 'h \<Rightarrow> 'i image_calls \<Rightarrow> ('i, 'p, 'h, 'w, 'e) encoders \<Rightarrow> 'i \<Rightarrow> 'w \<Rightarrow> image_format
      \<Rightarrow> ('p, 'h) encode_options option \<Rightarrow> 'w \<times> ('e image_error + unit)" where
  "encode_writer medium yuv420 ic en img w format options =
    sbind (w, resolve_options medium yuv420 format options) (\<lambda>w options. encode_into ic en img options w)"

text \<open>\<open>create\<close> and \<open>flush\<close> are the file's; the extension and the options are checked before it is created.\<close>

definition encode_file ::
    "'p \<Rightarrow> 'h \<Rightarrow> 'i image_calls \<Rightarrow> ('i, 'p, 'h, 'w, 'e) encoders \<Rightarrow> ('w \<Rightarrow> 'w \<times> (io_error + unit))
      \<Rightarrow> ('w \<Rightarrow> 'w \<times> (io_error + unit)) \<Rightarrow> 'i \<Rightarrow> string \<Rightarrow> ('p, 'h) encode_options option \<Rightarrow> 'w
      \<Rightarrow> 'w \<times> ('e image_error + unit)" where
  "encode_file medium yuv420 ic en create flush img p options w =
    sbind (w, ok_or (format_of_path p) Unknown_Extension) (\<lambda>w format.
    sbind (w, resolve_options medium yuv420 format options) (\<lambda>w options.
    sbind (case create w of (w, r) \<Rightarrow> (w, map_err Image_Io r)) (\<lambda>w _.
    sbind (encode_into ic en img options w) (\<lambda>w _.
    case flush w of (w, r) \<Rightarrow> (w, map_err Image_Io r)))))"

section \<open>Decoding\<close>

datatype decode_format = Image_Format image_format | Raw

definition decode_format_of_path :: "string \<Rightarrow> decode_format option" where
  "decode_format_of_path p =
    (case format_of_path p of
       Some f \<Rightarrow> Some (Image_Format f)
     | None \<Rightarrow> if raw_of_path p \<noteq> None then Some Raw else None)"

definition decode_format_of_magic :: "(bytes \<Rightarrow> raw_class) \<Rightarrow> bytes \<Rightarrow> decode_format option" where
  "decode_format_of_magic classify bs =
    (case format_of_magic bs of
       Some f \<Rightarrow> Some (Image_Format f)
     | None \<Rightarrow> if raw_of_class (classify bs) \<noteq> None then Some Raw else None)"

datatype orientation = No_Transforms | Rotate90 | Rotate180 | Rotate270 | Flip_Horizontal | Flip_Vertical
  | Rotate90_Flip | Rotate270_Flip

text \<open>An \<open>image\<close> crate decoder past the header, with the pixels it would give.\<close>

record ('i, 'ct, 'e) native_decoder =
  nv_dimensions :: "nat \<times> nat"
  nv_orientation :: "'e + orientation"
  nv_color :: 'ct
  nv_icc :: "'e + bytes option"
  nv_pixels :: "'e + 'i"

text \<open>The bit depths of the AVIF and HEIF crates; WebP has none.\<close>

datatype depth = Eight | Ten | Twelve | Later_Depth

record ('i, 'ct, 'e) codecs =
  co_native :: "image_format \<Rightarrow> bytes \<Rightarrow> 'e + ('i, 'ct, 'e) native_decoder"
  co_orient :: "orientation \<Rightarrow> 'i \<Rightarrow> 'i"
  co_decode :: "image_format \<Rightarrow> bytes \<Rightarrow> 'e + 'i"
  co_probe :: "image_format \<Rightarrow> bytes \<Rightarrow> 'e + nat \<times> nat \<times> 'ct \<times> depth"
  co_bits :: "'ct \<Rightarrow> nat"
  co_channels :: "'ct \<Rightarrow> nat"
  co_is_raw :: "bytes \<Rightarrow> bool"
  co_classify :: "bytes \<Rightarrow> raw_class"
  co_develop :: "bytes \<Rightarrow> 'e + 'i"

definition decode_with_format :: "('i, 'ct, 'e) codecs \<Rightarrow> bytes \<Rightarrow> image_format \<Rightarrow> 'e image_error + 'i" where
  "decode_with_format co bs format =
    map_err Codec_Failed
      (if \<not> is_native format then co_decode co format bs
       else rbind (co_native co format bs) (\<lambda>d.
         rbind (nv_orientation d) (\<lambda>o'. rbind (nv_pixels d) (\<lambda>i. Inr (co_orient co o' i)))))"

definition decode_raw :: "('i, 'ct, 'e) codecs \<Rightarrow> bytes \<Rightarrow> 'e image_error + 'i" where
  "decode_raw co bs = (if co_is_raw co bs then map_err Codec_Failed (co_develop co bs) else Inl Not_Raw)"

definition decode_any :: "('i, 'ct, 'e) codecs \<Rightarrow> bytes \<Rightarrow> decode_format \<Rightarrow> 'e image_error + 'i" where
  "decode_any co bs format =
    (case format of Image_Format f \<Rightarrow> decode_with_format co bs f | Raw \<Rightarrow> decode_raw co bs)"

definition decode_bytes :: "('i, 'ct, 'e) codecs \<Rightarrow> bytes \<Rightarrow> 'e image_error + 'i" where
  "decode_bytes co bs =
    rbind (ok_or (decode_format_of_magic (co_classify co) bs) Unrecognized_Format) (decode_any co bs)"

text \<open>\<open>content\<close> is reading the whole file.\<close>

definition decode_file :: "('i, 'ct, 'e) codecs \<Rightarrow> string \<Rightarrow> io_error + bytes \<Rightarrow> 'e image_error + 'i" where
  "decode_file co p content =
    rbind (ok_or (decode_format_of_path p) Unknown_Extension) (\<lambda>format.
    rbind (map_err Image_Io content) (\<lambda>bs. decode_any co bs format))"

section \<open>Probing\<close>

record 'ct image_info =
  ii_format :: image_format
  ii_width :: nat
  ii_height :: nat
  ii_color_type :: 'ct
  ii_bit_depth :: nat
  ii_color_profile :: "code_points option"

fun depth_bits :: "depth \<Rightarrow> nat" where
  "depth_bits Eight = 8"
| "depth_bits Ten = 10"
| "depth_bits Twelve = 12"
| "depth_bits Later_Depth = 8"

definition probe_native :: "('i, 'ct, 'e) codecs \<Rightarrow> bytes \<Rightarrow> image_format \<Rightarrow> 'e image_error + 'ct image_info" where
  "probe_native co bs format =
    map_err Codec_Failed (rbind (co_native co format bs) (\<lambda>d.
      let (width, height) = nv_dimensions d;
          (width, height) = (case nv_orientation d of
             Inr o' \<Rightarrow> if o' \<in> {Rotate90, Rotate270, Rotate90_Flip, Rotate270_Flip} then (height, width) else (width, height)
           | Inl _ \<Rightarrow> (width, height)) in
      Inr \<lparr> ii_format = format, ii_width = width, ii_height = height, ii_color_type = nv_color d,
            ii_bit_depth = co_bits co (nv_color d) div co_channels co (nv_color d),
            ii_color_profile = (case nv_icc d of Inr (Some icc) \<Rightarrow> description icc | _ \<Rightarrow> None) \<rparr>))"

definition probe_codec :: "('i, 'ct, 'e) codecs \<Rightarrow> bytes \<Rightarrow> image_format \<Rightarrow> 'e image_error + 'ct image_info" where
  "probe_codec co bs format =
    (if is_native format then probe_native co bs format
     else map_err Codec_Failed (rbind (co_probe co format bs) (\<lambda>(width, height, ct, depth).
       Inr \<lparr> ii_format = format, ii_width = width, ii_height = height, ii_color_type = ct,
             ii_bit_depth = (if format = WebP then 8 else depth_bits depth), ii_color_profile = None \<rparr>)))"

definition probe_with_format :: "('i, 'ct, 'e) codecs \<Rightarrow> bytes \<Rightarrow> image_format \<Rightarrow> 'e image_error + 'ct image_info" where
  "probe_with_format co bs format =
    rbind (probe_codec co bs format) (\<lambda>info.
    Inr (case color_profile bs format of
      Inr (Some p) \<Rightarrow> info\<lparr>ii_color_profile := Some p\<rparr> | _ \<Rightarrow> info))"

definition format_of_bytes :: "bytes \<Rightarrow> 'e image_error + image_format" where
  "format_of_bytes bs = ok_or (format_of_magic bs) Unrecognized_Format"

definition probe_bytes :: "('i, 'ct, 'e) codecs \<Rightarrow> bytes \<Rightarrow> 'e image_error + 'ct image_info" where
  "probe_bytes co bs =
    rbind (ok_or (format_of_magic bs) Unrecognized_Format) (probe_with_format co bs)"

text \<open>A file: its content, and the errors of opening it, of reading its beginning and of reading on. The limits are
  those of the code, as parameters so that a small file shows every branch.\<close>

record file_reads =
  fr_open :: "io_error option"
  fr_prefix :: "io_error option"
  fr_rest :: "io_error option"
  fr_content :: bytes

definition header_prefix :: nat where
  "header_prefix = 64 * 1024"

definition max_probe_bytes :: nat where
  "max_probe_bytes = 16 * 1024 * 1024"

definition unless :: "io_error option \<Rightarrow> 'a \<Rightarrow> 'e image_error + 'a" where
  "unless e a = (case e of Some e \<Rightarrow> Inl (Image_Io e) | None \<Rightarrow> Inr a)"

definition probe_file_within ::
    "nat \<Rightarrow> nat \<Rightarrow> ('i, 'ct, 'e) codecs \<Rightarrow> string \<Rightarrow> file_reads \<Rightarrow> 'e image_error + 'ct image_info" where
  "probe_file_within header most co p f =
    rbind (ok_or (format_of_path p) Unknown_Extension) (\<lambda>format.
    rbind (unless (fr_open f) ()) (\<lambda>_.
    if is_native format then probe_native co (fr_content f) format
    else
      rbind (unless (fr_prefix f) (take header (fr_content f))) (\<lambda>start.
      let is_whole_file = length start < header;
          longer = unless (fr_rest f) (start @ take (most - length start) (drop header (fr_content f))) in
      case probe_codec co start format of
        Inr info \<Rightarrow>
          (case color_profile start format of
             Inr profile \<Rightarrow> Inr (info\<lparr>ii_color_profile := profile\<rparr>)
           | Inl _ \<Rightarrow>
               if is_whole_file then Inr (info\<lparr>ii_color_profile := None\<rparr>)
               else rbind longer (\<lambda>bs. Inr (info\<lparr>ii_color_profile :=
                 (case color_profile bs format of Inr profile \<Rightarrow> profile | Inl _ \<Rightarrow> None)\<rparr>)))
      | Inl err \<Rightarrow>
          if is_whole_file then Inl err
          else rbind longer (\<lambda>bs. probe_with_format co bs format))))"

definition probe_file :: "('i, 'ct, 'e) codecs \<Rightarrow> string \<Rightarrow> file_reads \<Rightarrow> 'e image_error + 'ct image_info" where
  "probe_file = probe_file_within header_prefix max_probe_bytes"

section \<open>What the encoders accept\<close>

text \<open>The colour types each format's encoder takes, as its documentation lists them; BMP and JPEG convert for
  themselves.\<close>

fun encodable :: "image_format \<Rightarrow> color \<Rightarrow> bool" where
  "encodable Gif c = (c \<in> {Rgb8, Rgba8})"
| "encodable WebP c = (c \<in> {Luma8, LumaA8, Rgb8, Rgba8})"
| "encodable Tiff c = (c \<notin> {LumaA8, LumaA16})"
| "encodable Bmp c = True"
| "encodable Jpeg c = True"
| "encodable _ c = (c \<notin> {Rgb32F, Rgba32F})"

fun color_depth :: "color \<Rightarrow> nat" where
  "color_depth Luma8 = 8"
| "color_depth LumaA8 = 8"
| "color_depth Rgb8 = 8"
| "color_depth Rgba8 = 8"
| "color_depth Luma16 = 16"
| "color_depth LumaA16 = 16"
| "color_depth Rgb16 = 16"
| "color_depth Rgba16 = 16"
| "color_depth _ = 32"

fun deepest :: "image_format \<Rightarrow> nat" where
  "deepest Gif = 8"
| "deepest WebP = 8"
| "deepest Tiff = 32"
| "deepest Bmp = 32"
| "deepest Jpeg = 32"
| "deepest _ = 16"

definition passed_color :: "image_format \<Rightarrow> color \<Rightarrow> color" where
  "passed_color format c = (case compatible_color format c of Some c' \<Rightarrow> c' | None \<Rightarrow> c)"

lemma passed_color_spec:
  "encodable format (passed_color format c)"
  "has_alpha (passed_color format c) = has_alpha c"
  "compatible_color format c = None \<longleftrightarrow> encodable format c"
  "\<nexists>alpha. c = Later_Color alpha \<Longrightarrow> color_depth (passed_color format c) = min (color_depth c) (deepest format)"
  by (cases format; cases c; simp add: passed_color_def compatible_color_def)+

lemma encode_into_passes:
  assumes "\<And>c i. im_color ic (im_to ic c i) = c"
  shows "\<exists>i. encode_into ic en img options w = encode_with en options i w
    \<and> im_color ic i = passed_color (options_format options) (im_color ic img)
    \<and> (if encodable (options_format options) (im_color ic img) then i = img else True)"
  using assms passed_color_spec(3) [of "options_format options" "im_color ic img"]
  by (auto simp: encode_into_def make_compatible_def passed_color_def Let_def split: option.split)

section \<open>Magic bytes and extensions\<close>

lemma prefix_later:
  assumes "length xs \<le> length bs"
  shows "prefix xs (bs @ later) = prefix xs bs"
  using assms by (auto simp: prefix_def append_eq_append_conv2)

lemma take_of: "take n bs = xs \<Longrightarrow> length bs = n \<Longrightarrow> bs = xs"
  by simp

text \<open>The signature found in a beginning of the bytes is the one of the whole. A short beginning can only have found
  a signature that tells itself from the others by its first byte.\<close>

lemma short_magic:
  "prefix [0x89, 0x50, 0x4E, 0x47, 0x0D, 0x0A, 0x1A, 0x0A] bs \<Longrightarrow> format_of_magic (bs @ later) = Some Png"
  "prefix [0xFF, 0xD8, 0xFF] bs \<Longrightarrow> format_of_magic (bs @ later) = Some Jpeg"
  "prefix (of_text ''GIF87a'') bs \<or> prefix (of_text ''GIF89a'') bs \<Longrightarrow> format_of_magic (bs @ later) = Some Gif"
  "prefix (of_text ''BM'') bs \<Longrightarrow> format_of_magic (bs @ later) = Some Bmp"
  "prefix [0x49, 0x49, 0x2A, 0] bs \<or> prefix [0x4D, 0x4D, 0, 0x2A] bs \<Longrightarrow> format_of_magic (bs @ later) = Some Tiff"
  by (elim disjE prefixE; simp add: format_of_magic_def of_text_def)+

lemma magic_longer:
  assumes "format_of_magic bs = Some f"
  shows "format_of_magic (bs @ later) = Some f"
proof (cases "12 \<le> length bs")
  case True
  then have "format_of_magic (bs @ later) = format_of_magic bs"
    by (simp add: format_of_magic_def of_text_def prefix_later)
  with assms show ?thesis
    by simp
next
  case False
  then have "f \<in> {Png, Jpeg, Gif, Bmp, Tiff}" and "f = Png \<Longrightarrow> prefix [0x89, 0x50, 0x4E, 0x47, 0x0D, 0x0A, 0x1A, 0x0A] bs"
    "f = Jpeg \<Longrightarrow> prefix [0xFF, 0xD8, 0xFF] bs"
    "f = Gif \<Longrightarrow> prefix (of_text ''GIF87a'') bs \<or> prefix (of_text ''GIF89a'') bs"
    "f = Bmp \<Longrightarrow> prefix (of_text ''BM'') bs"
    "f = Tiff \<Longrightarrow> prefix [0x49, 0x49, 0x2A, 0] bs \<or> prefix [0x4D, 0x4D, 0, 0x2A] bs"
    using assms unfolding format_of_magic_def by (simp_all split: if_splits)
  then show ?thesis
    using short_magic [of bs later] by blast
qed

lemmas extension_simps = raw_of_extension_def raw_formats_def format_extension_def eq_ignore_ascii_case_def
  ascii_lowercase_def to_ascii_lower_def is_ascii_upper_def

lemma extension_round_trip:
  "format_of_extension (format_extension f) = Some f" "raw_of_extension (format_extension f) = None"
  by (cases f; simp add: format_of_extension_def all_formats_def extension_simps)
    (cases f; simp add: extension_simps)

lemma raw_round_trip:
  "list_all (\<lambda>(r, exts). exts \<noteq> [] \<and> raw_extension r = hd exts
    \<and> list_all (\<lambda>ext. raw_of_extension ext = Some r \<and> format_of_extension ext = None) exts) raw_formats"
  by (simp add: raw_formats_def raw_extension_def format_of_extension_def all_formats_def extension_simps)

section \<open>A probe reads the beginning\<close>

lemma read_on:
  assumes "header \<le> most"
  shows "take header bs @ take (most - length (take header bs)) (drop header bs) = take most bs"
  using assms by (cases "header \<le> length bs") (auto simp: take_add [symmetric])

lemma probe_codec_longer:
  assumes "\<not> is_native format" and "\<And>x. co_probe co format bs = Inr x \<Longrightarrow> co_probe co format bs' = Inr x"
    and "probe_codec co bs format = Inr info"
  shows "probe_codec co bs' format = Inr info \<and> ii_color_profile info = None"
proof -
  from assms(1,3) obtain x where "co_probe co format bs = Inr x"
    by (auto simp: probe_codec_def rbind_Inr map_err_Inr)
  with assms(2) [OF this] assms(1,3) show ?thesis
    by (cases x) (auto simp: probe_codec_def map_err_Inr)
qed

lemma probe_file_reads_enough:
  assumes "format_of_path p = Some format" and "\<not> is_native format"
    and "fr_open f = None" "fr_prefix f = None" "fr_rest f = None" and "header \<le> most"
    and "\<And>x. co_probe co format (take header (fr_content f)) = Inr x
      \<Longrightarrow> co_probe co format (take most (fr_content f)) = Inr x"
    and "\<not> meta_to_end (take header (fr_content f))"
  shows "probe_file_within header most co p f = probe_with_format co (take most (fr_content f)) format"
proof -
  let ?start = "take header (fr_content f)" and ?all = "take most (fr_content f)"
  have grown: "?all = ?start @ take (most - length ?start) (drop header (fr_content f))"
    by (rule read_on [OF assms(6), symmetric])
  have whole: "?all = ?start" if "length ?start < header"
    using that assms(6) by simp
  have probed: "probe_codec co ?all format = Inr info \<and> ii_color_profile info = None"
    if "probe_codec co ?start format = Inr info" for info
    by (rule probe_codec_longer [OF assms(2) assms(7) that])
  have profile: "color_profile ?all format = Inr q" if "color_profile ?start format = Inr q" for q
    using color_profile_longer [OF that] assms(8) unfolding grown by simp
  have probe: "probe_file_within header most co p f =
      (case probe_codec co ?start format of
        Inr info \<Rightarrow>
          (case color_profile ?start format of
             Inr q \<Rightarrow> Inr (info\<lparr>ii_color_profile := q\<rparr>)
           | Inl _ \<Rightarrow>
               if length ?start < header then Inr (info\<lparr>ii_color_profile := None\<rparr>)
               else Inr (info\<lparr>ii_color_profile :=
                 (case color_profile ?all format of Inr q \<Rightarrow> q | Inl _ \<Rightarrow> None)\<rparr>))
      | Inl err \<Rightarrow> if length ?start < header then Inl err else probe_with_format co ?all format)"
    unfolding probe_file_within_def using assms(1-5)
    by (simp add: ok_or_def unless_def Let_def grown [symmetric] del: length_take split: sum.split)
  show ?thesis
  proof (cases "probe_codec co ?start format")
    case (Inl err)
    then show ?thesis
      using whole by (auto simp: probe probe_with_format_def)
  next
    case (Inr info)
    from probed [OF this] have info: "probe_codec co ?all format = Inr info" "ii_color_profile info = None"
      by simp_all
    have plain: "info\<lparr>ii_color_profile := None\<rparr> = info"
      using info(2) by (cases info) simp
    show ?thesis
    proof (cases "color_profile ?start format")
      case (Inr q)
      with profile [OF this] info plain \<open>probe_codec co ?start format = Inr info\<close> show ?thesis
        by (cases q) (auto simp: probe probe_with_format_def)
    next
      case (Inl e)
      with whole info plain \<open>probe_codec co ?start format = Inr info\<close> show ?thesis
        by (cases "length ?start < header") (auto simp: probe probe_with_format_def split: sum.split option.split)
    qed
  qed
qed

section \<open>Properties\<close>

text \<open>C32. Probing a file whose codec takes a slice reads a beginning of it. When codec and profile are read off that,
  the rest is not asked for, so it does not matter whether it could be read; else it is, up to a limit; and what is
  reported is what probing all of the file, up to the limit, reports. The codec must answer the same of a longer
  beginning once it answers, and no \<open>meta\<close> box must run to the end of the file: of one that does, the beginning can
  report no profile where the whole reports one.\<close>

theorem probe_reads_enough:
  assumes "format_of_path p = Some format" and "\<not> is_native format"
    and "fr_open f = None" "fr_prefix f = None" "fr_rest f = None" and "header \<le> most"
    and "\<And>x. co_probe co format (take header (fr_content f)) = Inr x
      \<Longrightarrow> co_probe co format (take most (fr_content f)) = Inr x"
    and "\<not> meta_to_end (take header (fr_content f))"
  shows "probe_file_within header most co p f = probe_with_format co (take most (fr_content f)) format
    \<and> (if is_ok (probe_codec co (take header (fr_content f)) format) \<and> is_ok (color_profile (take header (fr_content f)) format)
       then \<forall>e. probe_file_within header most co p (f\<lparr>fr_rest := e\<rparr>) = probe_file_within header most co p f
       else True)"
proof -
  have "probe_file_within header most co p (f\<lparr>fr_rest := e\<rparr>) = probe_file_within header most co p f"
    if "is_ok (probe_codec co (take header (fr_content f)) format)" "is_ok (color_profile (take header (fr_content f)) format)" for e
    using that assms(1-4) by (auto simp: probe_file_within_def unless_def ok_or_def Let_def is_ok_iff)
  then show ?thesis
    using probe_file_reads_enough [OF assms] by simp
qed

text \<open>A WebP file whose profile is past the beginning that is read first.\<close>

definition small_codecs :: "(unit, color, string) codecs" where
  "small_codecs =
    \<lparr> co_native = (\<lambda>_ _. Inl ''no''), co_orient = (\<lambda>_ i. i), co_decode = (\<lambda>_ _. Inl ''no''),
      co_probe = (\<lambda>_ bs. if length bs < 12 then Inl ''short'' else Inr (4, 3, Rgb8, Eight)),
      co_bits = color_depth, co_channels = (\<lambda>_. 1), co_is_raw = (\<lambda>_. False), co_classify = (\<lambda>_. Is_Other),
      co_develop = (\<lambda>_. Inl ''no'') \<rparr>"

definition small_webp :: file_reads where
  "small_webp =
    \<lparr> fr_open = None, fr_prefix = None, fr_rest = None,
      fr_content = of_text ''RIFF'' @ [0, 0, 0, 0] @ of_text ''WEBP'' @ of_text ''VP8X'' @ [1, 0, 0, 0, 0x20, 0]
        @ of_text ''ICCP'' @ [40, 0, 0, 0] @ replicate 40 0 \<rparr>"

theorem probe_reads_enough_witness:
  "probe_file_within 16 100 small_codecs ''a.webp'' small_webp
    = Inr \<lparr> ii_format = WebP, ii_width = 4, ii_height = 3, ii_color_type = Rgb8, ii_bit_depth = 8,
            ii_color_profile = None \<rparr>
    \<and> color_profile (take 16 (fr_content small_webp)) WebP = Inl Truncated"
proof -
  have "probe_file_within 16 100 small_codecs ''a.webp'' small_webp
      = probe_with_format small_codecs (take 100 (fr_content small_webp)) WebP"
  proof (rule conjunct1 [OF probe_reads_enough])
    show "format_of_path ''a.webp'' = Some WebP"
      by code_simp
    show "\<not> meta_to_end (take 16 (fr_content small_webp))"
      by code_simp
  qed (simp_all add: small_codecs_def small_webp_def of_text_def)
  moreover have "probe_with_format small_codecs (take 100 (fr_content small_webp)) WebP
    = Inr \<lparr> ii_format = WebP, ii_width = 4, ii_height = 3, ii_color_type = Rgb8, ii_bit_depth = 8,
            ii_color_profile = None \<rparr>"
    by code_simp
  moreover have "color_profile (take 16 (fr_content small_webp)) WebP = Inl Truncated"
    by code_simp
  ultimately show ?thesis
    by simp
qed

text \<open>C33. Whatever the image, the encoder gets one of a colour type it takes: the image itself when it is of one, and
  else a conversion that keeps the alpha channel and gives up no more depth than the format forces.\<close>

theorem encoder_takes_what_it_gets:
  assumes "\<And>c i. im_color ic (im_to ic c i) = c"
  shows "\<exists>i. encode_into ic en img options w = encode_with en options i w
    \<and> encodable (options_format options) (im_color ic i)
    \<and> has_alpha (im_color ic i) = has_alpha (im_color ic img)
    \<and> (if encodable (options_format options) (im_color ic img) then i = img else True)
    \<and> (case im_color ic img of Later_Color _ \<Rightarrow> True
       | c \<Rightarrow> color_depth (im_color ic i) = min (color_depth c) (deepest (options_format options)))"
proof -
  from encode_into_passes [OF assms, of en img options w] obtain i where
    i: "encode_into ic en img options w = encode_with en options i w"
      "im_color ic i = passed_color (options_format options) (im_color ic img)"
      "if encodable (options_format options) (im_color ic img) then i = img else True"
    by blast
  note spec = passed_color_spec [where format = "options_format options" and c = "im_color ic img"]
  show ?thesis
  proof (intro exI [of _ i] conjI)
    show "case im_color ic img of Later_Color _ \<Rightarrow> True
       | c \<Rightarrow> color_depth (im_color ic i) = min (color_depth c) (deepest (options_format options))"
      using spec(4) by (cases "im_color ic img") (simp_all add: i(2))
  qed (use i spec in simp_all)
qed

definition small_encoders :: "(color, unit, unit, bytes, string) encoders" where
  "small_encoders =
    \<lparr> en_buffered = (\<lambda>_ i. if i = Rgba16 then Inr [1, 2] else Inl ''unsupported''),
      en_write_all = (\<lambda>bs w. (w @ bs, Inr ())),
      en_jpeg = (\<lambda>_ _ w. (w, Inl ''no'')), en_png = (\<lambda>_ _ _ w. (w, Inl ''no'')),
      en_avif = (\<lambda>_ _ _ _ w. (w, Inl ''no'')), en_heif = (\<lambda>_ _ _ _ w. (w, Inl ''no'')),
      en_webp = (\<lambda>_ _ _ _ _ _ w. (w, Inl ''no'')) \<rparr>"

definition colors_alone :: "color image_calls" where
  "colors_alone = \<lparr> im_color = (\<lambda>c. c), im_to = (\<lambda>c i. c) \<rparr>"

theorem encoder_takes_what_it_gets_witness:
  "encode_into colors_alone small_encoders LumaA16 Tiff_Options [0] = ([0, 1, 2], Inr ())
    \<and> (\<exists>i. encode_into colors_alone small_encoders LumaA16 Tiff_Options [0]
          = encode_with small_encoders Tiff_Options i [0] \<and> encodable Tiff i \<and> has_alpha i \<and> color_depth i = 16)"
proof
  show "encode_into colors_alone small_encoders LumaA16 Tiff_Options [0] = ([0, 1, 2], Inr ())"
    by code_simp
  show "\<exists>i. encode_into colors_alone small_encoders LumaA16 Tiff_Options [0]
      = encode_with small_encoders Tiff_Options i [0] \<and> encodable Tiff i \<and> has_alpha i \<and> color_depth i = 16"
    using encoder_takes_what_it_gets [of colors_alone small_encoders LumaA16 Tiff_Options "[0]"]
    by (auto simp: colors_alone_def)
qed

text \<open>Every format is found again by its extension, whichever case it is written in; every extension of a RAW format
  is its own, canonical or alias, and none of the others'; and a signature found in the first bytes stays
  the one found when more are read.\<close>

theorem formats_are_told_apart:
  "format_of_extension (format_extension f) = Some f \<and> raw_of_extension (format_extension f) = None
    \<and> list_all (\<lambda>(r, exts). list_all (\<lambda>ext. raw_of_extension ext = Some r \<and> format_of_extension ext = None) exts)
        raw_formats
    \<and> (case format_of_magic bs of Some g \<Rightarrow> format_of_magic (bs @ later) = Some g | None \<Rightarrow> True)"
  using raw_round_trip by (auto simp: extension_round_trip list_all_iff magic_longer split: option.split)

end
