(* ===== verification/Spec2Isabelle.thy ===== *)
theory Spec2Isabelle
  imports Prelude Safe_Path Extract_Root Extract Extract_Safety Archives Extract_Content
    Extract_Budget Extract_Links Copy_Move Retry Partial Download Download_Props
    Fetch_Config Fetch Link
    Cache_Store Memory_Store Disk_Store Disk_Props Composite_Store Cache_Props Disk_Refinement Disk_Registry
    Memo_Keys Flight Memo
    Export_Worker Metric_Series Metric_Histogram Trace_Ids Trace_Context Trace
    O11y_Config Otlp Tracing_Layer
    Crypto Hub Install_Folder Install_Unpack Install_Fetch Install_Lock Install Providers Session
    Image_Container Image_Files
begin

text \<open>
  \<^bold>\<open>rust-sak\<close>: a library of utilities for Rust programs. This development models the parts of it
  that hold logic of their own, and proves what makes them correct.

  \<^bold>\<open>Conventions.\<close> A \<open>str\<close> is the list of its UTF-8 bytes, as characters. A fallible function returns a
  sum, \<open>Inl\<close> the error; the question-mark operator is \<open>rbind\<close>, or \<open>sbind\<close> where a state is
  threaded through, errors included. A \<open>u64\<close> that is only added to and compared is a \<open>nat\<close>, with
  the saturating, checked and wrapping operations written out; modes, hashes, ids and counters that wrap are words.
  Crates other than this one are parameters: records of functions, or the values they return. What is relied on
  of them are named hypotheses, and each such hypothesis has a witness with a concrete function. A theorem that is
  a property of the code carries a claim id \<open>C\<close> and a number in the text before it.

  \<^bold>\<open>fs\<close> (\<open>src/fs\<close>). \<open>Safe_Path\<close> holds the errors and the two validators of \<open>safe_path.rs\<close>;
  \<open>Extract_Root\<close> the anchored directory of \<open>extract_root.rs\<close>, over a record of the calls on
  \<open>cap_std::fs::Dir\<close>; \<open>Extract\<close> the options, the budget, the progress reporter and the visits
  of \<open>extract.rs\<close>; \<open>Archives\<close> the three formats and their loops. \<open>Extract_Safety\<close>,
  \<open>Extract_Content\<close> and \<open>Extract_Budget\<close> prove, through a log of the calls on the directory,
  that every call is harmless, that files receive exactly their entry's content, and that the
  ceilings hold; the locales \<open>dir_keeps\<close>, \<open>extract_dir\<close> and \<open>visitor\<close> carry an invariant from
  single calls over visits to whole archives, and are interpreted for each of these. \<open>Extract_Links\<close> brings the two
  checks on symbolic links together, the one on their names and the one through the directory: no link that an
  extraction leaves leads out of the target. \<open>Copy_Move\<close> is copying,
  moving and listing, over a tree of names with hard and symbolic links that may refuse any operation and whose every
  state is logged: what is proved of a transfer holds wherever it stops.

  \<^bold>\<open>fetch\<close> (\<open>src/fetch\<close>). \<open>Retry\<close> is the retry loop with its Fibonacci delays; \<open>Partial\<close> the
  partial file and its sidecar, over a disk that answers each operation as it likes; \<open>Download\<close> a transfer,
  attempt after attempt, and \<open>Download_Props\<close> what it guarantees of the target, the digest and the bytes, against
  a server that is an arbitrary function of the requests. \<open>Fetch_Config\<close> holds the builders of clients and
  requests, \<open>Fetch\<close> the requests themselves and the handle of a download, \<open>Link\<close> the metadata of a
  response and its \<open>Link\<close> headers.

  \<^bold>\<open>memo\<close> (\<open>src/memo\<close>). \<open>Cache_Store\<close> states the contract of a store as the locale \<open>store\<close>:
  a client is a history of operations, and the contract says which values a read may give. \<open>Memory_Store\<close>,
  \<open>Disk_Store\<close> with \<open>Disk_Props\<close>, and \<open>Composite_Store\<close> are the tiers, each an interpretation of it;
  \<open>Cache_Props\<close> has their properties, and \<open>Disk_Refinement\<close> shows that the disk tier refines a map from keys to
  values with deadlines, operation by operation.
  \<open>Disk_Registry\<close> (which stores a process has open) and \<open>Flight\<close> (computations in flight) are step
  relations with invariants by rule induction, one step for each lock taken, so that the drop of the guard of a
  computation, which takes two, is two steps; \<open>Memo_Keys\<close> frames values and builds
  keys, and \<open>Memo\<close> composes store, flight and computation.

  \<^bold>\<open>o11y\<close> (\<open>src/o11y\<close>). \<open>Export_Worker\<close> is the queues, the export thread and the gate as a step
  relation; \<open>Metric_Series\<close> and \<open>Metric_Histogram\<close> the instruments, refined to multisets of tags and to
  counts per bucket; \<open>Trace_Ids\<close>, \<open>Trace_Context\<close> and \<open>Trace\<close> ids, the \<open>traceparent\<close> header
  and the stack of spans; \<open>Tracing_Layer\<close> the bridge from the \<open>tracing\<close> crate; \<open>O11y_Config\<close> the
  configuration, the enrichment and the starting and stopping; \<open>Otlp\<close> the JSON payloads.

  \<^bold>\<open>crypto\<close> (\<open>src/crypto\<close>). \<open>Crypto\<close>: hashing text, bytes and files, and Git's object ids.

  \<^bold>\<open>ai\<close> (\<open>src/ai\<close>). \<open>Hub\<close> is Hugging Face: folders, listings and their paging. An install is
  modelled bottom up: \<open>Install_Folder\<close> a folder whose every state is logged and the marker in it,
  \<open>Install_Unpack\<close> the unpacking of an archive through the extractor of \<open>fs\<close>, \<open>Install_Fetch\<close> the
  verified download through the downloader of \<open>fetch\<close> and the progress, \<open>Install_Lock\<close> the machine with its
  folder locks, and \<open>Install\<close> the plan and the whole install. The theorems on installs are about the logs, so
  about a process that stops, or is observed, at any moment. \<open>Providers\<close> is the fallback ladder of a request and
  the options of each provider; \<open>Session\<close> the loading of the runtime, one environment for a process, and the
  building of a session down the ladder, each TensorRT build under its lock; the runtime is a parameter over a world
  of its own, and the steps of the process are logged.

  \<^bold>\<open>image\<close> (\<open>src/image\<close>). \<open>Image_Container\<close> is the walk for a colour profile through WebP, AVIF
  and HEIF files and ICC profiles; \<open>Image_Files\<close> the formats, the options, the conversion before an encoder and
  the routing of decode, encode and probe around the codecs, which are parameters.

  \<^bold>\<open>Loops.\<close> Loops over data are structural, or have a measure that is proved to decrease. Those whose end
  depends on the outside carry what it gives: the retry loop counts its retries, and the opening of a disk store the
  attempts of the code; the paging of a listing is a \<open>partial_function (option)\<close>, and \<open>Hub.listing_ends\<close>
  proves that it returns; the drawing of an id is a \<open>while_option\<close>, and \<open>Trace_Ids.drawn_ids_are_valid\<close>
  proves that it returns. Fuel is used nowhere but in \<open>Safe_Path.resolve\<close>, which is no code but what an operating
  system does with a path, for any fuel; \<open>Copy_Move\<close> follows at most 40 links, as Linux does. A list of answers
  (of a disk, of a lock) that runs out answers with success.

  \<^bold>\<open>Not modelled\<close>, as it holds little logic of its own or is out of what these models can say. Of \<open>ai\<close>: the
  library search path, the inventory of devices and the install of single files. Of \<open>image\<close>: the codecs, the
  resampling and the rotation, which compute on pixels in floating point. \<open>sysinfo\<close> asks the operating system
  through its C interfaces; \<open>tui\<close> renders to a terminal; \<open>github\<close> is a request of \<open>fetch\<close>; the procedural
  macros (\<open>macros\<close>) generate code. Of \<open>fs\<close>: temporary and user directories and the trash. Of \<open>o11y\<close>: the
  macros, the capture of values, the machine's id and the location lookup. Dropped futures, panics of blocking tasks
  and poisoned locks are not modelled, except where a theory says so.
\<close>

end
